(* ===== verification/Prelude.thy ===== *)
theory Prelude
  imports Main "HOL-Library.Word" "HOL-Library.Multiset"
begin

text \<open>
  Shared vocabulary of the development. C++ code that dereferences a null pointer, runs off
  an array, uses freed memory, falls off the end of a non-void function, aborts or throws does
  not return a value; the model makes each of these a value of type \<open>fault\<close>, and an
  operation that may do so returns \<open>fault + 'a\<close>, written \<open>'a result\<close>. The theory also holds
  decimal printing and reading (printf's %d, atol), the generic list lemmas, and the locale
  of transition systems from which every reachability invariant is derived.
\<close>

named_theorems result_simps \<open>rules that evaluate operations returning a result\<close>

section \<open>Faults and results\<close>

datatype fault =
    Null_Deref
  | Out_Of_Bounds
  | Use_After_Free
  | Uninitialised
  | Missing_Return
  | Assert_Failed
  | Div_By_Zero
  | Diverges
  | Blocked
  | Process_Exit int
  | Uncaught_Exception
  | Undefined

type_synonym 'a result = "fault + 'a"

definition bind_r :: "'a result \<Rightarrow> ('a \<Rightarrow> 'b result) \<Rightarrow> 'b result" where
  "bind_r m f = (case m of Inl e \<Rightarrow> Inl e | Inr x \<Rightarrow> f x)"

definition guard_r :: "fault \<Rightarrow> bool \<Rightarrow> unit result" where
  "guard_r e b = (if b then Inr () else Inl e)"

definition of_option :: "fault \<Rightarrow> 'a option \<Rightarrow> 'a result" where
  "of_option e x = (case x of None \<Rightarrow> Inl e | Some y \<Rightarrow> Inr y)"

lemma bind_r_Inl [simp, result_simps]: "bind_r (Inl e) f = Inl e"
  by (simp add: bind_r_def)

lemma bind_r_Inr [simp, result_simps]: "bind_r (Inr x) f = f x"
  by (simp add: bind_r_def)

lemma bind_r_eq_Inr [simp]: "bind_r m f = Inr y \<longleftrightarrow> (\<exists>x. m = Inr x \<and> f x = Inr y)"
  by (cases m) auto

lemma bind_r_cong [fundef_cong]:
  assumes "m = m'" and "\<And>x. m' = Inr x \<Longrightarrow> f x = g x"
  shows "bind_r m f = bind_r m' g"
  using assms by (cases m') auto

text \<open>For evaluation: the continuation is simplified only once its argument is a value.\<close>

lemma bind_r_weak_cong: "m = m' \<Longrightarrow> bind_r m f = bind_r m' f"
  by simp

lemma bind_r_assoc: "bind_r (bind_r m f) g = bind_r m (\<lambda>x. bind_r (f x) g)"
  by (cases m) auto

lemma guard_r_simps [simp, result_simps]:
  "guard_r e True = Inr ()" "guard_r e False = Inl e"
  by (simp_all add: guard_r_def)

lemma guard_r_eq_Inr [simp]: "guard_r e b = Inr u \<longleftrightarrow> b"
  by (simp add: guard_r_def)

lemma of_option_simps [simp, result_simps]:
  "of_option e None = Inl e" "of_option e (Some x) = Inr x"
  by (simp_all add: of_option_def)

lemma of_option_eq_Inr [simp]: "of_option e x = Inr y \<longleftrightarrow> x = Some y"
  by (cases x) auto

text \<open>
  \<open>ok_r P m\<close>: if \<open>m\<close> returns a value then the value satisfies \<open>P\<close>. The rules follow the structure of
  an operation, one step of the program at a time.
\<close>

named_theorems ok_intros \<open>rules for the values an operation may return\<close>

definition ok_r :: "('a \<Rightarrow> bool) \<Rightarrow> 'a result \<Rightarrow> bool" where
  "ok_r P m = (case m of Inl e \<Rightarrow> True | Inr x \<Rightarrow> P x)"

lemma ok_rD: "ok_r P m \<Longrightarrow> m = Inr x \<Longrightarrow> P x"
  by (simp add: ok_r_def)

lemma ok_rI: "(\<And>x. m = Inr x \<Longrightarrow> P x) \<Longrightarrow> ok_r P m"
  by (cases m) (auto simp: ok_r_def)

lemma ok_Inr [ok_intros]: "P x \<Longrightarrow> ok_r P (Inr x)"
  by (simp add: ok_r_def)

lemma ok_Inl [ok_intros]: "ok_r P (Inl e)"
  by (simp add: ok_r_def)

lemma ok_bind [ok_intros]: "(\<And>x. m = Inr x \<Longrightarrow> ok_r P (f x)) \<Longrightarrow> ok_r P (bind_r m f)"
  by (cases m) (auto simp: ok_r_def)

lemma ok_bind_ok: "ok_r Q m \<Longrightarrow> (\<And>x. Q x \<Longrightarrow> ok_r P (f x)) \<Longrightarrow> ok_r P (bind_r m f)"
  by (cases m) (auto simp: ok_r_def)

lemma ok_if [ok_intros]:
  "(b \<Longrightarrow> ok_r P x) \<Longrightarrow> (\<not> b \<Longrightarrow> ok_r P y) \<Longrightarrow> ok_r P (if b then x else y)"
  by simp

lemma ok_option [ok_intros]:
  "(z = None \<Longrightarrow> ok_r P x) \<Longrightarrow> (\<And>a. z = Some a \<Longrightarrow> ok_r P (f a)) \<Longrightarrow> ok_r P (case z of None \<Rightarrow> x | Some a \<Rightarrow> f a)"
  by (cases z) auto

lemma ok_pair [ok_intros]: "(\<And>a b. z = (a, b) \<Longrightarrow> ok_r P (f a b)) \<Longrightarrow> ok_r P (case z of (a, b) \<Rightarrow> f a b)"
  by (cases z) auto

lemma ok_mono: "ok_r P m \<Longrightarrow> (\<And>x. P x \<Longrightarrow> Q x) \<Longrightarrow> ok_r Q m"
  by (cases m) (auto simp: ok_r_def)

text \<open>Recursion through a case distinction, for loops that may not end.\<close>

lemma case_option_mono [partial_function_mono]:
  assumes "monotone orda ordb F" and "\<And>y. monotone orda ordb (G y)"
  shows "monotone orda ordb (\<lambda>f. case x of None \<Rightarrow> F f | Some y \<Rightarrow> G y f)"
  using assms by (cases x) auto

lemma case_sum_mono [partial_function_mono]:
  assumes "\<And>y. monotone orda ordb (F y)" and "\<And>y. monotone orda ordb (G y)"
  shows "monotone orda ordb (\<lambda>f. case x of Inl y \<Rightarrow> F y f | Inr y \<Rightarrow> G y f)"
  using assms by (cases x) auto

section \<open>Decimal numbers\<close>

definition digit_char :: "nat \<Rightarrow> char" where
  "digit_char d = char_of (48 + d)"

fun show_nat :: "nat \<Rightarrow> string" where
  "show_nat n = (if n < 10 then [digit_char n] else show_nat (n div 10) @ [digit_char (n mod 10)])"

declare show_nat.simps [simp del]

text \<open>printf's \<open>%d\<close>, \<open>%ld\<close> and the stream insertion of an integer.\<close>

definition show_int :: "int \<Rightarrow> string" where
  "show_int i = (if i < 0 then CHR ''-'' # show_nat (nat (- i)) else show_nat (nat i))"

text \<open>printf's \<open>%0wd\<close> for a width \<open>w\<close>: zeros fill the field after the sign.\<close>

definition show_pad :: "nat \<Rightarrow> int \<Rightarrow> string" where
  "show_pad w i =
     (if i < 0
      then CHR ''-'' # replicate (w - 1 - length (show_nat (nat (- i)))) (CHR ''0'') @ show_nat (nat (- i))
      else replicate (w - length (show_nat (nat i))) (CHR ''0'') @ show_nat (nat i))"

definition is_digit :: "char \<Rightarrow> bool" where
  "is_digit c \<longleftrightarrow> 48 \<le> (of_char c :: nat) \<and> (of_char c :: nat) \<le> 57"

definition digit_val :: "char \<Rightarrow> nat" where
  "digit_val c = of_char c - 48"

fun read_digits :: "nat \<Rightarrow> string \<Rightarrow> nat" where
  "read_digits acc [] = acc"
| "read_digits acc (c # cs) = (if is_digit c then read_digits (10 * acc + digit_val c) cs else acc)"

definition is_space :: "char \<Rightarrow> bool" where
  "is_space c \<longleftrightarrow> (of_char c :: nat) = 32 \<or> (9 \<le> (of_char c :: nat) \<and> (of_char c :: nat) \<le> 13)"

text \<open>
  \<open>atol\<close>: white space, an optional sign, then digits up to the first other character.
  The value is saturated to the range of a 64 bit \<open>long\<close>, as glibc's strtol does.
\<close>

definition LONG_MAX :: int where
  "LONG_MAX = 9223372036854775807"

definition clamp_long :: "int \<Rightarrow> int" where
  "clamp_long i = max (- LONG_MAX - 1) (min LONG_MAX i)"

definition atol :: "string \<Rightarrow> int" where
  "atol s = (case dropWhile is_space s of
      [] \<Rightarrow> 0
    | c # cs \<Rightarrow> clamp_long
        (if c = CHR ''-'' then - int (read_digits 0 cs)
         else if c = CHR ''+'' then int (read_digits 0 cs)
         else int (read_digits 0 (c # cs))))"

text \<open>\<open>atoi\<close> is \<open>(int) strtol(s)\<close>: the low 32 bits, read as a signed value.\<close>

definition wrap_int32 :: "int \<Rightarrow> int" where
  "wrap_int32 i = (i + 2147483648) mod 4294967296 - 2147483648"

definition atoi :: "string \<Rightarrow> int" where
  "atoi s = wrap_int32 (atol s)"

lemma of_char_digit [simp]: "d < 10 \<Longrightarrow> of_char (digit_char d) = 48 + d"
  by (simp add: digit_char_def)

lemma is_digit_digit_char [simp]: "d < 10 \<Longrightarrow> is_digit (digit_char d)"
  by (simp add: is_digit_def)

lemma digit_val_digit_char [simp]: "d < 10 \<Longrightarrow> digit_val (digit_char d) = d"
  by (simp add: digit_val_def)

lemma read_digits_append:
  "(\<forall>c \<in> set xs. is_digit c) \<Longrightarrow> read_digits acc (xs @ ys) = read_digits (read_digits acc xs) ys"
  by (induction xs arbitrary: acc) auto

lemma show_nat_digits: "\<forall>c \<in> set (show_nat n). is_digit c"
proof (induction n rule: show_nat.induct)
  case (1 n)
  then show ?case
    by (subst show_nat.simps) auto
qed

lemma show_nat_not_Nil [simp]: "show_nat n \<noteq> []"
  by (subst show_nat.simps) simp

lemma read_digits_show_nat: "read_digits 0 (show_nat n) = n"
proof (induction n rule: show_nat.induct)
  case (1 n)
  show ?case
  proof (cases "n < 10")
    case True
    then show ?thesis by (subst show_nat.simps) simp
  next
    case False
    with "1.IH" have "read_digits 0 (show_nat (n div 10)) = n div 10" by simp
    with False show ?thesis
      by (subst show_nat.simps) (simp add: read_digits_append [OF show_nat_digits])
  qed
qed

lemma digit_not_space: "is_digit c \<Longrightarrow> \<not> is_space c"
  by (auto simp: is_digit_def is_space_def)

lemma minus_not_space [simp]: "\<not> is_space (CHR ''-'')"
  by (simp add: is_space_def)

lemma digit_not_sign: "is_digit c \<Longrightarrow> c \<noteq> CHR ''-'' \<and> c \<noteq> CHR ''+''"
  by (auto simp: is_digit_def)

lemma atol_show_int:
  assumes "- LONG_MAX - 1 \<le> i" and "i \<le> LONG_MAX"
  shows "atol (show_int i) = i"
proof (cases "i < 0")
  case True
  then show ?thesis
    using assms by (simp add: show_int_def atol_def read_digits_show_nat clamp_long_def)
next
  case False
  obtain c cs where s: "show_nat (nat i) = c # cs"
    by (cases "show_nat (nat i)") auto
  then have d: "is_digit c"
    using show_nat_digits [of "nat i"] by simp
  have "read_digits 0 (c # cs) = nat i"
    using read_digits_show_nat [of "nat i"] by (simp only: s)
  then show ?thesis
    using False assms digit_not_space [OF d] digit_not_sign [OF d]
    by (simp add: show_int_def atol_def s clamp_long_def del: read_digits.simps)
qed

lemma length_show_nat: "n < 10 ^ k \<Longrightarrow> 0 < k \<Longrightarrow> length (show_nat n) \<le> k"
proof (induction n arbitrary: k rule: show_nat.induct)
  case (1 n)
  show ?case
  proof (cases "n < 10")
    case True
    then show ?thesis using "1.prems" by (subst show_nat.simps) simp
  next
    case False
    then obtain j where k: "k = Suc j" "0 < j" using "1.prems" by (cases k; cases "k - 1") auto
    have "n div 10 < 10 ^ j" using "1.prems"(1) k by (simp add: less_mult_imp_div_less mult.commute)
    then have "length (show_nat (n div 10)) \<le> j" using "1.IH" [OF False] k(2) by simp
    then show ?thesis using False k by (subst show_nat.simps) simp
  qed
qed

lemma length_show_pad: "0 \<le> i \<Longrightarrow> i < 10 ^ w \<Longrightarrow> 0 < w \<Longrightarrow> length (show_pad w i) = w"
proof -
  assume "0 \<le> i" "i < 10 ^ w" "0 < w"
  then have "length (show_nat (nat i)) \<le> w" by (intro length_show_nat) (auto simp: nat_less_iff)
  with \<open>0 \<le> i\<close> show ?thesis by (simp add: show_pad_def)
qed

lemma show_nat_inj: "show_nat m = show_nat n \<Longrightarrow> m = n"
  by (metis read_digits_show_nat)

lemma minus_not_digit [simp]: "\<not> is_digit (CHR ''-'')"
  by (simp add: is_digit_def)

lemma show_int_inj: "show_int i = show_int j \<Longrightarrow> i = j"
proof -
  have neg: "CHR ''-'' # xs \<noteq> show_nat n" for xs n
    using show_nat_digits [of n] by (metis list.set_intros(1) minus_not_digit)
  assume "show_int i = show_int j"
  then show "i = j"
    using neg neg [symmetric]
    by (auto simp: show_int_def split: if_splits dest!: show_nat_inj)
qed

section \<open>C integer division and checked array access\<close>

text \<open>C++ division truncates towards zero, and the remainder takes the dividend's sign.\<close>

definition c_div :: "int \<Rightarrow> int \<Rightarrow> int" where
  "c_div a b = sgn a * sgn b * (\<bar>a\<bar> div \<bar>b\<bar>)"

definition c_mod :: "int \<Rightarrow> int \<Rightarrow> int" where
  "c_mod a b = a - b * c_div a b"

lemma c_div_nonneg [simp]: "0 \<le> a \<Longrightarrow> 0 < b \<Longrightarrow> c_div a b = a div b"
  by (cases "a = 0") (auto simp: c_div_def)

lemma c_mod_nonneg [simp]: "0 \<le> a \<Longrightarrow> 0 < b \<Longrightarrow> c_mod a b = a mod b"
  by (simp add: c_mod_def minus_mult_div_eq_mod)

text \<open>Reading and writing \<open>a[i]\<close> for an \<open>int\<close> index: outside the array it is a fault.\<close>

definition arr_rd :: "'a list \<Rightarrow> int \<Rightarrow> 'a result" where
  "arr_rd a i = (if 0 \<le> i \<and> i < int (length a) then Inr (a ! nat i) else Inl Out_Of_Bounds)"

definition arr_wr :: "'a list \<Rightarrow> int \<Rightarrow> 'a \<Rightarrow> 'a list result" where
  "arr_wr a i x = (if 0 \<le> i \<and> i < int (length a) then Inr (a[nat i := x]) else Inl Out_Of_Bounds)"

lemma arr_rd_in [simp]: "0 \<le> i \<Longrightarrow> i < int (length a) \<Longrightarrow> arr_rd a i = Inr (a ! nat i)"
  by (simp add: arr_rd_def)

lemma arr_wr_in [simp]: "0 \<le> i \<Longrightarrow> i < int (length a) \<Longrightarrow> arr_wr a i x = Inr (a[nat i := x])"
  by (simp add: arr_wr_def)

lemma arr_rd_eq_Inr: "arr_rd a i = Inr x \<longleftrightarrow> 0 \<le> i \<and> i < int (length a) \<and> x = a ! nat i"
  by (auto simp: arr_rd_def)

lemma arr_wr_eq_Inr: "arr_wr a i x = Inr a' \<longleftrightarrow> 0 \<le> i \<and> i < int (length a) \<and> a' = a[nat i := x]"
  by (auto simp: arr_wr_def)

lemma arr_rd_append: "int (length p) = i \<Longrightarrow> arr_rd (p @ c # r) i = Inr c"
  by (auto simp: arr_rd_def)

lemma arr_wr_append: "int (length p) = i \<Longrightarrow> arr_wr (p @ c # r) i x = Inr (p @ x # r)"
  by (auto simp: arr_wr_def)

section \<open>Transition systems\<close>

text \<open>
  The reachable states of a component whose threads interleave, and the one induction every
  safety property of such a component uses.
\<close>

inductive reachable :: "('s \<Rightarrow> bool) \<Rightarrow> ('s \<Rightarrow> 's \<Rightarrow> bool) \<Rightarrow> 's \<Rightarrow> bool"
  for init :: "'s \<Rightarrow> bool" and step :: "'s \<Rightarrow> 's \<Rightarrow> bool" where
  start: "init s \<Longrightarrow> reachable init step s"
| next_state: "reachable init step s \<Longrightarrow> step s t \<Longrightarrow> reachable init step t"

locale invariant_system =
  fixes init :: "'s \<Rightarrow> bool"
    and step :: "'s \<Rightarrow> 's \<Rightarrow> bool"
    and invar :: "'s \<Rightarrow> bool"
  assumes invar_init: "init s \<Longrightarrow> invar s"
    and invar_step: "invar s \<Longrightarrow> step s t \<Longrightarrow> invar t"
begin

lemma invar_reachable: "reachable init step s \<Longrightarrow> invar s"
  by (induction rule: reachable.induct) (auto intro: invar_init invar_step)

lemma invar_rtranclp: "step\<^sup>*\<^sup>* s t \<Longrightarrow> invar s \<Longrightarrow> invar t"
  by (induction rule: rtranclp_induct) (auto intro: invar_step)

end

end
