(* ===== verification/Fifo.thy ===== *)
theory Fifo
  imports Prelude
begin

text \<open>
  The contract of a bounded first-in first-out queue, and what a client of it may rely on.
  Three parts provide it: the ring buffer behind the asynchronous log
  (\<open>Block_Queue\<close>), the request list of the thread pool (\<open>Thread_Pool\<close>) and the queue of the
  remote procedure library (\<open>Bounded_Queue\<close>).
\<close>

datatype 'a queue_op = Enq 'a | Deq

text \<open>
  A client's run: the items the queue accepted, the items it delivered, and the final queue.
  A refused item and a delivery from an empty queue leave no entry.
\<close>

fun fifo_run ::
  "('a \<Rightarrow> 'q \<Rightarrow> (bool \<times> 'q) result) \<Rightarrow> ('q \<Rightarrow> ('a \<times> 'q) result) \<Rightarrow> 'q \<Rightarrow> 'a queue_op list
     \<Rightarrow> ('a list \<times> 'a list \<times> 'q) result" where
  "fifo_run enq deq q [] = Inr ([], [], q)"
| "fifo_run enq deq q (Enq x # ops) =
     bind_r (enq x q) (\<lambda>(ok, q1).
     bind_r (fifo_run enq deq q1 ops) (\<lambda>(ins, outs, q2).
       Inr (if ok then x # ins else ins, outs, q2)))"
| "fifo_run enq deq q (Deq # ops) =
     (case deq q of
        Inl e \<Rightarrow> if e = Blocked then fifo_run enq deq q ops else Inl e
      | Inr (x, q1) \<Rightarrow>
          bind_r (fifo_run enq deq q1 ops) (\<lambda>(ins, outs, q2). Inr (ins, x # outs, q2)))"

locale bounded_fifo =
  fixes invar :: "'q \<Rightarrow> bool"
    and contents :: "'q \<Rightarrow> 'a list"
    and capacity :: "'q \<Rightarrow> nat"
    and enq :: "'a \<Rightarrow> 'q \<Rightarrow> (bool \<times> 'q) result"
    and deq :: "'q \<Rightarrow> ('a \<times> 'q) result"
  assumes bounded: "invar q \<Longrightarrow> length (contents q) \<le> capacity q"
    and enq_room: "invar q \<Longrightarrow> length (contents q) < capacity q \<Longrightarrow>
      \<exists>q'. enq x q = Inr (True, q') \<and> invar q' \<and> contents q' = contents q @ [x] \<and> capacity q' = capacity q"
    and enq_full: "invar q \<Longrightarrow> length (contents q) = capacity q \<Longrightarrow>
      \<exists>q'. enq x q = Inr (False, q') \<and> invar q' \<and> contents q' = contents q \<and> capacity q' = capacity q"
    and deq_empty: "invar q \<Longrightarrow> contents q = [] \<Longrightarrow> deq q = Inl Blocked"
    and deq_first: "invar q \<Longrightarrow> contents q = x # xs \<Longrightarrow>
      \<exists>q'. deq q = Inr (x, q') \<and> invar q' \<and> contents q' = xs \<and> capacity q' = capacity q"
begin

lemma enq_total:
  assumes "invar q"
  obtains ok q' where "enq x q = Inr (ok, q')" and "invar q'" and "capacity q' = capacity q"
    and "contents q' = (if ok then contents q @ [x] else contents q)"
    and "ok \<longleftrightarrow> length (contents q) < capacity q"
proof (cases "length (contents q) < capacity q")
  case True
  with enq_room [OF assms True, of x] that show thesis by auto
next
  case False
  with bounded [OF assms] have "length (contents q) = capacity q" by simp
  with enq_full [OF assms this, of x] that show thesis by auto
qed

text \<open>
  Nothing is lost, duplicated or reordered: what was in the queue followed by what it
  accepted is what it delivered followed by what is still in it.
\<close>

lemma fifo_order:
  "invar q \<Longrightarrow> \<exists>ins outs q'. fifo_run enq deq q ops = Inr (ins, outs, q') \<and> invar q' \<and>
     capacity q' = capacity q \<and> contents q @ ins = outs @ contents q'"
proof (induction ops arbitrary: q)
  case Nil
  then show ?case by simp
next
  case (Cons p ops)
  note IH = Cons.IH and inv = Cons.prems
  show ?case
  proof (cases p)
    case (Enq x)
    obtain ok q1 where e: "enq x q = Inr (ok, q1)" "invar q1" "capacity q1 = capacity q"
        "contents q1 = (if ok then contents q @ [x] else contents q)"
      by (rule enq_total [OF inv])
    from IH [OF e(2)] e Enq show ?thesis by (auto split: if_splits)
  next
    case Deq
    show ?thesis
    proof (cases "contents q")
      case Nil
      with Deq have "fifo_run enq deq q (p # ops) = fifo_run enq deq q ops"
        by (simp add: deq_empty [OF inv])
      with IH [OF inv] show ?thesis by simp
    next
      case (Cons x xs)
      obtain q1 where d: "deq q = Inr (x, q1)" "invar q1" "contents q1 = xs" "capacity q1 = capacity q"
        using deq_first [OF inv Cons] by blast
      from IH [OF d(2)] d Cons Deq show ?thesis by auto
    qed
  qed
qed

lemma outs_prefix:
  assumes "invar q" and "contents q = []" and "fifo_run enq deq q ops = Inr (ins, outs, q')"
  shows "ins = outs @ contents q'" and "length (contents q') \<le> capacity q"
  using fifo_order [OF assms(1), of ops] assms(2,3) bounded by fastforce+

end

end
