(* ===== verification/Locker.thy ===== *)
theory Locker
  imports Prelude
begin

text \<open>
  The wrappers of \<open>ocean_http/lock/locker.cpp\<close>: counting semaphore, condition variable and
  mutex, over the POSIX objects they call. A thread is a number. A call that makes its thread
  sleep has no return value yet: \<open>None\<close>, or the fault \<open>Blocked\<close> where a sequential reading of
  the caller cannot go on. A POSIX call is modelled by its documented effect, with its integer
  return code.
\<close>

section \<open>The POSIX objects\<close>

definition SEM_VALUE_MAX :: nat where
  "SEM_VALUE_MAX = 2147483647"

text \<open>\<open>sem_init(s, 0, v)\<close> takes an unsigned value and fails above the maximum.\<close>

definition sem_init :: "nat \<Rightarrow> int \<times> nat" where
  "sem_init v = (if v \<le> SEM_VALUE_MAX then (0, v) else (-1, 0))"

text \<open>
  \<open>sem_wait\<close> decrements a positive semaphore. On a zero semaphore it sleeps, unless a signal
  handler runs (\<open>intr\<close>), when it returns -1 with EINTR and leaves the value as it is.
\<close>

definition sem_wait :: "bool \<Rightarrow> nat \<Rightarrow> (int \<times> nat) option" where
  "sem_wait intr v = (if 0 < v then Some (0, v - 1) else if intr then Some (-1, v) else None)"

definition sem_post :: "nat \<Rightarrow> int \<times> nat" where
  "sem_post v = (if v < SEM_VALUE_MAX then (0, v + 1) else (-1, v))"

section \<open>sem\<close>

record sem =
  m_sem :: nat

definition sem_default :: "sem result" where
  "sem_default = (let (r, v) = sem_init 0 in
     if r \<noteq> 0 then Inl Uncaught_Exception else Inr \<lparr>m_sem = v\<rparr>)"

definition sem_num :: "int \<Rightarrow> sem result" where
  "sem_num num = (let (r, v) = sem_init (nat (num mod 2 ^ 32)) in
     if r \<noteq> 0 then Inl Uncaught_Exception else Inr \<lparr>m_sem = v\<rparr>)"

definition wait :: "bool \<Rightarrow> sem \<Rightarrow> (bool \<times> sem) option" where
  "wait intr s = map_option (\<lambda>(r, v). (r = 0, s\<lparr>m_sem := v\<rparr>)) (sem_wait intr (m_sem s))"

definition post :: "sem \<Rightarrow> bool \<times> sem" where
  "post s = (let (r, v) = sem_post (m_sem s) in (r = 0, s\<lparr>m_sem := v\<rparr>))"

section \<open>cond\<close>

text \<open>The threads asleep on the variable, and those woken that have not run yet.\<close>

record cond =
  sleepers :: "nat list"
  woken :: "nat list"

definition cond_ctor :: cond where
  "cond_ctor = \<lparr>sleepers = [], woken = []\<rparr>"

text \<open>A thread goes to sleep; its \<open>cond::wait\<close> returns when it is among the woken.\<close>

definition cond_sleep :: "nat \<Rightarrow> cond \<Rightarrow> cond" where
  "cond_sleep t c = c\<lparr>sleepers := sleepers c @ [t]\<rparr>"

definition signal :: "cond \<Rightarrow> bool \<times> cond" where
  "signal c = (case sleepers c of
     [] \<Rightarrow> (True, c)
   | t # ts \<Rightarrow> (True, c\<lparr>sleepers := ts, woken := woken c @ [t]\<rparr>))"

definition broadcast :: "cond \<Rightarrow> bool \<times> cond" where
  "broadcast c = (True, c\<lparr>sleepers := [], woken := woken c @ sleepers c\<rparr>)"

section \<open>locker\<close>

record locker =
  owner :: "nat option"

definition locker_ctor :: locker where
  "locker_ctor = \<lparr>owner = None\<rparr>"

text \<open>The mutex is of the default kind: locking it twice from one thread sleeps for ever.\<close>

definition lock :: "nat \<Rightarrow> locker \<Rightarrow> (bool \<times> locker) option" where
  "lock t l = (case owner l of None \<Rightarrow> Some (True, l\<lparr>owner := Some t\<rparr>) | Some _ \<Rightarrow> None)"

text \<open>Unlocking a mutex that the calling thread does not hold is undefined behaviour.\<close>

definition unlock :: "nat \<Rightarrow> locker \<Rightarrow> (bool \<times> locker) result" where
  "unlock t l = (if owner l = Some t then Inr (True, l\<lparr>owner := None\<rparr>) else Inl Undefined)"

text \<open>The two calls as statements: their boolean is never used by the code.\<close>

definition acquire :: "nat \<Rightarrow> locker \<Rightarrow> locker result" where
  "acquire t l = (case lock t l of None \<Rightarrow> Inl Blocked | Some (_, l') \<Rightarrow> Inr l')"

definition release :: "nat \<Rightarrow> locker \<Rightarrow> locker result" where
  "release t l = bind_r (unlock t l) (\<lambda>(_, l'). Inr l')"

section \<open>Laws\<close>

lemma acquire_free [simp, result_simps]:
  "owner l = None \<Longrightarrow> acquire t l = Inr (l\<lparr>owner := Some t\<rparr>)"
  by (simp add: acquire_def lock_def)

lemma acquire_eq_Inr: "acquire t l = Inr l' \<longleftrightarrow> owner l = None \<and> l' = l\<lparr>owner := Some t\<rparr>"
  by (auto simp: acquire_def lock_def split: option.splits)

lemma release_held [simp, result_simps]:
  "owner l = Some t \<Longrightarrow> release t l = Inr (l\<lparr>owner := None\<rparr>)"
  by (simp add: release_def unlock_def)

lemma owner_None_eq [simp]: "owner l = None \<Longrightarrow> l\<lparr>owner := None\<rparr> = l"
  by simp

lemma sem_num_ok: "0 \<le> n \<Longrightarrow> n \<le> int SEM_VALUE_MAX \<Longrightarrow> sem_num n = Inr \<lparr>m_sem = nat n\<rparr>"
  by (simp add: sem_num_def sem_init_def SEM_VALUE_MAX_def)

lemma sem_num_negative: "- int SEM_VALUE_MAX \<le> n \<Longrightarrow> n < 0 \<Longrightarrow> sem_num n = Inl Uncaught_Exception"
proof -
  assume n: "- int SEM_VALUE_MAX \<le> n" "n < 0"
  have "n mod 2 ^ 32 = (n + 2 ^ 32) mod 2 ^ 32" by simp
  also have "\<dots> = n + 2 ^ 32"
    using n by (intro mod_pos_pos_trivial) (auto simp: SEM_VALUE_MAX_def)
  finally show ?thesis
    using n by (simp add: sem_num_def sem_init_def SEM_VALUE_MAX_def)
qed

lemma wait_Some_iff: "wait False s = Some (b, s') \<longleftrightarrow> 0 < m_sem s \<and> b \<and> s' = s\<lparr>m_sem := m_sem s - 1\<rparr>"
  by (auto simp: wait_def sem_wait_def)

lemma post_wait: "m_sem s < SEM_VALUE_MAX \<Longrightarrow> wait intr (snd (post s)) = Some (True, s)"
  by (simp add: wait_def post_def sem_post_def sem_wait_def)

lemma broadcast_wakes_all: "sleepers (snd (broadcast c)) = []"
  "set (woken (snd (broadcast c))) = set (woken c) \<union> set (sleepers c)"
  by (simp_all add: broadcast_def)

end
