(* ===== verification/Sql_Pool.thy ===== *)
theory Sql_Pool
  imports Locker
begin

text \<open>
  The database connection pool of \<open>cgimysql/sql_connection_pool.h\<close> and \<open>.cpp\<close>, with the RAII wrapper.
  A connection handle is a number. The client library is a parameter of \<open>init\<close>: the results of
  \<open>mysql_init\<close> and \<open>mysql_real_connect\<close> for each attempt. \<open>GetConnection\<close> and \<open>ReleaseConnection\<close> are
  composed of the parts between their synchronisation points, so that the same parts are the
  atomic steps of the concurrent system at the end of the theory.
\<close>

section \<open>The pool\<close>

record sql_connection_pool =
  m_MaxConn :: int
  m_CurConn :: int
  m_FreeConn :: int
  sp_lock :: locker
  connList :: "nat list"
  reserve :: sem
  sp_url :: string
  sp_port :: string
  sp_user :: string
  sp_password :: string
  sp_database_name :: string
  sp_close_log :: int

text \<open>The constructor sets the two counters; \<open>m_MaxConn\<close> and \<open>m_close_log\<close> keep what the memory held.\<close>

definition sql_connection_pool_ctor :: "int \<Rightarrow> int \<Rightarrow> sql_connection_pool" where
  "sql_connection_pool_ctor junk1 junk2 = \<lparr>m_MaxConn = junk1, m_CurConn = 0, m_FreeConn = 0,
     sp_lock = locker_ctor, connList = [], reserve = \<lparr>m_sem = 0\<rparr>, sp_url = [], sp_port = [], sp_user = [],
     sp_password = [], sp_database_name = [], sp_close_log = junk2\<rparr>"

text \<open>\<open>reserve.wait()\<close>: the result is not looked at, so an interrupted wait counts as a success.\<close>

definition get_wait :: "bool \<Rightarrow> sql_connection_pool \<Rightarrow> sql_connection_pool result" where
  "get_wait intr p = (case wait intr (reserve p) of None \<Rightarrow> Inl Blocked
     | Some (ok, s) \<Rightarrow> Inr (p\<lparr>reserve := s\<rparr>))"

text \<open>The critical section; \<open>front\<close> and \<open>pop_front\<close> of an empty list are undefined.\<close>

definition get_take :: "nat \<Rightarrow> sql_connection_pool \<Rightarrow> (nat \<times> sql_connection_pool) result" where
  "get_take t p = bind_r (acquire t (sp_lock p)) (\<lambda>l.
     case connList p of [] \<Rightarrow> Inl Undefined
     | con # rest \<Rightarrow>
         let p = p\<lparr>connList := rest, m_FreeConn := m_FreeConn p - 1, m_CurConn := m_CurConn p + 1\<rparr> in
         bind_r (release t l) (\<lambda>l. Inr (con, p\<lparr>sp_lock := l\<rparr>)))"

definition GetConnection :: "bool \<Rightarrow> nat \<Rightarrow> sql_connection_pool \<Rightarrow> (nat option \<times> sql_connection_pool) result" where
  "GetConnection intr t p =
     (if 0 = length (connList p) then Inr (None, p)
      else bind_r (get_wait intr p) (\<lambda>p. bind_r (get_take t p) (\<lambda>(con, p). Inr (Some con, p))))"

definition release_push :: "nat \<Rightarrow> nat \<Rightarrow> sql_connection_pool \<Rightarrow> sql_connection_pool result" where
  "release_push t con p = bind_r (acquire t (sp_lock p)) (\<lambda>l.
     let p = p\<lparr>connList := connList p @ [con], m_FreeConn := m_FreeConn p + 1, m_CurConn := m_CurConn p - 1\<rparr> in
     bind_r (release t l) (\<lambda>l. Inr (p\<lparr>sp_lock := l\<rparr>)))"

definition release_post :: "sql_connection_pool \<Rightarrow> sql_connection_pool" where
  "release_post p = p\<lparr>reserve := snd (post (reserve p))\<rparr>"

definition ReleaseConnection :: "nat \<Rightarrow> nat option \<Rightarrow> sql_connection_pool \<Rightarrow> (bool \<times> sql_connection_pool) result" where
  "ReleaseConnection t conn p = (case conn of None \<Rightarrow> Inr (False, p)
     | Some con \<Rightarrow> bind_r (release_push t con p) (\<lambda>p. Inr (True, release_post p)))"

definition GetFreeConn :: "sql_connection_pool \<Rightarrow> int" where
  "GetFreeConn p = m_FreeConn p"

text \<open>The connections that are closed are returned first. The semaphore keeps its value.\<close>

definition DestroyPool :: "nat \<Rightarrow> sql_connection_pool \<Rightarrow> (nat list \<times> sql_connection_pool) result" where
  "DestroyPool t p = bind_r (acquire t (sp_lock p)) (\<lambda>l.
     let (closed, p) = (if length (connList p) > 0
         then (connList p, p\<lparr>m_CurConn := 0, m_FreeConn := 0, connList := []\<rparr>) else ([], p)) in
     bind_r (release t l) (\<lambda>l. Inr (closed, p\<lparr>sp_lock := l\<rparr>)))"

definition sql_connection_pool_dtor :: "nat \<Rightarrow> sql_connection_pool \<Rightarrow> (nat list \<times> sql_connection_pool) result" where
  "sql_connection_pool_dtor t p = DestroyPool t p"

text \<open>The loop of \<open>init\<close>; each attempt is the result of \<open>mysql_init\<close> and of \<open>mysql_real_connect\<close>.\<close>

fun connect_loop :: "(bool \<times> nat option) list \<Rightarrow> sql_connection_pool \<Rightarrow> sql_connection_pool result" where
  "connect_loop [] p = Inr p"
| "connect_loop ((inited, con) # as) p =
     (if \<not> inited then Inl (Process_Exit 1)
      else case con of None \<Rightarrow> Inl (Process_Exit 1)
        | Some c \<Rightarrow> connect_loop as (p\<lparr>connList := connList p @ [c], m_FreeConn := m_FreeConn p + 1\<rparr>))"

text \<open>Assigning the int \<open>Port\<close> to the string \<open>m_port\<close> stores one character.\<close>

definition init_pool :: "(nat \<Rightarrow> bool \<times> nat option) \<Rightarrow> string \<Rightarrow> string \<Rightarrow> string \<Rightarrow> string \<Rightarrow> int \<Rightarrow> int \<Rightarrow> int
    \<Rightarrow> sql_connection_pool \<Rightarrow> sql_connection_pool result" where
  "init_pool attempt Url User PassWord DataBaseName Port MaxConn close_log p =
     (let p = p\<lparr>sp_url := Url, sp_port := [char_of (nat (Port mod 256))], sp_user := User, sp_password := PassWord,
                sp_database_name := DataBaseName, sp_close_log := close_log\<rparr> in
      bind_r (connect_loop (map attempt [0..<nat MaxConn]) p) (\<lambda>p.
      bind_r (sem_num (m_FreeConn p)) (\<lambda>s.
        Inr (p\<lparr>reserve := s, m_MaxConn := m_FreeConn p\<rparr>))))"

section \<open>connectionRAII\<close>

record connectionRAII =
  connRAII :: "nat option"

text \<open>The first component is what is stored through the pointer argument \<open>SQL\<close>.\<close>

definition connectionRAII_ctor :: "bool \<Rightarrow> nat \<Rightarrow> sql_connection_pool
    \<Rightarrow> (nat option \<times> connectionRAII \<times> sql_connection_pool) result" where
  "connectionRAII_ctor intr t p =
     bind_r (GetConnection intr t p) (\<lambda>(con, p). Inr (con, \<lparr>connRAII = con\<rparr>, p))"

definition connectionRAII_dtor :: "nat \<Rightarrow> connectionRAII \<Rightarrow> sql_connection_pool \<Rightarrow> sql_connection_pool result" where
  "connectionRAII_dtor t r p = bind_r (ReleaseConnection t (connRAII r) p) (\<lambda>(ok, p). Inr p)"

section \<open>One thread\<close>

definition pool_ok :: "sql_connection_pool \<Rightarrow> bool" where
  "pool_ok p \<longleftrightarrow> owner (sp_lock p) = None \<and> m_sem (reserve p) = length (connList p) \<and>
     m_FreeConn p = int (length (connList p)) \<and> length (connList p) \<le> SEM_VALUE_MAX"

lemma connect_loop_all:
  "connect_loop (map (\<lambda>c. (True, Some c)) cs) p =
     Inr (p\<lparr>connList := connList p @ cs, m_FreeConn := m_FreeConn p + int (length cs)\<rparr>)"
  by (induction cs arbitrary: p) (auto simp: algebra_simps)

lemma get_take_Cons:
  assumes "owner (sp_lock p) = None" "connList p = c # cs"
  shows "get_take t p = Inr (c, p\<lparr>connList := cs, m_FreeConn := m_FreeConn p - 1, m_CurConn := m_CurConn p + 1\<rparr>)"
  using assms by (simp add: get_take_def Let_def)

lemma release_push_eq:
  assumes "owner (sp_lock p) = None"
  shows "release_push t c p =
     Inr (p\<lparr>connList := connList p @ [c], m_FreeConn := m_FreeConn p + 1, m_CurConn := m_CurConn p - 1\<rparr>)"
  using assms by (simp add: release_push_def Let_def)

lemma raii_cycle:
  assumes "pool_ok p" "connList p = c # cs"
  shows "\<exists>r p1. connectionRAII_ctor intr t p = Inr (Some c, r, p1) \<and> pool_ok p1 \<and> connList p1 = cs \<and>
     m_CurConn p1 = m_CurConn p + 1 \<and> connectionRAII_dtor t r p1 = Inr (p\<lparr>connList := cs @ [c]\<rparr>)"
proof -
  let ?p1 = "p\<lparr>reserve := \<lparr>m_sem = length cs\<rparr>, connList := cs, m_FreeConn := m_FreeConn p - 1, m_CurConn := m_CurConn p + 1\<rparr>"
  have w: "wait intr (reserve p) = Some (True, \<lparr>m_sem = length cs\<rparr>)"
    using assms by (cases "reserve p") (simp add: pool_ok_def wait_def sem_wait_def)
  have 1: "connectionRAII_ctor intr t p = Inr (Some c, \<lparr>connRAII = Some c\<rparr>, ?p1)"
    using assms w by (simp add: connectionRAII_ctor_def GetConnection_def get_wait_def get_take_Cons pool_ok_def)
  have "post (reserve ?p1) = (True, reserve p)"
    using assms by (cases "reserve p") (auto simp: pool_ok_def post_def sem_post_def)
  then have 2: "connectionRAII_dtor t \<lparr>connRAII = Some c\<rparr> ?p1 = Inr (p\<lparr>connList := cs @ [c]\<rparr>)"
    using assms by (simp add: connectionRAII_dtor_def ReleaseConnection_def release_push_eq release_post_def pool_ok_def)
  show ?thesis using 1 2 assms by (auto simp: pool_ok_def)
qed

text \<open>
  Taking a connection through the RAII wrapper and giving it back restores the pool up to the
  order of its list: the connection at the front is handed out, one unit of the semaphore is
  used while it is held, and afterwards it stands at the back.
\<close>

theorem raii_roundtrip:
  assumes "pool_ok p" "connList p = c # cs"
  shows "\<exists>r p1. connectionRAII_ctor intr t p = Inr (Some c, r, p1) \<and> pool_ok p1 \<and> connList p1 = cs \<and>
     m_CurConn p1 = m_CurConn p + 1 \<and> connectionRAII_dtor t r p1 = Inr (p\<lparr>connList := cs @ [c]\<rparr>)"
  using assms by (rule raii_cycle)

definition sample_pool :: "nat list \<Rightarrow> sql_connection_pool" where
  "sample_pool cs = (sql_connection_pool_ctor 0 0)\<lparr>m_MaxConn := int (length cs), m_FreeConn := int (length cs),
     connList := cs, reserve := \<lparr>m_sem = length cs\<rparr>\<rparr>"

theorem raii_roundtrip_witness:
  "\<exists>r p1. connectionRAII_ctor False 1 (sample_pool [10, 11]) = Inr (Some 10, r, p1) \<and> connList p1 = [11] \<and>
     connectionRAII_dtor 1 r p1 = Inr ((sample_pool [10, 11])\<lparr>connList := [11, 10]\<rparr>)"
proof -
  have "pool_ok (sample_pool [10, 11])" "connList (sample_pool [10, 11]) = [10, 11]"
    by (simp_all add: pool_ok_def sample_pool_def sql_connection_pool_ctor_def locker_ctor_def SEM_VALUE_MAX_def)
  from raii_roundtrip [OF this, of False 1] show ?thesis by auto
qed

lemma init_pool_cases:
  assumes "0 \<le> n" "n \<le> int SEM_VALUE_MAX"
  shows "if \<forall>i < nat n. fst (attempt i) \<and> snd (attempt i) \<noteq> None
     then \<exists>p. init_pool attempt u us pw db port n cl (sql_connection_pool_ctor j1 j2) = Inr p \<and>
        connList p = map (\<lambda>i. the (snd (attempt i))) [0..<nat n] \<and> pool_ok p \<and>
        m_FreeConn p = n \<and> m_MaxConn p = n \<and> m_CurConn p = 0 \<and> m_sem (reserve p) = nat n
     else init_pool attempt u us pw db port n cl (sql_connection_pool_ctor j1 j2) = Inl (Process_Exit 1)"
proof (cases "\<forall>i < nat n. fst (attempt i) \<and> snd (attempt i) \<noteq> None")
  case True
  then have "map attempt [0..<nat n] = map (\<lambda>c. (True, Some c)) (map (\<lambda>i. the (snd (attempt i))) [0..<nat n])"
    by (auto simp: prod_eq_iff)
  then show ?thesis using True assms
    by (simp add: init_pool_def Let_def connect_loop_all sem_num_ok sql_connection_pool_ctor_def locker_ctor_def pool_ok_def
        del: map_map)
next
  case False
  have "connect_loop as p = Inl (Process_Exit 1)" if "\<exists>a \<in> set as. \<not> (fst a \<and> snd a \<noteq> None)" for as p
    using that by (induction as p rule: connect_loop.induct) (auto split: option.splits)
  moreover have "\<exists>a \<in> set (map attempt [0..<nat n]). \<not> (fst a \<and> snd a \<noteq> None)" using False by auto
  ultimately have "init_pool attempt u us pw db port n cl (sql_connection_pool_ctor j1 j2) = Inl (Process_Exit 1)"
    by (simp only: init_pool_def Let_def bind_r_Inl)
  then show ?thesis by (simp only: if_not_P [OF False])
qed

text \<open>
  init opens the asked number of connections or ends the process: when every attempt succeeds,
  the list holds the handles in the order they were opened and all counters and the
  semaphore equal their number; when some attempt fails, the process exits with status 1.
\<close>

theorem init_pool_opens:
  assumes "0 \<le> n" "n \<le> int SEM_VALUE_MAX"
  shows "if \<forall>i < nat n. fst (attempt i) \<and> snd (attempt i) \<noteq> None
     then \<exists>p. init_pool attempt u us pw db port n cl (sql_connection_pool_ctor j1 j2) = Inr p \<and>
        connList p = map (\<lambda>i. the (snd (attempt i))) [0..<nat n] \<and> pool_ok p \<and>
        m_FreeConn p = n \<and> m_MaxConn p = n \<and> m_CurConn p = 0 \<and> m_sem (reserve p) = nat n
     else init_pool attempt u us pw db port n cl (sql_connection_pool_ctor j1 j2) = Inl (Process_Exit 1)"
  using assms by (rule init_pool_cases)

theorem init_pool_opens_witness:
  "\<exists>p. init_pool (\<lambda>i. (True, Some (i + 10))) [] [] [] [] 3306 2 0 (sql_connection_pool_ctor 0 0) = Inr p \<and>
     connList p = [10, 11] \<and> m_sem (reserve p) = 2"
proof -
  have "(0::int) \<le> 2" "2 \<le> int SEM_VALUE_MAX" by (simp_all add: SEM_VALUE_MAX_def)
  from init_pool_opens [OF this, of "\<lambda>i. (True, Some (i + 10))" "[]" "[]" "[]" "[]" 3306 0 0 0]
  show ?thesis by (auto simp: upt_rec)
qed

section \<open>Many threads\<close>

text \<open>
  The pool with the threads inside its operations: \<open>checked\<close> counts those past the test of the list
  size, \<open>reserved\<close> those past the semaphore, \<open>held\<close> lists the connections in use, and \<open>returning\<close>
  counts those that have put a connection back and not yet posted. With \<open>interrupts\<close> a
  signal handler may interrupt a wait.
\<close>

record pool_sys =
  the_pool :: sql_connection_pool
  checked :: nat
  reserved :: nat
  held :: "nat list"
  returning :: nat

inductive pool_step :: "bool \<Rightarrow> pool_sys \<Rightarrow> pool_sys \<Rightarrow> bool" for interrupts :: bool where
  check: "0 \<noteq> length (connList (the_pool s)) \<Longrightarrow> pool_step interrupts s (s\<lparr>checked := checked s + 1\<rparr>)"
| wait: "0 < checked s \<Longrightarrow> get_wait (intr \<and> interrupts) (the_pool s) = Inr p \<Longrightarrow>
    pool_step interrupts s (s\<lparr>the_pool := p, checked := checked s - 1, reserved := reserved s + 1\<rparr>)"
| take: "0 < reserved s \<Longrightarrow> get_take t (the_pool s) = Inr (con, p) \<Longrightarrow>
    pool_step interrupts s (s\<lparr>the_pool := p, reserved := reserved s - 1, held := con # held s\<rparr>)"
| give: "con \<in> set (held s) \<Longrightarrow> release_push t con (the_pool s) = Inr p \<Longrightarrow>
    pool_step interrupts s (s\<lparr>the_pool := p, held := remove1 con (held s), returning := returning s + 1\<rparr>)"
| post: "0 < returning s \<Longrightarrow>
    pool_step interrupts s (s\<lparr>the_pool := release_post (the_pool s), returning := returning s - 1\<rparr>)"

definition pool_start :: "pool_sys \<Rightarrow> bool" where
  "pool_start s \<longleftrightarrow> (\<exists>attempt u us pw db port n cl j1 j2.
     init_pool attempt u us pw db port n cl (sql_connection_pool_ctor j1 j2) = Inr (the_pool s) \<and>
     n \<le> int SEM_VALUE_MAX \<and> distinct (connList (the_pool s)) \<and> checked s = 0 \<and> reserved s = 0 \<and> held s = [] \<and> returning s = 0)"

definition pool_invar :: "pool_sys \<Rightarrow> bool" where
  "pool_invar s \<longleftrightarrow> (let p = the_pool s in
     owner (sp_lock p) = None \<and> distinct (connList p @ held s) \<and>
     length (connList p) = m_sem (reserve p) + reserved s + returning s \<and>
     m_FreeConn p = int (length (connList p)) \<and> m_CurConn p = int (length (held s)) \<and>
     m_FreeConn p + m_CurConn p = m_MaxConn p \<and> m_MaxConn p \<le> int SEM_VALUE_MAX)"

lemma connect_loop_frame:
  "connect_loop as p = Inr p' \<Longrightarrow> sp_lock p' = sp_lock p \<and> m_CurConn p' = m_CurConn p \<and>
     length (connList p') = length (connList p) + length as \<and>
     m_FreeConn p' = m_FreeConn p + int (length as)"
  by (induction as p rule: connect_loop.induct) (auto split: if_splits option.splits)

lemma pool_start_invar: "pool_start s \<Longrightarrow> pool_invar s"
proof -
  assume "pool_start s"
  then obtain attempt u us pw db port n cl j1 j2 where
    i: "init_pool attempt u us pw db port n cl (sql_connection_pool_ctor j1 j2) = Inr (the_pool s)"
    and n: "n \<le> int SEM_VALUE_MAX" and d: "distinct (connList (the_pool s))"
    and z: "checked s = 0" "reserved s = 0" "held s = []" "returning s = 0"
    unfolding pool_start_def by blast
  from i obtain p v where p: "connect_loop (map attempt [0..<nat n]) ((sql_connection_pool_ctor j1 j2)\<lparr>sp_url := u,
        sp_port := [char_of (nat (port mod 256))], sp_user := us, sp_password := pw, sp_database_name := db, sp_close_log := cl\<rparr>) = Inr p"
    "sem_num (m_FreeConn p) = Inr v" "the_pool s = p\<lparr>reserve := v, m_MaxConn := m_FreeConn p\<rparr>"
    by (auto simp: init_pool_def Let_def)
  have l: "sp_lock p = locker_ctor" "m_CurConn p = 0" "length (connList p) = nat n" "m_FreeConn p = int (nat n)"
    using connect_loop_frame [OF p(1)] by (simp_all add: sql_connection_pool_ctor_def)
  then have "m_sem v = nat n" using p(2) n sem_num_ok [of "int (nat n)"] by simp
  then show ?thesis using l p(3) n d z by (simp add: pool_invar_def Let_def locker_ctor_def)
qed

lemma pool_step_invar: "pool_step False s s' \<Longrightarrow> pool_invar s \<Longrightarrow> pool_invar s'"
proof (induction rule: pool_step.induct)
  case (check s)
  then show ?case by (simp add: pool_invar_def)
next
  case (wait s intr p)
  then have "0 < m_sem (reserve (the_pool s))" "p = (the_pool s)\<lparr>reserve := (reserve (the_pool s))\<lparr>m_sem := m_sem (reserve (the_pool s)) - 1\<rparr>\<rparr>"
    by (auto simp: get_wait_def wait_Some_iff split: option.splits)
  then show ?case using wait.prems by (simp add: pool_invar_def Let_def)
next
  case (take s t con p)
  have "owner (sp_lock (the_pool s)) = None" "length (connList (the_pool s)) \<noteq> 0"
    using take by (auto simp: pool_invar_def Let_def)
  then obtain c cs where "connList (the_pool s) = c # cs" "owner (sp_lock (the_pool s)) = None"
    by (cases "connList (the_pool s)") auto
  then show ?case using take get_take_Cons by (auto simp: pool_invar_def Let_def)
next
  case (give con s t p)
  then have p: "p = (the_pool s)\<lparr>connList := connList (the_pool s) @ [con], m_FreeConn := m_FreeConn (the_pool s) + 1,
      m_CurConn := m_CurConn (the_pool s) - 1\<rparr>"
    by (simp add: release_push_eq pool_invar_def Let_def)
  have "int (length (held s) - Suc 0) = int (length (held s)) - 1" using give(1) by (cases "held s") auto
  then show ?case using give(1,3) p by (auto simp: pool_invar_def Let_def length_remove1)
next
  case (post s)
  have "m_sem (reserve (the_pool s)) < SEM_VALUE_MAX" using post by (auto simp: pool_invar_def Let_def)
  then show ?case using post by (auto simp: pool_invar_def Let_def release_post_def post_def sem_post_def)
qed

interpretation conn_pool: invariant_system pool_start "pool_step False" pool_invar
  by unfold_locales (auto intro: pool_start_invar pool_step_invar)


text \<open>A pool of one connection, and the states of two threads that both find the list non-empty.\<close>

definition one_conn :: "nat list \<Rightarrow> nat \<Rightarrow> int \<Rightarrow> int \<Rightarrow> sql_connection_pool" where
  "one_conn cs n free cur = \<lparr>m_MaxConn = 1, m_CurConn = cur, m_FreeConn = free, sp_lock = locker_ctor, connList = cs,
     reserve = \<lparr>m_sem = n\<rparr>, sp_url = [], sp_port = [char_of (234::nat)], sp_user = [], sp_password = [], sp_database_name = [],
     sp_close_log = 0\<rparr>"

definition one_sys :: "nat list \<Rightarrow> nat \<Rightarrow> int \<Rightarrow> int \<Rightarrow> nat \<Rightarrow> nat \<Rightarrow> nat list \<Rightarrow> pool_sys" where
  "one_sys cs n free cur ch re hs =
     \<lparr>the_pool = one_conn cs n free cur, checked = ch, reserved = re, held = hs, returning = 0\<rparr>"

lemma one_sys_start: "pool_start (one_sys [10] 1 1 0 0 0 [])"
  unfolding pool_start_def
proof (intro exI conjI)
  show "init_pool (\<lambda>i. (True, Some (i + 10))) [] [] [] [] 3306 1 0 (sql_connection_pool_ctor 0 0) =
      Inr (the_pool (one_sys [10] 1 1 0 0 0 []))"
    by (simp add: one_sys_def one_conn_def init_pool_def sem_num_ok sql_connection_pool_ctor_def SEM_VALUE_MAX_def)
qed (simp_all add: one_sys_def one_conn_def SEM_VALUE_MAX_def)

lemma one_sys_reachable: "reachable pool_start (pool_step i) (one_sys [10] 1 1 0 0 0 [])"
  using one_sys_start by (rule reachable.start)


text \<open>
  A signal can break the pool: the result of the semaphore's wait is ignored, so a thread whose
  wait is interrupted goes on as if it had a reservation. There is a run in which two threads find
  the one connection in the list, one takes it, and the interrupted other one removes the first
  element of the empty list.
\<close>

theorem interrupted_wait_undefined:
  "\<exists>s. reachable pool_start (pool_step True) s \<and> 0 < reserved s \<and> get_take t (the_pool s) = Inl Undefined"
proof -
  let ?R = "reachable pool_start (pool_step True)"
  have w: "get_wait b (one_conn [10] 1 1 0) = Inr (one_conn [10] 0 1 0)" for b
    by (simp add: get_wait_def one_conn_def wait_def sem_wait_def)
  have wi: "get_wait (True \<and> True) (one_conn [] 0 0 1) = Inr (one_conn [] 0 0 1)"
    by (simp add: get_wait_def one_conn_def wait_def sem_wait_def)
  have tk: "get_take 1 (one_conn [10] 0 1 0) = Inr (10, one_conn [] 0 0 1)"
    by (subst get_take_Cons [where cs = "[]"]) (simp_all add: one_conn_def locker_ctor_def)
  have "?R (one_sys [10] 1 1 0 1 0 [])"
    using reachable.next_state [OF one_sys_reachable pool_step.check, of True] by (simp add: one_sys_def one_conn_def)
  then have r2: "?R (one_sys [10] 1 1 0 2 0 [])"
    by (rule reachable.next_state) (use pool_step.check [of "one_sys [10] 1 1 0 1 0 []" True] in \<open>simp add: one_sys_def one_conn_def numeral_2_eq_2\<close>)
  have r3: "?R (one_sys [10] 0 1 0 1 1 [])"
    by (rule reachable.next_state [OF r2])
      (use pool_step.wait [of "one_sys [10] 1 1 0 2 0 []" False True] w in \<open>simp add: one_sys_def\<close>)
  have r4: "?R (one_sys [] 0 0 1 1 0 [10])"
    by (rule reachable.next_state [OF r3])
      (use pool_step.take [of "one_sys [10] 0 1 0 1 1 []" 1 10 "one_conn [] 0 0 1" True] tk in \<open>simp add: one_sys_def\<close>)
  have r5: "?R (one_sys [] 0 0 1 0 1 [10])"
    by (rule reachable.next_state [OF r4])
      (use pool_step.wait [of "one_sys [] 0 0 1 1 0 [10]" True True] wi in \<open>simp add: one_sys_def\<close>)
  then show ?thesis
    by (intro exI [of _ "one_sys [] 0 0 1 0 1 [10]"]) (simp add: one_sys_def one_conn_def get_take_def locker_ctor_def)
qed

end
