(* ===== verification/CString.thy ===== *)
theory CString
  imports Prelude
begin

text \<open>
  Character buffers and the functions of \<open>string.h\<close>, \<open>strings.h\<close> and \<open>stdio.h\<close> that the sources
  apply to them. A buffer is a list of characters, a pointer into it an index. A function
  whose argument must be a C string reads up to the terminator, and has a fault when the buffer
  ends first; a write outside the buffer is a fault.
\<close>

named_theorems cstr_simps \<open>evaluation rules for C strings in buffers\<close>

definition NUL :: char where
  "NUL = CHR 0x00"

abbreviation CR :: char where "CR \<equiv> CHR 0x0D"
abbreviation LF :: char where "LF \<equiv> CHR 0x0A"
abbreviation TAB :: char where "TAB \<equiv> CHR 0x09"
abbreviation blanks :: string where "blanks \<equiv> [CHR '' '', TAB]"

fun cstr :: "char list \<Rightarrow> string result" where
  "cstr [] = Inl Out_Of_Bounds"
| "cstr (c # cs) = (if c = NUL then Inr [] else bind_r (cstr cs) (\<lambda>s. Inr (c # s)))"

definition cstr_at :: "char list \<Rightarrow> int \<Rightarrow> string result" where
  "cstr_at b i = (if i < 0 then Inl Out_Of_Bounds else cstr (drop (nat i) b))"

definition strlen :: "char list \<Rightarrow> int \<Rightarrow> int result" where
  "strlen b i = bind_r (cstr_at b i) (\<lambda>s. Inr (int (length s)))"

definition find_idx :: "(char \<Rightarrow> bool) \<Rightarrow> string \<Rightarrow> nat option" where
  "find_idx P s = (let k = length (takeWhile (\<lambda>c. \<not> P c) s) in if k < length s then Some k else None)"

definition strpbrk :: "char list \<Rightarrow> int \<Rightarrow> string \<Rightarrow> int option result" where
  "strpbrk b i acc = bind_r (cstr_at b i) (\<lambda>s.
     Inr (map_option (\<lambda>k. i + int k) (find_idx (\<lambda>c. c \<in> set acc) s)))"

definition strspn :: "char list \<Rightarrow> int \<Rightarrow> string \<Rightarrow> int result" where
  "strspn b i acc = bind_r (cstr_at b i) (\<lambda>s. Inr (int (length (takeWhile (\<lambda>c. c \<in> set acc) s))))"

definition strchr :: "char list \<Rightarrow> int \<Rightarrow> char \<Rightarrow> int option result" where
  "strchr b i c = bind_r (cstr_at b i) (\<lambda>s. Inr (map_option (\<lambda>k. i + int k) (find_idx (\<lambda>d. d = c) s)))"

definition strrchr :: "char list \<Rightarrow> int \<Rightarrow> char \<Rightarrow> int option result" where
  "strrchr b i c = bind_r (cstr_at b i) (\<lambda>s.
     Inr (map_option (\<lambda>k. i + int (length s - 1 - k)) (find_idx (\<lambda>d. d = c) (rev s))))"

definition to_lower :: "char \<Rightarrow> char" where
  "to_lower c = (let n = (of_char c :: nat) in if 65 \<le> n \<and> n \<le> 90 then char_of (n + 32) else c)"

text \<open>The tests \<open>strcasecmp(p, lit) == 0\<close> and \<open>strncasecmp(p, lit, n) == 0\<close>.\<close>

definition eq_nocase :: "string \<Rightarrow> string \<Rightarrow> bool" where
  "eq_nocase s lit \<longleftrightarrow> map to_lower s = map to_lower lit"

definition eq_nocase_n :: "nat \<Rightarrow> string \<Rightarrow> string \<Rightarrow> bool" where
  "eq_nocase_n n s lit \<longleftrightarrow> map to_lower (take n s) = map to_lower (take n lit)"

definition strcaseeq :: "char list \<Rightarrow> int \<Rightarrow> string \<Rightarrow> bool result" where
  "strcaseeq b i lit = bind_r (cstr_at b i) (\<lambda>s. Inr (eq_nocase s lit))"

definition strncaseeq :: "char list \<Rightarrow> int \<Rightarrow> string \<Rightarrow> nat \<Rightarrow> bool result" where
  "strncaseeq b i lit n = bind_r (cstr_at b i) (\<lambda>s. Inr (eq_nocase_n n s lit))"

definition write_at :: "char list \<Rightarrow> int \<Rightarrow> char list \<Rightarrow> char list result" where
  "write_at b i cs =
     (if 0 \<le> i \<and> i + int (length cs) \<le> int (length b)
      then Inr (take (nat i) b @ cs @ drop (nat i + length cs) b) else Inl Out_Of_Bounds)"

definition strcpy :: "char list \<Rightarrow> int \<Rightarrow> string \<Rightarrow> char list result" where
  "strcpy b i src = write_at b i (src @ [NUL])"

definition strcat :: "char list \<Rightarrow> int \<Rightarrow> string \<Rightarrow> char list result" where
  "strcat b i src = bind_r (strlen b i) (\<lambda>n. write_at b (i + n) (src @ [NUL]))"

text \<open>\<open>strncpy\<close> copies at most \<open>n\<close> characters and fills the rest of the \<open>n\<close> with zeros.\<close>

definition strncpy :: "char list \<Rightarrow> int \<Rightarrow> string \<Rightarrow> nat \<Rightarrow> char list result" where
  "strncpy b i src n = write_at b i (take n (src @ replicate n NUL))"

text \<open>
  \<open>snprintf(b + i, n, ...)\<close> for the formatted text \<open>s\<close>: at most \<open>n - 1\<close> characters and a
  terminator are stored; the value is the length of the whole text.
\<close>

definition snprintf :: "char list \<Rightarrow> int \<Rightarrow> nat \<Rightarrow> string \<Rightarrow> (int \<times> char list) result" where
  "snprintf b i n s =
     (if n = 0 then Inr (int (length s), b)
      else bind_r (write_at b i (take (n - 1) s @ [NUL])) (\<lambda>b. Inr (int (length s), b)))"

section \<open>Laws\<close>

lemma cstr_append [simp, cstr_simps]: "NUL \<notin> set s \<Longrightarrow> cstr (s @ NUL # r) = Inr s"
  by (induction s) auto

lemma cstr_eq_Inr: "cstr b = Inr s \<longleftrightarrow> (\<exists>r. b = s @ NUL # r) \<and> NUL \<notin> set s"
proof (induction b arbitrary: s)
  case Nil
  then show ?case by simp
next
  case (Cons c cs)
  show ?case
  proof (cases "c = NUL")
    case True
    then show ?thesis by (cases s) auto
  next
    case False
    then show ?thesis using Cons.IH by (cases s) auto
  qed
qed

lemma cstr_total: "NUL \<in> set b \<Longrightarrow> \<exists>s. cstr b = Inr s"
  by (metis cstr_append split_list_first)

lemma cstr_length: "cstr b = Inr s \<Longrightarrow> length s < length b"
  by (auto simp: cstr_eq_Inr)

lemma cstr_atD:
  assumes "cstr_at b i = Inr s"
  shows "0 \<le> i" "i + int (length s) < int (length b)" "NUL \<notin> set s"
    "\<exists>p r. b = p @ s @ NUL # r \<and> int (length p) = i"
proof -
  show i: "0 \<le> i" using assms by (simp add: cstr_at_def split: if_splits)
  then obtain r where r: "drop (nat i) b = s @ NUL # r" "NUL \<notin> set s"
    using assms by (auto simp: cstr_at_def cstr_eq_Inr)
  then have "length (drop (nat i) b) > length s" by simp
  with i show "i + int (length s) < int (length b)" by simp
  show "NUL \<notin> set s" by (fact r(2))
  have "b = take (nat i) b @ s @ NUL # r" by (metis append_take_drop_id r(1))
  moreover have "int (length (take (nat i) b)) = i"
    using i \<open>i + int (length s) < int (length b)\<close> by simp
  ultimately show "\<exists>p r. b = p @ s @ NUL # r \<and> int (length p) = i" by blast
qed

lemma cstr_at_append [simp]:
  "NUL \<notin> set s \<Longrightarrow> int (length p) = i \<Longrightarrow> cstr_at (p @ s @ NUL # r) i = Inr s"
  by (auto simp: cstr_at_def)

lemma find_idx_None: "find_idx P s = None \<longleftrightarrow> (\<forall>c \<in> set s. \<not> P c)"
proof (cases "\<forall>c \<in> set s. \<not> P c")
  case True
  then have "takeWhile (\<lambda>c. \<not> P c) s = s" by (simp add: takeWhile_eq_all_conv)
  then have "find_idx P s = None" unfolding find_idx_def Let_def by (simp only: less_irrefl if_False)
  with True show ?thesis by simp
next
  case False
  then obtain c where "c \<in> set s" "P c" by blast
  then have "takeWhile (\<lambda>c. \<not> P c) s \<noteq> s" by (metis takeWhile_eq_all_conv)
  then have "length (takeWhile (\<lambda>c. \<not> P c) s) \<noteq> length s"
    by (metis take_all_iff order_refl takeWhile_eq_take)
  then have "length (takeWhile (\<lambda>c. \<not> P c) s) < length s"
    using length_takeWhile_le [of "\<lambda>c. \<not> P c" s] by linarith
  with False show ?thesis by (simp add: find_idx_def Let_def)
qed

lemma find_idx_append:
  "\<forall>c \<in> set u. \<not> P c \<Longrightarrow> P d \<Longrightarrow> find_idx P (u @ d # v) = Some (length u)"
  by (simp add: find_idx_def takeWhile_append2 Let_def)

lemma find_idx_Some:
  assumes "find_idx P s = Some k"
  shows "k < length s" "P (s ! k)" "\<forall>c \<in> set (take k s). \<not> P c"
proof -
  have k: "k = length (takeWhile (\<lambda>c. \<not> P c) s)" "k < length s"
    using assms by (auto simp: find_idx_def Let_def split: if_splits)
  then show "k < length s" by simp
  show "P (s ! k)" using k nth_length_takeWhile [of "\<lambda>c. \<not> P c" s] by simp
  have "take k s = takeWhile (\<lambda>c. \<not> P c) s" unfolding k(1) by (rule takeWhile_eq_take [symmetric])
  then show "\<forall>c \<in> set (take k s). \<not> P c" by (auto dest: set_takeWhileD)
qed

lemma write_at_append [simp, cstr_simps]:
  "int (length p) = i \<Longrightarrow> length old = length cs \<Longrightarrow> write_at (p @ old @ r) i cs = Inr (p @ cs @ r)"
  by (auto simp: write_at_def)

lemma write_at_length: "write_at b i cs = Inr b' \<Longrightarrow> length b' = length b"
  by (auto simp: write_at_def min_def split: if_splits)

lemma write_at_ok:
  "0 \<le> i \<Longrightarrow> i + int (length cs) \<le> int (length b) \<Longrightarrow> \<exists>b'. write_at b i cs = Inr b'"
  by (simp add: write_at_def)

lemma write_at_nth:
  assumes "write_at b i cs = Inr b'" and "j < length b"
  shows "b' ! j = (if int j < i \<or> i + int (length cs) \<le> int j then b ! j else cs ! (j - nat i))"
  using assms by (auto simp: write_at_def nth_append min_def split: if_splits)

lemma strcpy_cstr:
  assumes "strcpy b i s = Inr b'" and "NUL \<notin> set s"
  shows "cstr_at b' i = Inr s" "length b' = length b"
proof -
  have "b' = take (nat i) b @ s @ NUL # drop (nat i + length s + 1) b" "0 \<le> i" "i \<le> int (length b)"
    using assms(1) by (auto simp: strcpy_def write_at_def split: if_splits)
  then show "cstr_at b' i = Inr s"
    using assms(2) by (auto simp: cstr_at_def)
  show "length b' = length b" using assms(1) by (auto simp: strcpy_def dest: write_at_length)
qed

lemma snprintf_length: "snprintf b i n s = Inr (k, b') \<Longrightarrow> length b' = length b \<and> k = int (length s)"
  by (auto simp: snprintf_def split: if_splits dest: write_at_length)

section \<open>Reasoning with the strings of a buffer\<close>

lemma cstr_at_suffix:
  assumes "cstr_at b i = Inr (s1 @ s2)"
  shows "cstr_at b (i + int (length s1)) = Inr s2"
proof -
  obtain p r where b: "b = p @ (s1 @ s2) @ NUL # r" and p: "int (length p) = i"
    and n: "NUL \<notin> set (s1 @ s2)" using cstr_atD [OF assms] by blast
  have "b = (p @ s1) @ s2 @ NUL # r" by (simp add: b)
  then show ?thesis using n p by (simp del: append_assoc)
qed

lemma cstr_at_frame:
  assumes "cstr_at b i = Inr s" and "length b' = length b"
    and "\<And>j. nat i \<le> j \<Longrightarrow> j \<le> nat i + length s \<Longrightarrow> b' ! j = b ! j"
  shows "cstr_at b' i = Inr s"
proof -
  have i: "0 \<le> i" "i + int (length s) < int (length b)" using cstr_atD [OF assms(1)] by auto
  obtain r where d: "drop (nat i) b = s @ NUL # r" and n: "NUL \<notin> set s"
    using assms(1) i by (auto simp: cstr_at_def cstr_eq_Inr)
  have "take (Suc (length s)) (drop (nat i) b') = take (Suc (length s)) (drop (nat i) b)"
    using i assms(2,3) by (intro nth_equalityI) auto
  also have "\<dots> = s @ [NUL]" by (simp add: d)
  finally have "drop (nat i) b' = (s @ [NUL]) @ drop (Suc (length s)) (drop (nat i) b')"
    by (metis append_take_drop_id)
  then show ?thesis using i n by (simp add: cstr_at_def)
qed

text \<open>Storing a terminator inside a string cuts it in two.\<close>

lemma cstr_at_cut:
  assumes "cstr_at b i = Inr (s1 @ c # s2)"
  shows "\<exists>b'. arr_wr b (i + int (length s1)) NUL = Inr b' \<and> length b' = length b
     \<and> cstr_at b' i = Inr s1 \<and> cstr_at b' (i + int (length s1) + 1) = Inr s2
     \<and> (\<forall>j. j \<noteq> nat i + length s1 \<longrightarrow> b' ! j = b ! j)"
proof -
  obtain p r where b: "b = p @ (s1 @ c # s2) @ NUL # r" and p: "int (length p) = i"
    and n: "NUL \<notin> set (s1 @ c # s2)" using cstr_atD [OF assms] by blast
  let ?b = "p @ s1 @ NUL # s2 @ NUL # r"
  have w: "arr_wr b (i + int (length s1)) NUL = Inr ?b"
    using arr_wr_append [of "p @ s1" "i + int (length s1)" c "s2 @ NUL # r" NUL] p
    by (simp add: b del: arr_wr_in)
  moreover have "cstr_at ?b i = Inr s1" using n p by simp
  moreover have "cstr_at ?b (i + int (length s1) + 1) = Inr s2"
    using n p cstr_at_append [of s2 "p @ s1 @ [NUL]" "i + int (length s1) + 1" r] by simp
  moreover have "?b ! j = b ! j" if "j \<noteq> nat i + length s1" for j
  proof -
    have "?b = b[nat i + length s1 := NUL]" using p by (auto simp: b list_update_append)
    then show ?thesis using that by (metis nth_list_update_neq)
  qed
  ultimately show ?thesis by (auto simp: b)
qed

lemma cstr_at_nth:
  assumes "cstr_at b i = Inr (c # s)"
  shows "arr_rd b i = Inr c"
proof -
  obtain p r where "b = p @ c # (s @ NUL # r)" and "int (length p) = i"
    using cstr_atD(4) [OF assms] by auto
  then show ?thesis by (simp add: arr_rd_append del: arr_rd_in)
qed

lemma cstr_at_nil:
  assumes "cstr_at b i = Inr []"
  shows "arr_rd b i = Inr NUL"
proof -
  obtain p r where "b = p @ NUL # r" and "int (length p) = i"
    using cstr_atD(4) [OF assms] by auto
  then show ?thesis by (simp add: arr_rd_append del: arr_rd_in)
qed

lemma strpbrk_found:
  assumes "cstr_at b i = Inr (s1 @ c # s2)" "c \<in> set acc" "set s1 \<inter> set acc = {}"
  shows "strpbrk b i acc = Inr (Some (i + int (length s1)))"
proof -
  have "find_idx (\<lambda>x. x \<in> set acc) (s1 @ c # s2) = Some (length s1)"
    using assms(2,3) by (intro find_idx_append) auto
  then show ?thesis by (simp add: strpbrk_def assms(1))
qed

lemma strchr_found:
  assumes "cstr_at b i = Inr (s1 @ c # s2)" "c \<notin> set s1"
  shows "strchr b i c = Inr (Some (i + int (length s1)))"
proof -
  have "find_idx (\<lambda>x. x = c) (s1 @ c # s2) = Some (length s1)"
    using assms(2) by (intro find_idx_append) auto
  then show ?thesis by (simp add: strchr_def assms(1))
qed

lemma strchr_absent: "cstr_at b i = Inr s \<Longrightarrow> c \<notin> set s \<Longrightarrow> strchr b i c = Inr None"
  using find_idx_None [of "\<lambda>x. x = c" s] by (auto simp: strchr_def)

lemma strrchr_found:
  assumes "cstr_at b i = Inr (s1 @ c # s2)" "c \<notin> set s2"
  shows "strrchr b i c = Inr (Some (i + int (length s1)))"
proof -
  have "find_idx (\<lambda>x. x = c) (rev s2 @ c # rev s1) = Some (length (rev s2))"
    using assms(2) by (intro find_idx_append) auto
  then show ?thesis by (simp add: strrchr_def assms(1))
qed

lemma strspn_eq:
  assumes "cstr_at b i = Inr (s1 @ s2)" "set s1 \<subseteq> set acc" "s2 = [] \<or> hd s2 \<notin> set acc"
  shows "strspn b i acc = Inr (int (length s1))"
proof -
  have "takeWhile (\<lambda>c. c \<in> set acc) (s1 @ s2) = s1"
  proof (cases s2)
    case Nil
    then show ?thesis using assms(2) by (auto simp: takeWhile_eq_all_conv)
  next
    case (Cons x xs)
    then show ?thesis using assms(2,3) by (simp add: subset_iff takeWhile_append2)
  qed
  then show ?thesis by (simp add: strspn_def assms(1))
qed

lemma strlen_eq: "cstr_at b i = Inr s \<Longrightarrow> strlen b i = Inr (int (length s))"
  by (simp add: strlen_def)

lemma strcaseeq_eq: "cstr_at b i = Inr s \<Longrightarrow> strcaseeq b i lit = Inr (eq_nocase s lit)"
  by (simp add: strcaseeq_def)

lemma strncaseeq_eq: "cstr_at b i = Inr s \<Longrightarrow> strncaseeq b i lit n = Inr (eq_nocase_n n s lit)"
  by (simp add: strncaseeq_def)

lemma eq_nocase_length: "eq_nocase s t \<Longrightarrow> length s = length t"
  by (metis eq_nocase_def length_map)

text \<open>\<open>strcat\<close> appends to the string and leaves the bytes outside the new tail alone.\<close>

lemma strcat_eq:
  assumes "cstr_at b i = Inr s" "NUL \<notin> set t" "i + int (length s + length t) < int (length b)"
  shows "\<exists>b'. strcat b i t = Inr b' \<and> length b' = length b \<and> cstr_at b' i = Inr (s @ t)
     \<and> (\<forall>j < length b. int j < i + int (length s) \<or> i + int (length s + length t) < int j \<longrightarrow> b' ! j = b ! j)"
proof -
  obtain p r where b: "b = p @ s @ NUL # r" and p: "int (length p) = i" and n: "NUL \<notin> set s"
    using cstr_atD [OF assms(1)] by blast
  have l: "length t \<le> length r" using assms(3) p by (simp add: b)
  let ?b = "p @ (s @ t) @ NUL # drop (length t) r"
  have "write_at ((p @ s) @ (NUL # take (length t) r) @ drop (length t) r) (i + int (length s)) (t @ [NUL])
      = Inr ((p @ s) @ (t @ [NUL]) @ drop (length t) r)"
    using p l by (intro write_at_append) auto
  then have "strcat b i t = Inr ?b" using assms(1) by (simp add: strcat_def strlen_def b)
  moreover have "length ?b = length b" using l by (simp add: b)
  moreover have "cstr_at ?b i = Inr (s @ t)" using n p assms(2) by (intro cstr_at_append) auto
  moreover have "?b ! j = b ! j"
    if "j < length b" "int j < i + int (length s) \<or> i + int (length s + length t) < int j" for j
    using that p l
    by (auto simp: b nth_append nth_Cons split: nat.splits intro!: arg_cong [where f = "\<lambda>n. r ! n"])
  ultimately show ?thesis by blast
qed

text \<open>A string inside a prefix of the buffer does not depend on the rest.\<close>

lemma cstr_at_extend: "cstr_at b i = Inr s \<Longrightarrow> cstr_at (b @ r) i = Inr s"
proof -
  assume "cstr_at b i = Inr s"
  from cstr_atD [OF this] show ?thesis by auto
qed

lemma cstr_at_restrict:
  assumes "cstr_at (p @ r) i = Inr s" "i + int (length s) < int (length p)"
  shows "cstr_at p i = Inr s"
proof -
  obtain q t where b: "p @ r = q @ s @ NUL # t" and q: "int (length q) = i" and n: "NUL \<notin> set s"
    using cstr_atD [OF assms(1)] by blast
  have "p = take (length p) (q @ s @ NUL # t)" by (metis append_eq_conv_conj b)
  also have "\<dots> = q @ s @ NUL # take (length p - length q - length s - 1) t"
    using assms(2) q by (simp add: take_Cons' not_less)
  finally show ?thesis using q n by (metis cstr_at_append)
qed

section \<open>Printed numbers are strings\<close>

lemma show_nat_no_NUL: "NUL \<notin> set (show_nat n)"
proof
  assume "NUL \<in> set (show_nat n)"
  then have "is_digit NUL" using show_nat_digits by auto
  then show False by (simp add: is_digit_def NUL_def)
qed

lemma show_int_no_NUL: "NUL \<notin> set (show_int n)"
  using show_nat_no_NUL by (auto simp: show_int_def NUL_def)

lemma show_pad_no_NUL: "NUL \<notin> set (show_pad w n)"
  using show_nat_no_NUL by (auto simp: show_pad_def NUL_def)

end
