(* ===== verification/Kernel.thy ===== *)
theory Kernel
  imports Prelude
begin

text \<open>
  File descriptors and the epoll interest table, with the descriptor helpers of
  \<open>http/http_conn.cpp\<close> and their copies in the class \<open>utils\<close> of \<open>timer/lst_timer.cpp\<close>. The system
  calls (\<open>fcntl\<close>, \<open>epoll_ctl\<close>, \<open>close\<close>, \<open>send\<close>, \<open>sigaction\<close>, \<open>alarm\<close>) are modelled by their
  documented effect on an explicit kernel state; a call that fails leaves the state unchanged,
  and the sources ignore its result unless a definition says otherwise.
\<close>

unbundle bit_operations_syntax

type_synonym fd = int
type_synonym events = "32 word"

definition EPOLLIN :: events where "EPOLLIN = 1"
definition EPOLLOUT :: events where "EPOLLOUT = 4"
definition EPOLLERR :: events where "EPOLLERR = 8"
definition EPOLLHUP :: events where "EPOLLHUP = 0x10"
definition EPOLLRDHUP :: events where "EPOLLRDHUP = 0x2000"
definition EPOLLONESHOT :: events where "EPOLLONESHOT = 0x40000000"
definition EPOLLET :: events where "EPOLLET = 0x80000000"
definition O_NONBLOCK :: "32 word" where "O_NONBLOCK = 0x800"

lemmas epoll_consts = EPOLLIN_def EPOLLOUT_def EPOLLERR_def EPOLLHUP_def EPOLLRDHUP_def
  EPOLLONESHOT_def EPOLLET_def O_NONBLOCK_def

datatype sighandler = Sig_Default | Sig_Ignore | Sig_Function string

record sigaction =
  sa_handler :: sighandler
  sa_restart :: bool

text \<open>
  \<open>fdflags\<close> holds the status flags of the open descriptors, \<open>interest\<close> the events registered
  with the one epoll instance \<open>epfd\<close>, \<open>sent\<close> the bytes sent on each descriptor.
\<close>

record kernel =
  fdflags :: "fd \<Rightarrow> 32 word option"
  epfd :: fd
  interest :: "fd \<Rightarrow> events option"
  sent :: "fd \<Rightarrow> string"
  sigactions :: "int \<Rightarrow> sigaction option"
  alarm_at :: "int option"

section \<open>System calls\<close>

definition fcntl_getfl :: "fd \<Rightarrow> kernel \<Rightarrow> 32 word" where
  "fcntl_getfl fd k = (case fdflags k fd of None \<Rightarrow> -1 | Some f \<Rightarrow> f)"

definition fcntl_setfl :: "fd \<Rightarrow> 32 word \<Rightarrow> kernel \<Rightarrow> kernel" where
  "fcntl_setfl fd f k =
     (if fdflags k fd = None then k else k\<lparr>fdflags := (fdflags k)(fd \<mapsto> f)\<rparr>)"

definition epoll_add :: "fd \<Rightarrow> fd \<Rightarrow> events \<Rightarrow> kernel \<Rightarrow> kernel" where
  "epoll_add ep fd ev k =
     (if ep = epfd k \<and> fd \<noteq> ep \<and> fdflags k fd \<noteq> None \<and> interest k fd = None
      then k\<lparr>interest := (interest k)(fd \<mapsto> ev)\<rparr> else k)"

definition epoll_mod :: "fd \<Rightarrow> fd \<Rightarrow> events \<Rightarrow> kernel \<Rightarrow> kernel" where
  "epoll_mod ep fd ev k =
     (if ep = epfd k \<and> interest k fd \<noteq> None
      then k\<lparr>interest := (interest k)(fd \<mapsto> ev)\<rparr> else k)"

definition epoll_del :: "fd \<Rightarrow> fd \<Rightarrow> kernel \<Rightarrow> kernel" where
  "epoll_del ep fd k = (if ep = epfd k then k\<lparr>interest := (interest k)(fd := None)\<rparr> else k)"

text \<open>Closing a descriptor also removes it from the interest table.\<close>

definition close :: "fd \<Rightarrow> kernel \<Rightarrow> kernel" where
  "close fd k = k\<lparr>fdflags := (fdflags k)(fd := None), interest := (interest k)(fd := None)\<rparr>"

definition send :: "fd \<Rightarrow> string \<Rightarrow> kernel \<Rightarrow> kernel" where
  "send fd s k =
     (if fdflags k fd = None then k else k\<lparr>sent := (sent k)(fd := sent k fd @ s)\<rparr>)"

section \<open>Descriptor helpers of http\_conn.cpp\<close>

definition setnonblocking :: "fd \<Rightarrow> kernel \<Rightarrow> 32 word \<times> kernel" where
  "setnonblocking fd k =
     (let old_option = fcntl_getfl fd k; new_option = old_option OR O_NONBLOCK
      in (old_option, fcntl_setfl fd new_option k))"

definition addfd :: "fd \<Rightarrow> fd \<Rightarrow> bool \<Rightarrow> int \<Rightarrow> kernel \<Rightarrow> kernel" where
  "addfd epollfd fd one_shot TRIGMode k =
     (let ev = (if 1 = TRIGMode then EPOLLIN OR EPOLLET OR EPOLLRDHUP else EPOLLIN OR EPOLLHUP);
          ev = (if one_shot then ev OR EPOLLONESHOT else ev)
      in snd (setnonblocking fd (epoll_add epollfd fd ev k)))"

definition removefd :: "fd \<Rightarrow> fd \<Rightarrow> kernel \<Rightarrow> kernel" where
  "removefd epollfd fd k = close fd (epoll_del epollfd fd k)"

definition modfd :: "fd \<Rightarrow> fd \<Rightarrow> events \<Rightarrow> int \<Rightarrow> kernel \<Rightarrow> kernel" where
  "modfd epollfd fd ev TRIGMode k =
     epoll_mod epollfd fd
       (if 1 = TRIGMode then ev OR EPOLLET OR EPOLLONESHOT OR EPOLLRDHUP
        else ev OR EPOLLONESHOT OR EPOLLHUP) k"

section \<open>The copies in class utils\<close>

definition utils_setnonblocking :: "fd \<Rightarrow> kernel \<Rightarrow> 32 word \<times> kernel" where
  "utils_setnonblocking fd k =
     (let old_option = fcntl_getfl fd k; new_option = old_option OR O_NONBLOCK
      in (old_option, fcntl_setfl fd new_option k))"

definition utils_addfd :: "fd \<Rightarrow> fd \<Rightarrow> bool \<Rightarrow> int \<Rightarrow> kernel \<Rightarrow> kernel" where
  "utils_addfd epollfd fd one_shot TRIGMode k =
     (let ev = (if 1 = TRIGMode then EPOLLIN OR EPOLLET OR EPOLLRDHUP else EPOLLIN OR EPOLLHUP);
          ev = (if one_shot then ev OR EPOLLONESHOT else ev)
      in snd (utils_setnonblocking fd (epoll_add epollfd fd ev k)))"

text \<open>
  The handler sends the low byte of the signal number down the pipe; the pipe pointer is
  null until \<open>eventListen\<close> has set it.
\<close>

definition sig_handler :: "(fd \<times> fd) option \<Rightarrow> int \<Rightarrow> kernel \<Rightarrow> kernel result" where
  "sig_handler u_pipefd sig k =
     (case u_pipefd of None \<Rightarrow> Inl Null_Deref
      | Some (p0, p1) \<Rightarrow> Inr (send p1 [char_of (nat (sig mod 256))] k))"

text \<open>\<open>sigaction\<close> rejects numbers outside 1 to 64, and SIGKILL (9) and SIGSTOP (19).\<close>

definition addsig :: "int \<Rightarrow> sighandler \<Rightarrow> bool \<Rightarrow> kernel \<Rightarrow> kernel result" where
  "addsig sig handler restart k =
     (if 1 \<le> sig \<and> sig \<le> 64 \<and> sig \<noteq> 9 \<and> sig \<noteq> 19
      then Inr (k\<lparr>sigactions := (sigactions k)(sig \<mapsto> \<lparr>sa_handler = handler, sa_restart = restart\<rparr>)\<rparr>)
      else Inl Assert_Failed)"

definition alarm :: "int \<Rightarrow> int \<Rightarrow> kernel \<Rightarrow> kernel" where
  "alarm now secs k = k\<lparr>alarm_at := (if secs = 0 then None else Some (now + secs))\<rparr>"

definition show_error :: "fd \<Rightarrow> string \<Rightarrow> kernel \<Rightarrow> kernel" where
  "show_error connfd info k = close connfd (send connfd info k)"

section \<open>Laws\<close>

lemma close_simps [simp]:
  "fdflags (close fd k) = (fdflags k)(fd := None)"
  "interest (close fd k) = (interest k)(fd := None)"
  "epfd (close fd k) = epfd k" "sent (close fd k) = sent k"
  by (simp_all add: close_def)

lemma epoll_mod_unregistered: "interest k fd = None \<Longrightarrow> epoll_mod ep fd ev k = k"
  by (simp add: epoll_mod_def)

lemma modfd_unregistered: "interest k fd = None \<Longrightarrow> modfd ep fd ev m k = k"
  by (simp add: modfd_def epoll_mod_unregistered)

lemma removefd_unregisters [simp]:
  "interest (removefd ep fd k) fd = None" "fdflags (removefd ep fd k) fd = None"
  by (simp_all add: removefd_def)

lemma removefd_others [simp]:
  "g \<noteq> fd \<Longrightarrow> interest (removefd ep fd k) g = interest k g"
  "g \<noteq> fd \<Longrightarrow> fdflags (removefd ep fd k) g = fdflags k g"
  by (simp_all add: removefd_def epoll_del_def)

lemma removefd_epfd [simp]: "epfd (removefd ep fd k) = epfd k"
  by (simp add: removefd_def epoll_del_def)

lemma addfd_fresh:
  assumes "ep = epfd k" "fd \<noteq> ep" "fdflags k fd = Some f" "interest k fd = None"
  shows "interest (addfd ep fd os m k) fd =
      Some ((if m = 1 then EPOLLIN OR EPOLLET OR EPOLLRDHUP else EPOLLIN OR EPOLLHUP)
              OR (if os then EPOLLONESHOT else 0))"
    and "fdflags (addfd ep fd os m k) fd = Some (f OR O_NONBLOCK)"
  using assms
  by (auto simp: addfd_def setnonblocking_def epoll_add_def fcntl_setfl_def fcntl_getfl_def Let_def)

lemma addfd_others:
  "g \<noteq> fd \<Longrightarrow> interest (addfd ep fd os m k) g = interest k g"
  "g \<noteq> fd \<Longrightarrow> fdflags (addfd ep fd os m k) g = fdflags k g"
  "epfd (addfd ep fd os m k) = epfd k"
  by (auto simp: addfd_def setnonblocking_def epoll_add_def fcntl_setfl_def fcntl_getfl_def Let_def)

lemma modfd_registered:
  "ep = epfd k \<Longrightarrow> interest k fd \<noteq> None \<Longrightarrow>
   interest (modfd ep fd ev m k) fd =
     Some (if m = 1 then ev OR EPOLLET OR EPOLLONESHOT OR EPOLLRDHUP else ev OR EPOLLONESHOT OR EPOLLHUP)"
  by (auto simp: modfd_def epoll_mod_def)

lemma modfd_frame [simp]:
  "g \<noteq> fd \<Longrightarrow> interest (modfd ep fd ev m k) g = interest k g"
  "fdflags (modfd ep fd ev m k) = fdflags k" "epfd (modfd ep fd ev m k) = epfd k"
  by (auto simp: modfd_def epoll_mod_def)

lemma utils_addfd_eq: "utils_addfd = addfd"
  by (intro ext) (simp add: utils_addfd_def addfd_def utils_setnonblocking_def setnonblocking_def)

end
