(* ===== verification/Http_Conn.thy ===== *)
theory Http_Conn
  imports CString Kernel Locker
begin

text \<open>
  The class \<open>http_conn\<close> of \<open>http/http_conn.h\<close> and \<open>http/http_conn.cpp\<close>: its data, the
  life cycle of a connection (\<open>init\<close>, \<open>close_conn\<close>, \<open>read_once\<close>), the line scanner \<open>parse_line\<close> and
  the three line parsers. A pointer into \<open>m_read_buf\<close> is an index, the null pointer is \<open>None\<close>.
  What is printed to the console is left out, but the string that is printed is read, so a missing
  terminator is a fault. The calls to the log are recorded in order in \<open>log_calls\<close>.
\<close>

section \<open>Data\<close>

datatype METHOD = GET | POST | HEAD | PUT | DELETE | TRACE | OPTIONS | CONNECT | PATH

datatype CHECK_STATE = CHECK_STATE_REQUESTLINE | CHECK_STATE_HEADER | CHECK_STATE_CONTENT

datatype HTTP_CODE = NO_REQUEST | GET_REQUEST | BAD_REQUEST | NO_RESOURCE | FORBIDDEN_REQUEST
  | FILE_REQUEST | INTERNAL_ERROR | CLOSED_CONNECTION

datatype LINE_STATUS = LINE_OK | LINE_BAD | LINE_OPEN

definition FILENAME_LEN :: nat where "FILENAME_LEN = 200"
definition READ_BUFFER_SIZE :: nat where "READ_BUFFER_SIZE = 2048"
definition WRITE_BUFFER_SIZE :: nat where "WRITE_BUFFER_SIZE = 1024"

text \<open>The members of \<open>struct stat\<close> the code reads, and the value of \<open>mmap\<close>.\<close>

record stat =
  st_size :: int
  st_mode :: "32 word"

datatype file_map = No_Map | Map_Failed | Mapped string

datatype iov_base = Iov_Unset | Iov_Write_Buf | Iov_File

record iovec =
  iov_base :: iov_base
  iov_len :: int

record http_conn =
  timer_flag :: int
  improv :: int
  mysql :: "nat option"
  m_state :: int
  m_sokcfd :: fd
  m_address :: string
  m_read_buf :: "char list"
  m_read_idx :: int
  m_checked_idx :: int
  m_start_line :: int
  m_write_buf :: "char list"
  m_write_idx :: int
  m_check_state :: CHECK_STATE
  m_method :: METHOD
  m_real_file :: "char list"
  m_url :: "int option"
  m_version :: "int option"
  m_host :: "int option"
  m_content_length :: int
  m_linger :: bool
  m_file_address :: file_map
  m_file_stat :: stat
  m_iv :: "iovec list"
  m_iv_count :: int
  cgi :: int
  m_string :: "int option"
  bytes_to_send :: int
  bytes_have_send :: int
  doc_root :: string
  m_TRIGMode :: int
  m_close_log :: int
  sql_user :: "char list"
  sql_passwd :: "char list"
  sql_name :: "char list"

text \<open>
  What the connections share: the static members, the map of registered users with its lock,
  the kernel, and the trace of calls to the log.
\<close>

record http_globals =
  kern :: kernel
  m_epollfd :: fd
  m_user_count :: int
  users :: "string \<Rightarrow> string option"
  m_lock :: locker
  log_calls :: "(int \<times> string) list"

text \<open>The macros LOG\_INFO and LOG\_ERROR test the member \<open>m_close_log\<close> of the object they are used in.\<close>

definition log_msg :: "int \<Rightarrow> int \<Rightarrow> string \<Rightarrow> http_globals \<Rightarrow> http_globals" where
  "log_msg level close_log msg g =
     (if 0 = close_log then g\<lparr>log_calls := log_calls g @ [(level, msg)]\<rparr> else g)"

text \<open>A message with one \<open>%s\<close> argument taken from a buffer, which is read only when the log is on.\<close>

definition log_cstr :: "int \<Rightarrow> int \<Rightarrow> string \<Rightarrow> char list \<Rightarrow> int \<Rightarrow> http_globals \<Rightarrow> http_globals result" where
  "log_cstr level close_log pre b i g =
     (if 0 = close_log then bind_r (cstr_at b i) (\<lambda>s. Inr (log_msg level close_log (pre @ s) g)) else Inr g)"

section \<open>Life cycle\<close>

text \<open>The constructor initialises no member: the object holds what the memory held.\<close>

definition http_conn_ctor :: "http_conn \<Rightarrow> http_conn" where
  "http_conn_ctor memory = memory"

definition init_conn :: "http_conn \<Rightarrow> http_conn" where
  "init_conn h = h\<lparr>mysql := None, bytes_to_send := 0, bytes_have_send := 0,
     m_check_state := CHECK_STATE_REQUESTLINE, m_linger := False, m_method := GET,
     m_url := None, m_version := None, m_content_length := 0, m_host := None,
     m_start_line := 0, m_checked_idx := 0, m_read_idx := 0, m_write_idx := 0,
     cgi := 0, m_state := 0, timer_flag := 0, improv := 0,
     m_read_buf := replicate READ_BUFFER_SIZE NUL,
     m_write_buf := replicate WRITE_BUFFER_SIZE NUL,
     m_real_file := replicate FILENAME_LEN NUL\<rparr>"

definition init :: "fd \<Rightarrow> string \<Rightarrow> string \<Rightarrow> int \<Rightarrow> int \<Rightarrow> string \<Rightarrow> string \<Rightarrow> string
    \<Rightarrow> http_conn \<Rightarrow> http_globals \<Rightarrow> (http_conn \<times> http_globals) result" where
  "init sockfd addr root TRIGMode close_log user passwd sqlname h g =
     (let h = h\<lparr>m_sokcfd := sockfd, m_address := addr\<rparr>;
          g = g\<lparr>kern := addfd (m_epollfd g) sockfd True (m_TRIGMode h) (kern g),
                m_user_count := m_user_count g + 1\<rparr>;
          h = h\<lparr>doc_root := root, m_TRIGMode := TRIGMode, m_close_log := close_log\<rparr>
      in bind_r (strcpy (sql_user h) 0 user) (\<lambda>su.
         bind_r (strcpy (sql_passwd h) 0 passwd) (\<lambda>sp.
         bind_r (strcpy (sql_name h) 0 sqlname) (\<lambda>sn.
           Inr (init_conn (h\<lparr>sql_user := su, sql_passwd := sp, sql_name := sn\<rparr>), g)))))"

definition close_conn :: "bool \<Rightarrow> http_conn \<Rightarrow> http_globals \<Rightarrow> http_conn \<times> http_globals" where
  "close_conn real_close h g =
     (if real_close \<and> m_sokcfd h \<noteq> -1
      then (h\<lparr>m_sokcfd := -1\<rparr>,
            g\<lparr>kern := removefd (m_epollfd g) (m_sokcfd h) (kern g), m_user_count := m_user_count g - 1\<rparr>)
      else (h, g))"

text \<open>
  What one \<open>recv\<close> call on the socket may give: some bytes of the stream, the end of the stream, or
  an error. A call never stores more than the size it was given; asked for no bytes it
  returns 0. The network is the list of the outcomes of the successive calls.
\<close>

datatype recv_result = Bytes string | End_Of_Stream | Would_Block | Recv_Error

definition recv :: "recv_result \<Rightarrow> nat \<Rightarrow> int \<times> string" where
  "recv r n = (if n = 0 then (0, []) else case r of
      Bytes s \<Rightarrow> (int (length (take n s)), take n s)
    | End_Of_Stream \<Rightarrow> (0, []) | Would_Block \<Rightarrow> (-1, []) | Recv_Error \<Rightarrow> (-1, []))"

definition recv_into :: "recv_result \<Rightarrow> http_conn \<Rightarrow> (int \<times> http_conn) result" where
  "recv_into r h =
     (let (n, s) = recv r (nat (int READ_BUFFER_SIZE - m_read_idx h)) in
      bind_r (write_at (m_read_buf h) (m_read_idx h) s) (\<lambda>b. Inr (n, h\<lparr>m_read_buf := b\<rparr>)))"

fun read_loop :: "recv_result list \<Rightarrow> http_conn \<Rightarrow> (bool \<times> http_conn) result" where
  "read_loop [] h = Inl Blocked"
| "read_loop (r # rs) h = bind_r (recv_into r h) (\<lambda>(bytes_read, h).
     if bytes_read = -1 then Inr (r = Would_Block, h)
     else if bytes_read = 0 then Inr (False, h)
     else read_loop rs (h\<lparr>m_read_idx := m_read_idx h + bytes_read\<rparr>))"

definition read_once :: "recv_result list \<Rightarrow> http_conn \<Rightarrow> (bool \<times> http_conn) result" where
  "read_once net h =
     (if m_read_idx h \<ge> int READ_BUFFER_SIZE then Inr (False, h)
      else if 0 = m_TRIGMode h then
        (case net of [] \<Rightarrow> Inl Blocked
         | r # rs \<Rightarrow> bind_r (recv_into r h) (\<lambda>(bytes_read, h).
             let h = h\<lparr>m_read_idx := m_read_idx h + bytes_read\<rparr> in Inr (\<not> bytes_read \<le> 0, h)))
      else read_loop net h)"

text \<open>The body of \<open>write\<close> is empty: the function has a result type and returns nothing.\<close>

definition write_conn :: "http_conn \<Rightarrow> (bool \<times> http_conn) result" where
  "write_conn h = Inl Missing_Return"

definition get_address :: "http_conn \<Rightarrow> string" where
  "get_address h = m_address h"

section \<open>The line scanner\<close>

function parse_line_loop :: "char list \<Rightarrow> int \<Rightarrow> int \<Rightarrow> (LINE_STATUS \<times> char list \<times> int) result" where
  "parse_line_loop b checked read_idx =
     (if checked < read_idx then
        bind_r (arr_rd b checked) (\<lambda>temp.
        if temp = CR then
          (if checked + 1 = read_idx then Inr (LINE_OPEN, b, checked)
           else bind_r (arr_rd b (checked + 1)) (\<lambda>c.
             if c = LF then
               bind_r (arr_wr b checked NUL) (\<lambda>b. bind_r (arr_wr b (checked + 1) NUL) (\<lambda>b.
                 Inr (LINE_OK, b, checked + 2)))
             else Inr (LINE_BAD, b, checked)))
        else if temp = LF then
          bind_r (if checked > 1 then bind_r (arr_rd b (checked - 1)) (\<lambda>c. Inr (c = CR)) else Inr False) (\<lambda>cr.
            if cr then
              bind_r (arr_wr b (checked - 1) NUL) (\<lambda>b. bind_r (arr_wr b checked NUL) (\<lambda>b.
                Inr (LINE_OK, b, checked + 1)))
            else Inr (LINE_BAD, b, checked))
        else parse_line_loop b (checked + 1) read_idx)
      else Inr (LINE_OPEN, b, checked))"
  by pat_completeness auto
termination by (relation "measure (\<lambda>(b, c, r). nat (r - c))") auto

declare parse_line_loop.simps [simp del]

definition parse_line :: "http_conn \<Rightarrow> (LINE_STATUS \<times> http_conn) result" where
  "parse_line h = bind_r (parse_line_loop (m_read_buf h) (m_checked_idx h) (m_read_idx h)) (\<lambda>(st, b, c).
     Inr (st, h\<lparr>m_read_buf := b, m_checked_idx := c\<rparr>))"

definition get_line :: "http_conn \<Rightarrow> int" where
  "get_line h = m_start_line h"

section \<open>The line parsers\<close>

text \<open>\<open>if (strncasecmp(m_url, lit, n) == 0) { m_url += n; m_url = strchr(m_url, '/'); }\<close>\<close>

definition strip_scheme :: "char list \<Rightarrow> int option \<Rightarrow> string \<Rightarrow> nat \<Rightarrow> int option result" where
  "strip_scheme b u lit n = (case u of None \<Rightarrow> Inl Null_Deref
     | Some u \<Rightarrow> bind_r (strncaseeq b u lit n) (\<lambda>e.
         if e then strchr b (u + int n) (CHR ''/'') else Inr (Some u)))"

text \<open>The part of \<open>parse_request_line\<close> after the method, with \<open>url\<close> behind the first blank.\<close>

definition parse_url :: "int \<Rightarrow> http_conn \<Rightarrow> (HTTP_CODE \<times> http_conn) result" where
  "parse_url url h =
     (let b = m_read_buf h in
      bind_r (strspn b url blanks) (\<lambda>n.
      let url = url + n; h = h\<lparr>m_url := Some url\<rparr> in
      bind_r (strpbrk b url blanks) (\<lambda>v.
      case v of None \<Rightarrow> Inr (BAD_REQUEST, h\<lparr>m_version := None\<rparr>)
      | Some v \<Rightarrow>
        bind_r (arr_wr b v NUL) (\<lambda>b.
        bind_r (strspn b (v + 1) blanks) (\<lambda>n.
        let ver = v + 1 + n; h = h\<lparr>m_read_buf := b, m_version := Some ver\<rparr> in
        bind_r (strcaseeq b ver ''HTTP/1.1'') (\<lambda>ok.
        if \<not> ok then Inr (BAD_REQUEST, h)
        else
          bind_r (strip_scheme b (Some url) ''http://'' 7) (\<lambda>u.
          bind_r (strip_scheme b u ''https://'' 8) (\<lambda>u.
          let h = h\<lparr>m_url := u\<rparr> in
          case u of None \<Rightarrow> Inr (BAD_REQUEST, h)
          | Some u \<Rightarrow> bind_r (arr_rd b u) (\<lambda>c.
              if c \<noteq> CHR ''/'' then Inr (BAD_REQUEST, h)
              else bind_r (strlen b u) (\<lambda>n.
                bind_r (if n = 1 then strcat b u ''judge.html'' else Inr b) (\<lambda>b.
                  Inr (NO_REQUEST, h\<lparr>m_read_buf := b, m_check_state := CHECK_STATE_HEADER\<rparr>))))))))))))"

definition parse_request_line :: "int \<Rightarrow> http_conn \<Rightarrow> (HTTP_CODE \<times> http_conn) result" where
  "parse_request_line text h =
     bind_r (cstr_at (m_read_buf h) text) (\<lambda>printed.
     bind_r (strpbrk (m_read_buf h) text blanks) (\<lambda>u.
     case u of None \<Rightarrow> Inr (BAD_REQUEST, h\<lparr>m_url := None\<rparr>)
     | Some u \<Rightarrow>
       bind_r (arr_wr (m_read_buf h) u NUL) (\<lambda>b.
       let h = h\<lparr>m_read_buf := b, m_url := Some (u + 1)\<rparr> in
       bind_r (strcaseeq b text ''GET'') (\<lambda>get.
       if get then parse_url (u + 1) (h\<lparr>m_method := GET\<rparr>)
       else bind_r (strcaseeq b text ''POST'') (\<lambda>post.
         if post then parse_url (u + 1) (h\<lparr>m_method := POST, cgi := 1\<rparr>)
         else Inr (BAD_REQUEST, h))))))"

definition parse_headers :: "int \<Rightarrow> http_conn \<Rightarrow> http_globals \<Rightarrow> (HTTP_CODE \<times> http_conn \<times> http_globals) result" where
  "parse_headers text h g =
     (let b = m_read_buf h in
      bind_r (cstr_at b text) (\<lambda>printed.
      bind_r (arr_rd b text) (\<lambda>c.
      if c = NUL then
        (if m_content_length h \<noteq> 0 then Inr (NO_REQUEST, h\<lparr>m_check_state := CHECK_STATE_CONTENT\<rparr>, g)
         else Inr (GET_REQUEST, h, g))
      else bind_r (strncaseeq b text ''Connection:'' 11) (\<lambda>conn.
      if conn then
        bind_r (strspn b (text + 11) blanks) (\<lambda>n.
        bind_r (strcaseeq b (text + 11 + n) ''keep-alive'') (\<lambda>keep.
          Inr (NO_REQUEST, if keep then h\<lparr>m_linger := True\<rparr> else h, g)))
      else bind_r (strncaseeq b text ''Content-length:'' 15) (\<lambda>cl.
      if cl then
        bind_r (strspn b (text + 15) blanks) (\<lambda>n.
        bind_r (cstr_at b (text + 15 + n)) (\<lambda>s.
          Inr (NO_REQUEST, h\<lparr>m_content_length := atol s\<rparr>, g)))
      else bind_r (strncaseeq b text ''Host'' 5) (\<lambda>host.
      if host then
        bind_r (strspn b (text + 5) blanks) (\<lambda>n.
          Inr (NO_REQUEST, h\<lparr>m_host := Some (text + 5 + n)\<rparr>, g))
      else bind_r (log_cstr 1 (m_close_log h) ''oop! unknown header: '' b text g) (\<lambda>g.
          Inr (NO_REQUEST, h, g))))))))"

text \<open>The function ends without a return statement when the content is not complete.\<close>

definition parse_content :: "int \<Rightarrow> http_conn \<Rightarrow> (HTTP_CODE \<times> http_conn) result" where
  "parse_content text h =
     bind_r (cstr_at (m_read_buf h) text) (\<lambda>printed.
     if m_read_idx h \<ge> m_content_length h + m_checked_idx h then
       bind_r (arr_wr (m_read_buf h) (text + m_content_length h) NUL) (\<lambda>b.
         Inr (GET_REQUEST, h\<lparr>m_read_buf := b, m_string := Some text\<rparr>))
     else Inl Missing_Return)"

section \<open>The scanner: progress and resumption\<close>

lemma parse_line_loop_bounds:
  "parse_line_loop b c r = Inr (st, b', c') \<Longrightarrow>
     c \<le> c' \<and> (c \<le> r \<longrightarrow> c' \<le> r) \<and> (st = LINE_OK \<longrightarrow> c < c' \<and> c < r) \<and> length b' = length b"
proof (induction b c r rule: parse_line_loop.induct)
  case (1 b c r)
  show ?case
  proof (cases "c < r \<and> 0 \<le> c \<and> c < int (length b) \<and> b ! nat c \<noteq> CR \<and> b ! nat c \<noteq> LF")
    case True
    then have "parse_line_loop b (c + 1) r = Inr (st, b', c')"
      using "1.prems" by (subst (asm) parse_line_loop.simps) simp
    then show ?thesis using "1.IH" [of "b ! nat c"] True by simp
  next
    case False
    then show ?thesis using "1.prems"
      by (subst (asm) parse_line_loop.simps)
        (auto simp: arr_rd_eq_Inr arr_wr_eq_Inr split: if_splits)
  qed
qed

text \<open>
  A line that is still open leaves the buffer alone, and scanning on from where it stopped,
  once more bytes are there, is scanning from where it began.
\<close>

lemma parse_line_loop_open:
  assumes "parse_line_loop b c r = Inr (LINE_OPEN, b', c')" and "0 \<le> c"
    and "r \<le> int (length b2)" "take (nat r) b2 = take (nat r) b" "r \<le> r2"
  shows "b' = b \<and> parse_line_loop b2 c' r2 = parse_line_loop b2 c r2"
  using assms
proof (induction b c r rule: parse_line_loop.induct)
  case (1 b c r)
  show ?case
  proof (cases "c < r \<and> b ! nat c \<noteq> CR \<and> b ! nat c \<noteq> LF")
    case True
    have c: "c < int (length b)" using True "1.prems" by (simp add: parse_line_loop.simps arr_rd_eq_Inr)
    have "parse_line_loop b (c + 1) r = Inr (LINE_OPEN, b', c')"
      using "1.prems"(1,2) True c by (subst (asm) parse_line_loop.simps) simp
    then have IH: "b' = b \<and> parse_line_loop b2 c' r2 = parse_line_loop b2 (c + 1) r2"
      using "1.IH" [of "b ! nat c"] True c "1.prems" by simp
    have "b2 ! nat c = b ! nat c"
      using "1.prems"(2,4) True by (metis nat_less_eq_zless nth_take)
    then have "parse_line_loop b2 c r2 = parse_line_loop b2 (c + 1) r2"
      using True "1.prems" by (subst parse_line_loop.simps) simp
    with IH show ?thesis by simp
  next
    case False
    then show ?thesis using "1.prems"(1)
      by (subst (asm) parse_line_loop.simps)
        (auto simp: arr_rd_eq_Inr arr_wr_eq_Inr split: if_splits)
  qed
qed

text \<open>A line that ends in CR LF is found, and its end is overwritten with two zeros.\<close>

lemma parse_line_loop_line:
  assumes "int (length p) = c" "\<forall>x \<in> set line. x \<noteq> CR \<and> x \<noteq> LF"
    and "r \<ge> c + int (length line) + 2"
  shows "parse_line_loop (p @ line @ CR # LF # rest) c r =
      Inr (LINE_OK, p @ line @ NUL # NUL # rest, c + int (length line) + 2)"
  using assms
proof (induction line arbitrary: p c)
  case Nil
  have "arr_wr (p @ NUL # LF # rest) (c + 1) NUL = Inr (p @ NUL # NUL # rest)"
    using Nil arr_wr_append [of "p @ [NUL]" "c + 1" LF rest NUL] by (simp del: arr_wr_in)
  moreover have "arr_rd (p @ CR # LF # rest) (c + 1) = Inr LF"
    using Nil arr_rd_append [of "p @ [CR]" "c + 1" LF rest] by (simp del: arr_rd_in)
  ultimately show ?case using Nil
    by (subst parse_line_loop.simps) (simp add: arr_rd_append arr_wr_append del: arr_rd_in arr_wr_in)
next
  case (Cons x line)
  have "parse_line_loop ((p @ [x]) @ line @ CR # LF # rest) (c + 1) r =
      Inr (LINE_OK, (p @ [x]) @ line @ NUL # NUL # rest, c + 1 + int (length line) + 2)"
    using Cons.prems by (intro Cons.IH) auto
  then show ?case using Cons.prems
    by (subst parse_line_loop.simps) (simp add: arr_rd_append algebra_simps del: arr_rd_in)
qed

section \<open>Properties of a connection\<close>

text \<open>A connection that has received \<open>msg\<close> and nothing else, for examples.\<close>

definition sample_conn :: "string \<Rightarrow> string \<Rightarrow> http_conn" where
  "sample_conn root msg = \<lparr>timer_flag = 0, improv = 0, mysql = Some 1, m_state = 0, m_sokcfd = 7, m_address = [],
     m_read_buf = msg @ replicate (READ_BUFFER_SIZE - length msg) NUL, m_read_idx = int (length msg),
     m_checked_idx = 0, m_start_line = 0, m_write_buf = replicate WRITE_BUFFER_SIZE NUL, m_write_idx = 0,
     m_check_state = CHECK_STATE_REQUESTLINE, m_method = GET, m_real_file = replicate FILENAME_LEN NUL,
     m_url = None, m_version = None, m_host = None, m_content_length = 0, m_linger = False,
     m_file_address = No_Map, m_file_stat = \<lparr>st_size = 0, st_mode = 0\<rparr>,
     m_iv = replicate 2 \<lparr>iov_base = Iov_Unset, iov_len = 0\<rparr>, m_iv_count = 0, cgi = 0, m_string = None,
     bytes_to_send = 0, bytes_have_send = 0, doc_root = root, m_TRIGMode = 0, m_close_log = 0,
     sql_user = replicate 100 NUL, sql_passwd = replicate 100 NUL, sql_name = replicate 100 NUL\<rparr>"

definition sample_globals :: http_globals where
  "sample_globals = \<lparr>kern = \<lparr>fdflags = [7 \<mapsto> 0], epfd = 3, interest = [7 \<mapsto> EPOLLIN], sent = (\<lambda>_. []),
       sigactions = (\<lambda>_. None), alarm_at = None\<rparr>,
     m_epollfd = 3, m_user_count = 1, users = (\<lambda>_. None), m_lock = locker_ctor, log_calls = []\<rparr>"

definition bytes_of :: "recv_result \<Rightarrow> string" where
  "bytes_of r = (case r of Bytes s \<Rightarrow> s | _ \<Rightarrow> [])"

definition stream_of :: "recv_result list \<Rightarrow> string" where
  "stream_of net = concat (map bytes_of net)"

text \<open>The bytes \<open>s\<close> have been appended to what was read before.\<close>

definition appended :: "string \<Rightarrow> http_conn \<Rightarrow> http_conn \<Rightarrow> bool" where
  "appended s h h' \<longleftrightarrow> m_read_idx h + int (length s) \<le> int READ_BUFFER_SIZE \<and>
     h' = h\<lparr>m_read_buf := take (nat (m_read_idx h)) (m_read_buf h) @ s @ drop (nat (m_read_idx h) + length s) (m_read_buf h),
            m_read_idx := m_read_idx h + int (length s)\<rparr>"

definition read_buf_ok :: "http_conn \<Rightarrow> bool" where
  "read_buf_ok h \<longleftrightarrow> length (m_read_buf h) = READ_BUFFER_SIZE \<and> 0 \<le> m_read_idx h \<and> m_read_idx h \<le> int READ_BUFFER_SIZE"

lemma appended_nil: "read_buf_ok h \<Longrightarrow> appended [] h h"
  by (simp add: appended_def read_buf_ok_def)

lemma appended_ok: "read_buf_ok h \<Longrightarrow> appended s h h' \<Longrightarrow> read_buf_ok h'"
  by (auto simp: appended_def read_buf_ok_def)

lemma appended_trans:
  assumes "read_buf_ok h" "appended s h h1" "appended t h1 h2"
  shows "appended (s @ t) h h2"
proof -
  have i: "0 \<le> m_read_idx h" "nat (m_read_idx h + int (length s)) = nat (m_read_idx h) + length s"
    "nat (m_read_idx h) + length s \<le> length (m_read_buf h)"
    using assms(1,2) by (auto simp: read_buf_ok_def appended_def)
  then show ?thesis using assms(2,3) by (auto simp: appended_def algebra_simps)
qed

lemma recv_into_appends:
  assumes ok: "read_buf_ok h" and r: "recv_into r h = Inr (n, h')" and n: "0 < n"
  shows "\<exists>s rest. appended s h (h'\<lparr>m_read_idx := m_read_idx h' + n\<rparr>) \<and> bytes_of r = s @ rest \<and> s \<noteq> [] \<and>
     (rest = [] \<or> m_read_idx h + int (length s) = int READ_BUFFER_SIZE)"
proof -
  let ?k = "nat (int READ_BUFFER_SIZE - m_read_idx h)"
  obtain t where t: "r = Bytes t" "?k \<noteq> 0" "n = int (length (take ?k t))"
    using r n by (auto simp: recv_into_def recv_def split: if_splits recv_result.splits)
  then have "appended (take ?k t) h (h'\<lparr>m_read_idx := m_read_idx h' + n\<rparr>)"
    using r ok by (auto simp: recv_into_def recv_def write_at_def appended_def read_buf_ok_def split: if_splits)
  moreover have "bytes_of r = take ?k t @ drop ?k t" by (simp add: t(1) bytes_of_def)
  moreover have "take ?k t \<noteq> []" using n t by auto
  moreover have "drop ?k t = [] \<or> m_read_idx h + int (length (take ?k t)) = int READ_BUFFER_SIZE"
    using ok by (auto simp: read_buf_ok_def min_def)
  ultimately show ?thesis by blast
qed

lemma recv_nothing: "recv r k = (n, s) \<Longrightarrow> n \<le> 0 \<Longrightarrow> s = []"
  by (cases r; cases "k = 0") (auto simp: recv_def min_def split: if_splits)

lemma recv_at_least: "recv r k = (n, s) \<Longrightarrow> -1 \<le> n"
  by (cases r; cases "k = 0") (auto simp: recv_def)

lemma recv_into_nothing:
  assumes "recv_into r h = Inr (n, h')" "n \<le> 0"
  shows "h' = h"
proof -
  obtain s where s: "recv r (nat (int READ_BUFFER_SIZE - m_read_idx h)) = (n, s)"
    "write_at (m_read_buf h) (m_read_idx h) s = Inr (m_read_buf h')" "h' = h\<lparr>m_read_buf := m_read_buf h'\<rparr>"
    using assms(1) by (auto simp: recv_into_def split: prod.splits)
  have "s = []" using recv_nothing [OF s(1) assms(2)] .
  then have "m_read_buf h' = m_read_buf h" using s(2) by (auto simp: write_at_def split: if_splits)
  with s(3) show ?thesis by simp
qed

lemma read_loop_appends:
  "read_buf_ok h \<Longrightarrow> read_loop net h = Inr (True, h') \<Longrightarrow> \<exists>s rest. appended s h h' \<and> stream_of net = s @ rest"
proof (induction net h rule: read_loop.induct)
  case (1 h)
  then show ?case by simp
next
  case (2 r rs h)
  obtain n h1 where r: "recv_into r h = Inr (n, h1)" using "2.prems" by auto
  have h1: "n \<le> 0 \<Longrightarrow> h1 = h" using recv_into_nothing [OF r] .
  show ?case
  proof (cases "0 < n")
    case True
    obtain s rest where s: "appended s h (h1\<lparr>m_read_idx := m_read_idx h1 + n\<rparr>)" "bytes_of r = s @ rest"
      "rest = [] \<or> m_read_idx h + int (length s) = int READ_BUFFER_SIZE"
      using recv_into_appends [OF "2.prems"(1) r True] by blast
    let ?h = "h1\<lparr>m_read_idx := m_read_idx h1 + n\<rparr>"
    have go: "read_loop rs ?h = Inr (True, h')" using "2.prems"(2) r True by simp
    obtain s' rest' where s': "appended s' ?h h'" "stream_of rs = s' @ rest'"
      using "2.IH" [OF r refl] True appended_ok [OF "2.prems"(1) s(1)] go by auto
    have "rest = []"
    proof (rule ccontr)
      assume "rest \<noteq> []"
      then have full: "m_read_idx ?h = int READ_BUFFER_SIZE" using s by (auto simp: appended_def)
      then have "read_loop rs ?h \<noteq> Inr (True, h')"
        by (cases rs) (auto simp: recv_into_def recv_def write_at_def)
      with go show False by simp
    qed
    then show ?thesis using appended_trans [OF "2.prems"(1) s(1) s'(1)] s(2) s'(2)
      by (auto simp: stream_of_def)
  next
    case False
    moreover have "-1 \<le> n" using r recv_at_least by (auto simp: recv_into_def split: prod.splits)
    ultimately have "n = -1 \<or> n = 0" by linarith
    then have "h' = h" using "2.prems"(2) r h1 by (elim disjE) auto
    then show ?thesis using appended_nil [OF "2.prems"(1)] by auto
  qed
qed

text \<open>
  When read_once reports success, the bytes it stored are the next bytes of the stream in
  order, behind those read before; nothing else of the object has changed, and the
  2048 byte buffer has not been overrun. In level-triggered mode at least one byte was read.
\<close>

theorem read_once_appends:
  assumes "read_buf_ok h" "read_once net h = Inr (True, h')"
  shows "\<exists>s rest. stream_of net = s @ rest \<and> appended s h h' \<and> read_buf_ok h' \<and> (m_TRIGMode h = 0 \<longrightarrow> s \<noteq> [])"
proof (cases "m_TRIGMode h = 0")
  case True
  then obtain r rs n h1 where r: "net = r # rs" "recv_into r h = Inr (n, h1)" "0 < n"
    "h' = h1\<lparr>m_read_idx := m_read_idx h1 + n\<rparr>"
    using assms(2) by (auto simp: read_once_def Let_def split: if_splits list.splits)
  obtain s rest where "appended s h h'" "bytes_of r = s @ rest" "s \<noteq> []"
    using recv_into_appends [OF assms(1) r(2,3)] r(4) by blast
  then show ?thesis using appended_ok [OF assms(1)] r(1)
    by (intro exI [of _ s] exI [of _ "rest @ stream_of rs"]) (auto simp: stream_of_def)
next
  case False
  then have "read_loop net h = Inr (True, h')" using assms(2) by (auto simp: read_once_def split: if_splits)
  then show ?thesis using read_loop_appends [OF assms(1)] appended_ok [OF assms(1)] False by blast
qed

theorem read_once_appends_witness:
  "\<exists>s rest h'. read_once [Bytes ''GET ''] (sample_conn [] []) = Inr (True, h') \<and>
     ''GET '' = s @ rest \<and> appended s (sample_conn [] []) h' \<and> s \<noteq> []"
proof -
  let ?h = "sample_conn [] []"
  have ok: "read_buf_ok ?h" by (simp add: read_buf_ok_def sample_conn_def READ_BUFFER_SIZE_def)
  obtain h' where h': "read_once [Bytes ''GET ''] ?h = Inr (True, h')"
    by (simp add: read_once_def recv_into_def recv_def sample_conn_def READ_BUFFER_SIZE_def write_at_def)
  have "m_TRIGMode ?h = 0" "stream_of [Bytes ''GET ''] = ''GET ''"
    by (simp_all add: sample_conn_def stream_of_def bytes_of_def)
  then show ?thesis using read_once_appends [OF ok h'] h' by auto
qed

text \<open>
  C21. Lines are recognised however the network cuts the byte stream: when parse_line
  reports an open line, it has changed no byte, and once further bytes have arrived
  behind the ones it saw, scanning on from where it stopped gives the same status, buffer and
  position as scanning the whole line from its beginning.
\<close>

theorem parse_line_resume:
  fixes s :: string
  assumes "parse_line h = Inr (LINE_OPEN, h1)" "0 \<le> m_checked_idx h"
    and "write_at (m_read_buf h1) (m_read_idx h1) s = Inr b"
  shows "m_read_buf h1 = m_read_buf h \<and>
     parse_line (h1\<lparr>m_read_buf := b, m_read_idx := m_read_idx h1 + int (length s)\<rparr>) =
     parse_line (h\<lparr>m_read_buf := b, m_read_idx := m_read_idx h + int (length s)\<rparr>)"
proof -
  obtain c where c: "parse_line_loop (m_read_buf h) (m_checked_idx h) (m_read_idx h) = Inr (LINE_OPEN, m_read_buf h1, c)"
    "h1 = h\<lparr>m_read_buf := m_read_buf h1, m_checked_idx := c\<rparr>"
    using assms(1) by (auto simp: parse_line_def)
  have r: "m_read_idx h1 = m_read_idx h" by (subst c(2)) simp
  have w: "0 \<le> m_read_idx h" "m_read_idx h + int (length s) \<le> int (length (m_read_buf h1))"
    "take (nat (m_read_idx h)) b = take (nat (m_read_idx h)) (m_read_buf h1)" "length b = length (m_read_buf h1)"
    using assms(3) write_at_length [OF assms(3)] by (auto simp: write_at_def r split: if_splits)
  have same: "m_read_buf h1 = m_read_buf h"
    using parse_line_loop_open [OF c(1) assms(2), of "m_read_buf h" "m_read_idx h"] w
      parse_line_loop_bounds [OF c(1)] by simp
  have "parse_line_loop b c (m_read_idx h + int (length s)) = parse_line_loop b (m_checked_idx h) (m_read_idx h + int (length s))"
    using parse_line_loop_open [OF c(1) assms(2), of b] w same by simp
  then show ?thesis unfolding parse_line_def
    by (subst (1 2 3 4) c(2)) (simp add: same r)
qed

theorem parse_line_resume_witness:
  "parse_line (sample_conn [] [CHR ''G'', CR]) = Inr (LINE_OPEN, (sample_conn [] [CHR ''G'', CR])\<lparr>m_checked_idx := 1\<rparr>) \<and>
   parse_line ((sample_conn [] [CHR ''G'', CR, LF])\<lparr>m_checked_idx := 1\<rparr>) = parse_line (sample_conn [] [CHR ''G'', CR, LF])"
proof -
  let ?h = "sample_conn [] [CHR ''G'', CR]"
  have 1: "parse_line ?h = Inr (LINE_OPEN, ?h\<lparr>m_checked_idx := 1\<rparr>)"
    by (simp add: parse_line_def sample_conn_def parse_line_loop.simps READ_BUFFER_SIZE_def cong: bind_r_weak_cong)
  have 2: "write_at (m_read_buf (?h\<lparr>m_checked_idx := 1\<rparr>)) (m_read_idx (?h\<lparr>m_checked_idx := 1\<rparr>)) [LF]
      = Inr ([CHR ''G'', CR, LF] @ replicate 2045 NUL)"
    using write_at_append [of "[CHR ''G'', CR]" 2 "[NUL]" "[LF]" "replicate 2045 NUL"]
    by (simp add: sample_conn_def READ_BUFFER_SIZE_def flip: replicate_Suc)
  show ?thesis
    using 1 parse_line_resume [OF 1 _ 2] by (simp add: sample_conn_def READ_BUFFER_SIZE_def)
qed

end
