(* ===== verification/Http_Parse.thy ===== *)
theory Http_Parse
  imports Http_Conn
begin

text \<open>
  Correctness of the line parsers of \<open>http_conn.cpp\<close>: what \<open>parse_request_line\<close>, \<open>parse_headers\<close> and
  \<open>parse_content\<close> do with a line of a given form, and which bytes of the read buffer they
  may change.
\<close>

section \<open>The request line\<close>

definition blank :: "char \<Rightarrow> bool" where
  "blank c \<longleftrightarrow> c \<in> set blanks"

text \<open>The bytes of a buffer outside an interval are the same.\<close>

definition agree_outside :: "int \<Rightarrow> int \<Rightarrow> char list \<Rightarrow> char list \<Rightarrow> bool" where
  "agree_outside lo hi b b' \<longleftrightarrow> length b' = length b \<and>
     (\<forall>j < length b. int j < lo \<or> hi < int j \<longrightarrow> b' ! j = b ! j)"

lemma agree_outside_length: "agree_outside lo hi b b' \<Longrightarrow> length b' = length b"
  by (simp add: agree_outside_def)

lemma agree_outside_trans:
  "agree_outside lo hi b b' \<Longrightarrow> agree_outside lo' hi' b' b'' \<Longrightarrow>
   agree_outside (min lo lo') (max hi hi') b b''"
  by (auto simp: agree_outside_def)

lemma agree_outside_mono:
  "agree_outside lo hi b b' \<Longrightarrow> lo' \<le> lo \<Longrightarrow> hi \<le> hi' \<Longrightarrow> agree_outside lo' hi' b b'"
  by (auto simp: agree_outside_def)

lemma agree_outside_cut:
  assumes "length b' = length b" "\<forall>j. j \<noteq> nat i + n \<longrightarrow> b' ! j = b ! j" "0 \<le> i"
  shows "agree_outside (i + int n) (i + int n) b b'"
  using assms by (auto simp: agree_outside_def)

lemma cstr_at_agree:
  assumes "cstr_at b i = Inr s" "agree_outside lo hi b b'" "i + int (length s) < lo \<or> hi < i"
  shows "cstr_at b' i = Inr s"
proof (rule cstr_at_frame [OF assms(1) agree_outside_length [OF assms(2)]])
  fix j
  assume "nat i \<le> j" "j \<le> nat i + length s"
  then show "b' ! j = b ! j"
    using assms(2,3) cstr_atD(1,2) [OF assms(1)] unfolding agree_outside_def by auto
qed

definition page_of :: "string \<Rightarrow> string" where
  "page_of url = (if url = ''/'' then ''/judge.html'' else url)"

lemma slash_no_scheme:
  "hd url = CHR ''/'' \<Longrightarrow> url \<noteq> [] \<Longrightarrow> \<not> eq_nocase_n 7 url ''http://'' \<and> \<not> eq_nocase_n 8 url ''https://''"
  by (cases url) (auto simp: eq_nocase_n_def to_lower_def)

lemma version_not_blank:
  assumes "eq_nocase ver ''HTTP/1.1''"
  shows "ver \<noteq> [] \<and> hd ver \<notin> set blanks"
proof (cases ver)
  case Nil
  then show ?thesis using assms by (simp add: eq_nocase_def)
next
  case (Cons c cs)
  then have "to_lower c = to_lower (CHR ''H'')" using assms by (simp add: eq_nocase_def)
  moreover have "to_lower (CHR '' '') \<noteq> to_lower (CHR ''H'')" by code_simp
  moreover have "to_lower TAB \<noteq> to_lower (CHR ''H'')" by code_simp
  ultimately have "c \<noteq> CHR '' '' \<and> c \<noteq> TAB" by metis
  then show ?thesis by (simp add: Cons)
qed

lemma append_judge:
  assumes at: "cstr_at b u = Inr url" and url: "hd url = CHR ''/''" "url \<noteq> []"
    and lo: "lo \<le> u" and hi: "u + int (length url) + 10 \<le> hi" "hi < int (length b)"
  shows "\<exists>b'. (if int (length url) = 1 then strcat b u ''judge.html'' else Inr b) = Inr b' \<and>
     cstr_at b' u = Inr (page_of url) \<and> agree_outside lo hi b b'"
proof (cases "length url = 1")
  case True
  then have one: "url = ''/''" using url by (cases url) auto
  have "NUL \<notin> set ''judge.html''" by (simp add: NUL_def)
  then obtain b' where "strcat b u ''judge.html'' = Inr b'" "length b' = length b"
    "cstr_at b' u = Inr (url @ ''judge.html'')"
    "\<forall>j < length b. int j < u + int (length url) \<or> u + int (length url + 10) < int j \<longrightarrow> b' ! j = b ! j"
    using strcat_eq [OF at, of "''judge.html''"] hi by auto
  then show ?thesis using lo hi by (auto simp: one page_of_def agree_outside_def)
next
  case False
  then have "url \<noteq> ''/''" by auto
  with False at show ?thesis by (auto simp: page_of_def agree_outside_def)
qed

text \<open>
  The URL and the version are cut out of the line; the stored path is the URL, or the judge
  page for the bare slash, and the text that is appended for it ends with the line.
\<close>

lemma parse_url_ok:
  assumes at: "cstr_at (m_read_buf h) i = Inr (ws1 @ url @ b2 # ws2 @ ver)"
    and ws: "\<forall>c \<in> set ws1. blank c" "blank b2" "\<forall>c \<in> set ws2. blank c"
    and url: "url \<noteq> []" "hd url = CHR ''/''" "\<forall>c \<in> set url. \<not> blank c"
    and ver: "eq_nocase ver ''HTTP/1.1''"
    and room: "i + int (length ws1 + length url + length ws2 + 10) < int (length (m_read_buf h))"
  defines "u \<equiv> i + int (length ws1)"
  shows "\<exists>b'. parse_url i h = Inr (NO_REQUEST, h\<lparr>m_url := Some u,
        m_version := Some (u + int (length url) + 1 + int (length ws2)),
        m_read_buf := b', m_check_state := CHECK_STATE_HEADER\<rparr>)
     \<and> cstr_at b' u = Inr (page_of url)
     \<and> agree_outside i (i + int (length ws1 + length url + length ws2 + 10)) (m_read_buf h) b'"
proof -
  let ?b = "m_read_buf h" and ?v = "u + int (length url)"
  let ?hi = "i + int (length ws1 + length url + length ws2 + 10)"
  have i: "0 \<le> i" using cstr_atD(1) [OF at] .
  have lv: "length ver = 8" using eq_nocase_length [OF ver] by simp
  have "hd (url @ b2 # ws2 @ ver) \<notin> set blanks" using url by (cases url) (auto simp: blank_def)
  then have spn: "strspn ?b i blanks = Inr (int (length ws1))"
    using ws(1) by (intro strspn_eq [OF at]) (auto simp: blank_def)
  have at_u: "cstr_at ?b u = Inr (url @ b2 # ws2 @ ver)"
    using cstr_at_suffix [OF at] by (simp add: u_def)
  have brk: "strpbrk ?b u blanks = Inr (Some ?v)"
    using strpbrk_found [OF at_u, of blanks] ws(2) url(3) by (auto simp: blank_def)
  obtain b1 where b1: "arr_wr ?b ?v NUL = Inr b1" "length b1 = length ?b" "cstr_at b1 u = Inr url"
    "cstr_at b1 (?v + 1) = Inr (ws2 @ ver)" "\<forall>j. j \<noteq> nat u + length url \<longrightarrow> b1 ! j = ?b ! j"
    using cstr_at_cut [OF at_u] by auto
  have ag1: "agree_outside i ?hi ?b b1"
    using agree_outside_mono [OF agree_outside_cut [OF b1(2,5)]] i by (simp add: u_def)
  have spn2: "strspn b1 (?v + 1) blanks = Inr (int (length ws2))"
    using version_not_blank [OF ver] ws(3) by (intro strspn_eq [OF b1(4)]) (auto simp: blank_def)
  have at_ver: "cstr_at b1 (?v + 1 + int (length ws2)) = Inr ver"
    using cstr_at_suffix [OF b1(4)] .
  have scheme: "strip_scheme b1 (Some u) ''http://'' 7 = Inr (Some u)"
    "strip_scheme b1 (Some u) ''https://'' 8 = Inr (Some u)"
    using slash_no_scheme [OF url(2,1)] by (simp_all add: strip_scheme_def strncaseeq_eq [OF b1(3)])
  have slash: "arr_rd b1 u = Inr (CHR ''/'')" using b1(3) url by (cases url) (auto intro: cstr_at_nth)
  have "u + int (length url) + 10 \<le> ?hi" by (simp add: u_def)
  then obtain b2' where b2': "(if int (length url) = 1 then strcat b1 u ''judge.html'' else Inr b1) = Inr b2'"
    "cstr_at b2' u = Inr (page_of url)" "agree_outside i ?hi b1 b2'"
    using append_judge [OF b1(3) url(2,1), of i ?hi] room i by (auto simp: b1(2) u_def)
  have "parse_url i h = Inr (NO_REQUEST, h\<lparr>m_url := Some u,
        m_version := Some (?v + 1 + int (length ws2)), m_read_buf := b2', m_check_state := CHECK_STATE_HEADER\<rparr>)"
    using b2'(1)
    by (simp add: parse_url_def Let_def spn u_def [symmetric] brk b1(1) spn2
        strcaseeq_eq [OF at_ver] ver scheme slash strlen_eq [OF b1(3)])
  then show ?thesis
    using b2'(2) agree_outside_trans [OF ag1 b2'(3)] by auto
qed

definition request_line :: "string \<Rightarrow> char \<Rightarrow> string \<Rightarrow> string \<Rightarrow> char \<Rightarrow> string \<Rightarrow> string \<Rightarrow> string" where
  "request_line meth b1 ws1 url b2 ws2 ver = meth @ b1 # ws1 @ url @ b2 # ws2 @ ver"

text \<open>The words of a request line are separated by runs of spaces and tabs.\<close>

definition good_line :: "string \<Rightarrow> char \<Rightarrow> string \<Rightarrow> string \<Rightarrow> char \<Rightarrow> string \<Rightarrow> string \<Rightarrow> bool" where
  "good_line meth b1 ws1 url b2 ws2 ver \<longleftrightarrow>
     (eq_nocase meth ''GET'' \<or> eq_nocase meth ''POST'') \<and> list_all (\<lambda>c. \<not> blank c) meth \<and>
     blank b1 \<and> list_all blank ws1 \<and> blank b2 \<and> list_all blank ws2 \<and>
     url \<noteq> [] \<and> hd url = CHR ''/'' \<and> list_all (\<lambda>c. \<not> blank c) url \<and> eq_nocase ver ''HTTP/1.1''"

lemma parse_request_line_words:
  assumes at: "cstr_at (m_read_buf h) tp = Inr (meth @ b1 # rest)"
    and w: "\<forall>c \<in> set meth. \<not> blank c" "blank b1"
  shows "\<exists>b. cstr_at b (tp + int (length meth) + 1) = Inr rest
     \<and> agree_outside (tp + int (length meth)) (tp + int (length meth)) (m_read_buf h) b
     \<and> parse_request_line tp h =
        (let h' = h\<lparr>m_read_buf := b, m_url := Some (tp + int (length meth) + 1)\<rparr> in
         if eq_nocase meth ''GET'' then parse_url (tp + int (length meth) + 1) (h'\<lparr>m_method := GET\<rparr>)
         else if eq_nocase meth ''POST''
         then parse_url (tp + int (length meth) + 1) (h'\<lparr>m_method := POST, cgi := 1\<rparr>)
         else Inr (BAD_REQUEST, h'))"
proof -
  let ?b = "m_read_buf h" and ?u = "tp + int (length meth)"
  have brk: "strpbrk ?b tp blanks = Inr (Some ?u)"
    using strpbrk_found [OF at, of blanks] w by (auto simp: blank_def)
  obtain b where b: "arr_wr ?b ?u NUL = Inr b" "length b = length ?b" "cstr_at b tp = Inr meth"
    "cstr_at b (?u + 1) = Inr rest" "\<forall>j. j \<noteq> nat tp + length meth \<longrightarrow> b ! j = ?b ! j"
    using cstr_at_cut [OF at] by auto
  have "agree_outside ?u ?u ?b b"
    using agree_outside_cut [OF b(2,5)] cstr_atD(1) [OF at] by simp
  moreover have "parse_request_line tp h =
        (let h' = h\<lparr>m_read_buf := b, m_url := Some (?u + 1)\<rparr> in
         if eq_nocase meth ''GET'' then parse_url (?u + 1) (h'\<lparr>m_method := GET\<rparr>)
         else if eq_nocase meth ''POST'' then parse_url (?u + 1) (h'\<lparr>m_method := POST, cgi := 1\<rparr>)
         else Inr (BAD_REQUEST, h'))"
    by (simp add: parse_request_line_def at brk b(1) strcaseeq_eq [OF b(3)] Let_def)
  ultimately show ?thesis using b(4) by blast
qed

lemma parse_request_line_ok:
  assumes at: "cstr_at (m_read_buf h) tp = Inr (request_line meth b1 ws1 url b2 ws2 ver)"
    and good: "good_line meth b1 ws1 url b2 ws2 ver"
    and room: "tp + int (length (request_line meth b1 ws1 url b2 ws2 ver)) + 1 < int (length (m_read_buf h))"
  defines "u \<equiv> tp + int (length meth) + 1 + int (length ws1)"
  shows "\<exists>b' v. parse_request_line tp h = Inr (NO_REQUEST,
        h\<lparr>m_method := (if eq_nocase meth ''GET'' then GET else POST),
        cgi := (if eq_nocase meth ''GET'' then cgi h else 1),
        m_url := Some u, m_version := Some v, m_read_buf := b', m_check_state := CHECK_STATE_HEADER\<rparr>)
     \<and> cstr_at b' u = Inr (page_of url)
     \<and> agree_outside tp (tp + int (length (request_line meth b1 ws1 url b2 ws2 ver)) + 1) (m_read_buf h) b'"
proof -
  let ?i = "tp + int (length meth) + 1" and ?L = "request_line meth b1 ws1 url b2 ws2 ver"
  have lv: "length ver = 8" using good eq_nocase_length [of ver "''HTTP/1.1''"] by (simp add: good_line_def)
  have g: "eq_nocase meth ''GET'' \<or> eq_nocase meth ''POST''" using good by (simp add: good_line_def)
  obtain b where b: "cstr_at b ?i = Inr (ws1 @ url @ b2 # ws2 @ ver)"
    "agree_outside (tp + int (length meth)) (tp + int (length meth)) (m_read_buf h) b"
    "parse_request_line tp h =
        (let h' = h\<lparr>m_read_buf := b, m_url := Some ?i\<rparr> in
         if eq_nocase meth ''GET'' then parse_url ?i (h'\<lparr>m_method := GET\<rparr>)
         else if eq_nocase meth ''POST'' then parse_url ?i (h'\<lparr>m_method := POST, cgi := 1\<rparr>)
         else Inr (BAD_REQUEST, h'))"
    using parse_request_line_words [of h tp meth b1 "ws1 @ url @ b2 # ws2 @ ver"] at good
    by (auto simp: request_line_def good_line_def list_all_iff)
  let ?h = "h\<lparr>m_read_buf := b, m_url := Some ?i, m_method := (if eq_nocase meth ''GET'' then GET else POST),
        cgi := (if eq_nocase meth ''GET'' then cgi h else 1)\<rparr>"
  have p: "parse_request_line tp h = parse_url ?i ?h" using b(3) g by (auto simp: Let_def)
  have "\<exists>b'. parse_url ?i ?h = Inr (NO_REQUEST, ?h\<lparr>m_url := Some (?i + int (length ws1)),
        m_version := Some (?i + int (length ws1) + int (length url) + 1 + int (length ws2)),
        m_read_buf := b', m_check_state := CHECK_STATE_HEADER\<rparr>)
     \<and> cstr_at b' (?i + int (length ws1)) = Inr (page_of url)
     \<and> agree_outside ?i (?i + int (length ws1 + length url + length ws2 + 10)) b b'"
    using parse_url_ok [of ?h ?i ws1 url b2 ws2 ver] b(1) good room agree_outside_length [OF b(2)]
    by (simp add: good_line_def list_all_iff request_line_def lv)
  then obtain b' where b': "parse_url ?i ?h = Inr (NO_REQUEST, ?h\<lparr>m_url := Some (?i + int (length ws1)),
        m_version := Some (?i + int (length ws1) + int (length url) + 1 + int (length ws2)),
        m_read_buf := b', m_check_state := CHECK_STATE_HEADER\<rparr>)"
    "cstr_at b' (?i + int (length ws1)) = Inr (page_of url)"
    "agree_outside ?i (?i + int (length ws1 + length url + length ws2 + 10)) b b'" by blast
  have "agree_outside tp (tp + int (length ?L) + 1) (m_read_buf h) b'"
    using agree_outside_mono [OF agree_outside_trans [OF b(2) b'(3)]] by (simp add: request_line_def lv)
  with b'(1,2) show ?thesis unfolding p u_def by auto
qed

text \<open>A URL with a scheme and no slash after it: the null pointer is handed to the second comparison.\<close>

lemma parse_url_no_path:
  assumes at: "cstr_at (m_read_buf h) i = Inr (host @ b2 # ver)"
    and host: "eq_nocase_n 7 host ''http://''" "\<forall>c \<in> set host. \<not> blank c"
      "7 \<le> length host" "CHR ''/'' \<notin> set (drop 7 host)"
    and w: "blank b2" and ver: "eq_nocase ver ''HTTP/1.1''"
  shows "parse_url i h = Inl Null_Deref"
proof -
  let ?b = "m_read_buf h"
  have "hd (host @ b2 # ver) \<notin> set blanks" using host(2,3) by (cases host) (auto simp: blank_def)
  then have spn: "strspn ?b i blanks = Inr 0"
    using strspn_eq [of ?b i "[]" "host @ b2 # ver" blanks] at by simp
  have brk: "strpbrk ?b i blanks = Inr (Some (i + int (length host)))"
    using strpbrk_found [OF at, of blanks] w host(2) by (auto simp: blank_def)
  obtain b1 where b1: "arr_wr ?b (i + int (length host)) NUL = Inr b1" "cstr_at b1 i = Inr host"
    "cstr_at b1 (i + int (length host) + 1) = Inr ver"
    using cstr_at_cut [OF at] by auto
  have spn2: "strspn b1 (i + int (length host) + 1) blanks = Inr 0"
    using strspn_eq [of b1 _ "[]" ver blanks] b1(3) version_not_blank [OF ver] by simp
  have "cstr_at b1 (i + 7) = Inr (drop 7 host)"
    using cstr_at_suffix [of b1 i "take 7 host" "drop 7 host"] b1(2) host(3) by simp
  then have "strip_scheme b1 (Some i) ''http://'' 7 = Inr None"
    using host(1,4) by (simp add: strip_scheme_def strncaseeq_eq [OF b1(2)] strchr_absent)
  then show ?thesis
    by (simp add: parse_url_def Let_def spn brk b1(1) spn2 strcaseeq_eq [OF b1(3)] ver)
      (simp add: strip_scheme_def)
qed

section \<open>Header lines\<close>

text \<open>What a header line means to the server: the three fields it looks for.\<close>

definition is_connection :: "string \<Rightarrow> bool" where
  "is_connection l \<longleftrightarrow> eq_nocase_n 11 l ''Connection:''"

definition is_content_length :: "string \<Rightarrow> bool" where
  "is_content_length l \<longleftrightarrow> \<not> is_connection l \<and> eq_nocase_n 15 l ''Content-length:''"

definition keeps_alive :: "string \<Rightarrow> bool" where
  "keeps_alive l \<longleftrightarrow> is_connection l \<and> eq_nocase (dropWhile blank (drop 11 l)) ''keep-alive''"

definition length_value :: "string \<Rightarrow> int" where
  "length_value l = atol (dropWhile blank (drop 15 l))"

lemma eq_nocase_n_length:
  assumes "eq_nocase_n n l lit" "length lit = n"
  shows "n \<le> length l"
proof -
  have "length (take n l) = length (take n lit)"
    using assms(1) by (metis eq_nocase_n_def length_map)
  then show ?thesis using assms(2) by simp
qed

lemma strspn_blanks:
  assumes "cstr_at b i = Inr s"
  shows "strspn b i blanks = Inr (int (length (takeWhile blank s)))"
    and "cstr_at b (i + int (length (takeWhile blank s))) = Inr (dropWhile blank s)"
proof -
  have "blank = (\<lambda>c. c \<in> set blanks)" by (auto simp: blank_def)
  then show "strspn b i blanks = Inr (int (length (takeWhile blank s)))"
    by (simp add: strspn_def assms)
  show "cstr_at b (i + int (length (takeWhile blank s))) = Inr (dropWhile blank s)"
    using cstr_at_suffix [of b i "takeWhile blank s" "dropWhile blank s"] assms by simp
qed

lemma cstr_at_drop: "cstr_at b i = Inr s \<Longrightarrow> n \<le> length s \<Longrightarrow> cstr_at b (i + int n) = Inr (drop n s)"
  using cstr_at_suffix [of b i "take n s" "drop n s"] by simp

lemma parse_headers_connection:
  assumes at: "cstr_at (m_read_buf h) tp = Inr l" and l: "is_connection l"
  shows "parse_headers tp h g = Inr (NO_REQUEST, if keeps_alive l then h\<lparr>m_linger := True\<rparr> else h, g)"
proof -
  have n: "11 \<le> length l" using l eq_nocase_n_length [of 11 l "''Connection:''"] by (simp add: is_connection_def)
  then obtain c l' where cl: "l = c # l'" by (cases l) auto
  have c: "arr_rd (m_read_buf h) tp = Inr c" "c \<noteq> NUL"
    using at cstr_at_nth cstr_atD(3) [OF at] by (auto simp: cl)
  have d: "cstr_at (m_read_buf h) (tp + 11) = Inr (drop 11 l)" using cstr_at_drop [OF at n] by simp
  show ?thesis
    using l strspn_blanks [OF d] c
    by (simp add: parse_headers_def Let_def at strncaseeq_eq [OF at] strcaseeq_def keeps_alive_def
        is_connection_def del: arr_rd_in)
qed

lemma parse_headers_length:
  assumes at: "cstr_at (m_read_buf h) tp = Inr l" and l: "is_content_length l"
  shows "parse_headers tp h g = Inr (NO_REQUEST, h\<lparr>m_content_length := length_value l\<rparr>, g)"
proof -
  have n: "15 \<le> length l" using l eq_nocase_n_length [of 15 l "''Content-length:''"] by (simp add: is_content_length_def)
  then obtain c l' where cl: "l = c # l'" by (cases l) auto
  have c: "arr_rd (m_read_buf h) tp = Inr c" "c \<noteq> NUL"
    using at cstr_at_nth cstr_atD(3) [OF at] by (auto simp: cl)
  have d: "cstr_at (m_read_buf h) (tp + 15) = Inr (drop 15 l)" using cstr_at_drop [OF at n] by simp
  show ?thesis
    using l strspn_blanks [OF d] c
    by (simp add: parse_headers_def Let_def at strncaseeq_eq [OF at] length_value_def
        is_content_length_def is_connection_def del: arr_rd_in)
qed

text \<open>
  Any other line only leaves a message in the log, unless it is the word "Host" alone: the
  comparison of five characters includes the terminator, so the usual host line is no match.
\<close>

lemma host_test: "eq_nocase_n 5 l ''Host'' \<longleftrightarrow> eq_nocase l ''Host''"
proof
  assume "eq_nocase_n 5 l ''Host''"
  then have m: "map to_lower (take 5 l) = map to_lower ''Host''" by (simp add: eq_nocase_n_def)
  then have "length (map to_lower (take 5 l)) = length (map to_lower ''Host'')" by (rule arg_cong)
  then have "length (take 5 l) = 4" by simp
  then have "take 5 l = l" by (simp add: min_def split: if_splits)
  with m show "eq_nocase l ''Host''" by (simp add: eq_nocase_def)
next
  assume h: "eq_nocase l ''Host''"
  then have "take 5 l = l" using eq_nocase_length [OF h] by simp
  with h show "eq_nocase_n 5 l ''Host''" by (simp add: eq_nocase_n_def eq_nocase_def)
qed

lemma parse_headers_other:
  assumes at: "cstr_at (m_read_buf h) tp = Inr l" and l: "l \<noteq> []" "\<not> is_connection l" "\<not> is_content_length l"
    and zero: "cstr_at (m_read_buf h) (tp + int (length l) + 1) = Inr []"
  shows "parse_headers tp h g = Inr (NO_REQUEST,
      if eq_nocase l ''Host'' then h\<lparr>m_host := Some (tp + 5)\<rparr> else h,
      if eq_nocase l ''Host'' then g else log_msg 1 (m_close_log h) (''oop! unknown header: '' @ l) g)"
proof -
  obtain c l' where cl: "l = c # l'" using l by (cases l) auto
  have c: "arr_rd (m_read_buf h) tp = Inr c" "c \<noteq> NUL"
    using at cstr_at_nth cstr_atD(3) [OF at] by (auto simp: cl)
  have p: "parse_headers tp h g =
      (if eq_nocase l ''Host'' then bind_r (strspn (m_read_buf h) (tp + 5) blanks) (\<lambda>n.
          Inr (NO_REQUEST, h\<lparr>m_host := Some (tp + 5 + n)\<rparr>, g))
       else bind_r (log_cstr 1 (m_close_log h) ''oop! unknown header: '' (m_read_buf h) tp g) (\<lambda>g.
          Inr (NO_REQUEST, h, g)))"
    using l c by (simp add: parse_headers_def Let_def at strncaseeq_eq [OF at] host_test
        is_content_length_def is_connection_def del: arr_rd_in)
  show ?thesis
  proof (cases "eq_nocase l ''Host''")
    case True
    have "cstr_at (m_read_buf h) (tp + 5) = Inr []" using zero eq_nocase_length [OF True] by (simp add: add.commute)
    then have "strspn (m_read_buf h) (tp + 5) blanks = Inr 0" by (simp add: strspn_def)
    with True show ?thesis by (simp add: p)
  next
    case False
    then show ?thesis by (simp add: p log_cstr_def log_msg_def at)
  qed
qed

lemma parse_headers_blank:
  assumes "cstr_at (m_read_buf h) tp = Inr []"
  shows "parse_headers tp h g =
    (if m_content_length h \<noteq> 0 then Inr (NO_REQUEST, h\<lparr>m_check_state := CHECK_STATE_CONTENT\<rparr>, g)
     else Inr (GET_REQUEST, h, g))"
  using cstr_at_nil [OF assms] by (simp add: parse_headers_def Let_def assms del: arr_rd_in)

section \<open>The content\<close>

lemma parse_content_complete:
  assumes at: "cstr_at (m_read_buf h) tp = Inr s"
    and n: "0 \<le> m_content_length h" "m_content_length h \<le> int (length s)"
    and all: "m_content_length h + m_checked_idx h \<le> m_read_idx h"
  shows "\<exists>b'. parse_content tp h = Inr (GET_REQUEST, h\<lparr>m_read_buf := b', m_string := Some tp\<rparr>) \<and>
     cstr_at b' tp = Inr (take (nat (m_content_length h)) s) \<and>
     agree_outside tp (tp + int (length s)) (m_read_buf h) b'"
proof -
  let ?b = "m_read_buf h" and ?n = "nat (m_content_length h)"
  obtain p r where b: "?b = p @ s @ NUL # r" and p: "int (length p) = tp" and nn: "NUL \<notin> set s"
    using cstr_atD [OF at] by blast
  have le: "?n \<le> length s" using n by simp
  let ?b' = "?b[length p + ?n := NUL]"
  have w: "arr_wr ?b (tp + m_content_length h) NUL = Inr ?b'"
    using n p by (auto simp: b arr_wr_def nat_add_distrib)
  obtain c s2 where cs: "drop ?n s @ NUL # r = c # s2"
    by (cases "drop ?n s") auto
  have split: "s @ NUL # r = take ?n s @ c # s2"
    by (simp only: append_assoc [symmetric] append_take_drop_id cs [symmetric])
  have "?b' = p @ take ?n s @ NUL # s2"
    using le unfolding b split by (simp add: list_update_append min_absorb2)
  moreover have "NUL \<notin> set (take ?n s)" using nn by (meson in_set_takeD)
  ultimately have "cstr_at ?b' tp = Inr (take ?n s)" using p by simp
  moreover have "agree_outside tp (tp + int (length s)) ?b ?b'"
    using le p by (auto simp: agree_outside_def)
  ultimately show ?thesis
    using all at w by (auto simp: parse_content_def simp del: arr_wr_in)
qed

lemma parse_content_incomplete:
  assumes "cstr_at (m_read_buf h) tp = Inr s" "m_read_idx h < m_content_length h + m_checked_idx h"
  shows "parse_content tp h = Inl Missing_Return"
  using assms by (simp add: parse_content_def)

section \<open>Properties\<close>



text \<open>
  A request line whose URL names a host with http:// and has no slash behind it makes the
  server dereference the null pointer: strchr finds no path, and its null result is passed to the
  next comparison before it is tested.
\<close>

theorem scheme_without_path_crashes:
  assumes "cstr_at (m_read_buf h) tp = Inr (meth @ b1 # host @ b2 # ver)"
    and "eq_nocase meth ''GET'' \<or> eq_nocase meth ''POST''" "list_all (\<lambda>c. \<not> blank c) meth"
    and "blank b1" "blank b2" "list_all (\<lambda>c. \<not> blank c) host" "eq_nocase_n 7 host ''http://''"
    and "CHR ''/'' \<notin> set (drop 7 host)" "eq_nocase ver ''HTTP/1.1''"
  shows "parse_request_line tp h = Inl Null_Deref"
proof -
  let ?i = "tp + int (length meth) + 1"
  have "\<forall>c \<in> set meth. \<not> blank c" using assms(3) by (simp add: list_all_iff)
  from parse_request_line_words [OF assms(1) this assms(4)]
  obtain b where b: "cstr_at b ?i = Inr (host @ b2 # ver)" "parse_request_line tp h =
        (let h' = h\<lparr>m_read_buf := b, m_url := Some ?i\<rparr> in
         if eq_nocase meth ''GET'' then parse_url ?i (h'\<lparr>m_method := GET\<rparr>)
         else if eq_nocase meth ''POST'' then parse_url ?i (h'\<lparr>m_method := POST, cgi := 1\<rparr>)
         else Inr (BAD_REQUEST, h'))" by blast
  have "7 \<le> length host" using eq_nocase_n_length [OF assms(7)] by simp
  then have "parse_url ?i k = Inl Null_Deref" if "m_read_buf k = b" for k
    using parse_url_no_path [of k ?i host b2 ver] b(1) assms that by (simp add: list_all_iff)
  then show ?thesis using b(2) assms(2) by (auto simp: Let_def)
qed

theorem scheme_without_path_crashes_witness:
  "parse_request_line 0 (sample_conn [] ''GET http://host HTTP/1.1'') = Inl Null_Deref"
proof -
  let ?h = "sample_conn [] ''GET http://host HTTP/1.1''"
  have "m_read_buf ?h = [] @ ''GET http://host HTTP/1.1'' @ NUL # replicate 2023 NUL"
    by (simp add: sample_conn_def READ_BUFFER_SIZE_def flip: replicate_Suc)
  moreover have "cstr_at ([] @ ''GET http://host HTTP/1.1'' @ NUL # replicate 2023 NUL) 0 = Inr ''GET http://host HTTP/1.1''"
    by (rule cstr_at_append) (simp_all add: NUL_def)
  ultimately have at: "cstr_at (m_read_buf ?h) 0 = Inr (''GET'' @ CHR '' '' # ''http://host'' @ CHR '' '' # ''HTTP/1.1'')"
    by simp
  show ?thesis
    by (rule scheme_without_path_crashes [OF at]) code_simp+
qed

text \<open>
  The length field of a request is read back as the number that was printed: for any
  number that fits a long, in any capitalisation of the field name and with any blanks before
  the number, and nothing else of the object changes.
\<close>

theorem content_length_roundtrip:
  assumes "cstr_at (m_read_buf h) tp = Inr (name @ ws @ show_int n)" "eq_nocase name ''Content-length:''"
    and "list_all blank ws" "- LONG_MAX - 1 \<le> n" "n \<le> LONG_MAX"
  shows "parse_headers tp h g = Inr (NO_REQUEST, h\<lparr>m_content_length := n\<rparr>, g)"
proof -
  let ?l = "name @ ws @ show_int n"
  have len: "length name = 15" using eq_nocase_length [OF assms(2)] by simp
  have "map to_lower (take 11 name) \<noteq> map to_lower ''Connection:''"
  proof -
    have "map to_lower (take 11 name) = map to_lower (take 11 ''Content-length:'')"
      using arg_cong [OF assms(2) [unfolded eq_nocase_def], of "take 11"] by (simp only: take_map)
    moreover have "map to_lower (take 11 ''Content-length:'') \<noteq> map to_lower ''Connection:''" by code_simp
    ultimately show ?thesis by simp
  qed
  then have "is_content_length ?l"
    using assms(2) len by (simp add: is_content_length_def is_connection_def eq_nocase_n_def eq_nocase_def)
  moreover have "dropWhile blank (ws @ show_int n) = show_int n"
  proof -
    obtain c cs where c: "show_int n = c # cs" "is_digit c \<or> c = CHR ''-''"
      using show_nat_digits [of "nat n"] by (cases "n < 0"; cases "show_nat (nat n)") (auto simp: show_int_def)
    then have "\<not> blank c" by (auto simp: blank_def is_digit_def)
    then show ?thesis using assms(3) c(1) by (simp add: list_all_iff dropWhile_append2)
  qed
  then have "length_value ?l = n" using assms(4,5) len by (simp add: length_value_def atol_show_int)
  ultimately show ?thesis using parse_headers_length [OF assms(1)] by simp
qed

theorem content_length_roundtrip_witness:
  "parse_headers 0 (sample_conn [] ''CONTENT-LENGTH: 42'') sample_globals =
     Inr (NO_REQUEST, (sample_conn [] ''CONTENT-LENGTH: 42'')\<lparr>m_content_length := 42\<rparr>, sample_globals)"
proof -
  let ?h = "sample_conn [] ''CONTENT-LENGTH: 42''"
  have n: "show_int 42 = ''42''" by code_simp
  have "m_read_buf ?h = [] @ ''CONTENT-LENGTH: 42'' @ NUL # replicate 2029 NUL"
    by (simp add: sample_conn_def READ_BUFFER_SIZE_def flip: replicate_Suc)
  moreover have "cstr_at ([] @ ''CONTENT-LENGTH: 42'' @ NUL # replicate 2029 NUL) 0 = Inr ''CONTENT-LENGTH: 42''"
    by (rule cstr_at_append) (simp_all add: NUL_def)
  ultimately have at: "cstr_at (m_read_buf ?h) 0 = Inr (''CONTENT-LENGTH:'' @ '' '' @ show_int 42)"
    by (simp add: n)
  show ?thesis
    by (rule content_length_roundtrip [OF at]) code_simp+
qed

text \<open>
  The host field of a request is never recorded: a line that begins with the field name
  and its colon is treated as an unknown header, leaves the object as it was, and is reported in
  the log when the log is on.
\<close>

theorem host_header_unknown:
  assumes "cstr_at (m_read_buf h) tp = Inr (''Host:'' @ value)"
    and "cstr_at (m_read_buf h) (tp + int (length value) + 6) = Inr []"
  shows "parse_headers tp h g = Inr (NO_REQUEST, h, log_msg 1 (m_close_log h) (''oop! unknown header: Host:'' @ value) g)"
proof -
  let ?l = "''Host:'' @ value"
  have lw: "to_lower (CHR ''H'') \<noteq> to_lower (CHR ''C'')" by code_simp
  have "\<not> is_connection ?l" "\<not> is_content_length ?l"
    using lw by (auto simp: is_connection_def is_content_length_def eq_nocase_n_def)
  moreover have "\<not> eq_nocase ?l ''Host''" using eq_nocase_length by fastforce
  moreover have "cstr_at (m_read_buf h) (tp + int (length ?l) + 1) = Inr []" using assms(2) by (simp add: algebra_simps)
  ultimately show ?thesis using parse_headers_other [OF assms(1), of g] by simp
qed

theorem host_header_unknown_witness:
  "parse_headers 0 (sample_conn [] ''Host: a.b'') sample_globals =
     Inr (NO_REQUEST, sample_conn [] ''Host: a.b'', log_msg 1 0 ''oop! unknown header: Host: a.b'' sample_globals)"
proof -
  let ?h = "sample_conn [] ''Host: a.b''"
  have b: "m_read_buf ?h = [] @ (''Host:'' @ '' a.b'') @ NUL # replicate 2038 NUL"
    "m_read_buf ?h = (''Host: a.b'' @ [NUL]) @ [] @ NUL # replicate 2037 NUL"
    by (simp_all add: sample_conn_def READ_BUFFER_SIZE_def flip: replicate_Suc)
  have 1: "cstr_at (m_read_buf ?h) 0 = Inr (''Host:'' @ '' a.b'')"
    unfolding b(1) by (rule cstr_at_append) (simp_all add: NUL_def)
  have 2: "cstr_at (m_read_buf ?h) (0 + int (length '' a.b'') + 6) = Inr []"
    unfolding b(2) by (rule cstr_at_append) (simp_all add: NUL_def)
  have "m_close_log ?h = 0" by (simp add: sample_conn_def)
  then show ?thesis using host_header_unknown [OF 1 2, of sample_globals] by simp
qed

end
