(* ===== verification/Http_Request.thy ===== *)
theory Http_Request
  imports Http_Parse
begin

text \<open>
  The request half of \<open>http_conn\<close>: \<open>do_request\<close>, which turns a parsed request into a file of the
  document root (with the login and registration forms), and \<open>process_read\<close>, the state machine
  that drives the line parsers. The file system and the database client are parameters: \<open>fs\<close>
  gives the file at a path, \<open>query\<close> the result of \<open>mysql_query\<close> on a connection.
\<close>

section \<open>Files\<close>

record disk_file =
  f_mode :: "32 word"
  f_data :: string
  f_opens :: bool

definition S_IROTH :: "32 word" where "S_IROTH = 4"

definition S_ISDIR :: "32 word \<Rightarrow> bool" where
  "S_ISDIR m \<longleftrightarrow> m AND 0xF000 = 0x4000"

text \<open>Mapping fails for a file that cannot be opened and for an empty one.\<close>

definition mmap :: "disk_file \<Rightarrow> file_map" where
  "mmap f = (if f_opens f \<and> f_data f \<noteq> [] then Mapped (f_data f) else Map_Failed)"

section \<open>The login and registration forms\<close>

text \<open>
  The two copying loops: characters are copied from \<open>b\<close> at \<open>i\<close> to \<open>dst\<close> at \<open>j\<close> until the
  stop character is read.
\<close>

function copy_until :: "char list \<Rightarrow> int \<Rightarrow> char \<Rightarrow> char list \<Rightarrow> int \<Rightarrow> (int \<times> int \<times> char list) result" where
  "copy_until b i stop dst j =
     bind_r (arr_rd b i) (\<lambda>c.
       if c = stop then Inr (i, j, dst)
       else bind_r (arr_wr dst j c) (\<lambda>dst. copy_until b (i + 1) stop dst (j + 1)))"
  by pat_completeness auto
termination
  by (relation "measure (\<lambda>(b, i, s, d, j). nat (int (length b) - i))")
    (auto simp: arr_rd_def split: if_splits)

declare copy_until.simps [simp del]

text \<open>The bytes of fresh arrays are unspecified; they are zero here, and every use terminates them.\<close>

definition form_fields :: "char list \<Rightarrow> int option \<Rightarrow> (string \<times> string) result" where
  "form_fields b m_str = (case m_str of None \<Rightarrow> Inl Uninitialised
     | Some s \<Rightarrow>
       bind_r (copy_until b (s + 5) (CHR ''&'') (replicate 100 NUL) 0) (\<lambda>(i, j, name).
       bind_r (arr_wr name j NUL) (\<lambda>name.
       bind_r (copy_until b (i + 10) NUL (replicate 100 NUL) 0) (\<lambda>(i, j, password).
       bind_r (arr_wr password j NUL) (\<lambda>password.
       bind_r (cstr_at name 0) (\<lambda>n. bind_r (cstr_at password 0) (\<lambda>p. Inr (n, p))))))))"

text \<open>The statement is assembled in an allocation of 200 bytes.\<close>

definition sql_insert :: "string \<Rightarrow> string \<Rightarrow> string result" where
  "sql_insert name password =
     bind_r (strcpy (replicate 200 NUL) 0 ''INSERT INTO user(username,passwd) VALUES('') (\<lambda>s.
     bind_r (strcat s 0 [CHR 0x27]) (\<lambda>s.
     bind_r (strcat s 0 name) (\<lambda>s.
     bind_r (strcat s 0 [CHR 0x27, CHR '','', CHR '' '', CHR 0x27]) (\<lambda>s.
     bind_r (strcat s 0 password) (\<lambda>s.
     bind_r (strcat s 0 [CHR 0x27, CHR '')'']) (\<lambda>s.
     cstr_at s 0))))))"

definition set_url :: "int \<Rightarrow> string \<Rightarrow> http_conn \<Rightarrow> http_conn result" where
  "set_url url page h = bind_r (strcpy (m_read_buf h) url page) (\<lambda>b. Inr (h\<lparr>m_read_buf := b\<rparr>))"

definition register :: "(nat \<Rightarrow> string \<Rightarrow> int) \<Rightarrow> nat \<Rightarrow> int \<Rightarrow> string \<Rightarrow> string
    \<Rightarrow> http_conn \<Rightarrow> http_globals \<Rightarrow> (http_conn \<times> http_globals) result" where
  "register query t url name password h g =
     bind_r (sql_insert name password) (\<lambda>sql.
     if users g name = None then
       bind_r (acquire t (m_lock g)) (\<lambda>l.
       bind_r (of_option Null_Deref (mysql h)) (\<lambda>con.
       let res = query con sql; g = g\<lparr>users := (users g)(name \<mapsto> password)\<rparr> in
       bind_r (release t l) (\<lambda>l.
       bind_r (set_url url (if res = 0 then ''/log.html'' else ''/registerError.html'') h) (\<lambda>h.
         Inr (h, g\<lparr>m_lock := l\<rparr>)))))
     else bind_r (set_url url ''/registerError.html'' h) (\<lambda>h. Inr (h, g)))"

definition login :: "int \<Rightarrow> string \<Rightarrow> string \<Rightarrow> http_conn \<Rightarrow> http_globals \<Rightarrow> http_conn result" where
  "login url name password h g =
     set_url url (if users g name = Some password then ''/welcome.html'' else ''/logError.html'') h"

text \<open>The branch for \<open>cgi == 1\<close> and a last path component that begins with 2 or 3.\<close>

definition do_cgi :: "(nat \<Rightarrow> string \<Rightarrow> int) \<Rightarrow> nat \<Rightarrow> int \<Rightarrow> int \<Rightarrow> int
    \<Rightarrow> http_conn \<Rightarrow> http_globals \<Rightarrow> (http_conn \<times> http_globals) result" where
  "do_cgi query t len url p h g =
     bind_r (arr_rd (m_read_buf h) (url + 1)) (\<lambda>flag.
     bind_r (strcpy (replicate 200 NUL) 0 ''/'') (\<lambda>r.
     bind_r (cstr_at (m_read_buf h) (url + 2)) (\<lambda>tail.
     bind_r (strcat r 0 tail) (\<lambda>r.
     bind_r (cstr_at r 0) (\<lambda>m_url_real.
     bind_r (strncpy (m_real_file h) len m_url_real (nat (int FILENAME_LEN - len - 1))) (\<lambda>real_file.
     let h = h\<lparr>m_real_file := real_file\<rparr> in
     bind_r (form_fields (m_read_buf h) (m_string h)) (\<lambda>(name, password).
     bind_r (arr_rd (m_read_buf h) (p + 1)) (\<lambda>c.
     if c = CHR ''3'' then register query t url name password h g
     else if c = CHR ''2'' then bind_r (login url name password h g) (\<lambda>h. Inr (h, g))
     else Inr (h, g)))))))))"

section \<open>do\_request\<close>

definition fixed_page :: "char \<Rightarrow> string option" where
  "fixed_page c =
     (if c = CHR ''0'' then Some ''/register.html''
      else if c = CHR ''1'' then Some ''/log.html''
      else if c = CHR ''5'' then Some ''/picture.html''
      else if c = CHR ''6'' then Some ''/video.html''
      else if c = CHR ''7'' then Some ''/fans.html''
      else None)"

definition choose_file :: "int \<Rightarrow> int \<Rightarrow> int \<Rightarrow> http_conn \<Rightarrow> http_conn result" where
  "choose_file len url p h =
     bind_r (arr_rd (m_read_buf h) (p + 1)) (\<lambda>c.
     bind_r (case fixed_page c of
         Some page \<Rightarrow> strncpy (m_real_file h) len page (length page)
       | None \<Rightarrow> bind_r (cstr_at (m_read_buf h) url) (\<lambda>u.
           strncpy (m_real_file h) len u (nat (int FILENAME_LEN - len - 1)))) (\<lambda>r.
     Inr (h\<lparr>m_real_file := r\<rparr>)))"

definition open_file :: "(string \<Rightarrow> disk_file option) \<Rightarrow> http_conn \<Rightarrow> (HTTP_CODE \<times> http_conn) result" where
  "open_file fs h =
     bind_r (cstr_at (m_real_file h) 0) (\<lambda>path.
     case fs path of None \<Rightarrow> Inr (NO_RESOURCE, h)
     | Some f \<Rightarrow>
       let h = h\<lparr>m_file_stat := \<lparr>st_size = int (length (f_data f)), st_mode = f_mode f\<rparr>\<rparr> in
       if f_mode f AND S_IROTH = 0 then Inr (FORBIDDEN_REQUEST, h)
       else if S_ISDIR (f_mode f) then Inr (BAD_REQUEST, h)
       else Inr (FILE_REQUEST, h\<lparr>m_file_address := mmap f\<rparr>))"

definition do_request :: "(string \<Rightarrow> disk_file option) \<Rightarrow> (nat \<Rightarrow> string \<Rightarrow> int) \<Rightarrow> nat
    \<Rightarrow> http_conn \<Rightarrow> http_globals \<Rightarrow> (HTTP_CODE \<times> http_conn \<times> http_globals) result" where
  "do_request fs query t h g =
     bind_r (strcpy (m_real_file h) 0 (doc_root h)) (\<lambda>r.
     let len = int (length (doc_root h)); h = h\<lparr>m_real_file := r\<rparr> in
     bind_r (of_option Null_Deref (m_url h)) (\<lambda>url.
     bind_r (cstr_at (m_read_buf h) url) (\<lambda>printed.
     bind_r (strrchr (m_read_buf h) url (CHR ''/'')) (\<lambda>slash.
     bind_r (of_option Null_Deref slash) (\<lambda>p.
     bind_r (arr_rd (m_read_buf h) (p + 1)) (\<lambda>c.
     bind_r (if cgi h = 1 \<and> (c = CHR ''2'' \<or> c = CHR ''3'') then do_cgi query t len url p h g
             else Inr (h, g)) (\<lambda>(h, g).
     bind_r (choose_file len url p h) (\<lambda>h.
     bind_r (open_file fs h) (\<lambda>(ret, h).
     Inr (ret, h, g))))))))))"

section \<open>process\_read\<close>

text \<open>
  One round of the loop: the condition, then the body. \<open>Inr\<close> is the value the function
  returns, \<open>Inl\<close> the state at the end of a round that goes on.
\<close>

definition read_body :: "(string \<Rightarrow> disk_file option) \<Rightarrow> (nat \<Rightarrow> string \<Rightarrow> int) \<Rightarrow> nat
    \<Rightarrow> http_conn \<Rightarrow> http_globals
    \<Rightarrow> ((LINE_STATUS \<times> http_conn \<times> http_globals) + (HTTP_CODE \<times> http_conn \<times> http_globals)) result" where
  "read_body fs query t h g =
     (let txt = get_line h; h = h\<lparr>m_start_line := m_checked_idx h\<rparr> in
      bind_r (log_cstr 1 (m_close_log h) [] (m_read_buf h) txt g) (\<lambda>g.
      case m_check_state h of
        CHECK_STATE_REQUESTLINE \<Rightarrow>
          bind_r (parse_request_line txt h) (\<lambda>(ret, h).
            if ret = BAD_REQUEST then Inr (Inr (BAD_REQUEST, h, g)) else Inr (Inl (LINE_OK, h, g)))
      | CHECK_STATE_HEADER \<Rightarrow>
          bind_r (parse_headers txt h g) (\<lambda>(ret, h, g).
            if ret = BAD_REQUEST then Inr (Inr (BAD_REQUEST, h, g))
            else if ret = GET_REQUEST then bind_r (do_request fs query t h g) (\<lambda>r. Inr (Inr r))
            else Inr (Inl (LINE_OK, h, g)))
      | CHECK_STATE_CONTENT \<Rightarrow>
          bind_r (parse_content txt h) (\<lambda>(ret, h).
            if ret = GET_REQUEST then bind_r (do_request fs query t h g) (\<lambda>r. Inr (Inr r))
            else Inr (Inl (LINE_OPEN, h, g)))))"

definition read_round :: "(string \<Rightarrow> disk_file option) \<Rightarrow> (nat \<Rightarrow> string \<Rightarrow> int) \<Rightarrow> nat
    \<Rightarrow> LINE_STATUS \<Rightarrow> http_conn \<Rightarrow> http_globals
    \<Rightarrow> ((LINE_STATUS \<times> http_conn \<times> http_globals) + (HTTP_CODE \<times> http_conn \<times> http_globals)) result" where
  "read_round fs query t line_status h g =
     (if m_check_state h = CHECK_STATE_CONTENT \<and> line_status = LINE_OK then read_body fs query t h g
      else bind_r (parse_line h) (\<lambda>(line_status, h).
        if line_status = LINE_OK then read_body fs query t h g else Inr (Inr (NO_REQUEST, h, g))))"

text \<open>A round that goes on has consumed a line, so the loop ends.\<close>

lemma parse_line_progress:
  assumes "parse_line h = Inr (LINE_OK, h')"
  shows "nat (m_read_idx h' - m_checked_idx h') < nat (m_read_idx h - m_checked_idx h)"
  using assms by (auto simp: parse_line_def dest!: parse_line_loop_bounds)

text \<open>The members that the parsers and \<open>do_request\<close> never change.\<close>

abbreviation sql_creds :: "http_conn \<Rightarrow> string \<times> string \<times> string" where
  "sql_creds h \<equiv> (sql_user h, sql_passwd h, sql_name h)"

definition same_conn :: "http_conn \<Rightarrow> http_conn \<Rightarrow> bool" where
  "same_conn h h' \<longleftrightarrow> m_sokcfd h' = m_sokcfd h \<and> m_TRIGMode h' = m_TRIGMode h \<and> m_read_idx h' = m_read_idx h \<and>
     m_checked_idx h' = m_checked_idx h \<and> m_write_buf h' = m_write_buf h \<and> m_write_idx h' = m_write_idx h \<and>
     m_iv h' = m_iv h \<and> m_close_log h' = m_close_log h \<and> sql_creds h' = sql_creds h"

definition same_globals :: "http_globals \<Rightarrow> http_globals \<Rightarrow> bool" where
  "same_globals g g' \<longleftrightarrow> kern g' = kern g \<and> m_epollfd g' = m_epollfd g \<and> m_user_count g' = m_user_count g"

lemma same_conn_refl [simp]: "same_conn h h" by (simp add: same_conn_def)
lemma same_globals_refl [simp]: "same_globals g g" by (simp add: same_globals_def)

lemma same_conn_trans: "same_conn h h1 \<Longrightarrow> same_conn h1 h2 \<Longrightarrow> same_conn h h2"
  by (simp add: same_conn_def)

lemma same_globals_trans: "same_globals g g1 \<Longrightarrow> same_globals g1 g2 \<Longrightarrow> same_globals g g2"
  by (simp add: same_globals_def)

lemma log_cstr_frame: "ok_r (same_globals g) (log_cstr lv cl pre b i g)"
  unfolding log_cstr_def by (intro ok_intros) (simp_all add: log_msg_def same_globals_def)

lemma parse_url_frame: "ok_r (\<lambda>(ret, h'). same_conn h h') (parse_url i h)"
  unfolding parse_url_def Let_def by (intro ok_intros) (simp_all add: same_conn_def)

lemma parse_request_line_frame: "ok_r (\<lambda>(ret, h'). same_conn h h') (parse_request_line i h)"
  unfolding parse_request_line_def Let_def
  by (intro ok_intros ok_mono [OF parse_url_frame]) (auto simp: same_conn_def)

lemma parse_headers_frame: "ok_r (\<lambda>(ret, h', g'). same_conn h h' \<and> same_globals g g') (parse_headers i h g)"
  unfolding parse_headers_def Let_def
  by (intro ok_bind_ok [OF log_cstr_frame] ok_intros) (auto simp: same_conn_def)

lemma parse_content_frame: "ok_r (\<lambda>(ret, h'). same_conn h h' \<and> ret = GET_REQUEST) (parse_content i h)"
  unfolding parse_content_def Let_def by (intro ok_intros) (auto simp: same_conn_def)

lemma set_url_frame: "ok_r (same_conn h) (set_url url page h)"
  unfolding set_url_def by (intro ok_intros) (auto simp: same_conn_def)

lemma register_frame:
  "ok_r (\<lambda>(h', g'). same_conn h h' \<and> same_globals g g') (register query t url name password h g)"
  unfolding register_def Let_def
  by (intro ok_bind_ok [OF set_url_frame] ok_intros) (auto simp: same_globals_def)

lemma do_cgi_frame: "ok_r (\<lambda>(h', g'). same_conn h h' \<and> same_globals g g') (do_cgi query t len url p h g)"
  unfolding do_cgi_def Let_def login_def
  by (intro ok_mono [OF register_frame] ok_bind_ok [OF set_url_frame] ok_intros) (auto simp: same_conn_def)

lemma choose_file_frame: "ok_r (same_conn h) (choose_file len url p h)"
  unfolding choose_file_def by (intro ok_intros) (auto simp: same_conn_def)

lemma open_file_frame: "ok_r (\<lambda>(ret, h'). same_conn h h') (open_file fs h)"
  unfolding open_file_def Let_def by (intro ok_intros) (auto simp: same_conn_def)

lemma do_request_frame:
  "ok_r (\<lambda>(ret, h', g'). same_conn h h' \<and> same_globals g g') (do_request fs query t h g)"
proof -
  have cg: "ok_r (\<lambda>(h', g'). same_conn h h' \<and> same_globals g g')
      (if b then do_cgi query t len url p (h\<lparr>m_real_file := r\<rparr>) g else Inr (h\<lparr>m_real_file := r\<rparr>, g))" for b len url p r
    by (intro ok_mono [OF do_cgi_frame] ok_intros) (auto simp: same_conn_def)
  show ?thesis unfolding do_request_def Let_def
    by (intro ok_intros)
      (auto dest!: ok_rD [OF cg] ok_rD [OF choose_file_frame] ok_rD [OF open_file_frame]
        intro: same_conn_trans)
qed

lemma read_body_frame:
  "ok_r (\<lambda>r. case r of
       Inl (st, h', g') \<Rightarrow> same_conn h h' \<and> same_globals g g' \<and> m_check_state h \<noteq> CHECK_STATE_CONTENT
     | Inr (ret, h', g') \<Rightarrow> same_conn h h' \<and> same_globals g g') (read_body fs query t h g)"
proof -
  have s: "same_conn h (h\<lparr>m_start_line := m_checked_idx h\<rparr>)" by (simp add: same_conn_def)
  note fr = ok_rD [OF log_cstr_frame] ok_rD [OF parse_request_line_frame] ok_rD [OF parse_headers_frame]
    ok_rD [OF parse_content_frame] ok_rD [OF do_request_frame]
  show ?thesis unfolding read_body_def Let_def
    by (cases "m_check_state h"; simp; intro ok_intros)
      (auto dest!: fr intro: same_conn_trans [OF s] same_conn_trans [OF same_conn_trans [OF s]]
        same_globals_trans)
qed

lemma read_round_progress:
  assumes "read_round fs query t st h g = Inr (Inl (st', h', g'))"
  shows "nat (m_read_idx h' - m_checked_idx h') < nat (m_read_idx h - m_checked_idx h)"
proof (cases "m_check_state h = CHECK_STATE_CONTENT \<and> st = LINE_OK")
  case True
  then have "read_body fs query t h g = Inr (Inl (st', h', g'))" using assms by (simp add: read_round_def)
  then show ?thesis using True ok_rD [OF read_body_frame] by fastforce
next
  case False
  then obtain h1 where h1: "parse_line h = Inr (LINE_OK, h1)" "read_body fs query t h1 g = Inr (Inl (st', h', g'))"
    using assms by (auto simp: read_round_def split: if_splits)
  show ?thesis using parse_line_progress [OF h1(1)] ok_rD [OF read_body_frame h1(2)] by (simp add: same_conn_def)
qed

function process_read_loop :: "(string \<Rightarrow> disk_file option) \<Rightarrow> (nat \<Rightarrow> string \<Rightarrow> int) \<Rightarrow> nat
    \<Rightarrow> LINE_STATUS \<Rightarrow> http_conn \<Rightarrow> http_globals \<Rightarrow> (HTTP_CODE \<times> http_conn \<times> http_globals) result" where
  "process_read_loop fs query t line_status h g =
     bind_r (read_round fs query t line_status h g) (\<lambda>r. case r of
       Inr ret \<Rightarrow> Inr ret
     | Inl (line_status, h, g) \<Rightarrow> process_read_loop fs query t line_status h g)"
  by pat_completeness auto
termination
  by (relation "measure (\<lambda>(fs, query, t, st, h, g). nat (m_read_idx h - m_checked_idx h))")
    (auto dest: read_round_progress)

declare process_read_loop.simps [simp del]

definition process_read :: "(string \<Rightarrow> disk_file option) \<Rightarrow> (nat \<Rightarrow> string \<Rightarrow> int) \<Rightarrow> nat
    \<Rightarrow> http_conn \<Rightarrow> http_globals \<Rightarrow> (HTTP_CODE \<times> http_conn \<times> http_globals) result" where
  "process_read fs query t h g = process_read_loop fs query t LINE_OK h g"

section \<open>Frame\<close>

text \<open>Reading a request changes neither the socket, the epoll table nor the response buffer.\<close>

definition same_fd :: "http_conn \<Rightarrow> http_conn \<Rightarrow> bool" where
  "same_fd h h' \<longleftrightarrow> m_sokcfd h' = m_sokcfd h \<and> m_TRIGMode h' = m_TRIGMode h \<and> m_write_buf h' = m_write_buf h \<and>
     m_write_idx h' = m_write_idx h \<and> m_iv h' = m_iv h \<and> m_close_log h' = m_close_log h \<and> sql_creds h' = sql_creds h"

lemma same_conn_fd: "same_conn h h' \<Longrightarrow> same_fd h h'"
  by (simp add: same_conn_def same_fd_def)

lemma same_fd_trans: "same_fd h h1 \<Longrightarrow> same_fd h1 h2 \<Longrightarrow> same_fd h h2"
  by (simp add: same_fd_def)

lemma read_round_frame:
  "ok_r (\<lambda>r. case r of Inl (st, h', g') \<Rightarrow> same_fd h h' \<and> same_globals g g'
     | Inr (ret, h', g') \<Rightarrow> same_fd h h' \<and> same_globals g g') (read_round fs query t st h g)"
proof -
  have pl: "parse_line h = Inr (st, h') \<Longrightarrow> same_fd h h'" for st h'
    by (auto simp: parse_line_def same_fd_def)
  have "same_fd h h" by (simp add: same_fd_def)
  then have b: "ok_r (\<lambda>r. case r of Inl (st, h', g') \<Rightarrow> same_fd h h' \<and> same_globals g g'
     | Inr (ret, h', g') \<Rightarrow> same_fd h h' \<and> same_globals g g') (read_body fs query t h1 g)" if "same_fd h h1" for h1
    using that by (intro ok_mono [OF read_body_frame])
      (auto split: sum.splits dest: same_conn_fd intro: same_fd_trans)
  show ?thesis unfolding read_round_def
    by (intro ok_intros b) (auto dest: pl simp: same_fd_def)
qed

lemma process_read_frame:
  "ok_r (\<lambda>(ret, h', g'). same_fd h h' \<and> same_globals g g') (process_read_loop fs query t st h g)"
proof (induction fs query t st h g rule: process_read_loop.induct)
  case (1 fs query t st h g)
  show ?case
  proof (subst process_read_loop.simps, rule ok_bind)
    fix r
    assume r: "read_round fs query t st h g = Inr r"
    note fr = ok_rD [OF read_round_frame r]
    show "ok_r (\<lambda>(ret, h', g'). same_fd h h' \<and> same_globals g g')
        (case r of Inl (st, h, g) \<Rightarrow> process_read_loop fs query t st h g | Inr ret \<Rightarrow> Inr ret)"
    proof (cases r)
      case (Inl x)
      obtain st' h' g' where x: "x = (st', h', g')" by (cases x)
      have "ok_r (\<lambda>(ret, h2, g2). same_fd h' h2 \<and> same_globals g' g2) (process_read_loop fs query t st' h' g')"
        using "1.IH" [OF r Inl] x by simp
      then show ?thesis using fr Inl x
        by (auto elim!: ok_mono intro: same_fd_trans same_globals_trans)
    next
      case (Inr x)
      then show ?thesis using fr by (auto intro!: ok_intros)
    qed
  qed
qed

end
