(* ===== verification/Http_Read.thy ===== *)
theory Http_Read
  imports Http_Request
begin

text \<open>
  Whole requests through \<open>process_read\<close>: a request line, any number of header lines, the
  blank line and the content are taken apart as the client wrote them, and \<open>do_request\<close> is called
  with the URL, the content and the connection options of the request.
\<close>

section \<open>One line\<close>

definition clean :: "string \<Rightarrow> bool" where
  "clean l \<longleftrightarrow> list_all (\<lambda>c. c \<noteq> CR \<and> c \<noteq> LF \<and> c \<noteq> NUL) l"

definition add_logs :: "(int \<times> string) list \<Rightarrow> http_globals \<Rightarrow> http_globals" where
  "add_logs ls g = g\<lparr>log_calls := log_calls g @ ls\<rparr>"

lemma add_logs_simps [simp]:
  "add_logs [] g = g" "add_logs l2 (add_logs l1 g) = add_logs (l1 @ l2) g"
  by (simp_all add: add_logs_def)

lemma log_msg_add: "log_msg lv cl m g = add_logs (if 0 = cl then [(lv, m)] else []) g"
  by (simp add: log_msg_def add_logs_def)

lemma log_cstr_ok:
  "cstr_at b i = Inr s \<Longrightarrow> log_cstr lv cl pre b i g = Inr (add_logs (if 0 = cl then [(lv, pre @ s)] else []) g)"
  by (simp add: log_cstr_def log_msg_add)

lemma agree_outside_suffix:
  assumes "agree_outside lo hi (p @ r) b'" "hi < int (length p)"
  shows "\<exists>p'. b' = p' @ r \<and> length p' = length p"
proof (intro exI conjI)
  have "drop (length p) b' = drop (length p) (p @ r)"
    using assms by (intro nth_equalityI) (auto simp: agree_outside_def)
  then show "b' = take (length p) b' @ r" by (metis append_eq_conv_conj append_take_drop_id)
  show "length (take (length p) b') = length p" using assms(1) by (auto simp: agree_outside_def)
qed

text \<open>The scanner on a clean line at the current position.\<close>

lemma parse_line_clean:
  assumes "m_read_buf h = P @ l @ CR # LF # rest" "m_checked_idx h = int (length P)" "clean l"
    and "int (length P + length l + 2) \<le> m_read_idx h"
  shows "parse_line h = Inr (LINE_OK, h\<lparr>m_read_buf := P @ l @ NUL # NUL # rest,
      m_checked_idx := int (length P + length l + 2)\<rparr>)"
proof -
  have "parse_line_loop (P @ l @ CR # LF # rest) (int (length P)) (m_read_idx h) =
      Inr (LINE_OK, P @ l @ NUL # NUL # rest, int (length P) + int (length l) + 2)"
    using assms(3,4) by (intro parse_line_loop_line) (simp_all add: clean_def list_all_iff)
  then show ?thesis by (simp add: parse_line_def assms(1,2))
qed

lemma clean_cstr: "clean l \<Longrightarrow> cstr_at (P @ l @ NUL # rest) (int (length P)) = Inr l"
  by (rule cstr_at_append) (auto simp: clean_def list_all_iff)

definition at_line :: "http_conn \<Rightarrow> char list \<Rightarrow> string \<Rightarrow> char list \<Rightarrow> bool" where
  "at_line h P l rest \<longleftrightarrow> m_read_buf h = P @ l @ CR # LF # rest \<and> clean l \<and>
     m_checked_idx h = int (length P) \<and> m_start_line h = int (length P) \<and>
     int (length P + length l + 2) \<le> m_read_idx h"

text \<open>The object after the scanner, with \<open>m_start_line\<close> moved to the next line.\<close>

definition after_line :: "http_conn \<Rightarrow> char list \<Rightarrow> string \<Rightarrow> char list \<Rightarrow> http_conn" where
  "after_line h P l rest = h\<lparr>m_read_buf := P @ l @ NUL # NUL # rest,
      m_checked_idx := int (length P + length l + 2), m_start_line := int (length P + length l + 2)\<rparr>"

lemma read_round_line:
  assumes "at_line h P l rest" "m_check_state h \<noteq> CHECK_STATE_CONTENT"
  shows "read_round fs query t st h g =
    (let g' = add_logs (if 0 = m_close_log h then [(1, l)] else []) g; h' = after_line h P l rest in
     case m_check_state h of
       CHECK_STATE_REQUESTLINE \<Rightarrow>
          bind_r (parse_request_line (int (length P)) h') (\<lambda>(ret, h).
            if ret = BAD_REQUEST then Inr (Inr (BAD_REQUEST, h, g')) else Inr (Inl (LINE_OK, h, g')))
     | _ \<Rightarrow> bind_r (parse_headers (int (length P)) h' g') (\<lambda>(ret, h, g).
            if ret = BAD_REQUEST then Inr (Inr (BAD_REQUEST, h, g))
            else if ret = GET_REQUEST then bind_r (do_request fs query t h g) (\<lambda>r. Inr (Inr r))
            else Inr (Inl (LINE_OK, h, g))))"
proof -
  have pl: "parse_line h = Inr (LINE_OK, h\<lparr>m_read_buf := P @ l @ NUL # NUL # rest,
      m_checked_idx := int (length P + length l + 2)\<rparr>)"
    using assms(1) by (intro parse_line_clean) (auto simp: at_line_def)
  have lg: "log_cstr 1 cl [] (P @ l @ NUL # NUL # rest) (int (length P)) g
      = Inr (add_logs (if 0 = cl then [(1, l)] else []) g)" for cl
    using log_cstr_ok [OF clean_cstr] assms(1) by (simp add: at_line_def)
  show ?thesis using assms
    by (cases "m_check_state h")
      (simp_all add: read_round_def pl read_body_def Let_def lg get_line_def at_line_def after_line_def)
qed

section \<open>The request line and the headers\<close>

lemma page_of_length: "length (page_of url) \<le> length url + 10"
  by (simp add: page_of_def)

lemma request_round:
  assumes l: "l = request_line meth b1 ws1 url b2 ws2 ver" and good: "good_line meth b1 ws1 url b2 ws2 ver"
    and at: "at_line h P l rest" and st: "m_check_state h = CHECK_STATE_REQUESTLINE"
  shows "\<exists>P' u v. read_round fs query t ls h g = Inr (Inl (LINE_OK,
      (after_line h P l rest)\<lparr>m_method := (if eq_nocase meth ''GET'' then GET else POST),
        cgi := (if eq_nocase meth ''GET'' then cgi h else 1),
        m_url := Some u, m_version := Some v, m_read_buf := P' @ rest, m_check_state := CHECK_STATE_HEADER\<rparr>,
      add_logs (if 0 = m_close_log h then [(1, l)] else []) g))
    \<and> cstr_at P' u = Inr (page_of url) \<and> length P' = length P + length l + 2"
proof -
  let ?h = "after_line h P l rest" and ?u = "int (length P) + int (length meth) + 1 + int (length ws1)"
  have b: "m_read_buf ?h = (P @ l @ [NUL, NUL]) @ rest" by (simp add: after_line_def)
  have c: "clean l" using at by (simp add: at_line_def)
  have "cstr_at (m_read_buf ?h) (int (length P)) = Inr l" using clean_cstr [OF c] by (simp add: after_line_def)
  then obtain b' v where p: "parse_request_line (int (length P)) ?h = Inr (NO_REQUEST,
        ?h\<lparr>m_method := (if eq_nocase meth ''GET'' then GET else POST),
        cgi := (if eq_nocase meth ''GET'' then cgi ?h else 1),
        m_url := Some ?u, m_version := Some v, m_read_buf := b', m_check_state := CHECK_STATE_HEADER\<rparr>)"
    and u: "cstr_at b' ?u = Inr (page_of url)"
    and ag: "agree_outside (int (length P)) (int (length P) + int (length l) + 1) (m_read_buf ?h) b'"
    using parse_request_line_ok [of ?h "int (length P)" meth b1 ws1 url b2 ws2 ver] good b l by auto
  obtain P' where P': "b' = P' @ rest" "length P' = length P + length l + 2"
    using agree_outside_suffix [of "int (length P)" "int (length P) + int (length l) + 1" "P @ l @ [NUL, NUL]" rest b']
      ag unfolding b by auto
  have "length ver = 8" using good eq_nocase_length [of ver "''HTTP/1.1''"] by (simp add: good_line_def)
  then have "?u + int (length (page_of url)) < int (length P')"
    using page_of_length [of url] P'(2) by (simp add: l request_line_def)
  then have "cstr_at P' ?u = Inr (page_of url)" using u cstr_at_restrict P'(1) by blast
  then show ?thesis
    using p P' read_round_line [OF at] st by (auto simp: Let_def after_line_def)
qed

definition set_header :: "string \<Rightarrow> int option \<Rightarrow> http_conn \<Rightarrow> http_conn" where
  "set_header l host h = h\<lparr>m_linger := m_linger h \<or> keeps_alive l,
     m_content_length := (if is_content_length l then length_value l else m_content_length h),
     m_host := host\<rparr>"

lemma header_round:
  assumes at: "at_line h P l rest" and st: "m_check_state h = CHECK_STATE_HEADER" and l: "l \<noteq> []"
  shows "\<exists>host logs. read_round fs query t ls h g =
     Inr (Inl (LINE_OK, set_header l host (after_line h P l rest), add_logs logs g))"
proof -
  let ?h = "after_line h P l rest" and ?g = "add_logs (if 0 = m_close_log h then [(1, l)] else []) g"
  have c: "clean l" using at by (simp add: at_line_def)
  have a: "cstr_at (m_read_buf ?h) (int (length P)) = Inr l" using clean_cstr [OF c] by (simp add: after_line_def)
  have z: "cstr_at (m_read_buf ?h) (int (length P) + int (length l) + 1) = Inr []"
    using cstr_at_append [of "[]" "P @ l @ [NUL]"] by (simp add: after_line_def)
  have "\<exists>host logs. parse_headers (int (length P)) ?h ?g = Inr (NO_REQUEST, set_header l host ?h, add_logs logs ?g)"
  proof (cases "is_connection l")
    case True
    then have "parse_headers (int (length P)) ?h ?g = Inr (NO_REQUEST, set_header l (m_host ?h) ?h, add_logs [] ?g)"
      using parse_headers_connection [OF a True, of ?g] by (simp add: set_header_def is_content_length_def)
    then show ?thesis by blast
  next
    case nc: False
    then have nk: "\<not> keeps_alive l" by (simp add: keeps_alive_def)
    show ?thesis
    proof (cases "is_content_length l")
      case True
      then have "parse_headers (int (length P)) ?h ?g = Inr (NO_REQUEST, set_header l (m_host ?h) ?h, add_logs [] ?g)"
        using parse_headers_length [OF a True, of ?g] nk by (simp add: set_header_def)
      then show ?thesis by blast
    next
      case False
      have "parse_headers (int (length P)) ?h ?g = Inr (NO_REQUEST,
          set_header l (if eq_nocase l ''Host'' then Some (int (length P) + 5) else m_host ?h) ?h,
          add_logs (if eq_nocase l ''Host'' \<or> 0 \<noteq> m_close_log ?h then [] else [(1, ''oop! unknown header: '' @ l)]) ?g)"
        using parse_headers_other [OF a l nc False z, of ?g] nk False
        by (simp add: set_header_def log_msg_add del: add_logs_simps(2))
      then show ?thesis by blast
    qed
  qed
  then obtain host logs where
    "parse_headers (int (length P)) ?h ?g = Inr (NO_REQUEST, set_header l host ?h, add_logs logs ?g)" by blast
  then have "read_round fs query t ls h g = Inr (Inl (LINE_OK, set_header l host ?h, add_logs logs ?g))"
    using read_round_line [OF at, of fs query t ls g] st by (simp add: Let_def)
  then show ?thesis unfolding add_logs_simps by blast
qed

definition headers_text :: "string list \<Rightarrow> string" where
  "headers_text ls = concat (map (\<lambda>l. l @ [CR, LF]) ls)"

definition content_length_of :: "int \<Rightarrow> string list \<Rightarrow> int" where
  "content_length_of n ls = fold (\<lambda>l n. if is_content_length l then length_value l else n) ls n"

definition good_headers :: "string list \<Rightarrow> bool" where
  "good_headers ls \<longleftrightarrow> list_all (\<lambda>l. l \<noteq> [] \<and> clean l) ls"

text \<open>The object after the header lines, up to the blank line.\<close>

definition after_headers :: "http_conn \<Rightarrow> string list \<Rightarrow> int option \<Rightarrow> char list \<Rightarrow> char list \<Rightarrow> http_conn" where
  "after_headers h ls host P rest = h\<lparr>m_linger := m_linger h \<or> list_ex keeps_alive ls,
     m_content_length := content_length_of (m_content_length h) ls, m_host := host,
     m_read_buf := P @ rest, m_checked_idx := int (length P), m_start_line := int (length P)\<rparr>"

lemma process_read_loop_go:
  "read_round fs query t st h g = Inr (Inl (st', h', g')) \<Longrightarrow>
   process_read_loop fs query t st h g = process_read_loop fs query t st' h' g'"
  by (subst process_read_loop.simps) simp

lemma headers_loop:
  assumes "m_read_buf h = P @ headers_text ls @ rest" "good_headers ls"
    and "m_checked_idx h = int (length P)" "m_start_line h = int (length P)"
    and "int (length P + length (headers_text ls)) \<le> m_read_idx h" "m_check_state h = CHECK_STATE_HEADER"
  shows "\<exists>P' host logs. length P' = length (headers_text ls) \<and>
     process_read_loop fs query t LINE_OK h g =
     process_read_loop fs query t LINE_OK (after_headers h ls host (P @ P') rest) (add_logs logs g)"
  using assms
proof (induction ls arbitrary: h P g)
  case Nil
  then have "after_headers h [] (m_host h) (P @ []) rest = h"
    by (simp add: after_headers_def content_length_of_def headers_text_def)
  then show ?case by (intro exI [of _ "[]"] exI [of _ "m_host h"]) (simp add: headers_text_def)
next
  case (Cons l ls)
  let ?rest = "headers_text ls @ rest" and ?P = "P @ l @ [NUL, NUL]"
  have at: "at_line h P l ?rest" and l: "l \<noteq> []"
    using Cons.prems by (auto simp: at_line_def headers_text_def good_headers_def)
  obtain host logs where r: "read_round fs query t LINE_OK h g =
     Inr (Inl (LINE_OK, set_header l host (after_line h P l ?rest), add_logs logs g))"
    using header_round [OF at Cons.prems(6) l] by blast
  let ?h = "set_header l host (after_line h P l ?rest)"
  have "\<exists>P' host logs'. length P' = length (headers_text ls) \<and>
     process_read_loop fs query t LINE_OK ?h (add_logs logs g) =
     process_read_loop fs query t LINE_OK (after_headers ?h ls host (?P @ P') rest) (add_logs logs' (add_logs logs g))"
    using Cons.prems by (intro Cons.IH)
      (auto simp: set_header_def after_line_def good_headers_def headers_text_def)
  then obtain P' host' logs' where P': "length P' = length (headers_text ls)"
     "process_read_loop fs query t LINE_OK ?h (add_logs logs g) =
     process_read_loop fs query t LINE_OK (after_headers ?h ls host' (?P @ P') rest) (add_logs (logs @ logs') g)"
    by auto
  have "after_headers ?h ls host' (?P @ P') rest = after_headers h (l # ls) host' (P @ (l @ NUL # NUL # P')) rest"
    by (simp add: after_headers_def set_header_def after_line_def content_length_of_def)
  then have "process_read_loop fs query t LINE_OK h g =
     process_read_loop fs query t LINE_OK (after_headers h (l # ls) host' (P @ (l @ NUL # NUL # P')) rest)
       (add_logs (logs @ logs') g)"
    using process_read_loop_go [OF r] P'(2) by (simp only:)
  moreover have "length (l @ NUL # NUL # P') = length (headers_text (l # ls))"
    using P'(1) by (simp add: headers_text_def)
  ultimately show ?case by blast
qed

section \<open>The blank line and the content\<close>

lemma blank_round_get:
  assumes at: "at_line h P [] rest" and st: "m_check_state h = CHECK_STATE_HEADER" and n: "m_content_length h = 0"
  shows "\<exists>logs. process_read_loop fs query t LINE_OK h g =
     do_request fs query t (after_line h P [] rest) (add_logs logs g)"
proof -
  let ?h = "after_line h P [] rest" and ?g = "add_logs (if 0 = m_close_log h then [(1, [])] else []) g"
  have "cstr_at (m_read_buf ?h) (int (length P)) = Inr []"
    using cstr_at_append [of "[]" P] by (simp add: after_line_def)
  then have "parse_headers (int (length P)) ?h ?g = Inr (GET_REQUEST, ?h, ?g)"
    using parse_headers_blank n by (simp add: after_line_def)
  then have "read_round fs query t LINE_OK h g = bind_r (do_request fs query t ?h ?g) (\<lambda>r. Inr (Inr r))"
    using read_round_line [OF at, of fs query t LINE_OK g] st by (simp add: Let_def)
  then have "process_read_loop fs query t LINE_OK h g = do_request fs query t ?h ?g"
    by (subst process_read_loop.simps) (cases "do_request fs query t ?h ?g"; simp)
  then show ?thesis by blast
qed

lemma blank_round_content:
  assumes at: "at_line h P [] rest" and st: "m_check_state h = CHECK_STATE_HEADER" and n: "m_content_length h \<noteq> 0"
  shows "\<exists>logs. process_read_loop fs query t LINE_OK h g =
     process_read_loop fs query t LINE_OK ((after_line h P [] rest)\<lparr>m_check_state := CHECK_STATE_CONTENT\<rparr>) (add_logs logs g)"
proof -
  let ?h = "after_line h P [] rest" and ?g = "add_logs (if 0 = m_close_log h then [(1, [])] else []) g"
  have "cstr_at (m_read_buf ?h) (int (length P)) = Inr []"
    using cstr_at_append [of "[]" P] by (simp add: after_line_def)
  then have "parse_headers (int (length P)) ?h ?g = Inr (NO_REQUEST, ?h\<lparr>m_check_state := CHECK_STATE_CONTENT\<rparr>, ?g)"
    using parse_headers_blank n by (simp add: after_line_def)
  then have "read_round fs query t LINE_OK h g =
      Inr (Inl (LINE_OK, ?h\<lparr>m_check_state := CHECK_STATE_CONTENT\<rparr>, ?g))"
    using read_round_line [OF at, of fs query t LINE_OK g] st by (simp add: Let_def)
  from process_read_loop_go [OF this] show ?thesis by blast
qed

lemma content_round:
  assumes st: "m_check_state h = CHECK_STATE_CONTENT"
    and b: "m_read_buf h = P @ body @ NUL # rest" "NUL \<notin> set body" "m_start_line h = int (length P)"
    and n: "0 \<le> m_content_length h" "m_content_length h \<le> int (length body)"
    and all: "m_content_length h + m_checked_idx h \<le> m_read_idx h"
  shows "\<exists>B logs. process_read_loop fs query t LINE_OK h g =
     do_request fs query t (h\<lparr>m_start_line := m_checked_idx h, m_read_buf := P @ B, m_string := Some (int (length P))\<rparr>)
       (add_logs logs g)
     \<and> cstr_at (P @ B) (int (length P)) = Inr (take (nat (m_content_length h)) body)"
proof -
  let ?h = "h\<lparr>m_start_line := m_checked_idx h\<rparr>" and ?g = "add_logs (if 0 = m_close_log h then [(1, body)] else []) g"
  have at: "cstr_at (m_read_buf ?h) (int (length P)) = Inr body" using b by simp
  obtain b' where pc: "parse_content (int (length P)) ?h = Inr (GET_REQUEST, ?h\<lparr>m_read_buf := b', m_string := Some (int (length P))\<rparr>)"
    "cstr_at b' (int (length P)) = Inr (take (nat (m_content_length h)) body)"
    "agree_outside (int (length P)) (int (length P) + int (length body)) (m_read_buf ?h) b'"
    using parse_content_complete [OF at] n all by auto
  have "take (length P) b' = take (length P) (m_read_buf h)"
    using pc(3) by (intro nth_equalityI) (auto simp: agree_outside_def b(1) nth_append)
  then have B: "b' = P @ drop (length P) b'"
    using append_take_drop_id [of "length P" b'] by (simp add: b(1))
  have lg: "log_cstr 1 (m_close_log h) [] (m_read_buf h) (int (length P)) g = Inr ?g"
    using log_cstr_ok [OF at] by simp
  have "read_round fs query t LINE_OK h g =
      bind_r (do_request fs query t (?h\<lparr>m_read_buf := b', m_string := Some (int (length P))\<rparr>) ?g) (\<lambda>r. Inr (Inr r))"
    using pc(1) lg by (simp add: read_round_def st read_body_def get_line_def b(3) Let_def)
  then have "process_read_loop fs query t LINE_OK h g =
      do_request fs query t (?h\<lparr>m_read_buf := b', m_string := Some (int (length P))\<rparr>) ?g"
    by (subst process_read_loop.simps)
      (cases "do_request fs query t (?h\<lparr>m_read_buf := b', m_string := Some (int (length P))\<rparr>) ?g"; simp)
  then show ?thesis using pc(2) B
    by (intro exI [of _ "drop (length P) b'"] exI [of _ "if 0 = m_close_log h then [(1, body)] else []"]) simp
qed

section \<open>A whole request\<close>

definition request_text :: "string \<Rightarrow> string list \<Rightarrow> string \<Rightarrow> string" where
  "request_text l ls body = l @ CR # LF # headers_text ls @ CR # LF # body"

text \<open>A connection that has just been initialised and has received exactly \<open>msg\<close>.\<close>

definition received :: "string \<Rightarrow> http_conn \<Rightarrow> bool" where
  "received msg h \<longleftrightarrow> (\<exists>z. m_read_buf h = msg @ NUL # z) \<and> m_read_idx h = int (length msg) \<and>
     m_checked_idx h = 0 \<and> m_start_line h = 0 \<and> m_check_state h = CHECK_STATE_REQUESTLINE \<and>
     \<not> m_linger h \<and> m_content_length h = 0 \<and> cgi h = 0"

text \<open>
  What the request line and the headers set, and the members they leave alone: the relation of the
  object \<open>h\<close> the request arrived at to the object \<open>h'\<close> on which \<open>do_request\<close> is called.
\<close>

definition head_parsed :: "http_conn \<Rightarrow> string \<Rightarrow> string list \<Rightarrow> http_conn \<Rightarrow> bool" where
  "head_parsed h meth ls h' \<longleftrightarrow>
     m_method h' = (if eq_nocase meth ''GET'' then GET else POST) \<and>
     cgi h' = (if eq_nocase meth ''GET'' then 0 else 1) \<and>
     m_linger h' = list_ex keeps_alive ls \<and> doc_root h' = doc_root h \<and>
     m_real_file h' = m_real_file h \<and> mysql h' = mysql h \<and> m_sokcfd h' = m_sokcfd h \<and>
     m_write_buf h' = m_write_buf h \<and> m_write_idx h' = m_write_idx h \<and>
     m_close_log h' = m_close_log h \<and> m_TRIGMode h' = m_TRIGMode h"

definition request_ready :: "http_conn \<Rightarrow> string \<Rightarrow> string \<Rightarrow> string list \<Rightarrow> string \<Rightarrow> http_conn \<Rightarrow> bool" where
  "request_ready h meth url ls body h' \<longleftrightarrow> head_parsed h meth ls h' \<and>
     (\<exists>u. m_url h' = Some u \<and> cstr_at (m_read_buf h') u = Inr (page_of url)) \<and>
     (if content_length_of 0 ls = 0 then m_string h' = m_string h
      else \<exists>s. m_string h' = Some s \<and>
        cstr_at (m_read_buf h') s = Inr (take (nat (content_length_of 0 ls)) body))"

text \<open>The object at the blank line, which follows the bytes \<open>P\<close>.\<close>

definition at_blank :: "http_conn \<Rightarrow> string \<Rightarrow> string \<Rightarrow> string list \<Rightarrow> char list \<Rightarrow> char list \<Rightarrow> http_conn \<Rightarrow> bool" where
  "at_blank h meth url ls P rest h' \<longleftrightarrow> head_parsed h meth ls h' \<and>
     m_read_buf h' = P @ CR # LF # rest \<and> m_checked_idx h' = int (length P) \<and>
     m_start_line h' = int (length P) \<and> m_check_state h' = CHECK_STATE_HEADER \<and>
     m_read_idx h' = m_read_idx h \<and> m_content_length h' = content_length_of 0 ls \<and>
     m_string h' = m_string h \<and> (\<exists>u. m_url h' = Some u \<and> cstr_at P u = Inr (page_of url))"

lemma process_read_head:
  assumes l: "l = request_line meth b1 ws1 url b2 ws2 ver" and good: "good_line meth b1 ws1 url b2 ws2 ver"
    and cl: "clean l" and r: "received (request_text l ls body) h" and hs: "good_headers ls"
  shows "\<exists>P z logs h'. process_read fs query t h g = process_read_loop fs query t LINE_OK h' (add_logs logs g)
    \<and> at_blank h meth url ls P (body @ NUL # z) h' \<and> length P + 2 + length body = length (request_text l ls body)"
proof -
  obtain z where z: "m_read_buf h = request_text l ls body @ NUL # z" using r by (auto simp: received_def)
  let ?tail = "CR # LF # body @ NUL # z"
  let ?rest = "headers_text ls @ ?tail" and ?log = "if 0 = m_close_log h then [(1, l)] else []"
  have at: "at_line h [] l ?rest"
    using r cl z by (auto simp: at_line_def received_def request_text_def)
  have st: "m_check_state h = CHECK_STATE_REQUESTLINE" using r by (simp add: received_def)
  obtain P' u v where rr: "read_round fs query t LINE_OK h g = Inr (Inl (LINE_OK,
      (after_line h [] l ?rest)\<lparr>m_method := (if eq_nocase meth ''GET'' then GET else POST),
        cgi := (if eq_nocase meth ''GET'' then cgi h else 1),
        m_url := Some u, m_version := Some v, m_read_buf := P' @ ?rest, m_check_state := CHECK_STATE_HEADER\<rparr>,
      add_logs ?log g))" (is "_ = Inr (Inl (_, ?h, _))")
    and u: "cstr_at P' u = Inr (page_of url)" and lP: "length P' = length l + 2"
    using request_round [OF l good at st, of fs query t LINE_OK g] by auto
  obtain Q host logs where Q: "length Q = length (headers_text ls)"
     "process_read_loop fs query t LINE_OK ?h (add_logs ?log g) =
      process_read_loop fs query t LINE_OK (after_headers ?h ls host (P' @ Q) ?tail) (add_logs logs (add_logs ?log g))"
    using headers_loop [of ?h P' ls ?tail fs query t "add_logs ?log g"] hs r lP
    by (auto simp: after_line_def received_def request_text_def)
  let ?h' = "after_headers ?h ls host (P' @ Q) ?tail"
  have "cstr_at (P' @ Q) u = Inr (page_of url)" using u by (rule cstr_at_extend)
  then have "at_blank h meth url ls (P' @ Q) (body @ NUL # z) ?h'"
    using r by (auto simp: at_blank_def head_parsed_def after_headers_def after_line_def received_def)
  moreover have "length (P' @ Q) + 2 + length body = length (request_text l ls body)"
    using Q(1) lP by (simp add: request_text_def)
  moreover have "process_read fs query t h g = process_read_loop fs query t LINE_OK ?h' (add_logs (?log @ logs) g)"
    using process_read_loop_go [OF rr] Q(2) by (simp only: process_read_def add_logs_simps)
  ultimately show ?thesis by blast
qed

lemma process_read_tail:
  assumes h': "at_blank h meth url ls P (body @ NUL # z) h'" and body: "NUL \<notin> set body"
    and n: "0 \<le> content_length_of 0 ls" "content_length_of 0 ls \<le> int (length body)"
    and len: "int (length P + 2 + length body) \<le> m_read_idx h"
  shows "\<exists>h2 logs. process_read_loop fs query t LINE_OK h' g = do_request fs query t h2 (add_logs logs g)
    \<and> request_ready h meth url ls body h2"
proof -
  let ?rest = "body @ NUL # z" and ?P = "P @ [NUL, NUL]"
  have at: "at_line h' P [] ?rest" using h' len by (simp add: at_blank_def at_line_def clean_def)
  have st: "m_check_state h' = CHECK_STATE_HEADER" using h' by (simp add: at_blank_def)
  obtain u where u: "m_url h' = Some u" "cstr_at P u = Inr (page_of url)" using h' by (auto simp: at_blank_def)
  have uP: "cstr_at (P @ r) u = Inr (page_of url)" for r using u(2) by (rule cstr_at_extend)
  show ?thesis
  proof (cases "content_length_of 0 ls = 0")
    case True
    then obtain logs where "process_read_loop fs query t LINE_OK h' g =
        do_request fs query t (after_line h' P [] ?rest) (add_logs logs g)"
      using blank_round_get [OF at st, of fs query t g] h' by (auto simp: at_blank_def)
    moreover have "request_ready h meth url ls body (after_line h' P [] ?rest)"
      using h' u(1) uP True by (auto simp: request_ready_def at_blank_def after_line_def head_parsed_def)
    ultimately show ?thesis by blast
  next
    case False
    let ?h = "(after_line h' P [] ?rest)\<lparr>m_check_state := CHECK_STATE_CONTENT\<rparr>"
    obtain logs where l1: "process_read_loop fs query t LINE_OK h' g = process_read_loop fs query t LINE_OK ?h (add_logs logs g)"
      using blank_round_content [OF at st, of fs query t g] False h' by (auto simp: at_blank_def)
    have "\<exists>B logs'. process_read_loop fs query t LINE_OK ?h (add_logs logs g) =
        do_request fs query t (?h\<lparr>m_start_line := m_checked_idx ?h, m_read_buf := ?P @ B, m_string := Some (int (length ?P))\<rparr>)
          (add_logs logs' (add_logs logs g))
       \<and> cstr_at (?P @ B) (int (length ?P)) = Inr (take (nat (m_content_length ?h)) body)"
      using body n len h' by (intro content_round) (simp_all add: after_line_def at_blank_def)
    then obtain B logs' where l2: "process_read_loop fs query t LINE_OK ?h (add_logs logs g) =
        do_request fs query t (?h\<lparr>m_start_line := m_checked_idx ?h, m_read_buf := ?P @ B, m_string := Some (int (length ?P))\<rparr>)
          (add_logs (logs @ logs') g)"
      "cstr_at (?P @ B) (int (length ?P)) = Inr (take (nat (content_length_of 0 ls)) body)"
      using h' by (auto simp: after_line_def at_blank_def)
    have "request_ready h meth url ls body
        (?h\<lparr>m_start_line := m_checked_idx ?h, m_read_buf := ?P @ B, m_string := Some (int (length ?P))\<rparr>)"
      using h' u(1) uP [of "[NUL, NUL] @ B"] False l2(2)
      by (auto simp: request_ready_def at_blank_def after_line_def head_parsed_def)
    with l1 l2(1) show ?thesis by metis
  qed
qed

section \<open>Properties\<close>

lemma received_sample:
  "length msg < READ_BUFFER_SIZE \<Longrightarrow> received msg (sample_conn root msg)"
proof -
  assume "length msg < READ_BUFFER_SIZE"
  then have "m_read_buf (sample_conn root msg) = msg @ NUL # replicate (READ_BUFFER_SIZE - length msg - 1) NUL"
    by (simp add: sample_conn_def flip: replicate_Suc)
  then show ?thesis by (auto simp: received_def sample_conn_def)
qed

lemma process_read_whole:
  assumes "l = request_line meth b1 ws1 url b2 ws2 ver" "good_line meth b1 ws1 url b2 ws2 ver" "clean l"
    and "good_headers ls" "received (request_text l ls body) h" "NUL \<notin> set body"
    and "0 \<le> content_length_of 0 ls" "content_length_of 0 ls \<le> int (length body)"
  shows "\<exists>h' logs. process_read fs query t h g = do_request fs query t h' (add_logs logs g) \<and>
     request_ready h meth url ls body h'"
proof -
  obtain P z logs h' where 1: "process_read fs query t h g = process_read_loop fs query t LINE_OK h' (add_logs logs g)"
    "at_blank h meth url ls P (body @ NUL # z) h'" "length P + 2 + length body = length (request_text l ls body)"
    using process_read_head [OF assms(1-3,5,4)] by blast
  have "int (length P + 2 + length body) \<le> m_read_idx h"
    using assms(5) by (simp only: 1(3)) (simp add: received_def)
  then obtain h2 logs' where 2: "process_read_loop fs query t LINE_OK h' (add_logs logs g) =
      do_request fs query t h2 (add_logs logs' (add_logs logs g))" "request_ready h meth url ls body h2"
    using process_read_tail [OF 1(2) assms(6-8), of fs query t "add_logs logs g"] by blast
  have "process_read fs query t h g = do_request fs query t h2 (add_logs (logs @ logs') g)"
    using 1(1) 2(1) by simp
  with 2(2) show ?thesis by blast
qed

text \<open>
  C3. A well-formed request that has arrived whole is understood as it was written: process_read
  calls do_request on an object that carries the method, the URL (the judge page for the bare
  slash), the keep-alive option if some header asked for it, and, when the headers announce a
  content of n bytes, the first n bytes behind the blank line as the content. The globals
  change only by messages in the log.
\<close>

theorem process_read_request:
  assumes "l = request_line meth b1 ws1 url b2 ws2 ver" "good_line meth b1 ws1 url b2 ws2 ver" "clean l"
    and "good_headers ls" "received (request_text l ls body) h" "NUL \<notin> set body"
    and "0 \<le> content_length_of 0 ls" "content_length_of 0 ls \<le> int (length body)"
  shows "\<exists>h' logs. process_read fs query t h g = do_request fs query t h' (add_logs logs g) \<and>
     request_ready h meth url ls body h'"
  using process_read_whole [OF assms] .

theorem process_read_request_witness:
  "\<exists>h' logs. process_read (\<lambda>_. None) (\<lambda>_ _. 0) 0
       (sample_conn ''/srv'' (request_text ''POST /2 HTTP/1.1'' [''Host: h'', ''Content-Length: 4''] ''user&x'')) sample_globals
     = do_request (\<lambda>_. None) (\<lambda>_ _. 0) 0 h' (add_logs logs sample_globals) \<and> m_method h' = POST \<and>
     (\<exists>s. m_string h' = Some s \<and> cstr_at (m_read_buf h') s = Inr ''user'')"
proof -
  let ?ls = "[''Host: h'', ''Content-Length: 4'']" and ?l = "''POST /2 HTTP/1.1''"
  let ?h = "sample_conn ''/srv'' (request_text ?l ?ls ''user&x'')"
  have l: "?l = request_line ''POST'' (CHR '' '') [] ''/2'' (CHR '' '') [] ''HTTP/1.1''"
    by (simp add: request_line_def)
  have g: "good_line ''POST'' (CHR '' '') [] ''/2'' (CHR '' '') [] ''HTTP/1.1''" "clean ?l" "good_headers ?ls"
    by code_simp+
  have r: "received (request_text ?l ?ls ''user&x'') ?h"
    by (rule received_sample) (simp add: request_text_def headers_text_def READ_BUFFER_SIZE_def)
  have n: "NUL \<notin> set ''user&x''" by (simp add: NUL_def)
  have c: "content_length_of 0 ?ls = 4" "\<not> eq_nocase ''POST'' ''GET''" by code_simp+
  have "0 \<le> content_length_of 0 ?ls" "content_length_of 0 ?ls \<le> int (length ''user&x'')" by (simp_all add: c(1))
  from process_read_request [OF l g r n this, of "\<lambda>_. None" "\<lambda>_ _. 0" 0 sample_globals]
  show ?thesis using c by (auto simp: request_ready_def head_parsed_def)
qed

text \<open>
  A content that is not yet complete is fatal: when fewer bytes have arrived than the headers
  announce, process_read runs into the end of parse_content, which returns no value in that case,
  instead of waiting for the rest.
\<close>

theorem partial_content_no_return:
  assumes "l = request_line meth b1 ws1 url b2 ws2 ver" "good_line meth b1 ws1 url b2 ws2 ver" "clean l"
    and "good_headers ls" "received (request_text l ls body) h" "NUL \<notin> set body"
    and "content_length_of 0 ls > int (length body)"
  shows "process_read fs query t h g = Inl Missing_Return"
proof -
  obtain P z logs h' where 1: "process_read fs query t h g = process_read_loop fs query t LINE_OK h' (add_logs logs g)"
    and h': "at_blank h meth url ls P (body @ NUL # z) h'" and len: "length P + 2 + length body = length (request_text l ls body)"
    using process_read_head [OF assms(1-3,5,4)] by blast
  let ?rest = "body @ NUL # z"
  have idx: "m_read_idx h' = int (length P + 2 + length body)"
    using assms(5) h' by (simp only: len) (simp add: received_def at_blank_def)
  have at: "at_line h' P [] ?rest" using h' idx by (simp add: at_blank_def at_line_def clean_def)
  have st: "m_check_state h' = CHECK_STATE_HEADER" and n: "m_content_length h' \<noteq> 0"
    using h' assms(7) by (auto simp: at_blank_def)
  let ?h = "(after_line h' P [] ?rest)\<lparr>m_check_state := CHECK_STATE_CONTENT\<rparr>"
  obtain logs' where 2: "process_read_loop fs query t LINE_OK h' (add_logs logs g) =
      process_read_loop fs query t LINE_OK ?h (add_logs logs' (add_logs logs g))"
    using blank_round_content [OF at st n] by blast
  have s: "cstr_at (m_read_buf ?h) (int (length P + 2)) = Inr body"
    using cstr_at_append [of body "P @ [NUL, NUL]" "int (length P + 2)" z] assms(6) by (simp add: after_line_def)
  have "parse_content (int (length P + 2)) (?h\<lparr>m_start_line := m_checked_idx ?h\<rparr>) = Inl Missing_Return"
    using parse_content_incomplete [of "?h\<lparr>m_start_line := m_checked_idx ?h\<rparr>" "int (length P + 2)" body] s h' assms(7) idx
    by (simp add: after_line_def at_blank_def)
  then have "read_round fs query t LINE_OK ?h g' = Inl Missing_Return" for g'
    using log_cstr_ok [OF s, of 1 "m_close_log h'" "[]" g']
    by (simp add: read_round_def read_body_def Let_def get_line_def after_line_def)
  then show ?thesis using 1 2 by (simp add: process_read_loop.simps)
qed

theorem partial_content_no_return_witness:
  "process_read (\<lambda>_. None) (\<lambda>_ _. 0) 0
     (sample_conn ''/srv'' (request_text ''POST /2 HTTP/1.1'' [''Content-Length: 9''] ''user'')) sample_globals = Inl Missing_Return"
proof -
  let ?ls = "[''Content-Length: 9'']" and ?l = "''POST /2 HTTP/1.1''"
  have l: "?l = request_line ''POST'' (CHR '' '') [] ''/2'' (CHR '' '') [] ''HTTP/1.1''"
    by (simp add: request_line_def)
  have g: "good_line ''POST'' (CHR '' '') [] ''/2'' (CHR '' '') [] ''HTTP/1.1''" "clean ?l" "good_headers ?ls"
    by code_simp+
  have r: "received (request_text ?l ?ls ''user'') (sample_conn ''/srv'' (request_text ?l ?ls ''user''))"
    by (rule received_sample) (simp add: request_text_def headers_text_def READ_BUFFER_SIZE_def)
  have "content_length_of 0 ?ls = 9" by code_simp
  then show ?thesis
    by (intro partial_content_no_return [OF l g r]) (simp_all add: NUL_def)
qed

end
