(* ===== verification/Http_Serve.thy ===== *)
theory Http_Serve
  imports Http_Read
begin

text \<open>
  What \<open>do_request\<close> answers: the path it opens for a URL, the outcome for every kind of file,
  and the effect of the login and registration forms on the table of users. With the parser
  theorems of \<open>Http_Read\<close> these are statements on whole requests.
\<close>

section \<open>The path of a URL\<close>

definition last_part :: "string \<Rightarrow> string" where
  "last_part url = rev (takeWhile (\<lambda>c. c \<noteq> CHR ''/'') (rev url))"

definition page_code :: "string \<Rightarrow> char" where
  "page_code url = (case last_part url of [] \<Rightarrow> NUL | c # cs \<Rightarrow> c)"

text \<open>The bytes of the path buffer behind the document root, and the path they spell.\<close>

definition target_path :: "string \<Rightarrow> string \<Rightarrow> string" where
  "target_path root url = root @ (case fixed_page (page_code url) of
      Some page \<Rightarrow> page | None \<Rightarrow> take (FILENAME_LEN - 1 - length root) url)"

definition good_root :: "string \<Rightarrow> bool" where
  "good_root root \<longleftrightarrow> NUL \<notin> set root \<and> length root + 20 < FILENAME_LEN"

lemma split_last_part:
  assumes "CHR ''/'' \<in> set url"
  shows "\<exists>d. url = d @ CHR ''/'' # last_part url \<and> CHR ''/'' \<notin> set (last_part url)"
proof -
  let ?P = "\<lambda>c. c \<noteq> CHR ''/''"
  have "dropWhile ?P (rev url) \<noteq> []" using assms by (auto simp: dropWhile_eq_Nil_conv)
  then obtain c r where cr: "dropWhile ?P (rev url) = c # r" by (cases "dropWhile ?P (rev url)") auto
  have "c = CHR ''/''" using hd_dropWhile [of ?P "rev url"] cr by auto
  moreover have "rev url = takeWhile ?P (rev url) @ c # r"
    using takeWhile_dropWhile_id [of ?P "rev url"] by (simp only: cr)
  then have "url = rev r @ c # last_part url"
    by (metis last_part_def rev.simps(2) rev_append rev_rev_ident append.assoc append_Cons append_Nil)
  moreover have "CHR ''/'' \<notin> set (last_part url)"
    by (auto simp: last_part_def dest: set_takeWhileD)
  ultimately show ?thesis by blast
qed

lemma page_code_at:
  assumes at: "cstr_at b u = Inr url" and s: "CHR ''/'' \<in> set url"
  shows "\<exists>p. strrchr b u (CHR ''/'') = Inr (Some p) \<and> arr_rd b (p + 1) = Inr (page_code url) \<and> u \<le> p \<and> p < u + int (length url)"
proof -
  obtain d where d: "url = d @ CHR ''/'' # last_part url" "CHR ''/'' \<notin> set (last_part url)"
    using split_last_part [OF s] by blast
  have at': "cstr_at b u = Inr (d @ CHR ''/'' # last_part url)" using at d(1) by simp
  let ?p = "u + int (length d)"
  have r: "strrchr b u (CHR ''/'') = Inr (Some ?p)" using strrchr_found [OF at' d(2)] .
  have "cstr_at b (?p + 1) = Inr (last_part url)"
    using cstr_at_suffix [of b u "d @ ''/''" "last_part url"] at' by (simp add: algebra_simps)
  then have "arr_rd b (?p + 1) = Inr (page_code url)"
    by (cases "last_part url") (auto simp: page_code_def intro: cstr_at_nil cstr_at_nth)
  moreover have "length url = length d + 1 + length (last_part url)"
    by (subst d(1)) simp
  ultimately show ?thesis using r by auto
qed

lemma fixed_page_length: "fixed_page c = Some p \<Longrightarrow> length p \<le> 14 \<and> NUL \<notin> set p"
  by (auto simp: fixed_page_def NUL_def split: if_splits)

text \<open>\<open>strncpy\<close> to the bytes \<open>X\<close> behind the root in a terminated buffer.\<close>

lemma strncpy_path:
  assumes "NUL \<notin> set root" "NUL \<notin> set s"
  shows "\<exists>b. strncpy (root @ X @ NUL # Y) (int (length root)) s (length X) = Inr b \<and>
     cstr_at b 0 = Inr (root @ take (length X) s)"
proof -
  let ?n = "length X" and ?w = "take (length X) (s @ replicate (length X) NUL)"
  have "strncpy (root @ X @ NUL # Y) (int (length root)) s ?n = Inr (root @ ?w @ NUL # Y)"
    unfolding strncpy_def by (intro write_at_append) simp_all
  moreover have "root @ ?w @ NUL # Y = (root @ take ?n s) @ NUL # (replicate (?n - length s) NUL @ Y)"
    by (cases "?n \<le> length s") (auto simp: replicate_app_Cons_same take_replicate min_def)
  moreover have "cstr_at ((root @ take ?n s) @ NUL # (replicate (?n - length s) NUL @ Y)) 0 = Inr (root @ take ?n s)"
    using assms cstr_append [of "root @ take ?n s"] by (auto simp: cstr_at_def dest: in_set_takeD)
  ultimately show ?thesis by metis
qed

text \<open>The path buffer holds the root, some bytes, and a zero at the end.\<close>

definition root_buf :: "string \<Rightarrow> char list \<Rightarrow> bool" where
  "root_buf root b \<longleftrightarrow> (\<exists>X. b = root @ X @ [NUL] \<and> length b = FILENAME_LEN)"

lemma strcpy_root:
  assumes "good_root root"
  shows "strcpy (replicate FILENAME_LEN NUL) 0 root = Inr (root @ replicate (FILENAME_LEN - length root) NUL)"
proof -
  let ?m = "FILENAME_LEN - length root - 1"
  have "replicate FILENAME_LEN NUL = [] @ replicate (length root + 1) NUL @ replicate ?m NUL"
    using assms by (simp add: good_root_def replicate_add [symmetric] del: replicate_Suc)
  moreover have "write_at ([] @ replicate (length root + 1) NUL @ replicate ?m NUL) 0 (root @ [NUL])
      = Inr ([] @ (root @ [NUL]) @ replicate ?m NUL)"
    by (rule write_at_append) simp_all
  moreover have "[NUL] @ replicate ?m NUL = replicate (FILENAME_LEN - length root) NUL"
    using assms by (cases "FILENAME_LEN - length root") (auto simp: good_root_def)
  ultimately show ?thesis by (simp add: strcpy_def)
qed

lemma root_buf_zero:
  assumes "good_root root"
  shows "root_buf root (root @ replicate (FILENAME_LEN - length root) NUL)"
  unfolding root_buf_def
proof (intro exI conjI)
  show "root @ replicate (FILENAME_LEN - length root) NUL =
      root @ replicate (FILENAME_LEN - length root - 1) NUL @ [NUL]"
    using assms by (cases "FILENAME_LEN - length root") (auto simp: good_root_def replicate_append_same)
qed (use assms in \<open>auto simp: good_root_def\<close>)

definition file_outcome :: "disk_file option \<Rightarrow> HTTP_CODE" where
  "file_outcome f = (case f of None \<Rightarrow> NO_RESOURCE
     | Some f \<Rightarrow> if f_mode f AND S_IROTH = 0 then FORBIDDEN_REQUEST
         else if S_ISDIR (f_mode f) then BAD_REQUEST else FILE_REQUEST)"

definition opened :: "disk_file option \<Rightarrow> http_conn \<Rightarrow> http_conn" where
  "opened f h = (case f of None \<Rightarrow> h
     | Some d \<Rightarrow> let h = h\<lparr>m_file_stat := \<lparr>st_size = int (length (f_data d)), st_mode = f_mode d\<rparr>\<rparr> in
         if file_outcome f = FILE_REQUEST then h\<lparr>m_file_address := mmap d\<rparr> else h)"

lemma open_file_eq:
  "cstr_at (m_real_file h) 0 = Inr path \<Longrightarrow> open_file fs h = Inr (file_outcome (fs path), opened (fs path) h)"
  by (auto simp: open_file_def file_outcome_def opened_def Let_def split: option.splits)

lemma choose_file_url:
  assumes b: "root_buf root (m_real_file h)" and root: "good_root root" and at: "cstr_at (m_read_buf h) u = Inr url"
    and c: "arr_rd (m_read_buf h) (p + 1) = Inr c" "fixed_page c = None"
  shows "\<exists>r. choose_file (int (length root)) u p h = Inr (h\<lparr>m_real_file := r\<rparr>) \<and>
     cstr_at r 0 = Inr (root @ take (FILENAME_LEN - 1 - length root) url)"
proof -
  obtain X where X: "m_real_file h = root @ X @ [NUL]" "length X = FILENAME_LEN - 1 - length root"
    using b by (auto simp: root_buf_def)
  have n: "nat (int FILENAME_LEN - int (length root) - 1) = length X"
    using X(2) root by (simp add: good_root_def nat_diff_distrib)
  obtain r where "strncpy (m_real_file h) (int (length root)) url (length X) = Inr r"
    "cstr_at r 0 = Inr (root @ take (length X) url)"
    using strncpy_path [of root url X "[]"] cstr_atD(3) [OF at] root X(1) by (auto simp: good_root_def)
  then show ?thesis using c at n X(2) by (auto simp: choose_file_def simp del: arr_rd_in)
qed

lemma choose_file_fixed:
  assumes b: "m_real_file h = root @ replicate (FILENAME_LEN - length root) NUL" and root: "good_root root"
    and c: "arr_rd (m_read_buf h) (p + 1) = Inr c" "fixed_page c = Some page"
  shows "\<exists>r. choose_file (int (length root)) u p h = Inr (h\<lparr>m_real_file := r\<rparr>) \<and> cstr_at r 0 = Inr (root @ page)"
proof -
  have l: "length page \<le> 14" "NUL \<notin> set page" using fixed_page_length [OF c(2)] by auto
  let ?X = "replicate (length page) NUL" and ?Y = "replicate (FILENAME_LEN - length root - length page - 1) NUL"
  have "FILENAME_LEN - length root = length page + Suc (FILENAME_LEN - length root - length page - 1)"
    using root l(1) by (auto simp: good_root_def)
  then have "replicate (FILENAME_LEN - length root) NUL = ?X @ NUL # ?Y" by (metis replicate_Suc replicate_add)
  then have "m_real_file h = root @ ?X @ NUL # ?Y" by (simp add: b)
  then obtain r where "strncpy (m_real_file h) (int (length root)) page (length page) = Inr r"
    "cstr_at r 0 = Inr (root @ page)"
    using strncpy_path [of root page ?X ?Y] l root by (auto simp: good_root_def)
  then show ?thesis using c by (auto simp: choose_file_def simp del: arr_rd_in)
qed

section \<open>Requests that are not forms\<close>

text \<open>The object holds a parsed request for \<open>url\<close>, and the path buffer is still zeroed.\<close>

definition asks_for :: "string \<Rightarrow> int \<Rightarrow> http_conn \<Rightarrow> bool" where
  "asks_for url u h \<longleftrightarrow> m_url h = Some u \<and> cstr_at (m_read_buf h) u = Inr url \<and> CHR ''/'' \<in> set url \<and>
     m_real_file h = replicate FILENAME_LEN NUL \<and> good_root (doc_root h)"

definition is_form :: "string \<Rightarrow> http_conn \<Rightarrow> bool" where
  "is_form url h \<longleftrightarrow> cgi h = 1 \<and> (page_code url = CHR ''2'' \<or> page_code url = CHR ''3'')"

lemma do_request_start:
  assumes h: "asks_for url u h"
  defines "r \<equiv> doc_root h @ replicate (FILENAME_LEN - length (doc_root h)) NUL"
  shows "\<exists>p. u \<le> p \<and> p < u + int (length url) \<and> arr_rd (m_read_buf h) (p + 1) = Inr (page_code url) \<and>
    do_request fs query t h g =
      bind_r (if is_form url h then do_cgi query t (int (length (doc_root h))) u p (h\<lparr>m_real_file := r\<rparr>) g
              else Inr (h\<lparr>m_real_file := r\<rparr>, g)) (\<lambda>(h', g').
      bind_r (choose_file (int (length (doc_root h))) u p h') (\<lambda>h'.
      bind_r (open_file fs h') (\<lambda>(ret, h'). Inr (ret, h', g'))))"
proof -
  have at: "cstr_at (m_read_buf h) u = Inr url" "CHR ''/'' \<in> set url" using h by (auto simp: asks_for_def)
  obtain p where p: "strrchr (m_read_buf h) u (CHR ''/'') = Inr (Some p)"
    "arr_rd (m_read_buf h) (p + 1) = Inr (page_code url)" "u \<le> p" "p < u + int (length url)"
    using page_code_at [OF at] by blast
  have "strcpy (m_real_file h) 0 (doc_root h) = Inr r"
    using h strcpy_root by (simp add: asks_for_def r_def)
  then show ?thesis using p h
    by (intro exI [of _ p]) (simp add: do_request_def Let_def asks_for_def is_form_def del: arr_rd_in)
qed

lemma do_request_file:
  assumes h: "asks_for url u h" and nf: "\<not> is_form url h"
  shows "\<exists>r. do_request fs query t h g =
    (let f = fs (target_path (doc_root h) url) in Inr (file_outcome f, opened f (h\<lparr>m_real_file := r\<rparr>), g))"
proof -
  let ?h = "h\<lparr>m_real_file := doc_root h @ replicate (FILENAME_LEN - length (doc_root h)) NUL\<rparr>"
  have root: "good_root (doc_root h)" using h by (simp add: asks_for_def)
  obtain p where p: "arr_rd (m_read_buf h) (p + 1) = Inr (page_code url)" "do_request fs query t h g =
      bind_r (choose_file (int (length (doc_root h))) u p ?h) (\<lambda>h'. bind_r (open_file fs h') (\<lambda>(ret, h'). Inr (ret, h', g)))"
    using do_request_start [OF h, of fs query t g] nf by auto
  have "\<exists>r. choose_file (int (length (doc_root h))) u p ?h = Inr (?h\<lparr>m_real_file := r\<rparr>)
      \<and> cstr_at r 0 = Inr (target_path (doc_root h) url)"
  proof (cases "fixed_page (page_code url)")
    case None
    then show ?thesis
      using choose_file_url [of "doc_root h" ?h u url p] root_buf_zero [OF root] root p(1) h
      by (simp add: target_path_def asks_for_def del: arr_rd_in)
  next
    case (Some page)
    then show ?thesis
      using choose_file_fixed [of ?h "doc_root h" p _ page u] root p(1)
      by (simp add: target_path_def del: arr_rd_in)
  qed
  then show ?thesis by (auto simp: p(2) open_file_eq Let_def)
qed

section \<open>The form fields\<close>

lemma copy_until_stop:
  assumes "int (length p) = i" "stop \<notin> set w" "int (length d) = j" "length w \<le> length e"
  shows "copy_until (p @ w @ stop # r) i stop (d @ e) j =
     Inr (i + int (length w), j + int (length w), d @ w @ drop (length w) e)"
  using assms
proof (induction w arbitrary: p i d j e)
  case Nil
  then show ?case by (subst copy_until.simps) (simp add: arr_rd_append del: arr_rd_in)
next
  case (Cons c w)
  obtain x e' where e: "e = x # e'" using Cons.prems(4) by (cases e) auto
  have "copy_until ((p @ [c]) @ w @ stop # r) (i + 1) stop ((d @ [c]) @ e') (j + 1) =
     Inr (i + 1 + int (length w), j + 1 + int (length w), (d @ [c]) @ w @ drop (length w) e')"
    using Cons.prems e by (intro Cons.IH) auto
  moreover have "c \<noteq> stop" using Cons.prems(2) by auto
  ultimately show ?case using Cons.prems e
    by (subst copy_until.simps)
      (simp add: arr_rd_append arr_wr_append algebra_simps del: arr_rd_in arr_wr_in)
qed

text \<open>More characters than the array has places: the store behind its end.\<close>

lemma copy_until_overflow:
  assumes "int (length p) = i" "stop \<notin> set w" "int (length d) = j" "length e < length w"
  shows "copy_until (p @ w @ r) i stop (d @ e) j = Inl Out_Of_Bounds"
  using assms
proof (induction w arbitrary: p i d j e)
  case (Cons c w)
  have c: "c \<noteq> stop" using Cons.prems(2) by auto
  show ?case
  proof (cases e)
    case Nil
    then show ?thesis using Cons.prems c
      by (subst copy_until.simps) (simp add: arr_rd_append arr_wr_def del: arr_rd_in)
  next
    case (Cons x e')
    have "copy_until ((p @ [c]) @ w @ r) (i + 1) stop ((d @ [c]) @ e') (j + 1) = Inl Out_Of_Bounds"
      using Cons.prems Cons by (intro Cons.IH) auto
    then show ?thesis using Cons.prems Cons c
      by (subst copy_until.simps) (simp add: arr_rd_append arr_wr_append del: arr_rd_in arr_wr_in)
  qed
qed simp

lemma terminated_field:
  assumes "NUL \<notin> set w" "length w < 100"
  shows "\<exists>b. arr_wr (w @ drop (length w) (replicate 100 NUL)) (int (length w)) NUL = Inr b \<and> cstr_at b 0 = Inr w"
proof -
  obtain k where k: "100 - length w = Suc k" using assms(2) by (cases "100 - length w") auto
  have "arr_wr (w @ NUL # replicate k NUL) (int (length w)) NUL = Inr (w @ NUL # replicate k NUL)"
    by (rule arr_wr_append) simp
  moreover have "cstr_at (w @ NUL # replicate k NUL) 0 = Inr w" using assms(1) by (simp add: cstr_at_def)
  ultimately show ?thesis by (simp add: k)
qed

text \<open>A form is \<open>user=NAME&password=PASSWORD\<close>; only the length of the two field names matters.\<close>

definition form_text :: "string \<Rightarrow> string \<Rightarrow> string \<Rightarrow> string \<Rightarrow> string" where
  "form_text f1 name f2 password = f1 @ name @ CHR ''&'' # f2 @ password"

lemma form_fields_ok:
  assumes at: "cstr_at b s = Inr (form_text f1 name f2 password)" and f: "length f1 = 5" "length f2 = 9"
    and w: "CHR ''&'' \<notin> set name" "length name < 100" "length password < 100"
  shows "form_fields b (Some s) = Inr (name, password)"
proof -
  obtain p r where b: "b = p @ form_text f1 name f2 password @ NUL # r" and p: "int (length p) = s"
    and n: "NUL \<notin> set (form_text f1 name f2 password)" using cstr_atD [OF at] by blast
  have b1: "b = (p @ f1) @ name @ CHR ''&'' # (f2 @ password @ NUL # r)" by (simp add: b form_text_def)
  have b2: "b = (p @ f1 @ name @ CHR ''&'' # f2) @ password @ NUL # r" by (simp add: b form_text_def)
  have c1: "copy_until b (s + 5) (CHR ''&'') (replicate 100 NUL) 0 =
      Inr (s + 5 + int (length name), int (length name), name @ drop (length name) (replicate 100 NUL))"
    using copy_until_stop [of "p @ f1" "s + 5" "CHR ''&''" name "[]" 0 "replicate 100 NUL"] p f w
    unfolding b1 by simp
  have c2: "copy_until b (s + 5 + int (length name) + 10) NUL (replicate 100 NUL) 0 =
      Inr (s + 15 + int (length name) + int (length password), int (length password),
        password @ drop (length password) (replicate 100 NUL))"
    using copy_until_stop [of "p @ f1 @ name @ CHR ''&'' # f2" "s + 15 + int (length name)" NUL password "[]" 0
        "replicate 100 NUL" r] p f w n
    unfolding b2 by (simp add: algebra_simps form_text_def)
  show ?thesis
    using terminated_field [of name] terminated_field [of password] w n c1 c2
    by (auto simp: form_fields_def form_text_def simp del: drop_replicate arr_wr_in)
qed

lemma form_fields_overflow:
  assumes at: "cstr_at b s = Inr (form_text f1 name f2 password)" and f: "length f1 = 5"
    and w: "CHR ''&'' \<notin> set name" "100 \<le> length name"
  shows "form_fields b (Some s) = Inl Out_Of_Bounds"
proof -
  obtain p r where b: "b = p @ form_text f1 name f2 password @ NUL # r" and p: "int (length p) = s"
    using cstr_atD [OF at] by blast
  have b1: "b = (p @ f1) @ name @ CHR ''&'' # (f2 @ password @ NUL # r)" by (simp add: b form_text_def)
  show ?thesis
  proof (cases "length name = 100")
    case True
    then have "copy_until b (s + 5) (CHR ''&'') (replicate 100 NUL) 0 =
        Inr (s + 5 + int (length name), int (length name), name)"
      using copy_until_stop [of "p @ f1" "s + 5" "CHR ''&''" name "[]" 0 "replicate 100 NUL"] p f w
      unfolding b1 by simp
    then show ?thesis using True by (simp add: form_fields_def arr_wr_def)
  next
    case False
    then show ?thesis
      using copy_until_overflow [of "p @ f1" "s + 5" "CHR ''&''" name "[]" 0 "replicate 100 NUL"] p f w
      unfolding b1 by (simp add: form_fields_def)
  qed
qed

section \<open>Login and registration\<close>

lemma sql_insert_text:
  assumes "NUL \<notin> set name" "NUL \<notin> set password" "length name + length password \<le> 151"
  shows "sql_insert name password = Inr (''INSERT INTO user(username,passwd) VALUES('' @ [CHR 0x27] @ name @
      [CHR 0x27, CHR '','', CHR '' '', CHR 0x27] @ password @ [CHR 0x27, CHR '')''])"
proof -
  let ?s0 = "''INSERT INTO user(username,passwd) VALUES(''"
  let ?s1 = "?s0 @ [CHR 0x27]"
  let ?s2 = "?s1 @ name"
  let ?s3 = "?s2 @ [CHR 0x27, CHR '','', CHR '' '', CHR 0x27]"
  let ?s4 = "?s3 @ password"
  have "\<exists>b. strcpy (replicate 200 NUL) 0 ?s0 = Inr b \<and> length b = 200 \<and> cstr_at b 0 = Inr ?s0"
    using write_at_ok [of 0 "?s0 @ [NUL]" "replicate 200 NUL"] strcpy_cstr [of "replicate 200 NUL" 0 ?s0]
    by (auto simp: strcpy_def NUL_def)
  then obtain b0 where b0: "strcpy (replicate 200 NUL) 0 ?s0 = Inr b0" "length b0 = 200" "cstr_at b0 0 = Inr ?s0"
    by blast
  obtain b1 where b1: "strcat b0 0 [CHR 0x27] = Inr b1" "length b1 = 200" "cstr_at b1 0 = Inr ?s1"
    using strcat_eq [OF b0(3), of "[CHR 0x27]"] b0(2) by (auto simp: NUL_def)
  obtain b2 where b2: "strcat b1 0 name = Inr b2" "length b2 = 200" "cstr_at b2 0 = Inr ?s2"
    using strcat_eq [OF b1(3), of name] b1(2) assms by auto
  obtain b3 where b3: "strcat b2 0 [CHR 0x27, CHR '','', CHR '' '', CHR 0x27] = Inr b3" "length b3 = 200" "cstr_at b3 0 = Inr ?s3"
    using strcat_eq [OF b2(3), of "[CHR 0x27, CHR '','', CHR '' '', CHR 0x27]"] b2(2) assms by (auto simp: NUL_def)
  obtain b4 where b4: "strcat b3 0 password = Inr b4" "length b4 = 200" "cstr_at b4 0 = Inr ?s4"
    using strcat_eq [OF b3(3), of password] b3(2) assms by auto
  obtain b5 where b5: "strcat b4 0 [CHR 0x27, CHR '')''] = Inr b5" "cstr_at b5 0 = Inr (?s4 @ [CHR 0x27, CHR '')''])"
    using strcat_eq [OF b4(3), of "[CHR 0x27, CHR '')'']"] b4(2) assms by (auto simp: NUL_def)
  show ?thesis by (simp add: sql_insert_def b0(1) b1(1) b2(1) b3(1) b4(1) b5(1)) (use b5(2) in simp)
qed

lemma set_url_ok:
  assumes u: "0 \<le> u" "u + int (length page) < int (length (m_read_buf h))" "u \<le> p"
    and page: "NUL \<notin> set page" "\<forall>c \<in> set page. fixed_page c = None"
    and c: "arr_rd (m_read_buf h) (p + 1) = Inr c" "fixed_page c = None"
  shows "\<exists>b c'. set_url u page h = Inr (h\<lparr>m_read_buf := b\<rparr>) \<and> cstr_at b u = Inr page \<and>
     arr_rd b (p + 1) = Inr c' \<and> fixed_page c' = None"
proof -
  obtain b where b: "strcpy (m_read_buf h) u page = Inr b"
    using write_at_ok [of u "page @ [NUL]" "m_read_buf h"] u by (auto simp: strcpy_def)
  have l: "length b = length (m_read_buf h)" "cstr_at b u = Inr page" using strcpy_cstr [OF b page(1)] by auto
  have p: "0 \<le> p + 1" "p + 1 < int (length (m_read_buf h))" "c = m_read_buf h ! nat (p + 1)"
    using c(1) by (auto simp: arr_rd_eq_Inr)
  have "b ! nat (p + 1) \<in> set page \<union> {NUL, c}"
    using write_at_nth [of "m_read_buf h" u "page @ [NUL]" b "nat (p + 1)"] b p u
    by (auto simp: strcpy_def nth_append split: if_splits)
  moreover have "fixed_page NUL = None" by (simp add: fixed_page_def NUL_def)
  ultimately have "fixed_page (b ! nat (p + 1)) = None" using page(2) c(2) by auto
  then show ?thesis using b l p by (auto simp: set_url_def)
qed

lemma strncpy_root_buf:
  assumes "root_buf root b" "length root < FILENAME_LEN"
  shows "\<exists>b'. strncpy b (int (length root)) s (nat (int FILENAME_LEN - int (length root) - 1)) = Inr b' \<and> root_buf root b'"
proof -
  obtain X where X: "b = root @ X @ [NUL]" "length b = FILENAME_LEN" using assms(1) by (auto simp: root_buf_def)
  have n: "nat (int FILENAME_LEN - int (length root) - 1) = length X" using X by simp
  let ?w = "take (length X) (s @ replicate (length X) NUL)"
  have "write_at (root @ X @ [NUL]) (int (length root)) ?w = Inr (root @ ?w @ [NUL])"
    by (rule write_at_append) simp_all
  then show ?thesis using X by (auto simp: strncpy_def n root_buf_def)
qed

text \<open>A connection that holds a posted form for \<open>url\<close>.\<close>

definition posts :: "string \<Rightarrow> int \<Rightarrow> string \<Rightarrow> string \<Rightarrow> http_conn \<Rightarrow> bool" where
  "posts url u name password h \<longleftrightarrow> asks_for url u h \<and> is_form url h \<and> length url \<le> 200 \<and>
     u + 20 < int (length (m_read_buf h)) \<and> CHR ''&'' \<notin> set name \<and>
     length name < 100 \<and> length password < 100 \<and> NUL \<notin> set name \<and> NUL \<notin> set password \<and>
     (\<exists>s f1 f2. m_string h = Some s \<and> length f1 = 5 \<and> length f2 = 9 \<and>
        cstr_at (m_read_buf h) s = Inr (form_text f1 name f2 password))"

lemma do_cgi_prefix:
  assumes h: "asks_for url u h" "is_form url h" "length url \<le> 200" and b: "root_buf root r0" "length root < FILENAME_LEN"
    and p: "arr_rd (m_read_buf h) (p + 1) = Inr (page_code url)"
  shows "\<exists>r. root_buf root r \<and> do_cgi query t (int (length root)) u p (h\<lparr>m_real_file := r0\<rparr>) g =
     bind_r (form_fields (m_read_buf h) (m_string h)) (\<lambda>(name, password).
     if page_code url = CHR ''3'' then register query t u name password (h\<lparr>m_real_file := r\<rparr>) g
     else bind_r (login u name password (h\<lparr>m_real_file := r\<rparr>) g) (\<lambda>h. Inr (h, g)))"
proof -
  have at: "cstr_at (m_read_buf h) u = Inr url" "CHR ''/'' \<in> set url"
    using h by (auto simp: asks_for_def)
  have code: "page_code url = CHR ''2'' \<or> page_code url = CHR ''3''" using h by (simp add: is_form_def)
  then have "last_part url \<noteq> []" by (auto simp: page_code_def NUL_def)
  then have "2 \<le> length url" using split_last_part [OF at(2)] by (cases "last_part url") auto
  then obtain x y tl where url: "url = x # y # tl"
    by (metis Suc_le_length_iff numeral_2_eq_2)
  have flag: "arr_rd (m_read_buf h) (u + 1) = Inr y"
    using cstr_at_nth cstr_at_suffix [of "m_read_buf h" u "[x]" "y # tl"] at(1) url by simp
  have tl: "cstr_at (m_read_buf h) (u + 2) = Inr tl" "NUL \<notin> set tl"
    using cstr_at_suffix [of "m_read_buf h" u "[x, y]" tl] at(1) url cstr_atD(3) [OF at(1)] by auto
  have "strcpy (replicate 200 NUL) 0 ''/'' = Inr (''/'' @ NUL # replicate 198 NUL)"
    unfolding strcpy_def using write_at_append [of "[]" 0 "[NUL, NUL]" "''/'' @ [NUL]" "replicate 198 NUL"]
    by (simp add: numeral_eq_Suc)
  moreover obtain r1 where "strcat (''/'' @ NUL # replicate 198 NUL) 0 tl = Inr r1" "cstr_at r1 0 = Inr (''/'' @ tl)"
    using strcat_eq [of "''/'' @ NUL # replicate 198 NUL" 0 "''/''" tl] tl h(3) url
    by (auto simp: cstr_at_def NUL_def)
  moreover obtain r where r: "strncpy r0 (int (length root)) (''/'' @ tl)
      (nat (int FILENAME_LEN - int (length root) - 1)) = Inr r" "root_buf root r"
    using strncpy_root_buf [OF b] by blast
  ultimately show ?thesis using code flag tl p
    by (intro exI [of _ r])
      (auto simp: do_cgi_def Let_def simp del: arr_rd_in intro!: arg_cong [where f = "bind_r _"])
qed

lemma do_cgi_form:
  assumes h: "posts url u name password h" and b: "root_buf root r0" "length root < FILENAME_LEN"
    and p: "arr_rd (m_read_buf h) (p + 1) = Inr (page_code url)"
  shows "\<exists>r. root_buf root r \<and> do_cgi query t (int (length root)) u p (h\<lparr>m_real_file := r0\<rparr>) g =
     (if page_code url = CHR ''3'' then register query t u name password (h\<lparr>m_real_file := r\<rparr>) g
      else bind_r (login u name password (h\<lparr>m_real_file := r\<rparr>) g) (\<lambda>h. Inr (h, g)))"
proof -
  have "form_fields (m_read_buf h) (m_string h) = Inr (name, password)"
    using h form_fields_ok by (auto simp: posts_def)
  moreover have "asks_for url u h" "is_form url h" "length url \<le> 200" using h by (auto simp: posts_def)
  ultimately show ?thesis using do_cgi_prefix [OF _ _ _ b p, of u query t g] by simp
qed

lemma form_page:
  assumes h: "posts url u name password h"
    and cg: "\<And>r p. root_buf (doc_root h) r \<Longrightarrow> u \<le> p \<Longrightarrow> arr_rd (m_read_buf h) (p + 1) = Inr (page_code url) \<Longrightarrow>
      \<exists>b c. do_cgi query t (int (length (doc_root h))) u p (h\<lparr>m_real_file := r\<rparr>) g = Inr (h\<lparr>m_real_file := c, m_read_buf := b\<rparr>, g')
         \<and> cstr_at b u = Inr page \<and> root_buf (doc_root h) c \<and> (\<exists>x. arr_rd b (p + 1) = Inr x \<and> fixed_page x = None)"
    and pg: "length page \<le> 19"
  shows "\<exists>h'. do_request fs query t h g = Inr (file_outcome (fs (doc_root h @ page)), opened (fs (doc_root h @ page)) h', g')"
proof -
  have root: "good_root (doc_root h)" and af: "asks_for url u h" and fm: "is_form url h"
    using h by (auto simp: posts_def asks_for_def)
  let ?r = "doc_root h @ replicate (FILENAME_LEN - length (doc_root h)) NUL"
  obtain p where p: "u \<le> p" "arr_rd (m_read_buf h) (p + 1) = Inr (page_code url)" "do_request fs query t h g =
      bind_r (do_cgi query t (int (length (doc_root h))) u p (h\<lparr>m_real_file := ?r\<rparr>) g) (\<lambda>(h', g').
      bind_r (choose_file (int (length (doc_root h))) u p h') (\<lambda>h'.
      bind_r (open_file fs h') (\<lambda>(ret, h'). Inr (ret, h', g'))))"
    using do_request_start [OF af, of fs query t g] fm by auto
  obtain b c x where cgi: "do_cgi query t (int (length (doc_root h))) u p (h\<lparr>m_real_file := ?r\<rparr>) g
       = Inr (h\<lparr>m_real_file := c, m_read_buf := b\<rparr>, g')" "cstr_at b u = Inr page" "root_buf (doc_root h) c"
       "arr_rd b (p + 1) = Inr x" "fixed_page x = None"
    using cg [OF root_buf_zero [OF root] p(1,2)] by blast
  let ?h = "h\<lparr>m_real_file := c, m_read_buf := b\<rparr>"
  obtain r where r: "choose_file (int (length (doc_root h))) u p ?h = Inr (?h\<lparr>m_real_file := r\<rparr>)"
     "cstr_at r 0 = Inr (doc_root h @ take (FILENAME_LEN - 1 - length (doc_root h)) page)"
    using choose_file_url [of "doc_root h" ?h u page p x] cgi root by auto
  moreover have "take (FILENAME_LEN - 1 - length (doc_root h)) page = page"
    using pg root by (intro take_all) (auto simp: good_root_def)
  ultimately show ?thesis by (auto simp: p(3) cgi(1) open_file_eq)
qed

lemma page_no_code:
  "page \<in> {''/welcome.html'', ''/logError.html'', ''/log.html'', ''/registerError.html''} \<Longrightarrow>
     NUL \<notin> set page \<and> (\<forall>c \<in> set page. fixed_page c = None) \<and> length page \<le> 19"
  by (auto simp: NUL_def fixed_page_def)

lemma form_set_url:
  assumes h: "posts url u name password h" and p: "u \<le> p" "arr_rd (m_read_buf h) (p + 1) = Inr (page_code url)"
    and page: "page \<in> {''/welcome.html'', ''/logError.html'', ''/log.html'', ''/registerError.html''}"
  shows "\<exists>b x. set_url u page (h\<lparr>m_real_file := r\<rparr>) = Inr (h\<lparr>m_real_file := r, m_read_buf := b\<rparr>) \<and>
     cstr_at b u = Inr page \<and> arr_rd b (p + 1) = Inr x \<and> fixed_page x = None"
proof -
  have "fixed_page (page_code url) = None"
    using h by (auto simp: posts_def is_form_def fixed_page_def)
  moreover have "0 \<le> u" using h cstr_atD(1) by (auto simp: posts_def asks_for_def)
  moreover have "u + int (length page) < int (length (m_read_buf h))"
    using h page_no_code [OF page] by (auto simp: posts_def)
  ultimately show ?thesis
    using set_url_ok [of u page "h\<lparr>m_real_file := r\<rparr>" p "page_code url"] p page_no_code [OF page]
    by (simp del: arr_rd_in)
qed

lemma do_request_login:
  fixes g :: http_globals
  assumes h: "posts url u name password h" and code: "page_code url = CHR ''2''"
  defines "page \<equiv> if users g name = Some password then ''/welcome.html'' else ''/logError.html''"
  shows "\<exists>h'. do_request fs query t h g =
     Inr (file_outcome (fs (doc_root h @ page)), opened (fs (doc_root h @ page)) h', g)"
proof (rule form_page [OF h])
  fix r p
  assume r: "root_buf (doc_root h) r" and p: "u \<le> p" "arr_rd (m_read_buf h) (p + 1) = Inr (page_code url)"
  have pg: "page \<in> {''/welcome.html'', ''/logError.html'', ''/log.html'', ''/registerError.html''}"
    by (simp add: page_def)
  have "length (doc_root h) < FILENAME_LEN" using h by (simp add: posts_def asks_for_def good_root_def)
  then obtain r' where r': "root_buf (doc_root h) r'"
    "do_cgi query t (int (length (doc_root h))) u p (h\<lparr>m_real_file := r\<rparr>) g =
       bind_r (login u name password (h\<lparr>m_real_file := r'\<rparr>) g) (\<lambda>h. Inr (h, g))"
    using do_cgi_form [OF h r _ p(2), of query t g] code by auto
  obtain b x where "set_url u page (h\<lparr>m_real_file := r'\<rparr>) = Inr (h\<lparr>m_real_file := r', m_read_buf := b\<rparr>)"
     "cstr_at b u = Inr page" "arr_rd b (p + 1) = Inr x" "fixed_page x = None"
    using form_set_url [OF h p pg, of r'] by blast
  then show "\<exists>b c. do_cgi query t (int (length (doc_root h))) u p (h\<lparr>m_real_file := r\<rparr>) g = Inr (h\<lparr>m_real_file := c, m_read_buf := b\<rparr>, g)
         \<and> cstr_at b u = Inr page \<and> root_buf (doc_root h) c \<and> (\<exists>x. arr_rd b (p + 1) = Inr x \<and> fixed_page x = None)"
    using r' by (intro exI [of _ b] exI [of _ r']) (auto simp: login_def page_def simp del: arr_rd_in)
next
  show "length page \<le> 19" by (simp add: page_def)
qed

text \<open>The statement that registers a user.\<close>

definition insert_statement :: "string \<Rightarrow> string \<Rightarrow> string" where
  "insert_statement name password = ''INSERT INTO user(username,passwd) VALUES('' @ [CHR 0x27] @ name @
      [CHR 0x27, CHR '','', CHR '' '', CHR 0x27] @ password @ [CHR 0x27, CHR '')'']"

lemma do_request_register:
  fixes g :: http_globals and query :: "nat \<Rightarrow> string \<Rightarrow> int"
  assumes h: "posts url u name password h" and code: "page_code url = CHR ''3''"
    and len: "length name + length password \<le> 151" and con: "mysql h = Some con" and free: "owner (m_lock g) = None"
  defines "page \<equiv> if users g name = None \<and> query con (insert_statement name password) = 0
      then ''/log.html'' else ''/registerError.html''"
    and "g' \<equiv> if users g name = None then g\<lparr>users := (users g)(name \<mapsto> password)\<rparr> else g"
  shows "\<exists>h'. do_request fs query t h g =
     Inr (file_outcome (fs (doc_root h @ page)), opened (fs (doc_root h @ page)) h', g')"
proof (rule form_page [OF h])
  fix r p
  assume r: "root_buf (doc_root h) r" and p: "u \<le> p" "arr_rd (m_read_buf h) (p + 1) = Inr (page_code url)"
  have pg: "page \<in> {''/welcome.html'', ''/logError.html'', ''/log.html'', ''/registerError.html''}"
    by (simp add: page_def)
  have sql: "sql_insert name password = Inr (insert_statement name password)"
    using sql_insert_text len h by (simp add: posts_def insert_statement_def)
  have "length (doc_root h) < FILENAME_LEN" using h by (simp add: posts_def asks_for_def good_root_def)
  then obtain r' where r': "root_buf (doc_root h) r'"
    "do_cgi query t (int (length (doc_root h))) u p (h\<lparr>m_real_file := r\<rparr>) g =
       register query t u name password (h\<lparr>m_real_file := r'\<rparr>) g"
    using do_cgi_form [OF h r _ p(2), of query t g] code by auto
  obtain b x where su: "set_url u page (h\<lparr>m_real_file := r'\<rparr>) = Inr (h\<lparr>m_real_file := r', m_read_buf := b\<rparr>)"
     "cstr_at b u = Inr page" "arr_rd b (p + 1) = Inr x" "fixed_page x = None"
    using form_set_url [OF h p pg, of r'] by blast
  have "register query t u name password (h\<lparr>m_real_file := r'\<rparr>) g = Inr (h\<lparr>m_real_file := r', m_read_buf := b\<rparr>, g')"
    using su(1) con free
    by (auto simp: register_def sql Let_def page_def g'_def)
  then show "\<exists>b c. do_cgi query t (int (length (doc_root h))) u p (h\<lparr>m_real_file := r\<rparr>) g = Inr (h\<lparr>m_real_file := c, m_read_buf := b\<rparr>, g')
         \<and> cstr_at b u = Inr page \<and> root_buf (doc_root h) c \<and> (\<exists>x. arr_rd b (p + 1) = Inr x \<and> fixed_page x = None)"
    using r' su by (intro exI [of _ b] exI [of _ r']) (auto simp del: arr_rd_in)
next
  show "length page \<le> 19" by (simp add: page_def)
qed

section \<open>Properties\<close>

lemma slash_in_page: "url \<noteq> [] \<Longrightarrow> hd url = CHR ''/'' \<Longrightarrow> CHR ''/'' \<in> set (page_of url)"
  by (cases url) (auto simp: page_of_def)

lemma process_read_get:
  assumes "l = request_line meth b1 ws1 url b2 ws2 ver" "good_line meth b1 ws1 url b2 ws2 ver" "clean l"
    and "good_headers ls" "received (request_text l ls body) h" "NUL \<notin> set body"
    and "0 \<le> content_length_of 0 ls" "content_length_of 0 ls \<le> int (length body)"
    and "eq_nocase meth ''GET''" "m_real_file h = replicate FILENAME_LEN NUL" "good_root (doc_root h)"
  shows "\<exists>h' logs. let f = fs (target_path (doc_root h) (page_of url)) in
     process_read fs query t h g = Inr (file_outcome f, h', add_logs logs g) \<and> m_linger h' = list_ex keeps_alive ls \<and>
     (\<forall>d. f = Some d \<and> file_outcome f = FILE_REQUEST \<longrightarrow>
        m_file_address h' = mmap d \<and> st_size (m_file_stat h') = int (length (f_data d)))"
proof -
  obtain h1 logs where 1: "process_read fs query t h g = do_request fs query t h1 (add_logs logs g)"
    "request_ready h meth url ls body h1"
    using process_read_whole [OF assms(1-8)] by blast
  have hp: "head_parsed h meth ls h1" using 1(2) by (simp add: request_ready_def)
  obtain u where "asks_for (page_of url) u h1"
    using 1(2) assms(2,10,11) slash_in_page
    by (auto simp: request_ready_def asks_for_def head_parsed_def good_line_def)
  moreover have "\<not> is_form (page_of url) h1" using hp assms(9) by (simp add: head_parsed_def is_form_def)
  ultimately obtain r where "do_request fs query t h1 (add_logs logs g) =
      (let f = fs (target_path (doc_root h1) (page_of url)) in
        Inr (file_outcome f, opened f (h1\<lparr>m_real_file := r\<rparr>), add_logs logs g))"
    using do_request_file by blast
  moreover have "doc_root h1 = doc_root h" "m_linger h1 = list_ex keeps_alive ls" using hp by (simp_all add: head_parsed_def)
  ultimately show ?thesis using 1(1)
    by (intro exI [of _ "opened (fs (target_path (doc_root h) (page_of url))) (h1\<lparr>m_real_file := r\<rparr>)"] exI [of _ logs])
      (auto simp: Let_def opened_def split: option.splits)
qed

text \<open>
  A well-formed GET request is answered from the document root: the file looked up is the root
  followed by the URL (cut to the 199 characters the path buffer holds), or one of five fixed pages
  chosen by the first character of the last path component. The outcome is "no resource" for a
  path that does not exist, "forbidden" for a file others may not read, "bad request" for a
  directory, and otherwise the file, mapped, with its size. The keep-alive option is that of
  the request, and the globals change only by log messages.
\<close>

theorem get_request_served:
  assumes "l = request_line meth b1 ws1 url b2 ws2 ver" "good_line meth b1 ws1 url b2 ws2 ver" "clean l"
    and "good_headers ls" "received (request_text l ls body) h" "NUL \<notin> set body"
    and "0 \<le> content_length_of 0 ls" "content_length_of 0 ls \<le> int (length body)"
    and "eq_nocase meth ''GET''" "m_real_file h = replicate FILENAME_LEN NUL" "good_root (doc_root h)"
  shows "\<exists>h' logs. let f = fs (target_path (doc_root h) (page_of url)) in
     process_read fs query t h g = Inr (file_outcome f, h', add_logs logs g) \<and> m_linger h' = list_ex keeps_alive ls \<and>
     (\<forall>d. f = Some d \<and> file_outcome f = FILE_REQUEST \<longrightarrow>
        m_file_address h' = mmap d \<and> st_size (m_file_stat h') = int (length (f_data d)))"
  using assms by (rule process_read_get)

definition sample_fs :: "string \<Rightarrow> disk_file option" where
  "sample_fs path = (if path = ''/srv/a.html'' then Some \<lparr>f_mode = 0x81A4, f_data = ''hello'', f_opens = True\<rparr> else None)"

theorem get_request_served_witness:
  "\<exists>h' logs. process_read sample_fs (\<lambda>_ _. 0) 0
       (sample_conn ''/srv'' (request_text ''GET /a.html HTTP/1.1'' [''Connection: keep-alive''] [])) sample_globals
     = Inr (FILE_REQUEST, h', add_logs logs sample_globals) \<and> m_file_address h' = Mapped ''hello'' \<and> m_linger h'"
proof -
  let ?ls = "[''Connection: keep-alive'']" and ?l = "''GET /a.html HTTP/1.1''"
  let ?h = "sample_conn ''/srv'' (request_text ?l ?ls [])"
  have l: "?l = request_line ''GET'' (CHR '' '') [] ''/a.html'' (CHR '' '') [] ''HTTP/1.1''"
    by (simp add: request_line_def)
  have g: "good_line ''GET'' (CHR '' '') [] ''/a.html'' (CHR '' '') [] ''HTTP/1.1''" "clean ?l" "good_headers ?ls"
    by code_simp+
  have r: "received (request_text ?l ?ls []) ?h"
    by (rule received_sample) (simp add: request_text_def headers_text_def READ_BUFFER_SIZE_def)
  have n: "NUL \<notin> set []" by simp
  have c: "content_length_of 0 ?ls = 0" "eq_nocase ''GET'' ''GET''" "good_root ''/srv''" "list_ex keeps_alive ?ls" by code_simp+
  have c0: "0 \<le> content_length_of 0 ?ls" "content_length_of 0 ?ls \<le> int (length ([]::string))" by (simp_all add: c(1))
  have f: "m_real_file ?h = replicate FILENAME_LEN NUL" "doc_root ?h = ''/srv''" by (simp_all add: sample_conn_def)
  have root: "good_root (doc_root ?h)" by (simp only: f(2) c(3))
  have t: "target_path ''/srv'' (page_of ''/a.html'') = ''/srv/a.html''" by code_simp
  let ?d = "\<lparr>f_mode = 0x81A4, f_data = ''hello'', f_opens = True\<rparr>"
  have o: "sample_fs ''/srv/a.html'' = Some ?d" "file_outcome (Some ?d) = FILE_REQUEST" "mmap ?d = Mapped ''hello''" by code_simp+
  show ?thesis
    using get_request_served [OF l g r n c0 c(2) f(1) root, of sample_fs "\<lambda>_ _. 0" 0 sample_globals] c(4)
    by (auto simp: f(2) t o Let_def)
qed

text \<open>
  Logging in: for a posted form the server shows the welcome page exactly when the table of users
  holds the name with that password, and the login error page otherwise; the table does
  not change.
\<close>

theorem login_checks_password:
  assumes "posts url u name password h" "page_code url = CHR ''2''"
  shows "\<exists>h'. let page = if users g name = Some password then ''/welcome.html'' else ''/logError.html'';
       f = fs (doc_root h @ page) in
     do_request fs query t h g = Inr (file_outcome f, opened f h', g)"
  using do_request_login [OF assms] by (auto simp: Let_def)

text \<open>A connection with the posted form \<open>user=NAME&password=PASSWORD\<close> for a one-letter page.\<close>

definition sample_post :: "char \<Rightarrow> string \<Rightarrow> string \<Rightarrow> http_conn" where
  "sample_post c name password =
     (sample_conn ''/srv'' (CHR ''/'' # c # NUL # form_text ''user='' name ''password='' password))
       \<lparr>m_url := Some 0, m_string := Some 3, cgi := 1\<rparr>"

lemma sample_post_strings:
  assumes "c \<noteq> NUL" "NUL \<notin> set name" "NUL \<notin> set password" "length name + length password < 1000"
  shows "cstr_at (m_read_buf (sample_post c name password)) 0 = Inr [CHR ''/'', c]"
    "cstr_at (m_read_buf (sample_post c name password)) 3 = Inr (form_text ''user='' name ''password='' password)"
    "length (m_read_buf (sample_post c name password)) = READ_BUFFER_SIZE"
proof -
  let ?f = "form_text ''user='' name ''password='' password"
  let ?k = "READ_BUFFER_SIZE - length ?f - 4"
  have lf: "length ?f + 4 \<le> READ_BUFFER_SIZE" using assms(4) by (simp add: form_text_def READ_BUFFER_SIZE_def)
  then have "READ_BUFFER_SIZE - length (CHR ''/'' # c # NUL # ?f) = Suc ?k" by simp
  then have b: "m_read_buf (sample_post c name password) = [CHR ''/'', c] @ NUL # (?f @ NUL # replicate ?k NUL)"
    by (simp add: sample_post_def sample_conn_def)
  show "cstr_at (m_read_buf (sample_post c name password)) 0 = Inr [CHR ''/'', c]"
    unfolding b using assms(1) cstr_at_append [of "[CHR ''/'', c]" "[]" 0] by (simp add: NUL_def)
  have b2: "m_read_buf (sample_post c name password) = [CHR ''/'', c, NUL] @ ?f @ NUL # replicate ?k NUL"
    by (simp add: b)
  show "cstr_at (m_read_buf (sample_post c name password)) 3 = Inr ?f"
    unfolding b2 by (rule cstr_at_append) (use assms in \<open>auto simp: form_text_def NUL_def\<close>)
  show "length (m_read_buf (sample_post c name password)) = READ_BUFFER_SIZE" using lf by (simp add: b)
qed

lemma sample_posts:
  assumes "c = CHR ''2'' \<or> c = CHR ''3''" "NUL \<notin> set name" "NUL \<notin> set password" "CHR ''&'' \<notin> set name"
    and "length name < 100" "length password < 100"
  shows "posts [CHR ''/'', c] 0 name password (sample_post c name password)"
proof -
  have c: "c \<noteq> NUL" "c \<noteq> CHR ''/''" using assms(1) by (auto simp: NUL_def)
  then have pc: "page_code [CHR ''/'', c] = c" by (simp add: page_code_def last_part_def)
  have "good_root ''/srv''" by code_simp
  then have "asks_for [CHR ''/'', c] 0 (sample_post c name password)"
    using sample_post_strings(1) [OF c(1) assms(2,3)] assms(5,6)
    by (simp add: asks_for_def) (simp add: sample_post_def sample_conn_def)
  moreover have "is_form [CHR ''/'', c] (sample_post c name password)"
    using assms(1) pc by (simp add: is_form_def sample_post_def)
  moreover have "\<exists>s f1 f2. m_string (sample_post c name password) = Some s \<and> length f1 = 5 \<and> length f2 = 9 \<and>
      cstr_at (m_read_buf (sample_post c name password)) s = Inr (form_text f1 name f2 password)"
    using sample_post_strings(2) [OF c(1) assms(2,3)] assms(5,6)
    by (intro exI [of _ 3] exI [of _ "''user=''"] exI [of _ "''password=''"]) (simp add: sample_post_def [of c name password])
  ultimately show ?thesis
    using sample_post_strings(3) [OF c(1) assms(2,3)] assms by (simp add: posts_def READ_BUFFER_SIZE_def)
qed

theorem login_checks_password_witness:
  "\<exists>h'. do_request (\<lambda>_. None) (\<lambda>_ _. 0) 0 (sample_post (CHR ''2'') ''ann'' ''pw'') (sample_globals\<lparr>users := [''ann'' \<mapsto> ''pw'']\<rparr>) =
     Inr (NO_RESOURCE, h', sample_globals\<lparr>users := [''ann'' \<mapsto> ''pw'']\<rparr>)"
proof -
  have p: "posts [CHR ''/'', CHR ''2''] 0 ''ann'' ''pw'' (sample_post (CHR ''2'') ''ann'' ''pw'')"
    by (rule sample_posts) (simp_all add: NUL_def)
  have c: "page_code [CHR ''/'', CHR ''2''] = CHR ''2''" by code_simp
  show ?thesis
    using login_checks_password [OF p c, of "sample_globals\<lparr>users := [''ann'' \<mapsto> ''pw'']\<rparr>" "\<lambda>_. None" "\<lambda>_ _. 0" 0]
    by (auto simp: Let_def file_outcome_def)
qed

text \<open>
  Registering: a name that is not in the table is entered with its password, and the page shown
  tells whether the insert statement, built from name and password by concatenation, succeeded; a
  name already taken changes nothing and shows the error page. The lock is free
  again afterwards.
\<close>

theorem register_adds_user:
  fixes query :: "nat \<Rightarrow> string \<Rightarrow> int"
  assumes "posts url u name password h" "page_code url = CHR ''3''" "length name + length password \<le> 151"
    and "mysql h = Some con" "owner (m_lock g) = None"
  shows "\<exists>h'. let fresh = (users g name = None);
       page = if fresh \<and> query con (insert_statement name password) = 0 then ''/log.html'' else ''/registerError.html'';
       f = fs (doc_root h @ page) in
     do_request fs query t h g =
       Inr (file_outcome f, opened f h', if fresh then g\<lparr>users := (users g)(name \<mapsto> password)\<rparr> else g)"
  using do_request_register [OF assms, where query = query and fs = fs and t = t] by (auto simp: Let_def)

theorem register_adds_user_witness:
  "\<exists>h'. do_request (\<lambda>_. None) (\<lambda>_ _. 0) 0 (sample_post (CHR ''3'') ''ann'' ''pw'') sample_globals =
     Inr (NO_RESOURCE, h', sample_globals\<lparr>users := [''ann'' \<mapsto> ''pw'']\<rparr>)"
proof -
  have p: "posts [CHR ''/'', CHR ''3''] 0 ''ann'' ''pw'' (sample_post (CHR ''3'') ''ann'' ''pw'')"
    by (rule sample_posts) (simp_all add: NUL_def)
  have c: "page_code [CHR ''/'', CHR ''3''] = CHR ''3''" by code_simp
  have d: "length ''ann'' + length ''pw'' \<le> 151" "mysql (sample_post (CHR ''3'') ''ann'' ''pw'') = Some 1"
     "owner (m_lock sample_globals) = None"
    by (simp_all add: sample_post_def sample_conn_def sample_globals_def locker_ctor_def)
  show ?thesis
    using register_adds_user [OF p c d, where query = "\<lambda>_ _. 0" and fs = "\<lambda>_. None" and t = 0]
    by (auto simp: Let_def file_outcome_def sample_globals_def)
qed

text \<open>
  A posted form whose user name has 100 characters or more is written past the end of the
  array of 100 characters on the stack, whatever page it is for.
\<close>

theorem long_name_overflow:
  assumes "asks_for url u h" "is_form url h" "length url \<le> 200" "m_string h = Some s"
    and "cstr_at (m_read_buf h) s = Inr (form_text f1 name f2 password)" "length f1 = 5"
    and "CHR ''&'' \<notin> set name" "100 \<le> length name"
  shows "do_request fs query t h g = Inl Out_Of_Bounds"
proof -
  have root: "good_root (doc_root h)" using assms(1) by (simp add: asks_for_def)
  then have len: "length (doc_root h) < FILENAME_LEN" by (simp add: good_root_def)
  have ff: "form_fields (m_read_buf h) (m_string h) = Inl Out_Of_Bounds"
    using form_fields_overflow [OF assms(5-8)] assms(4) by simp
  have "do_cgi query t (int (length (doc_root h))) u p
      (h\<lparr>m_real_file := doc_root h @ replicate (FILENAME_LEN - length (doc_root h)) NUL\<rparr>) g = Inl Out_Of_Bounds"
    if "arr_rd (m_read_buf h) (p + 1) = Inr (page_code url)" for p
    using do_cgi_prefix [OF assms(1-3) root_buf_zero [OF root] len that, of query t g] ff by auto
  then show ?thesis using do_request_start [OF assms(1), of fs query t g] assms(2) by auto
qed

theorem long_name_overflow_witness:
  "do_request (\<lambda>_. None) (\<lambda>_ _. 0) 0 (sample_post (CHR ''2'') (replicate 120 (CHR ''x'')) ''pw'') sample_globals = Inl Out_Of_Bounds"
proof -
  let ?n = "replicate 120 (CHR ''x'')" and ?h = "sample_post (CHR ''2'') (replicate 120 (CHR ''x'')) ''pw''"
  have st: "cstr_at (m_read_buf ?h) 0 = Inr [CHR ''/'', CHR ''2'']"
    "cstr_at (m_read_buf ?h) 3 = Inr (form_text ''user='' ?n ''password='' ''pw'')"
    by (rule sample_post_strings; simp add: NUL_def)+
  have c: "page_code [CHR ''/'', CHR ''2''] = CHR ''2''" "good_root ''/srv''" by code_simp+
  have a: "asks_for [CHR ''/'', CHR ''2''] 0 ?h"
    using st(1) c(2) by (simp add: asks_for_def) (simp add: sample_post_def sample_conn_def)
  have f: "is_form [CHR ''/'', CHR ''2''] ?h" by (simp add: is_form_def c(1) sample_post_def)
  have n: "length [CHR ''/'', CHR ''2''] \<le> 200" "m_string ?h = Some 3" by (simp_all add: sample_post_def)
  show ?thesis by (rule long_name_overflow [OF a f n st(2)]) simp_all
qed

end
