(* ===== verification/Http_Response.thy ===== *)
theory Http_Response
  imports Http_Serve
begin

text \<open>
  The response half of \<open>http_conn\<close>: the \<open>add_*\<close> functions that append to \<open>m_write_buf\<close>,
  \<open>process_write\<close>, which assembles the answer to each outcome of \<open>process_read\<close>, \<open>unmap\<close>, and \<open>process\<close>,
  the entry point of the worker threads. The formatted text of \<open>vsnprintf\<close> is written out at each
  call.
\<close>

definition ok_200_title :: string where "ok_200_title = ''OK''"
definition error_400_title :: string where "error_400_title = ''Bad Request''"
definition error_400_form :: string where
  "error_400_form = ''Your request has bad syntax or is inherently impossible to staisfy.'' @ [LF]"
definition error_403_title :: string where "error_403_title = ''Forbidden''"
definition error_403_form :: string where
  "error_403_form = ''You do not have permission to get file form this server.'' @ [LF]"
definition error_404_title :: string where "error_404_title = ''Not Found''"
definition error_404_form :: string where
  "error_404_form = ''The requested file was not found on this server.'' @ [LF]"
definition error_500_title :: string where "error_500_title = ''Internal Error''"
definition error_500_form :: string where
  "error_500_form = ''There was an unusual problem serving the request file.'' @ [LF]"

type_synonym responder = "http_conn \<Rightarrow> http_globals \<Rightarrow> (bool \<times> http_conn \<times> http_globals) result"

definition unmap :: "http_conn \<Rightarrow> http_conn" where
  "unmap h = (if m_file_address h \<noteq> No_Map then h\<lparr>m_file_address := No_Map\<rparr> else h)"

definition add_response :: "string \<Rightarrow> responder" where
  "add_response s h g =
     (if m_write_idx h \<ge> int WRITE_BUFFER_SIZE then Inr (False, h, g)
      else bind_r (snprintf (m_write_buf h) (m_write_idx h) (nat (int WRITE_BUFFER_SIZE - 1 - m_write_idx h)) s) (\<lambda>(len, b).
        let h = h\<lparr>m_write_buf := b\<rparr> in
        if len \<ge> int WRITE_BUFFER_SIZE - 1 - m_write_idx h then Inr (False, h, g)
        else let h = h\<lparr>m_write_idx := m_write_idx h + len\<rparr> in
          bind_r (log_cstr 1 (m_close_log h) ''request:'' (m_write_buf h) 0 g) (\<lambda>g. Inr (True, h, g))))"

definition add_content :: "string \<Rightarrow> responder" where
  "add_content content = add_response content"

definition add_status_line :: "int \<Rightarrow> string \<Rightarrow> responder" where
  "add_status_line status title = add_response (''HTTP/1.1 '' @ show_int status @ '' '' @ title @ [CR, LF])"

definition add_content_type :: responder where
  "add_content_type = add_response (''Content-Type:text/html'' @ [CR, LF])"

definition add_content_length :: "int \<Rightarrow> responder" where
  "add_content_length content_length = add_response (''Content-Length:'' @ show_int content_length @ [CR, LF])"

definition add_linger :: responder where
  "add_linger h = add_response (''Connection:'' @ (if m_linger h then ''keep-alive'' else ''close'') @ [CR, LF]) h"

definition add_blank_line :: responder where
  "add_blank_line = add_response [CR, LF]"

text \<open>The operator \<open>&&\<close>: the second call is made only when the first returned true.\<close>

definition and_then :: "responder \<Rightarrow> responder \<Rightarrow> responder" where
  "and_then f k h g = bind_r (f h g) (\<lambda>(ok, h, g). if ok then k h g else Inr (False, h, g))"

text \<open>Two statements: the value of the first call is not used.\<close>

definition then_do :: "responder \<Rightarrow> responder \<Rightarrow> responder" where
  "then_do f k h g = bind_r (f h g) (\<lambda>(ok, h, g). k h g)"

text \<open>The int parameter of \<open>add_headers\<close> truncates the size it is given to 32 bits.\<close>

definition add_headers :: "int \<Rightarrow> responder" where
  "add_headers content_length =
     and_then (add_content_length (wrap_int32 content_length)) (and_then add_linger add_blank_line)"

definition error_page :: "int \<Rightarrow> string \<Rightarrow> string \<Rightarrow> responder" where
  "error_page status title form =
     then_do (add_status_line status title) (then_do (add_headers (int (length form))) (add_content form))"

text \<open>The statements behind the switch.\<close>

definition send_write_buf :: responder where
  "send_write_buf h g =
     Inr (True, h\<lparr>m_iv := (m_iv h)[0 := \<lparr>iov_base = Iov_Write_Buf, iov_len = m_write_idx h\<rparr>],
                  m_iv_count := 1, bytes_to_send := m_write_idx h\<rparr>, g)"

definition send_file :: responder where
  "send_file h g =
     Inr (True, h\<lparr>m_iv := (m_iv h)[0 := \<lparr>iov_base = Iov_Write_Buf, iov_len = m_write_idx h\<rparr>,
                                   1 := \<lparr>iov_base = Iov_File, iov_len = st_size (m_file_stat h)\<rparr>],
                  m_iv_count := 2, bytes_to_send := wrap_int32 (m_write_idx h + st_size (m_file_stat h))\<rparr>, g)"

text \<open>The case of an empty file has no break and runs into the default.\<close>

definition process_write :: "HTTP_CODE \<Rightarrow> responder" where
  "process_write ret h g = (case ret of
      INTERNAL_ERROR \<Rightarrow> and_then (error_page 500 error_500_title error_500_form) send_write_buf h g
    | BAD_REQUEST \<Rightarrow> and_then (error_page 404 error_404_title error_404_form) send_write_buf h g
    | FORBIDDEN_REQUEST \<Rightarrow> and_then (error_page 403 error_403_title error_403_form) send_write_buf h g
    | FILE_REQUEST \<Rightarrow>
        if st_size (m_file_stat h) \<noteq> 0
        then then_do (add_status_line 200 ok_200_title)
               (then_do (add_headers (st_size (m_file_stat h))) send_file) h g
        else and_then (error_page 200 ok_200_title ''<html><body></body></html>'') (\<lambda>h g. Inr (False, h, g)) h g
    | _ \<Rightarrow> Inr (False, h, g))"

definition process :: "(string \<Rightarrow> disk_file option) \<Rightarrow> (nat \<Rightarrow> string \<Rightarrow> int) \<Rightarrow> nat
    \<Rightarrow> http_conn \<Rightarrow> http_globals \<Rightarrow> (http_conn \<times> http_globals) result" where
  "process fs query t h g =
     bind_r (process_read fs query t h g) (\<lambda>(read_ret, h, g).
     if read_ret = NO_REQUEST then
       Inr (h, g\<lparr>kern := modfd (m_epollfd g) (m_sokcfd h) EPOLLIN (m_TRIGMode h) (kern g)\<rparr>)
     else bind_r (process_write read_ret h g) (\<lambda>(write_ret, h, g).
       let (h, g) = (if \<not> write_ret then close_conn True h g else (h, g)) in
       Inr (h, g\<lparr>kern := modfd (m_epollfd g) (m_sokcfd h) EPOLLOUT (m_TRIGMode h) (kern g)\<rparr>)))"

section \<open>The write buffer\<close>

text \<open>The buffer holds exactly the text \<open>s\<close>, and the object is \<open>h\<close> otherwise.\<close>

definition wrote :: "string \<Rightarrow> http_conn \<Rightarrow> http_conn \<Rightarrow> bool" where
  "wrote s h h' \<longleftrightarrow> (\<exists>r. length (s @ NUL # r) = WRITE_BUFFER_SIZE \<and>
     h' = h\<lparr>m_write_buf := s @ NUL # r, m_write_idx := int (length s)\<rparr>) \<and> NUL \<notin> set s"

lemma wrote_start:
  "m_write_buf h = replicate WRITE_BUFFER_SIZE NUL \<Longrightarrow> m_write_idx h = 0 \<Longrightarrow> wrote [] h h"
proof -
  assume h: "m_write_buf h = replicate WRITE_BUFFER_SIZE NUL" "m_write_idx h = 0"
  have "replicate WRITE_BUFFER_SIZE NUL = NUL # replicate (WRITE_BUFFER_SIZE - 1) NUL"
    by (simp add: WRITE_BUFFER_SIZE_def flip: replicate_Suc)
  with h have "h = h\<lparr>m_write_buf := [] @ NUL # replicate (WRITE_BUFFER_SIZE - 1) NUL, m_write_idx := int (length [])\<rparr>"
    by simp
  moreover have "length ([] @ NUL # replicate (WRITE_BUFFER_SIZE - 1) NUL) = WRITE_BUFFER_SIZE"
    by (simp add: WRITE_BUFFER_SIZE_def)
  ultimately show ?thesis unfolding wrote_def by (metis empty_iff empty_set)
qed

lemma add_response_ok:
  assumes w: "wrote s h h'" and n: "NUL \<notin> set t" "length s + length t + 1 < WRITE_BUFFER_SIZE"
  shows "\<exists>h2 logs. add_response t h' g = Inr (True, h2, add_logs logs g) \<and> wrote (s @ t) h h2"
proof -
  obtain r where r: "length (s @ NUL # r) = WRITE_BUFFER_SIZE"
    "h' = h\<lparr>m_write_buf := s @ NUL # r, m_write_idx := int (length s)\<rparr>" and ns: "NUL \<notin> set s"
    using w by (auto simp: wrote_def)
  have lr: "length t \<le> length r" using n r(1) by simp
  let ?b = "(s @ t) @ NUL # drop (length t) r"
  let ?h = "h\<lparr>m_write_buf := ?b, m_write_idx := int (length (s @ t))\<rparr>"
  have "write_at (s @ (NUL # take (length t) r) @ drop (length t) r) (int (length s)) (t @ [NUL])
      = Inr (s @ (t @ [NUL]) @ drop (length t) r)"
    using lr by (intro write_at_append) auto
  then have wr: "write_at (s @ NUL # r) (int (length s)) (t @ [NUL]) = Inr ?b" by simp
  have n': "nat (int WRITE_BUFFER_SIZE - 1 - int (length s)) \<noteq> 0" "length t \<le> nat (int WRITE_BUFFER_SIZE - 1 - int (length s)) - 1"
    using n by auto
  have sn: "snprintf (s @ NUL # r) (int (length s)) (nat (int WRITE_BUFFER_SIZE - 1 - int (length s))) t
      = Inr (int (length t), ?b)"
    using n' wr by (simp add: snprintf_def)
  have "cstr_at ?b 0 = Inr (s @ t)" using ns n(1) cstr_append [of "s @ t"] by (simp add: cstr_at_def)
  then have lg: "log_cstr 1 cl ''request:'' ?b 0 g = Inr (add_logs (if 0 = cl then [(1, ''request:'' @ s @ t)] else []) g)" for cl
    by (rule log_cstr_ok)
  have "add_response t h' g = Inr (True, ?h, add_logs (if 0 = m_close_log h then [(1, ''request:'' @ s @ t)] else []) g)"
    using n sn lg by (simp add: add_response_def r(2) Let_def)
  moreover have "wrote (s @ t) h ?h" unfolding wrote_def
    using ns n r(1) lr by (intro conjI exI [of _ "drop (length t) r"]) auto
  ultimately show ?thesis by blast
qed

text \<open>
  A response function says a text: it succeeds whenever the text fits, and appends it. The text may
  depend on the connection's keep-alive flag.
\<close>

definition says :: "responder \<Rightarrow> (bool \<Rightarrow> string) \<Rightarrow> bool" where
  "says f t \<longleftrightarrow> (\<forall>s h h' g. wrote s h h' \<and> length s + length (t (m_linger h)) + 1 < WRITE_BUFFER_SIZE \<longrightarrow>
     (\<exists>h2 logs. f h' g = Inr (True, h2, add_logs logs g) \<and> wrote (s @ t (m_linger h)) h h2))"

lemma saysD:
  "says f t \<Longrightarrow> wrote s h h' \<Longrightarrow> length s + length (t (m_linger h)) + 1 < WRITE_BUFFER_SIZE \<Longrightarrow>
     \<exists>h2 logs. f h' g = Inr (True, h2, add_logs logs g) \<and> wrote (s @ t (m_linger h)) h h2"
  by (auto simp: says_def)

lemma says_response: "(\<And>k. NUL \<notin> set (t k)) \<Longrightarrow> (\<And>h g. f h g = add_response (t (m_linger h)) h g) \<Longrightarrow> says f t"
  unfolding says_def
proof (intro allI impI, elim conjE)
  fix s h h' g
  assume t: "\<And>k. NUL \<notin> set (t k)" "\<And>h g. f h g = add_response (t (m_linger h)) h g"
    and w: "wrote s h h'" and n: "length s + length (t (m_linger h)) + 1 < WRITE_BUFFER_SIZE"
  have "m_linger h' = m_linger h" using w by (auto simp: wrote_def)
  then show "\<exists>h2 logs. f h' g = Inr (True, h2, add_logs logs g) \<and> wrote (s @ t (m_linger h)) h h2"
    using add_response_ok [OF w t(1) n] by (simp add: t(2))
qed

lemma says_seq:
  assumes f: "says f t1" and k: "says k t2" and c: "c = and_then \<or> c = then_do"
  shows "says (c f k) (\<lambda>l. t1 l @ t2 l)"
  unfolding says_def
proof (intro allI impI, elim conjE)
  fix s h h' g
  assume w: "wrote s h h'" and n: "length s + length (t1 (m_linger h) @ t2 (m_linger h)) + 1 < WRITE_BUFFER_SIZE"
  obtain h1 logs where 1: "f h' g = Inr (True, h1, add_logs logs g)" "wrote (s @ t1 (m_linger h)) h h1"
    using saysD [OF f w, of g] n by auto
  obtain h2 logs' where 2: "k h1 (add_logs logs g) = Inr (True, h2, add_logs logs' (add_logs logs g))"
     "wrote ((s @ t1 (m_linger h)) @ t2 (m_linger h)) h h2"
    using saysD [OF k 1(2), of "add_logs logs g"] n by auto
  have "c f k h' g = Inr (True, h2, add_logs (logs @ logs') g)"
    using c 1(1) 2(1) by (auto simp: and_then_def then_do_def)
  with 2(2) show "\<exists>h2 logs. c f k h' g = Inr (True, h2, add_logs logs g) \<and> wrote (s @ t1 (m_linger h) @ t2 (m_linger h)) h h2"
    by auto
qed

definition status_text :: "int \<Rightarrow> string \<Rightarrow> string" where
  "status_text status title = ''HTTP/1.1 '' @ show_int status @ '' '' @ title @ [CR, LF]"

definition headers_of :: "int \<Rightarrow> bool \<Rightarrow> string" where
  "headers_of n linger = ''Content-Length:'' @ show_int n @ [CR, LF] @
     ''Connection:'' @ (if linger then ''keep-alive'' else ''close'') @ [CR, LF] @ [CR, LF]"

lemma says_status: "NUL \<notin> set title \<Longrightarrow> says (add_status_line status title) (\<lambda>_. status_text status title)"
  by (rule says_response)
    (auto simp: add_status_line_def status_text_def show_int_no_NUL, auto simp: NUL_def)

lemma says_content: "NUL \<notin> set c \<Longrightarrow> says (add_content c) (\<lambda>_. c)"
  by (rule says_response) (auto simp: add_content_def)

lemma says_headers: "says (add_headers n) (headers_of (wrap_int32 n))"
proof -
  have 1: "says (add_content_length (wrap_int32 n)) (\<lambda>_. ''Content-Length:'' @ show_int (wrap_int32 n) @ [CR, LF])"
    by (rule says_response) (auto simp: add_content_length_def show_int_no_NUL, auto simp: NUL_def)
  have 2: "says add_linger (\<lambda>l. ''Connection:'' @ (if l then ''keep-alive'' else ''close'') @ [CR, LF])"
    by (rule says_response) (auto simp: add_linger_def NUL_def)
  have 3: "says add_blank_line (\<lambda>_. [CR, LF])"
    by (rule says_response) (auto simp: add_blank_line_def NUL_def)
  show ?thesis
    using says_seq [OF 1 says_seq [OF 2 3, of and_then], of and_then] by (simp add: add_headers_def headers_of_def [abs_def])
qed

lemma says_error_page:
  assumes "NUL \<notin> set title" "NUL \<notin> set form" "length form < 2147483648"
  shows "says (error_page status title form) (\<lambda>l. status_text status title @ headers_of (int (length form)) l @ form)"
proof -
  have "wrap_int32 (int (length form)) = int (length form)" using assms(3) by (simp add: wrap_int32_def)
  then show ?thesis
    using says_seq [OF says_status [OF assms(1)] says_seq [OF says_headers [of "int (length form)"] says_content [OF assms(2)], of then_do], of then_do]
    by (simp add: error_page_def)
qed

section \<open>process\_write\<close>

lemma length_show_int32: "length (show_int (wrap_int32 n)) \<le> 11"
proof -
  have "nat \<bar>wrap_int32 n\<bar> < 10 ^ 10" by (auto simp: wrap_int32_def)
  then have "length (show_nat (nat \<bar>wrap_int32 n\<bar>)) \<le> 10" by (rule length_show_nat) simp
  then show ?thesis by (auto simp: show_int_def)
qed

lemma headers_of_length: "length (headers_of (wrap_int32 n) l) \<le> 53"
  using length_show_int32 [of n] by (simp add: headers_of_def)

text \<open>The whole answer: status line, header fields with the length of the body, body.\<close>

definition answer_text :: "int \<Rightarrow> string \<Rightarrow> string \<Rightarrow> bool \<Rightarrow> string" where
  "answer_text status title body linger = status_text status title @ headers_of (int (length body)) linger @ body"

text \<open>What the object looks like when \<open>txt\<close> is ready to be sent from the write buffer alone.\<close>

definition ready_to_send :: "string \<Rightarrow> http_conn \<Rightarrow> bool" where
  "ready_to_send tx h \<longleftrightarrow> take (length tx) (m_write_buf h) = tx \<and> m_write_idx h = int (length tx) \<and>
     m_iv_count h = 1 \<and> m_iv h ! 0 = \<lparr>iov_base = Iov_Write_Buf, iov_len = int (length tx)\<rparr> \<and>
     bytes_to_send h = int (length tx)"

lemma error_page_sent:
  assumes w: "wrote [] h h" and iv: "m_iv h \<noteq> []"
    and t: "NUL \<notin> set title" "NUL \<notin> set form" "length (status_text status title) + length form < 900"
  shows "\<exists>h' logs. and_then (error_page status title form) send_write_buf h g = Inr (True, h', add_logs logs g)
     \<and> ready_to_send (answer_text status title form (m_linger h)) h' \<and> m_sokcfd h' = m_sokcfd h \<and> m_TRIGMode h' = m_TRIGMode h"
proof -
  let ?t = "status_text status title @ headers_of (int (length form)) (m_linger h) @ form"
  have "wrap_int32 (int (length form)) = int (length form)" using t(3) by (simp add: wrap_int32_def)
  then have "length (headers_of (int (length form)) (m_linger h)) \<le> 53" using headers_of_length by metis
  then have n: "length [] + length ?t + 1 < WRITE_BUFFER_SIZE" using t(3) by (simp add: WRITE_BUFFER_SIZE_def)
  have "length form < 2147483648" using t(3) by simp
  then obtain h1 logs where 1: "error_page status title form h g = Inr (True, h1, add_logs logs g)" "wrote ([] @ ?t) h h1"
    using saysD [OF says_error_page [OF t(1,2)] w] n by blast
  obtain r where r: "h1 = h\<lparr>m_write_buf := ?t @ NUL # r, m_write_idx := int (length ?t)\<rparr>"
    using 1(2) by (auto simp: wrote_def)
  then show ?thesis using 1(1) iv
    by (auto simp: and_then_def send_write_buf_def ready_to_send_def answer_text_def)
qed

lemma status_lengths:
  "length (status_text 500 error_500_title) + length error_500_form < 900"
  "length (status_text 404 error_404_title) + length error_404_form < 900"
  "length (status_text 403 error_403_title) + length error_403_form < 900"
  "NUL \<notin> set error_500_title" "NUL \<notin> set error_500_form" "NUL \<notin> set error_404_title"
  "NUL \<notin> set error_404_form" "NUL \<notin> set error_403_title" "NUL \<notin> set error_403_form"
  by code_simp+

definition error_answer :: "HTTP_CODE \<Rightarrow> bool \<Rightarrow> string" where
  "error_answer ret l = (case ret of
      INTERNAL_ERROR \<Rightarrow> answer_text 500 error_500_title error_500_form l
    | FORBIDDEN_REQUEST \<Rightarrow> answer_text 403 error_403_title error_403_form l
    | _ \<Rightarrow> answer_text 404 error_404_title error_404_form l)"

lemma process_write_error:
  assumes "ret \<in> {INTERNAL_ERROR, BAD_REQUEST, FORBIDDEN_REQUEST}" "wrote [] h h" "m_iv h \<noteq> []"
  shows "\<exists>h' logs. process_write ret h g = Inr (True, h', add_logs logs g) \<and>
     ready_to_send (error_answer ret (m_linger h)) h' \<and> m_sokcfd h' = m_sokcfd h \<and> m_TRIGMode h' = m_TRIGMode h"
  using assms error_page_sent [OF assms(2,3) status_lengths(4,5,1), of g]
    error_page_sent [OF assms(2,3) status_lengths(6,7,2), of g] error_page_sent [OF assms(2,3) status_lengths(8,9,3), of g]
  by (auto simp: process_write_def error_answer_def)

text \<open>A file: the head is in the write buffer, the body is the mapped file.\<close>

definition file_head :: "int \<Rightarrow> bool \<Rightarrow> string" where
  "file_head n linger = status_text 200 ok_200_title @ headers_of (wrap_int32 n) linger"

lemma process_write_file:
  assumes w: "wrote [] h h" and iv: "length (m_iv h) = 2" and n: "st_size (m_file_stat h) \<noteq> 0"
  defines "hd_tx \<equiv> file_head (st_size (m_file_stat h)) (m_linger h)"
  shows "\<exists>h' logs. process_write FILE_REQUEST h g = Inr (True, h', add_logs logs g) \<and>
     take (length hd_tx) (m_write_buf h') = hd_tx \<and> m_iv_count h' = 2 \<and>
     m_iv h' = [\<lparr>iov_base = Iov_Write_Buf, iov_len = int (length hd_tx)\<rparr>, \<lparr>iov_base = Iov_File, iov_len = st_size (m_file_stat h)\<rparr>] \<and>
     bytes_to_send h' = wrap_int32 (int (length hd_tx) + st_size (m_file_stat h)) \<and> m_file_address h' = m_file_address h \<and>
     m_sokcfd h' = m_sokcfd h \<and> m_TRIGMode h' = m_TRIGMode h"
proof -
  let ?f = "then_do (add_status_line 200 ok_200_title) (add_headers (st_size (m_file_stat h)))"
  have "length (status_text 200 ok_200_title) < 100" "NUL \<notin> set ok_200_title" by code_simp+
  then have "length [] + length hd_tx + 1 < WRITE_BUFFER_SIZE" and t: "NUL \<notin> set ok_200_title"
    using headers_of_length [of "st_size (m_file_stat h)" "m_linger h"] by (simp_all add: hd_tx_def file_head_def WRITE_BUFFER_SIZE_def)
  then obtain h1 logs where 1: "?f h g = Inr (True, h1, add_logs logs g)" "wrote ([] @ hd_tx) h h1"
    using saysD [OF says_seq [OF says_status [OF t, of 200] says_headers [of "st_size (m_file_stat h)"], of then_do] w, of g]
    by (auto simp: hd_tx_def file_head_def)
  obtain r where r: "h1 = h\<lparr>m_write_buf := hd_tx @ NUL # r, m_write_idx := int (length hd_tx)\<rparr>"
    using 1(2) by (auto simp: wrote_def)
  have "process_write FILE_REQUEST h g = bind_r (?f h g) (\<lambda>(ok, h, g). send_file h g)"
    using n by (auto simp: process_write_def then_do_def bind_r_assoc intro!: arg_cong [where f = "bind_r _"] split: prod.splits)
  moreover obtain v1 v2 where "m_iv h = [v1, v2]" using iv by (metis length_0_conv length_Suc_conv numeral_2_eq_2)
  ultimately show ?thesis using 1(1) r by (auto simp: send_file_def)
qed

section \<open>process\<close>

text \<open>The response functions change neither the socket nor what the connections share, but for the log.\<close>

definition keeps_socket :: "responder \<Rightarrow> bool" where
  "keeps_socket f \<longleftrightarrow> (\<forall>h g. ok_r (\<lambda>(ok, h', g'). m_sokcfd h' = m_sokcfd h \<and> m_TRIGMode h' = m_TRIGMode h \<and> sql_creds h' = sql_creds h \<and>
     same_globals g g') (f h g))"

lemma keeps_socketI:
  "(\<And>h g. ok_r (\<lambda>(ok, h', g'). m_sokcfd h' = m_sokcfd h \<and> m_TRIGMode h' = m_TRIGMode h \<and> sql_creds h' = sql_creds h \<and> same_globals g g') (f h g)) \<Longrightarrow>
   keeps_socket f"
  by (simp add: keeps_socket_def)

lemma keeps_socketD: "keeps_socket f \<Longrightarrow> f h g = Inr (ok, h', g') \<Longrightarrow>
   m_sokcfd h' = m_sokcfd h \<and> m_TRIGMode h' = m_TRIGMode h \<and> sql_creds h' = sql_creds h \<and> same_globals g g'"
  by (auto simp: keeps_socket_def dest: ok_rD)

lemma keeps_add_response: "keeps_socket (add_response s)"
  unfolding add_response_def Let_def
  by (intro keeps_socketI ok_intros ok_bind_ok [OF log_cstr_frame]) auto

lemma keeps_add [simp]:
  "keeps_socket (add_content c)" "keeps_socket (add_status_line st ti)" "keeps_socket (add_content_length n)"
  "keeps_socket add_blank_line"
  by (simp_all add: add_content_def add_status_line_def add_content_length_def add_blank_line_def keeps_add_response)

lemma keeps_add_linger [simp]: "keeps_socket add_linger"
  unfolding add_linger_def using keeps_add_response by (auto simp: keeps_socket_def)

lemma keeps_seq [simp]:
  assumes "keeps_socket f" "keeps_socket k"
  shows "keeps_socket (and_then f k)" "keeps_socket (then_do f k)"
  unfolding and_then_def then_do_def
  by (intro keeps_socketI ok_intros, auto dest!: keeps_socketD [OF assms(1)] intro!: ok_rI
      dest!: keeps_socketD [OF assms(2)] intro: same_globals_trans)+

lemma keeps_process_write: "keeps_socket (process_write ret)"
proof -
  have "keeps_socket send_write_buf" "keeps_socket send_file" "keeps_socket (\<lambda>h g. Inr (False, h, g))"
    by (auto simp: send_write_buf_def send_file_def intro!: keeps_socketI ok_intros)
  then have k: "keeps_socket (and_then (error_page s ti fo) send_write_buf)"
    "keeps_socket (then_do (add_status_line s ti) (then_do (add_headers n) send_file))"
    "keeps_socket (and_then (error_page s ti fo) (\<lambda>h g. Inr (False, h, g)))" for s ti fo n
    by (simp_all add: error_page_def add_headers_def)
  show ?thesis
    by (rule keeps_socketI, cases ret) (auto simp: process_write_def k [unfolded keeps_socket_def prod.inject conj_assoc] intro!: ok_intros)
qed

text \<open>The events a rearmed connection waits for.\<close>

definition armed :: "events \<Rightarrow> int \<Rightarrow> events" where
  "armed ev TRIGMode = (if 1 = TRIGMode then ev OR EPOLLET OR EPOLLONESHOT OR EPOLLRDHUP
     else ev OR EPOLLONESHOT OR EPOLLHUP)"

lemma process_after_write:
  assumes "process_read fs query t h g = Inr (ret, h1, g1)" "ret \<noteq> NO_REQUEST"
    and "process_write ret h1 g1 = Inr (ok, h2, g2)"
  shows "process fs query t h g =
    (let (h, g) = if ok then (h2, g2) else close_conn True h2 g2 in
     Inr (h, g\<lparr>kern := modfd (m_epollfd g) (m_sokcfd h) EPOLLOUT (m_TRIGMode h) (kern g)\<rparr>))"
  using assms by (simp add: process_def Let_def)

lemma process_cases:
  assumes "process fs query t h g = Inr (h', g')"
  shows "\<exists>h1 g1 ev closing. m_sokcfd h1 = m_sokcfd h \<and> m_TRIGMode h1 = m_TRIGMode h \<and> sql_creds h1 = sql_creds h \<and> same_globals g g1 \<and>
     (ev = EPOLLIN \<or> ev = EPOLLOUT) \<and>
     (let (h2, g2) = if closing then close_conn True h1 g1 else (h1, g1) in
      h' = h2 \<and> g' = g2\<lparr>kern := modfd (m_epollfd g2) (m_sokcfd h2) ev (m_TRIGMode h) (kern g2)\<rparr>)"
proof -
  obtain ret h1 g1 where r: "process_read fs query t h g = Inr (ret, h1, g1)"
    using assms by (auto simp: process_def)
  have s1: "m_sokcfd h1 = m_sokcfd h \<and> m_TRIGMode h1 = m_TRIGMode h \<and> sql_creds h1 = sql_creds h \<and> same_globals g g1"
    using ok_rD [OF process_read_frame r [unfolded process_read_def]] by (auto simp: same_fd_def)
  show ?thesis
  proof (cases "ret = NO_REQUEST")
    case True
    then show ?thesis using assms r s1
      by (intro exI [of _ h1] exI [of _ g1] exI [of _ EPOLLIN] exI [of _ False]) (auto simp: process_def)
  next
    case False
    then obtain ok h2 g2 where w: "process_write ret h1 g1 = Inr (ok, h2, g2)"
      using assms r by (auto simp: process_def)
    have s2: "m_sokcfd h2 = m_sokcfd h \<and> m_TRIGMode h2 = m_TRIGMode h \<and> sql_creds h2 = sql_creds h \<and> same_globals g g2"
      using keeps_socketD [OF keeps_process_write w] s1 by (auto intro: same_globals_trans)
    have "m_TRIGMode (fst (close_conn True h2 g2)) = m_TRIGMode h" using s2 by (simp add: close_conn_def)
    then show ?thesis using assms process_after_write [OF r False w] s2
      by (intro exI [of _ h2] exI [of _ g2] exI [of _ EPOLLOUT] exI [of _ "\<not> ok"]) (auto split: prod.splits)
  qed
qed

section \<open>Properties\<close>

text \<open>
  C31. A worker's call of process on an open, registered connection does one of two
  things. It rearms the descriptor for reading or for writing, as a one-shot event
  in the mode of the connection, and keeps the count of users. Or it closes the connection: the
  descriptor is closed and out of the epoll table, and the count of users goes down by one. The
  registrations of all other descriptors stay.
\<close>

theorem process_rearms_or_closes:
  assumes "process fs query t h g = Inr (h', g')" "m_sokcfd h = fd" "fd \<noteq> -1"
    and "interest (kern g) fd \<noteq> None" "m_epollfd g = epfd (kern g)"
  shows "(m_sokcfd h' = fd \<and> m_user_count g' = m_user_count g \<and>
       interest (kern g') fd \<in> {Some (armed EPOLLIN (m_TRIGMode h)), Some (armed EPOLLOUT (m_TRIGMode h))}
     \<or> m_sokcfd h' = -1 \<and> m_user_count g' = m_user_count g - 1 \<and>
       interest (kern g') fd = None \<and> fdflags (kern g') fd = None)
    \<and> (\<forall>k. k \<noteq> fd \<and> k \<noteq> -1 \<longrightarrow> interest (kern g') k = interest (kern g) k \<and> fdflags (kern g') k = fdflags (kern g) k)"
proof -
  obtain h1 g1 ev closing where *: "m_sokcfd h1 = fd" "same_globals g g1" "ev = EPOLLIN \<or> ev = EPOLLOUT"
    "let (h2, g2) = if closing then close_conn True h1 g1 else (h1, g1) in
      h' = h2 \<and> g' = g2\<lparr>kern := modfd (m_epollfd g2) (m_sokcfd h2) ev (m_TRIGMode h) (kern g2)\<rparr>"
    using process_cases [OF assms(1)] assms(2) by blast
  show ?thesis
  proof (cases closing)
    case True
    then show ?thesis using * assms(3,5)
      by (auto simp: close_conn_def same_globals_def)
  next
    case False
    then show ?thesis using * assms(4,5) modfd_registered [of "m_epollfd g" "kern g" fd ev "m_TRIGMode h"]
      by (auto simp: same_globals_def armed_def)
  qed
qed

theorem process_rearms_or_closes_witness:
  "\<exists>h' g'. process (\<lambda>_. None) (\<lambda>_ _. 0) 0 (sample_conn [] []) sample_globals = Inr (h', g') \<and>
     (m_sokcfd h' = 7 \<and> m_user_count g' = 1 \<or> m_sokcfd h' = -1 \<and> m_user_count g' = 0)"
proof -
  let ?h = "sample_conn [] []"
  have pl: "parse_line ?h = Inr (LINE_OPEN, ?h)"
    by (simp add: parse_line_def sample_conn_def parse_line_loop.simps)
  have "read_round (\<lambda>_. None) (\<lambda>_ _. 0) 0 LINE_OK ?h sample_globals = Inr (Inr (NO_REQUEST, ?h, sample_globals))"
    by (simp add: read_round_def pl) (simp add: sample_conn_def)
  then have "process_read (\<lambda>_. None) (\<lambda>_ _. 0) 0 ?h sample_globals = Inr (NO_REQUEST, ?h, sample_globals)"
    unfolding process_read_def by (subst process_read_loop.simps) simp
  then obtain h' g' where p: "process (\<lambda>_. None) (\<lambda>_ _. 0) 0 ?h sample_globals = Inr (h', g')"
    by (simp add: process_def)
  have h: "m_sokcfd ?h = 7" "(7::int) \<noteq> -1" "interest (kern sample_globals) 7 \<noteq> None"
    "m_epollfd sample_globals = epfd (kern sample_globals)" "m_user_count sample_globals = 1"
    by (simp_all add: sample_conn_def sample_globals_def)
  show ?thesis using process_rearms_or_closes [OF p h(1-4)] p h(5) by auto
qed

text \<open>
  The three error outcomes are answered in full: the write buffer holds the status line, a
  length field equal to the length of the body, the connection field of the request, a
  blank line and the body; the byte count and the first I/O vector cover exactly this text. A bad
  request is answered with status 404.
\<close>

theorem error_response:
  assumes "ret \<in> {INTERNAL_ERROR, BAD_REQUEST, FORBIDDEN_REQUEST}"
    and "m_write_buf h = replicate WRITE_BUFFER_SIZE NUL" "m_write_idx h = 0" "m_iv h \<noteq> []"
  shows "\<exists>h' logs. process_write ret h g = Inr (True, h', add_logs logs g) \<and>
     ready_to_send (error_answer ret (m_linger h)) h'"
  using process_write_error [OF assms(1) wrote_start [OF assms(2,3)] assms(4)] by blast

theorem error_response_witness:
  "\<exists>h' logs. process_write FORBIDDEN_REQUEST (sample_conn [] []) sample_globals = Inr (True, h', add_logs logs sample_globals) \<and>
     ready_to_send (''HTTP/1.1 403 Forbidden'' @ [CR, LF] @ ''Content-Length:57'' @ [CR, LF] @ ''Connection:close'' @
       [CR, LF, CR, LF] @ ''You do not have permission to get file form this server.'' @ [LF]) h'"
proof -
  have t: "error_answer FORBIDDEN_REQUEST False = ''HTTP/1.1 403 Forbidden'' @ [CR, LF] @ ''Content-Length:57'' @ [CR, LF] @
      ''Connection:close'' @ [CR, LF, CR, LF] @ ''You do not have permission to get file form this server.'' @ [LF]"
    by code_simp
  have h: "m_write_buf (sample_conn [] []) = replicate WRITE_BUFFER_SIZE NUL" "m_write_idx (sample_conn [] []) = 0"
    "m_iv (sample_conn [] []) \<noteq> []" "\<not> m_linger (sample_conn [] [])"
    by (simp_all add: sample_conn_def)
  show ?thesis using error_response [OF _ h(1-3), of FORBIDDEN_REQUEST sample_globals] h(4) t by simp
qed

text \<open>
  A file that is not empty is answered with the head in the write buffer, whose length field is
  the size of the file (as a 32 bit number), and the mapped file as the second I/O vector; the
  byte count is the sum of both lengths.
\<close>

theorem file_response:
  assumes "m_write_buf h = replicate WRITE_BUFFER_SIZE NUL" "m_write_idx h = 0" "length (m_iv h) = 2"
    and "st_size (m_file_stat h) \<noteq> 0"
  shows "\<exists>h' logs. let tx = file_head (st_size (m_file_stat h)) (m_linger h) in
     process_write FILE_REQUEST h g = Inr (True, h', add_logs logs g) \<and> take (length tx) (m_write_buf h') = tx \<and>
     m_iv_count h' = 2 \<and>
     m_iv h' = [\<lparr>iov_base = Iov_Write_Buf, iov_len = int (length tx)\<rparr>, \<lparr>iov_base = Iov_File, iov_len = st_size (m_file_stat h)\<rparr>] \<and>
     bytes_to_send h' = wrap_int32 (int (length tx) + st_size (m_file_stat h)) \<and> m_file_address h' = m_file_address h"
  using process_write_file [OF wrote_start [OF assms(1,2)] assms(3,4), of g] by (auto simp: Let_def)

theorem file_response_witness:
  "\<exists>h' logs. process_write FILE_REQUEST ((sample_conn [] [])\<lparr>m_file_stat := \<lparr>st_size = 5, st_mode = 0\<rparr>\<rparr>) sample_globals
     = Inr (True, h', add_logs logs sample_globals) \<and> bytes_to_send h' = 60"
proof -
  let ?h = "(sample_conn [] [])\<lparr>m_file_stat := \<lparr>st_size = 5, st_mode = 0\<rparr>\<rparr>"
  have h: "m_write_buf ?h = replicate WRITE_BUFFER_SIZE NUL" "m_write_idx ?h = 0" "length (m_iv ?h) = 2"
    "st_size (m_file_stat ?h) \<noteq> 0" "st_size (m_file_stat ?h) = 5" "\<not> m_linger ?h"
    by (simp_all add: sample_conn_def)
  have "length (file_head 5 False) = 55" "wrap_int32 60 = 60" by code_simp+
  then show ?thesis using file_response [OF h(1-4), of sample_globals] h(5,6) by (auto simp: Let_def)
qed

text \<open>
  A request for a file that does not exist is never answered: no byte is put in the write
  buffer and the connection is closed at once, descriptor and registration included.
\<close>

theorem missing_file_unanswered:
  assumes "process_read fs query t h g = Inr (NO_RESOURCE, h1, g1)" "m_sokcfd h = fd" "fd \<noteq> -1"
  shows "\<exists>h' g'. process fs query t h g = Inr (h', g') \<and> m_sokcfd h' = -1 \<and> interest (kern g') fd = None \<and>
     fdflags (kern g') fd = None \<and> m_write_buf h' = m_write_buf h \<and> m_write_idx h' = m_write_idx h \<and>
     m_user_count g' = m_user_count g - 1"
proof -
  have fr: "same_fd h h1" "same_globals g g1"
    using ok_rD [OF process_read_frame assms(1) [unfolded process_read_def]] by auto
  have "process_write NO_RESOURCE h1 g1 = Inr (False, h1, g1)" by (simp add: process_write_def)
  then show ?thesis using process_after_write [OF assms(1)] fr assms(2,3)
    by (auto simp: close_conn_def Let_def same_fd_def same_globals_def)
qed

theorem missing_file_unanswered_witness:
  "\<exists>h' g'. process (\<lambda>_. None) (\<lambda>_ _. 0) 0
       (sample_conn ''/srv'' (request_text ''GET /x HTTP/1.1'' [] [])) sample_globals = Inr (h', g') \<and>
     m_sokcfd h' = -1 \<and> m_write_idx h' = 0"
proof -
  let ?l = "''GET /x HTTP/1.1''"
  let ?h = "sample_conn ''/srv'' (request_text ?l [] [])"
  have l: "?l = request_line ''GET'' (CHR '' '') [] ''/x'' (CHR '' '') [] ''HTTP/1.1''" by (simp add: request_line_def)
  have g: "good_line ''GET'' (CHR '' '') [] ''/x'' (CHR '' '') [] ''HTTP/1.1''" "clean ?l" "good_headers []" by code_simp+
  have r: "received (request_text ?l [] []) ?h"
    by (rule received_sample) (simp add: request_text_def headers_text_def READ_BUFFER_SIZE_def)
  have c: "NUL \<notin> set ([]::string)" "0 \<le> content_length_of 0 []" "content_length_of 0 [] \<le> int (length ([]::string))"
    by (simp_all add: content_length_of_def)
  obtain h1 logs where 1: "process_read (\<lambda>_. None) (\<lambda>_ _. 0) 0 ?h sample_globals =
      do_request (\<lambda>_. None) (\<lambda>_ _. 0) 0 h1 (add_logs logs sample_globals)" "request_ready ?h ''GET'' ''/x'' [] [] h1"
    using process_read_whole [OF l g r c] by blast
  have e: "eq_nocase ''GET'' ''GET''" "page_of ''/x'' = ''/x''" "good_root ''/srv''" by code_simp+
  have d: "doc_root ?h = ''/srv''" "m_real_file ?h = replicate FILENAME_LEN NUL" by (simp_all add: sample_conn_def)
  obtain u where "asks_for ''/x'' u h1"
    using 1(2) e d by (auto simp: request_ready_def head_parsed_def asks_for_def)
  moreover have "\<not> is_form ''/x'' h1" using 1(2) e(1) by (simp add: request_ready_def head_parsed_def is_form_def)
  ultimately obtain h2 where 2: "process_read (\<lambda>_. None) (\<lambda>_ _. 0) 0 ?h sample_globals = Inr (NO_RESOURCE, h2, add_logs logs sample_globals)"
    using do_request_file [of "''/x''" u h1 "\<lambda>_. None" "\<lambda>_ _. 0" 0 "add_logs logs sample_globals"] 1(1)
    by (auto simp: Let_def file_outcome_def)
  have s: "m_sokcfd ?h = 7" "(7::int) \<noteq> -1" "m_write_idx ?h = 0" by (simp_all add: sample_conn_def)
  show ?thesis using missing_file_unanswered [OF 2 s(1,2)] s(3) by auto
qed

end
