(* ===== verification/Thread_Pool.thy ===== *)
theory Thread_Pool
  imports Fifo Sql_Pool Http_Response
begin

text \<open>
  The thread pool of \<open>threadpool/threadpool.h\<close>, for the type \<open>http_conn\<close> it is used with. A request is a
  pointer to a connection: \<open>None\<close> is the null pointer, \<open>Some fd\<close> the element \<open>users + fd\<close> of the
  server's array, which is the function \<open>conns\<close>. \<open>run\<close> is given as one round of its endless loop,
  composed of the part that takes a request and the part that serves it.
\<close>

section \<open>The pool\<close>

text \<open>The member \<open>m_connPool\<close> points to the one pool of the process, or anywhere.\<close>

datatype pool_ptr = Pool_Instance | Wild_Pointer

record threadpool =
  m_thread_number :: int
  m_max_requests :: int
  m_threads :: "nat list"
  m_workqueue :: "fd option list"
  m_queuelocker :: locker
  m_queuestat :: sem
  m_connPool :: pool_ptr
  m_actor_model :: int

text \<open>
  The constructor uses its arguments only in the tests and the loop: the members \<open>m_thread_number\<close>,
  \<open>m_max_requests\<close>, \<open>m_connPool\<close> and \<open>m_actor_model\<close> keep what the memory held. The array of thread handles
  has \<open>m_thread_number\<close> elements. \<open>create i\<close> and \<open>detach i\<close> are the results of the i-th pair of calls.
\<close>

definition threadpool_ctor :: "(nat \<Rightarrow> int) \<Rightarrow> (nat \<Rightarrow> int) \<Rightarrow> int \<Rightarrow> pool_ptr \<Rightarrow> int \<Rightarrow> int \<Rightarrow> threadpool \<Rightarrow> threadpool result" where
  "threadpool_ctor create detach actor_model connPool thread_number max_requests memory =
     (if thread_number \<le> 0 \<or> max_requests \<le> 0 then Inl Uncaught_Exception
      else if m_thread_number memory < 0 then Inl Uncaught_Exception
      else if thread_number > m_thread_number memory then Inl Out_Of_Bounds
      else if \<exists>i \<in> set [0..<nat thread_number]. create i \<noteq> 0 \<or> detach i \<noteq> 0 then Inl Uncaught_Exception
      else Inr (memory\<lparr>m_threads := [0..<nat thread_number], m_workqueue := [], m_queuelocker := locker_ctor,
                       m_queuestat := \<lparr>m_sem = 0\<rparr>\<rparr>))"

text \<open>The test \<open>m_workqueue.size() >= m_max_requests\<close> converts the int to an unsigned 64 bit number.\<close>

definition queue_full :: "threadpool \<Rightarrow> bool" where
  "queue_full p \<longleftrightarrow> int (length (m_workqueue p)) \<ge> m_max_requests p mod 2 ^ 64"

definition append_push :: "nat \<Rightarrow> fd option \<Rightarrow> threadpool \<Rightarrow> (bool \<times> threadpool) result" where
  "append_push t request p = bind_r (acquire t (m_queuelocker p)) (\<lambda>l.
     if queue_full p then bind_r (release t l) (\<lambda>l. Inr (False, p\<lparr>m_queuelocker := l\<rparr>))
     else let p = p\<lparr>m_workqueue := m_workqueue p @ [request]\<rparr> in
       bind_r (release t l) (\<lambda>l. Inr (True, p\<lparr>m_queuelocker := l\<rparr>)))"

definition append_post :: "threadpool \<Rightarrow> threadpool" where
  "append_post p = p\<lparr>m_queuestat := snd (post (m_queuestat p))\<rparr>"

definition append_p :: "nat \<Rightarrow> fd option \<Rightarrow> threadpool \<Rightarrow> (bool \<times> threadpool) result" where
  "append_p t request p = bind_r (append_push t request p) (\<lambda>(ok, p).
     if ok then Inr (True, append_post p) else Inr (False, p))"

text \<open>\<open>append\<close> also stores the kind of work in the request, inside the critical section.\<close>

definition append :: "nat \<Rightarrow> fd option \<Rightarrow> int \<Rightarrow> (fd \<Rightarrow> http_conn) \<Rightarrow> threadpool
    \<Rightarrow> (bool \<times> (fd \<Rightarrow> http_conn) \<times> threadpool) result" where
  "append t request state conns p = bind_r (acquire t (m_queuelocker p)) (\<lambda>l.
     if queue_full p then bind_r (release t l) (\<lambda>l. Inr (False, conns, p\<lparr>m_queuelocker := l\<rparr>))
     else bind_r (of_option Null_Deref request) (\<lambda>fd.
       let conns = conns(fd := (conns fd)\<lparr>m_state := state\<rparr>);
           p = p\<lparr>m_workqueue := m_workqueue p @ [request]\<rparr> in
       bind_r (release t l) (\<lambda>l. Inr (True, conns, append_post (p\<lparr>m_queuelocker := l\<rparr>)))))"

section \<open>The worker\<close>

text \<open>Waiting for the semaphore, whose result is ignored, and taking the first request; \<open>None\<close> is the
  \<open>continue\<close> on an empty queue.\<close>

definition run_wait :: "bool \<Rightarrow> threadpool \<Rightarrow> threadpool result" where
  "run_wait intr p = (case wait intr (m_queuestat p) of None \<Rightarrow> Inl Blocked
     | Some (ok, s) \<Rightarrow> Inr (p\<lparr>m_queuestat := s\<rparr>))"

definition run_take :: "nat \<Rightarrow> threadpool \<Rightarrow> (fd option option \<times> threadpool) result" where
  "run_take t p = bind_r (acquire t (m_queuelocker p)) (\<lambda>l.
     case m_workqueue p of
       [] \<Rightarrow> bind_r (release t l) (\<lambda>l. Inr (None, p\<lparr>m_queuelocker := l\<rparr>))
     | request # rest \<Rightarrow> let p = p\<lparr>m_workqueue := rest\<rparr> in
         bind_r (release t l) (\<lambda>l. Inr (Some request, p\<lparr>m_queuelocker := l\<rparr>)))"

text \<open>
  \<open>connectionRAII mysqlcon(&request->mysql, m_connPool); request->process();\<close> and the destructor at
  the end of the block.
\<close>

definition serve :: "(string \<Rightarrow> disk_file option) \<Rightarrow> (nat \<Rightarrow> string \<Rightarrow> int) \<Rightarrow> bool \<Rightarrow> nat
    \<Rightarrow> pool_ptr \<Rightarrow> http_conn \<Rightarrow> http_globals \<Rightarrow> sql_connection_pool \<Rightarrow> (http_conn \<times> http_globals \<times> sql_connection_pool) result" where
  "serve fs query intr t conn_pool h g sp =
     bind_r (guard_r Uninitialised (conn_pool = Pool_Instance)) (\<lambda>_.
     bind_r (connectionRAII_ctor intr t sp) (\<lambda>(con, r, sp).
     bind_r (process fs query t (h\<lparr>mysql := con\<rparr>) g) (\<lambda>(h, g).
     bind_r (connectionRAII_dtor t r sp) (\<lambda>sp. Inr (h, g, sp)))))"

definition run_request :: "(string \<Rightarrow> disk_file option) \<Rightarrow> (nat \<Rightarrow> string \<Rightarrow> int) \<Rightarrow> recv_result list \<Rightarrow> bool \<Rightarrow> nat
    \<Rightarrow> int \<Rightarrow> pool_ptr \<Rightarrow> http_conn \<Rightarrow> http_globals \<Rightarrow> sql_connection_pool \<Rightarrow> (http_conn \<times> http_globals \<times> sql_connection_pool) result" where
  "run_request fs query net intr t actor_model conn_pool h g sp =
     (if 1 = actor_model then
        (if 0 = m_state h then
           bind_r (read_once net h) (\<lambda>(ok, h).
             if ok then serve fs query intr t conn_pool (h\<lparr>improv := 1\<rparr>) g sp
             else Inr (h\<lparr>improv := 1, timer_flag := 1\<rparr>, g, sp))
         else bind_r (write_conn h) (\<lambda>(ok, h).
             if ok then Inr (h\<lparr>improv := 1\<rparr>, g, sp) else Inr (h\<lparr>improv := 1, timer_flag := 1\<rparr>, g, sp)))
      else serve fs query intr t conn_pool h g sp)"

definition run_round :: "(string \<Rightarrow> disk_file option) \<Rightarrow> (nat \<Rightarrow> string \<Rightarrow> int) \<Rightarrow> recv_result list \<Rightarrow> bool \<Rightarrow> nat
    \<Rightarrow> threadpool \<Rightarrow> (fd \<Rightarrow> http_conn) \<Rightarrow> http_globals \<Rightarrow> sql_connection_pool
    \<Rightarrow> (threadpool \<times> (fd \<Rightarrow> http_conn) \<times> http_globals \<times> sql_connection_pool) result" where
  "run_round fs query net intr t p conns g sp =
     bind_r (run_wait intr p) (\<lambda>p.
     bind_r (run_take t p) (\<lambda>(r, p).
     case r of None \<Rightarrow> Inr (p, conns, g, sp)
     | Some None \<Rightarrow> Inr (p, conns, g, sp)
     | Some (Some fd) \<Rightarrow>
         bind_r (run_request fs query net intr t (m_actor_model p) (m_connPool p) (conns fd) g sp) (\<lambda>(h, g, sp).
           Inr (p, conns(fd := h), g, sp))))"

section \<open>The queue of requests\<close>

definition tp_invar :: "threadpool \<Rightarrow> bool" where
  "tp_invar p \<longleftrightarrow> owner (m_queuelocker p) = None \<and> m_sem (m_queuestat p) = length (m_workqueue p) \<and>
     0 < m_max_requests p \<and> m_max_requests p \<le> int SEM_VALUE_MAX \<and> int (length (m_workqueue p)) \<le> m_max_requests p"

text \<open>One worker that finds the semaphore positive.\<close>

definition take_request :: "nat \<Rightarrow> threadpool \<Rightarrow> (fd option \<times> threadpool) result" where
  "take_request t p = bind_r (run_wait False p) (\<lambda>p. bind_r (run_take t p) (\<lambda>(r, p).
     case r of None \<Rightarrow> Inl Blocked | Some x \<Rightarrow> Inr (x, p)))"

lemma queue_full_iff: "tp_invar p \<Longrightarrow> queue_full p \<longleftrightarrow> m_max_requests p \<le> int (length (m_workqueue p))"
proof -
  assume "tp_invar p"
  then have "m_max_requests p mod 2 ^ 64 = m_max_requests p"
    by (intro mod_pos_pos_trivial) (auto simp: tp_invar_def SEM_VALUE_MAX_def)
  then show ?thesis by (simp add: queue_full_def)
qed

lemma append_p_room:
  assumes "tp_invar p" "int (length (m_workqueue p)) < m_max_requests p"
  shows "append_p t x p = Inr (True, p\<lparr>m_workqueue := m_workqueue p @ [x],
      m_queuestat := \<lparr>m_sem = Suc (length (m_workqueue p))\<rparr>\<rparr>)"
proof -
  have "length (m_workqueue p) < SEM_VALUE_MAX" using assms by (auto simp: tp_invar_def)
  then have "post (m_queuestat p) = (True, \<lparr>m_sem = Suc (length (m_workqueue p))\<rparr>)"
    using assms(1) by (cases "m_queuestat p") (simp add: tp_invar_def post_def sem_post_def)
  then show ?thesis using assms queue_full_iff [OF assms(1)]
    by (simp add: append_p_def append_push_def append_post_def tp_invar_def Let_def)
qed

lemma append_p_full:
  assumes "tp_invar p" "\<not> int (length (m_workqueue p)) < m_max_requests p"
  shows "append_p t x p = Inr (False, p)"
  using assms queue_full_iff [OF assms(1)]
  by (simp add: append_p_def append_push_def tp_invar_def)

interpretation requests: bounded_fifo tp_invar m_workqueue "\<lambda>p. nat (m_max_requests p)" "append_p t" "take_request u"
proof (unfold_locales, goal_cases)
  case (1 q)
  then show ?case by (auto simp: tp_invar_def)
next
  case (2 q x)
  then have "int (length (m_workqueue q)) < m_max_requests q" by (auto simp: tp_invar_def)
  with append_p_room [OF 2(1) this] 2(1) show ?case by (auto simp: tp_invar_def)
next
  case (3 q x)
  then have "\<not> int (length (m_workqueue q)) < m_max_requests q" by (auto simp: tp_invar_def)
  with append_p_full [OF 3(1) this] 3(1) show ?case by auto
next
  case (4 q)
  then show ?case by (simp add: take_request_def run_wait_def wait_def sem_wait_def tp_invar_def)
next
  case (5 q x xs)
  then have "take_request u q = Inr (x, q\<lparr>m_workqueue := xs, m_queuestat := (m_queuestat q)\<lparr>m_sem := length xs\<rparr>\<rparr>)"
    by (simp add: take_request_def run_wait_def run_take_def wait_def sem_wait_def tp_invar_def Let_def)
  with 5 show ?case by (auto simp: tp_invar_def)
qed

section \<open>Many threads\<close>

text \<open>
  The pool with the threads inside its operations: \<open>pushing\<close> counts the producers that have queued a request
  and not yet posted, \<open>taking\<close> the workers past the semaphore. A wait may be interrupted.
\<close>

record tp_sys =
  the_tp :: threadpool
  pushing :: nat
  taking :: nat

inductive tp_step :: "tp_sys \<Rightarrow> tp_sys \<Rightarrow> bool" where
  push: "append_push t x (the_tp s) = Inr (True, p) \<Longrightarrow> tp_step s (s\<lparr>the_tp := p, pushing := pushing s + 1\<rparr>)"
| refuse: "append_push t x (the_tp s) = Inr (False, p) \<Longrightarrow> tp_step s (s\<lparr>the_tp := p\<rparr>)"
| post: "0 < pushing s \<Longrightarrow> tp_step s (s\<lparr>the_tp := append_post (the_tp s), pushing := pushing s - 1\<rparr>)"
| wait: "run_wait intr (the_tp s) = Inr p \<Longrightarrow> tp_step s (s\<lparr>the_tp := p, taking := taking s + 1\<rparr>)"
| take: "0 < taking s \<Longrightarrow> run_take t (the_tp s) = Inr (r, p) \<Longrightarrow> tp_step s (s\<lparr>the_tp := p, taking := taking s - 1\<rparr>)"

definition tp_start :: "tp_sys \<Rightarrow> bool" where
  "tp_start s \<longleftrightarrow> tp_invar (the_tp s) \<and> m_workqueue (the_tp s) = [] \<and> pushing s = 0 \<and> taking s = 0"

definition tp_sys_invar :: "tp_sys \<Rightarrow> bool" where
  "tp_sys_invar s \<longleftrightarrow> (let p = the_tp s in owner (m_queuelocker p) = None \<and>
     0 < m_max_requests p \<and> m_max_requests p \<le> int SEM_VALUE_MAX \<and> int (length (m_workqueue p)) \<le> m_max_requests p \<and>
     length (m_workqueue p) \<le> m_sem (m_queuestat p) + pushing s + taking s)"

lemma tp_sys_full: "tp_sys_invar s \<Longrightarrow> queue_full (the_tp s) \<longleftrightarrow> m_max_requests (the_tp s) \<le> int (length (m_workqueue (the_tp s)))"
proof -
  assume "tp_sys_invar s"
  then have "m_max_requests (the_tp s) mod 2 ^ 64 = m_max_requests (the_tp s)"
    by (intro mod_pos_pos_trivial) (auto simp: tp_sys_invar_def Let_def SEM_VALUE_MAX_def)
  then show ?thesis by (simp add: queue_full_def)
qed

lemma tp_step_invar: "tp_step s s' \<Longrightarrow> tp_sys_invar s \<Longrightarrow> tp_sys_invar s'"
proof (induction rule: tp_step.induct)
  case (push t x s p)
  then show ?case using tp_sys_full [OF push(2)]
    by (auto simp: tp_sys_invar_def append_push_def Let_def split: if_splits)
next
  case (refuse t x s p)
  then show ?case by (auto simp: tp_sys_invar_def append_push_def Let_def split: if_splits)
next
  case (post s)
  show ?case
  proof (cases "m_sem (m_queuestat (the_tp s)) < SEM_VALUE_MAX")
    case True
    then show ?thesis using post by (auto simp: tp_sys_invar_def append_post_def post_def sem_post_def Let_def)
  next
    case False
    then have "length (m_workqueue (the_tp s)) \<le> m_sem (m_queuestat (the_tp s))"
      using post by (auto simp: tp_sys_invar_def Let_def)
    then show ?thesis using False post by (auto simp: tp_sys_invar_def append_post_def post_def sem_post_def Let_def)
  qed
next
  case (wait intr s p)
  then show ?case
    by (auto simp: tp_sys_invar_def run_wait_def Let_def wait_def sem_wait_def split: option.splits if_splits)
next
  case (take s t r p)
  then show ?case
    by (cases "m_workqueue (the_tp s)") (auto simp: tp_sys_invar_def run_take_def Let_def)
qed

lemma tp_start_invar: "tp_start s \<Longrightarrow> tp_sys_invar s"
  by (auto simp: tp_start_def tp_invar_def tp_sys_invar_def Let_def)

interpretation workers: invariant_system tp_start tp_step tp_sys_invar
  by unfold_locales (auto intro: tp_start_invar tp_step_invar)

section \<open>Properties\<close>

definition sample_tp :: "int \<Rightarrow> int \<Rightarrow> threadpool" where
  "sample_tp n m = \<lparr>m_thread_number = n, m_max_requests = m, m_threads = [], m_workqueue = [], m_queuelocker = locker_ctor,
     m_queuestat = \<lparr>m_sem = 0\<rparr>, m_connPool = Wild_Pointer, m_actor_model = 0\<rparr>"

lemma sample_tp_invar: "tp_invar (sample_tp 8 10)"
  by (simp add: sample_tp_def tp_invar_def locker_ctor_def SEM_VALUE_MAX_def)

text \<open>
  The request list of the thread pool is a bounded first-in first-out queue: under any sequence of
  append_p and of workers taking requests no operation faults, the accepted requests are those
  handed out followed by those waiting, in order, and at most m_max_requests wait.
\<close>

theorem threadpool_fifo:
  assumes "tp_invar p" "m_workqueue p = []"
  shows "\<exists>ins outs p'. fifo_run (append_p t) (take_request u) p ops = Inr (ins, outs, p') \<and> tp_invar p' \<and>
     ins = outs @ m_workqueue p' \<and> length (m_workqueue p') \<le> nat (m_max_requests p)"
proof -
  obtain ins outs p' where r: "fifo_run (append_p t) (take_request u) p ops = Inr (ins, outs, p')" "tp_invar p'"
    using requests.fifo_order [OF assms(1), of t u ops] by blast
  with requests.outs_prefix [OF assms r(1)] show ?thesis by auto
qed

theorem threadpool_fifo_witness:
  "\<exists>ins outs p'. fifo_run (append_p 0) (take_request 1) (sample_tp 8 10) [Enq (Some 5), Enq (Some 6), Deq] = Inr (ins, outs, p') \<and>
     ins = outs @ m_workqueue p' \<and> length (m_workqueue p') \<le> 10"
proof -
  have "m_workqueue (sample_tp 8 10) = []" "nat (m_max_requests (sample_tp 8 10)) = 10" by (simp_all add: sample_tp_def)
  then show ?thesis
    using threadpool_fifo [OF sample_tp_invar, of 0 1 "[Enq (Some 5), Enq (Some 6), Deq]"] by metis
qed



text \<open>
  The constructor forgets its arguments: the limit on waiting requests, the actor model and the
  pointer to the connection pool of the new object are whatever the memory held before, for any
  arguments; and when the memory held a pointer that is not the pool, serving any request uses that pointer.
\<close>

theorem threadpool_ctor_forgets:
  assumes "threadpool_ctor create detach am cp n mr memory = Inr p"
  shows "m_max_requests p = m_max_requests memory \<and> m_actor_model p = m_actor_model memory \<and>
     m_connPool p = m_connPool memory \<and> m_workqueue p = [] \<and>
     (m_connPool memory = Wild_Pointer \<longrightarrow> serve fs query intr t (m_connPool p) h g sp = Inl Uninitialised)"
  using assms by (auto simp: threadpool_ctor_def serve_def split: if_splits)

theorem threadpool_ctor_forgets_witness:
  "\<exists>p. threadpool_ctor (\<lambda>_. 0) (\<lambda>_. 0) 1 Pool_Instance 8 10000 (sample_tp 8 0) = Inr p \<and> m_max_requests p = 0 \<and>
     m_connPool p = Wild_Pointer"
proof -
  obtain p where p: "threadpool_ctor (\<lambda>_. 0) (\<lambda>_. 0) 1 Pool_Instance 8 10000 (sample_tp 8 0) = Inr p"
    by (simp add: threadpool_ctor_def sample_tp_def)
  from threadpool_ctor_forgets [OF p] p show ?thesis by (auto simp: sample_tp_def)
qed

end
