(* ===== verification/Block_Queue.thy ===== *)
theory Block_Queue
  imports Fifo Locker
begin

text \<open>
  \<open>ocean_http/log/block_queue.h\<close>: a ring buffer of fixed capacity behind a mutex and a
  condition variable. Each operation locks, works, and unlocks on every path; \<open>t\<close> is the
  calling thread. The theory shows that push and pop implement a bounded first-in first-out
  queue (an interpretation of \<open>bounded_fifo\<close>), that every operation leaves the mutex free and
  keeps the representation invariant, and that no consumer sleeps while an item is queued.
\<close>

record 'a block_queue =
  bq_mutex :: locker
  bq_cond :: cond
  m_array :: "'a list"
  m_size :: int
  m_max_size :: int
  m_front :: int
  m_back :: int

definition block_queue_ctor :: "'a \<Rightarrow> int \<Rightarrow> 'a block_queue result" where
  "block_queue_ctor dflt max_size =
     (if max_size \<le> 0 then Inl (Process_Exit (-1))
      else Inr \<lparr>bq_mutex = locker_ctor, bq_cond = cond_ctor,
                m_array = replicate (nat max_size) dflt,
                m_size = 0, m_max_size = max_size, m_front = -1, m_back = -1\<rparr>)"

definition bq_lock :: "nat \<Rightarrow> 'a block_queue \<Rightarrow> 'a block_queue result" where
  "bq_lock t q = bind_r (acquire t (bq_mutex q)) (\<lambda>l. Inr (q\<lparr>bq_mutex := l\<rparr>))"

definition bq_unlock :: "nat \<Rightarrow> 'a block_queue \<Rightarrow> 'a block_queue result" where
  "bq_unlock t q = bind_r (release t (bq_mutex q)) (\<lambda>l. Inr (q\<lparr>bq_mutex := l\<rparr>))"

definition clear :: "nat \<Rightarrow> 'a block_queue \<Rightarrow> 'a block_queue result" where
  "clear t q = bind_r (bq_lock t q) (\<lambda>q.
     bq_unlock t (q\<lparr>m_size := 0, m_front := -1, m_back := -1\<rparr>))"

definition full :: "nat \<Rightarrow> 'a block_queue \<Rightarrow> (bool \<times> 'a block_queue) result" where
  "full t q = bind_r (bq_lock t q) (\<lambda>q.
     if m_size q \<ge> m_max_size q then bind_r (bq_unlock t q) (\<lambda>q. Inr (True, q))
     else bind_r (bq_unlock t q) (\<lambda>q. Inr (False, q)))"

definition empty :: "nat \<Rightarrow> 'a block_queue \<Rightarrow> (bool \<times> 'a block_queue) result" where
  "empty t q = bind_r (bq_lock t q) (\<lambda>q.
     if 0 = m_size q then bind_r (bq_unlock t q) (\<lambda>q. Inr (True, q))
     else bind_r (bq_unlock t q) (\<lambda>q. Inr (False, q)))"

text \<open>\<open>front(value)\<close> and \<open>back(value)\<close>: \<open>None\<close> is the return value false, with no assignment.\<close>

definition front_bq :: "nat \<Rightarrow> 'a block_queue \<Rightarrow> ('a option \<times> 'a block_queue) result" where
  "front_bq t q = bind_r (bq_lock t q) (\<lambda>q.
     if 0 = m_size q then bind_r (bq_unlock t q) (\<lambda>q. Inr (None, q))
     else bind_r (arr_rd (m_array q) (m_front q)) (\<lambda>v.
          bind_r (bq_unlock t q) (\<lambda>q. Inr (Some v, q))))"

definition back_bq :: "nat \<Rightarrow> 'a block_queue \<Rightarrow> ('a option \<times> 'a block_queue) result" where
  "back_bq t q = bind_r (bq_lock t q) (\<lambda>q.
     if 0 = m_size q then bind_r (bq_unlock t q) (\<lambda>q. Inr (None, q))
     else bind_r (arr_rd (m_array q) (m_back q)) (\<lambda>v.
          bind_r (bq_unlock t q) (\<lambda>q. Inr (Some v, q))))"

definition size_bq :: "nat \<Rightarrow> 'a block_queue \<Rightarrow> (int \<times> 'a block_queue) result" where
  "size_bq t q = bind_r (bq_lock t q) (\<lambda>q.
     let tmp = m_size q in bind_r (bq_unlock t q) (\<lambda>q. Inr (tmp, q)))"

definition max_size :: "nat \<Rightarrow> 'a block_queue \<Rightarrow> (int \<times> 'a block_queue) result" where
  "max_size t q = bind_r (bq_lock t q) (\<lambda>q.
     let tmp = m_max_size q in bind_r (bq_unlock t q) (\<lambda>q. Inr (tmp, q)))"

definition push :: "nat \<Rightarrow> 'a \<Rightarrow> 'a block_queue \<Rightarrow> (bool \<times> 'a block_queue) result" where
  "push t item q = bind_r (bq_lock t q) (\<lambda>q.
     if m_size q \<ge> m_max_size q then
       bind_r (bq_unlock t (q\<lparr>bq_cond := snd (broadcast (bq_cond q))\<rparr>)) (\<lambda>q. Inr (False, q))
     else
       let q = q\<lparr>m_back := c_mod (m_back q + 1) (m_max_size q)\<rparr> in
       bind_r (arr_wr (m_array q) (m_back q) item) (\<lambda>a.
       let q = q\<lparr>m_array := a, m_size := m_size q + 1\<rparr> in
       bind_r (bq_unlock t (q\<lparr>bq_cond := snd (broadcast (bq_cond q))\<rparr>)) (\<lambda>q. Inr (True, q))))"

text \<open>The tail that both forms of \<open>pop\<close> share, with the mutex held.\<close>

definition pop_take :: "nat \<Rightarrow> 'a block_queue \<Rightarrow> ('a option \<times> 'a block_queue) result" where
  "pop_take t q =
     (let q = q\<lparr>m_front := c_mod (m_front q + 1) (m_max_size q)\<rparr> in
      bind_r (arr_rd (m_array q) (m_front q)) (\<lambda>item.
      bind_r (bq_unlock t (q\<lparr>m_size := m_size q - 1\<rparr>)) (\<lambda>q. Inr (Some item, q))))"

text \<open>
  \<open>pop(item)\<close>. \<open>ws\<close> lists what successive calls of \<open>m_cond.wait\<close> return and the queue the
  thread finds when it holds the mutex again; with no further entry it is still asleep.
\<close>

fun pop_loop :: "nat \<Rightarrow> (bool \<times> 'a block_queue) list \<Rightarrow> 'a block_queue
    \<Rightarrow> ('a option \<times> 'a block_queue) result" where
  "pop_loop t [] q = (if m_size q \<le> 0 then Inl Blocked else pop_take t q)"
| "pop_loop t ((ok, q') # ws) q =
     (if m_size q \<le> 0
      then if \<not> ok then bind_r (bq_unlock t q') (\<lambda>q'. Inr (None, q')) else pop_loop t ws q'
      else pop_take t q)"

definition pop :: "nat \<Rightarrow> (bool \<times> 'a block_queue) list \<Rightarrow> 'a block_queue
    \<Rightarrow> ('a option \<times> 'a block_queue) result" where
  "pop t ws q = bind_r (bq_lock t q) (pop_loop t ws)"

text \<open>
  \<open>pop(item, ms_timeout)\<close>: \<open>now_sec\<close> is the second of \<open>gettimeofday\<close>, and \<open>timewait\<close> gives,
  for the deadline (seconds, nanoseconds), the outcome of the timed wait.
\<close>

definition pop_deadline :: "int \<Rightarrow> int \<Rightarrow> int \<times> int" where
  "pop_deadline now_sec ms_timeout = (now_sec + c_div ms_timeout 1000, c_mod ms_timeout 100 * 1000)"

definition pop_timed :: "nat \<Rightarrow> int \<Rightarrow> (int \<times> int \<Rightarrow> 'a block_queue \<Rightarrow> bool \<times> 'a block_queue) \<Rightarrow> int
    \<Rightarrow> 'a block_queue \<Rightarrow> ('a option \<times> 'a block_queue) result" where
  "pop_timed t now_sec timewait ms_timeout q = bind_r (bq_lock t q) (\<lambda>q.
     let (ok, q') = (if m_size q \<le> 0 then timewait (pop_deadline now_sec ms_timeout) q else (True, q)) in
     if \<not> ok then bind_r (bq_unlock t q') (\<lambda>q. Inr (None, q))
     else if m_size q' \<le> 0 then bind_r (bq_unlock t q') (\<lambda>q. Inr (None, q))
     else pop_take t q')"

section \<open>The ring as a list\<close>

definition bq_rep :: "'a block_queue \<Rightarrow> bool" where
  "bq_rep q \<longleftrightarrow> 0 < m_max_size q \<and> int (length (m_array q)) = m_max_size q \<and>
     0 \<le> m_size q \<and> m_size q \<le> m_max_size q \<and>
     -1 \<le> m_front q \<and> m_front q < m_max_size q \<and> -1 \<le> m_back q \<and> m_back q < m_max_size q \<and>
     (0 < m_size q \<longrightarrow> 0 \<le> m_back q) \<and>
     (m_front q + m_size q) mod m_max_size q = m_back q mod m_max_size q"

definition bq_invar :: "'a block_queue \<Rightarrow> bool" where
  "bq_invar q \<longleftrightarrow> bq_rep q \<and> owner (bq_mutex q) = None"

definition bq_list :: "'a block_queue \<Rightarrow> 'a list" where
  "bq_list q = map (\<lambda>i. m_array q ! nat ((m_front q + 1 + int i) mod m_max_size q)) [0 ..< nat (m_size q)]"

definition pop_now :: "nat \<Rightarrow> 'a block_queue \<Rightarrow> ('a \<times> 'a block_queue) result" where
  "pop_now t q = bind_r (pop t [] q) (\<lambda>(r, q'). bind_r (of_option Blocked r) (\<lambda>x. Inr (x, q')))"

lemmas bq_ops = bq_lock_def bq_unlock_def clear_def full_def empty_def front_bq_def back_bq_def size_bq_def
  max_size_def push_def pop_take_def pop_def pop_now_def broadcast_def Let_def

lemma length_bq_list [simp]: "length (bq_list q) = nat (m_size q)"
  by (simp add: bq_list_def)

lemma mod_index_neq:
  fixes m :: int
  assumes "0 \<le> i" "i < j" "j - i < m"
  shows "(a + i) mod m \<noteq> (a + j) mod m"
proof
  assume "(a + i) mod m = (a + j) mod m"
  then have "m dvd (a + j) - (a + i)" by (metis mod_eq_dvd_iff)
  then have "m dvd j - i" by simp
  with assms show False by (auto dest: zdvd_imp_le)
qed

lemma bq_list_push:
  assumes "bq_rep q" and "m_size q < m_max_size q"
  shows "bq_list (q\<lparr>m_back := b, m_array := (m_array q)[nat ((m_back q + 1) mod m_max_size q) := x],
            m_size := m_size q + 1\<rparr>) = bq_list q @ [x]"
proof -
  let ?m = "m_max_size q" and ?n = "nat (m_size q)"
  let ?ix = "\<lambda>i. nat ((m_front q + 1 + int i) mod ?m)"
  let ?a = "(m_array q)[nat ((m_back q + 1) mod ?m) := x]"
  have m: "0 < ?m" and n: "int ?n = m_size q" and len: "int (length (m_array q)) = ?m"
    using assms by (auto simp: bq_rep_def)
  have bk: "(m_back q + 1) mod ?m = (m_front q + 1 + int ?n) mod ?m"
  proof -
    have "(m_back q + 1) mod ?m = (m_back q mod ?m + 1) mod ?m" by (simp add: mod_simps)
    also have "\<dots> = ((m_front q + m_size q) mod ?m + 1) mod ?m"
      using assms(1) by (simp add: bq_rep_def)
    also have "\<dots> = (m_front q + m_size q + 1) mod ?m" by (simp add: mod_simps)
    finally show ?thesis using n by (simp add: algebra_simps)
  qed
  have other: "?a ! ?ix i = m_array q ! ?ix i" if "i < ?n" for i
  proof -
    have "(m_front q + 1 + int i) mod ?m \<noteq> (m_front q + 1 + int ?n) mod ?m"
      using that assms n by (intro mod_index_neq) auto
    then have "?ix i \<noteq> nat ((m_back q + 1) mod ?m)"
      using m by (simp add: bk nat_eq_iff)
    then show ?thesis by simp
  qed
  have self: "?a ! ?ix ?n = x"
    using m len by (simp add: bk nat_less_iff)
  have "nat (m_size q + 1) = Suc ?n"
    using assms by (auto simp: bq_rep_def)
  then show ?thesis
    using self other by (simp add: bq_list_def)
qed

lemma bq_list_pop:
  assumes "bq_rep q" and "0 < m_size q"
  shows "bq_list q = m_array q ! nat ((m_front q + 1) mod m_max_size q) #
           bq_list (q\<lparr>m_front := (m_front q + 1) mod m_max_size q, m_size := m_size q - 1\<rparr>)"
proof -
  obtain n where n: "nat (m_size q) = Suc n"
    using assms(2) by (cases "nat (m_size q)") auto
  then have n': "nat (m_size q - 1) = n" by simp
  have "(m_front q + 1 + int (Suc i)) mod m_max_size q
      = ((m_front q + 1) mod m_max_size q + 1 + int i) mod m_max_size q" for i
    using mod_add_left_eq [of "m_front q + 1" "m_max_size q" "1 + int i"] by (simp add: add.assoc)
  then show ?thesis
    by (simp add: bq_list_def n n' upt_conv_Cons map_Suc_upt [symmetric] del: upt_Suc)
qed

lemma bq_rep_push:
  assumes "bq_rep q" and "m_size q < m_max_size q"
  shows "bq_rep (q\<lparr>m_back := (m_back q + 1) mod m_max_size q, m_array := (m_array q)[i := x],
            m_size := m_size q + 1\<rparr>)"
proof -
  let ?m = "m_max_size q"
  have "(m_front q + (m_size q + 1)) mod ?m = ((m_front q + m_size q) mod ?m + 1) mod ?m"
    by (simp add: mod_simps algebra_simps)
  also have "\<dots> = (m_back q + 1) mod ?m"
    using assms(1) by (simp add: bq_rep_def mod_simps)
  finally show ?thesis
    using assms by (auto simp: bq_rep_def pos_mod_bound less_imp_le intro: order_trans [of _ 0])
qed

lemma bq_rep_pop:
  assumes "bq_rep q" and "0 < m_size q"
  shows "bq_rep (q\<lparr>m_front := (m_front q + 1) mod m_max_size q, m_size := m_size q - 1\<rparr>)"
proof -
  have "((m_front q + 1) mod m_max_size q + (m_size q - 1)) mod m_max_size q
      = (m_front q + m_size q) mod m_max_size q"
    using mod_add_left_eq [of "m_front q + 1" "m_max_size q" "m_size q - 1"] by simp
  then show ?thesis
    using assms by (auto simp: bq_rep_def intro: order_trans [of _ 0])
qed

lemma bq_frame [simp]:
  "bq_rep (q\<lparr>bq_mutex := l\<rparr>) = bq_rep q" "bq_list (q\<lparr>bq_mutex := l\<rparr>) = bq_list q"
  "bq_rep (q\<lparr>bq_cond := c\<rparr>) = bq_rep q" "bq_list (q\<lparr>bq_cond := c\<rparr>) = bq_list q"
  by (simp_all add: bq_rep_def bq_list_def)

section \<open>The operations on a queue at rest\<close>

lemma bq_lock_free [simp]:
  "owner (bq_mutex q) = None \<Longrightarrow> bq_lock t q = Inr (q\<lparr>bq_mutex := \<lparr>owner = Some t\<rparr>\<rparr>)"
  by (cases "bq_mutex q") (simp add: bq_lock_def)

lemma bq_unlock_held [simp]:
  "bq_mutex q = \<lparr>owner = Some t\<rparr> \<Longrightarrow> bq_unlock t q = Inr (q\<lparr>bq_mutex := \<lparr>owner = None\<rparr>\<rparr>)"
  by (simp add: bq_unlock_def)

lemma bq_mutex_restore [simp]:
  "owner (bq_mutex q) = None \<Longrightarrow> q\<lparr>bq_mutex := \<lparr>owner = None\<rparr>\<rparr> = q"
  by (cases "bq_mutex q") simp

lemma bq_ctor_invar:
  assumes "block_queue_ctor d n = Inr q"
  shows "bq_invar q" "bq_list q = []" "m_max_size q = n" "0 < n" "m_front q = -1"
  using assms
  by (auto simp: block_queue_ctor_def bq_invar_def bq_rep_def bq_list_def locker_ctor_def split: if_splits)

lemma push_room:
  assumes "bq_invar q" and "m_size q < m_max_size q"
  shows "\<exists>q'. push t x q = Inr (True, q') \<and> bq_invar q' \<and> bq_list q' = bq_list q @ [x] \<and>
     m_max_size q' = m_max_size q \<and> m_size q' = m_size q + 1 \<and> m_front q' = m_front q \<and>
     sleepers (bq_cond q') = []"
proof -
  let ?b = "(m_back q + 1) mod m_max_size q"
  have rep: "bq_rep q" and free: "owner (bq_mutex q) = None"
    using assms(1) by (simp_all add: bq_invar_def)
  have b: "0 \<le> m_back q + 1" "0 < m_max_size q" "0 \<le> ?b" "?b < int (length (m_array q))"
    using rep by (auto simp: bq_rep_def)
  let ?q = "q\<lparr>m_back := ?b, m_array := (m_array q)[nat ?b := x], m_size := m_size q + 1\<rparr>"
  have "push t x q = Inr (True, ?q\<lparr>bq_cond := snd (broadcast (bq_cond q)), bq_mutex := \<lparr>owner = None\<rparr>\<rparr>)"
    using assms(2) free b by (simp add: push_def)
  then show ?thesis
    using bq_list_push [OF rep assms(2), where b = ?b and x = x]
      bq_rep_push [OF rep assms(2), where i = "nat ?b" and x = x]
    by (auto simp: bq_invar_def broadcast_def)
qed

lemma push_full:
  assumes "bq_invar q" and "m_max_size q \<le> m_size q"
  shows "push t x q = Inr (False, q\<lparr>bq_cond := snd (broadcast (bq_cond q))\<rparr>)"
proof -
  have "owner (bq_mutex q) = None"
    using assms(1) by (simp add: bq_invar_def)
  then have "q\<lparr>bq_mutex := \<lparr>owner = None\<rparr>, bq_cond := c\<rparr> = q\<lparr>bq_cond := c\<rparr>" for c
    by simp
  then show ?thesis
    using assms \<open>owner (bq_mutex q) = None\<close> by (simp add: push_def)
qed

lemma pop_take_some:
  assumes "bq_rep q" and "0 < m_size q" and "bq_mutex q = \<lparr>owner = Some t\<rparr>"
  shows "pop_take t q = Inr (Some (hd (bq_list q)),
     q\<lparr>m_front := (m_front q + 1) mod m_max_size q, m_size := m_size q - 1,
       bq_mutex := \<lparr>owner = None\<rparr>\<rparr>)"
proof -
  let ?f = "(m_front q + 1) mod m_max_size q"
  have f: "0 \<le> m_front q + 1" "0 < m_max_size q" "0 \<le> ?f" "?f < int (length (m_array q))"
    using assms(1) by (auto simp: bq_rep_def)
  show ?thesis
    using assms f bq_list_pop [OF assms(1,2)] by (simp add: pop_take_def)
qed

lemma pop_now_some:
  assumes "bq_invar q" and "0 < m_size q"
  shows "\<exists>q'. pop_now t q = Inr (hd (bq_list q), q') \<and> bq_invar q' \<and> bq_list q' = tl (bq_list q) \<and>
     m_max_size q' = m_max_size q \<and> m_size q' = m_size q - 1 \<and> m_array q' = m_array q \<and>
     m_front q' = (m_front q + 1) mod m_max_size q \<and> bq_cond q' = bq_cond q"
proof -
  have rep: "bq_rep q" and free: "owner (bq_mutex q) = None"
    using assms(1) by (simp_all add: bq_invar_def)
  let ?q = "q\<lparr>bq_mutex := \<lparr>owner = Some t\<rparr>\<rparr>"
  have "pop t [] q = pop_take t ?q"
    using free assms(2) by (simp add: pop_def)
  also have "\<dots> = Inr (Some (hd (bq_list q)),
     q\<lparr>m_front := (m_front q + 1) mod m_max_size q, m_size := m_size q - 1,
       bq_mutex := \<lparr>owner = None\<rparr>\<rparr>)"
    using pop_take_some [of ?q t] rep assms(2) by simp
  finally show ?thesis
    using bq_list_pop [OF rep assms(2)] bq_rep_pop [OF rep assms(2)]
    by (auto simp: pop_now_def bq_invar_def)
qed

lemma pop_now_empty: "bq_invar q \<Longrightarrow> m_size q = 0 \<Longrightarrow> pop_now t q = Inl Blocked"
  by (simp add: pop_now_def pop_def bq_invar_def)

lemma bq_list_Nil_iff: "bq_invar q \<Longrightarrow> bq_list q = [] \<longleftrightarrow> m_size q = 0"
  by (auto simp: bq_list_def bq_invar_def bq_rep_def)

lemma back_bq_last:
  assumes "bq_invar q" and "0 < m_size q"
  shows "back_bq t q = Inr (Some (last (bq_list q)), q)"
proof -
  have rep: "bq_rep q" and free: "owner (bq_mutex q) = None"
    using assms(1) by (simp_all add: bq_invar_def)
  define n where "n = nat (m_size q - 1)"
  have n: "nat (m_size q) = Suc n" "m_size q = int n + 1"
    using assms(2) by (simp_all add: n_def)
  have bk: "0 \<le> m_back q" "m_back q < m_max_size q" "m_back q < int (length (m_array q))"
    using rep assms(2) by (simp_all add: bq_rep_def)
  have "(m_front q + 1 + int n) mod m_max_size q = m_back q mod m_max_size q"
    using rep n(2) by (simp add: bq_rep_def algebra_simps)
  then have "last (bq_list q) = m_array q ! nat (m_back q)"
    using bk by (simp add: bq_list_def n(1))
  then show ?thesis
    using free bk assms(2) by (simp add: back_bq_def)
qed

lemma front_bq_unset:
  "bq_invar q \<Longrightarrow> 0 < m_size q \<Longrightarrow> m_front q = -1 \<Longrightarrow> front_bq t q = Inl Out_Of_Bounds"
  by (simp add: front_bq_def bq_invar_def arr_rd_def)

lemma front_bq_popped:
  assumes "bq_invar q0 \<and> pop_now u q0 = Inr (x, q)" and "bq_invar q" and "0 < m_size q"
  shows "front_bq t q = Inr (Some x, q)"
proof -
  have inv: "bq_invar q0" and p: "pop_now u q0 = Inr (x, q)" using assms(1) by simp_all
  have "0 < m_size q0"
    using pop_now_empty [OF inv, of u] p inv by (cases "m_size q0 = 0") (auto simp: bq_invar_def bq_rep_def)
  with pop_now_some [OF inv this, of u] p bq_list_pop [of q0] inv
  have "x = m_array q ! nat (m_front q)" "0 \<le> m_front q"
    by (auto simp: bq_invar_def bq_rep_def)
  moreover have "m_front q < int (length (m_array q))" "owner (bq_mutex q) = None"
    using assms(2) by (auto simp: bq_invar_def bq_rep_def)
  ultimately show ?thesis
    using assms(3) by (simp add: front_bq_def)
qed

interpretation ring: bounded_fifo bq_invar bq_list "\<lambda>q. nat (m_max_size q)" "push t" "pop_now u"
proof (unfold_locales, goal_cases)
  case (1 q)
  then show ?case by (auto simp: bq_invar_def bq_rep_def)
next
  case (2 q x)
  then have "m_size q < m_max_size q" by (auto simp: bq_invar_def bq_rep_def)
  from push_room [OF 2(1) this, of t x] show ?case by auto
next
  case (3 q x)
  then have "m_max_size q \<le> m_size q" by (auto simp: bq_invar_def bq_rep_def)
  from push_full [OF 3(1) this, of t x] 3 show ?case by (auto simp: bq_invar_def)
next
  case (4 q)
  then show ?case by (simp add: pop_now_empty bq_list_Nil_iff)
next
  case (5 q x xs)
  then have "0 < m_size q"
    using bq_list_Nil_iff [OF 5(1)] by (auto simp: bq_invar_def bq_rep_def)
  from pop_now_some [OF 5(1) this, of u] 5 show ?case by auto
qed

section \<open>Producers and consumers\<close>

text \<open>
  The queue shared by any number of threads. A state is the queue while no thread holds the
  mutex; a step is one critical section of \<open>push\<close> or \<open>pop\<close>, a consumer going to sleep in
  \<open>m_cond.wait\<close>, or a wake-up that no broadcast caused.
\<close>

inductive bq_step :: "'a block_queue \<Rightarrow> 'a block_queue \<Rightarrow> bool" where
  produce: "push t x q = Inr (ok, q') \<Longrightarrow> bq_step q q'"
| consume: "pop_now t q = Inr (x, q') \<Longrightarrow> bq_step q q'"
| go_to_sleep: "m_size q \<le> 0 \<Longrightarrow> bq_step q (q\<lparr>bq_cond := cond_sleep t (bq_cond q)\<rparr>)"
| resume: "t \<in> set (woken (bq_cond q)) \<Longrightarrow>
    pop_now t (q\<lparr>bq_cond := (bq_cond q)\<lparr>woken := remove1 t (woken (bq_cond q))\<rparr>\<rparr>) = Inr (x, q') \<Longrightarrow>
    bq_step q q'"
| sleep_again: "t \<in> set (woken (bq_cond q)) \<Longrightarrow> m_size q \<le> 0 \<Longrightarrow>
    bq_step q (q\<lparr>bq_cond := cond_sleep t ((bq_cond q)\<lparr>woken := remove1 t (woken (bq_cond q))\<rparr>)\<rparr>)"
| spurious: "t \<in> set (sleepers (bq_cond q)) \<Longrightarrow>
    bq_step q (q\<lparr>bq_cond := \<lparr>sleepers = remove1 t (sleepers (bq_cond q)),
                              woken = woken (bq_cond q) @ [t]\<rparr>\<rparr>)"

inductive_cases bq_stepE: "bq_step q q'"

definition bq_sys_invar :: "'a block_queue \<Rightarrow> bool" where
  "bq_sys_invar q \<longleftrightarrow> bq_invar q \<and> (sleepers (bq_cond q) \<noteq> [] \<longrightarrow> m_size q = 0)"

lemma bq_invar_cond [simp]: "bq_invar (q\<lparr>bq_cond := c\<rparr>) = bq_invar q"
  by (simp add: bq_invar_def)

lemma bq_sys_push:
  assumes "bq_sys_invar q" and "push t x q = Inr (ok, q')"
  shows "bq_sys_invar q'"
proof (cases "m_size q < m_max_size q")
  case True
  with push_room [of q t x] assms show ?thesis by (auto simp: bq_sys_invar_def)
next
  case False
  with push_full [of q t x] assms show ?thesis by (auto simp: bq_sys_invar_def broadcast_def)
qed

lemma bq_sys_pop:
  assumes "bq_invar q" and "sleepers (bq_cond q) \<noteq> [] \<longrightarrow> m_size q = 0"
    and "pop_now t q = Inr (x, q')"
  shows "bq_sys_invar q'"
proof -
  have "m_size q \<noteq> 0"
    using pop_now_empty [OF assms(1), of t] assms(3) by auto
  then have "0 < m_size q"
    using assms(1) by (auto simp: bq_invar_def bq_rep_def)
  with pop_now_some [OF assms(1) this, of t] assms show ?thesis by (auto simp: bq_sys_invar_def)
qed

lemma bq_sys_step: "bq_step q q' \<Longrightarrow> bq_sys_invar q \<Longrightarrow> bq_sys_invar q'"
proof (induction rule: bq_step.induct)
  case (produce t x q ok q')
  then show ?case by (blast intro: bq_sys_push)
next
  case (consume t q x q')
  then show ?case by (intro bq_sys_pop [OF _ _ consume(1)]) (auto simp: bq_sys_invar_def)
next
  case (resume t q x q')
  then show ?case
    by (intro bq_sys_pop [OF _ _ resume(2)]) (auto simp: bq_sys_invar_def)
next
  case (spurious t q)
  then have "sleepers (bq_cond q) \<noteq> []" by auto
  with spurious show ?case by (simp add: bq_sys_invar_def)
qed (auto simp: bq_sys_invar_def bq_invar_def bq_rep_def cond_sleep_def)

definition bq_init :: "'a block_queue \<Rightarrow> bool" where
  "bq_init q \<longleftrightarrow> (\<exists>d n. block_queue_ctor d n = Inr q)"

interpretation bq_sys: invariant_system bq_init bq_step bq_sys_invar
proof (unfold_locales, goal_cases)
  case (1 q)
  then obtain d n where c: "block_queue_ctor d n = Inr q" by (auto simp: bq_init_def)
  then have "sleepers (bq_cond q) = []"
    by (auto simp: block_queue_ctor_def cond_ctor_def split: if_splits)
  with bq_ctor_invar(1) [OF c] show ?case by (simp add: bq_sys_invar_def)
next
  case (2 q q')
  then show ?case by (blast intro: bq_sys_step)
qed

section \<open>Properties\<close>

text \<open>
  C5. A fresh block_queue used through push and pop is a bounded first-in first-out queue:
  whatever the sequence of operations, none faults, and the accepted items are the
  delivered ones followed by those still queued, never more than the capacity.
\<close>

theorem block_queue_fifo:
  assumes "block_queue_ctor d n = Inr q"
  shows "\<exists>ins outs q'. fifo_run (push t) (pop_now u) q ops = Inr (ins, outs, q') \<and> bq_invar q' \<and>
     ins = outs @ bq_list q' \<and> length (bq_list q') \<le> nat n"
proof -
  note c = bq_ctor_invar [OF assms]
  obtain ins outs q' where r: "fifo_run (push t) (pop_now u) q ops = Inr (ins, outs, q')"
      "bq_invar q'"
    using ring.fifo_order [OF c(1), of t u ops] by blast
  with ring.outs_prefix [OF c(1,2) r(1)] c(3) show ?thesis by auto
qed

theorem block_queue_fifo_witness:
  "\<exists>q ins outs q'. block_queue_ctor (0::nat) 2 = Inr q \<and>
     fifo_run (push 0) (pop_now 1) q [Enq 5, Enq 6, Enq 7, Deq, Enq 8, Deq] = Inr (ins, outs, q') \<and>
     ins = [5, 6, 8] \<and> outs = [5, 6] \<and> ins = outs @ bq_list q'"
proof -
  obtain q where q: "block_queue_ctor (0::nat) 2 = Inr q"
    by (simp add: block_queue_ctor_def)
  from block_queue_fifo [OF q, of 0 1 "[Enq 5, Enq 6, Enq 7, Deq, Enq 8, Deq]"]
  obtain ins outs q' where r:
    "fifo_run (push 0) (pop_now 1) q [Enq 5, Enq 6, Enq 7, Deq, Enq 8, Deq] = Inr (ins, outs, q')"
    "ins = outs @ bq_list q'" by blast
  have "ins = [5, 6, 8] \<and> outs = [5, 6]"
    using r(1) q
    by (auto simp: block_queue_ctor_def bq_ops acquire_def release_def lock_def unlock_def
        locker_ctor_def cond_ctor_def numeral_2_eq_2)
  with q r show ?thesis by blast
qed

text \<open>
  C29. No wake-up is lost: in every state that producers and consumers can reach, a consumer
  is asleep on the condition variable only while the queue is empty, the mutex is free and
  the ring is well formed.
\<close>

theorem block_queue_no_lost_wakeup:
  assumes "reachable bq_init bq_step q"
  shows "bq_invar q \<and> (sleepers (bq_cond q) \<noteq> [] \<longrightarrow> m_size q = 0)"
  using bq_sys.invar_reachable [OF assms] by (simp add: bq_sys_invar_def)

theorem block_queue_no_lost_wakeup_witness:
  "\<exists>q q1 q2. block_queue_ctor (0::nat) 3 = Inr q \<and> bq_step q q1 \<and> sleepers (bq_cond q1) = [7] \<and>
     m_size q1 = 0 \<and> bq_step q1 q2 \<and> m_size q2 = 1 \<and> sleepers (bq_cond q2) = []"
proof -
  obtain q where q: "block_queue_ctor (0::nat) 3 = Inr q"
    by (simp add: block_queue_ctor_def)
  let ?q1 = "q\<lparr>bq_cond := cond_sleep 7 (bq_cond q)\<rparr>"
  have s1: "bq_step q ?q1"
    using q by (intro bq_step.go_to_sleep) (auto simp: block_queue_ctor_def)
  have "reachable bq_init bq_step q"
    using q by (intro reachable.start) (auto simp: bq_init_def)
  then have r1: "reachable bq_init bq_step ?q1"
    using s1 by (rule reachable.next_state)
  have sl: "sleepers (bq_cond ?q1) = [7]"
    using q by (auto simp: block_queue_ctor_def cond_sleep_def cond_ctor_def)
  with block_queue_no_lost_wakeup [OF r1] have inv: "bq_invar ?q1" "m_size ?q1 = 0"
    by (auto simp del: bq_invar_cond)
  have "m_size ?q1 < m_max_size ?q1"
    using q by (auto simp: block_queue_ctor_def)
  from push_room [OF inv(1) this, of 1 9] obtain q2 where
    p: "push 1 9 ?q1 = Inr (True, q2)" "m_size q2 = m_size ?q1 + 1" "sleepers (bq_cond q2) = []"
    by blast
  from bq_step.produce [OF p(1)] s1 sl inv p q show ?thesis by auto
qed

text \<open>
  back() returns the youngest queued item, but front() does not return the oldest: before
  the first pop it reads m_array[-1], and after a pop it returns the item that was just
  removed, because m_front is the slot before the first element.
\<close>

theorem block_queue_front_stale:
  assumes "bq_invar q" and "0 < m_size q"
  shows "back_bq t q = Inr (Some (last (bq_list q)), q) \<and>
    (m_front q = -1 \<longrightarrow> front_bq t q = Inl Out_Of_Bounds) \<and>
    (\<forall>u q0 x. bq_invar q0 \<and> pop_now u q0 = Inr (x, q) \<longrightarrow> front_bq t q = Inr (Some x, q))"
  using back_bq_last [OF assms] front_bq_unset [OF assms] front_bq_popped [OF _ assms] by blast

theorem block_queue_front_stale_witness:
  "\<exists>q q1 q2 q3. block_queue_ctor (0::nat) 2 = Inr q \<and> push 0 5 q = Inr (True, q1) \<and>
     push 0 6 q1 = Inr (True, q2) \<and> pop_now 0 q2 = Inr (5, q3) \<and>
     front_bq 0 q1 = Inl Out_Of_Bounds \<and> front_bq 0 q3 = Inr (Some 5, q3) \<and>
     back_bq 0 q3 = Inr (Some (last (bq_list q3)), q3)"
proof -
  obtain q where q: "block_queue_ctor (0::nat) 2 = Inr q"
    by (simp add: block_queue_ctor_def)
  note c = bq_ctor_invar [OF q]
  have "m_size q = 0" using q by (auto simp: block_queue_ctor_def)
  with c push_room [OF c(1), of 0 5] obtain q1 where q1: "push 0 5 q = Inr (True, q1)" "bq_invar q1"
      "bq_list q1 = [5]" "m_max_size q1 = 2" "m_size q1 = 1" "m_front q1 = -1" by auto
  with push_room [OF q1(2), of 0 6] obtain q2 where q2: "push 0 6 q1 = Inr (True, q2)" "bq_invar q2"
      "bq_list q2 = [5, 6]" "m_size q2 = 2" by auto
  with pop_now_some [OF q2(2), of 0] obtain q3 where q3: "pop_now 0 q2 = Inr (5, q3)" "bq_invar q3"
      "m_size q3 = 1" by auto
  from block_queue_front_stale [of q1 0] block_queue_front_stale [of q3 0] q q1 q2 q3
  show ?thesis by (metis zero_less_one)
qed

end
