(* ===== verification/Http_Log.thy ===== *)
theory Http_Log
  imports Block_Queue CString
begin

text \<open>
  The log of the web server, \<open>log/log.h\<close> and \<open>log/log.cpp\<close>: opening and rotating the file, formatting a
  line into the shared buffer, and the two ways of writing it (at once, or through the blocking
  queue and a writer thread). The files are a map from paths to contents, and \<open>can_open\<close> says which
  paths \<open>fopen\<close> can open for appending. The clock is an argument.
\<close>

section \<open>Data\<close>

record tm =
  tm_year :: int
  tm_mon :: int
  tm_mday :: int
  tm_hour :: int
  tm_min :: int
  tm_sec :: int

record log =
  dir_name :: "char list"
  log_name :: "char list"
  m_split_lines :: int
  m_log_buf_size :: int
  m_count :: int
  m_today :: int
  m_fp :: "string option"
  m_buf :: "char list"
  m_log_queue :: "string block_queue option"
  m_is_async :: bool
  log_mutex :: locker
  log_close :: int

type_synonym files = "string \<Rightarrow> string option"

text \<open>The one instance is static, so its memory is zero before the constructor runs.\<close>

definition log_ctor :: log where
  "log_ctor = \<lparr>dir_name = replicate 128 NUL, log_name = replicate 128 NUL, m_split_lines = 0, m_log_buf_size = 0,
     m_count = 0, m_today = 0, m_fp = None, m_buf = [], m_log_queue = None, m_is_async = False,
     log_mutex = locker_ctor, log_close = 0\<rparr>"

section \<open>Files\<close>

definition fopen :: "(string \<Rightarrow> bool) \<Rightarrow> string \<Rightarrow> files \<Rightarrow> string option \<times> files" where
  "fopen can_open path fl =
     (if can_open path then (Some path, if fl path = None then fl(path \<mapsto> []) else fl) else (None, fl))"

definition fputs :: "string \<Rightarrow> string option \<Rightarrow> files \<Rightarrow> files result" where
  "fputs s fp fl = (case fp of None \<Rightarrow> Inl Null_Deref
     | Some path \<Rightarrow> Inr (fl(path \<mapsto> (case fl path of None \<Rightarrow> [] | Some old \<Rightarrow> old) @ s)))"

definition log_dtor :: "log \<Rightarrow> log" where
  "log_dtor L = L\<lparr>m_fp := None\<rparr>"

section \<open>init\<close>

definition date_text :: "tm \<Rightarrow> string" where
  "date_text now = show_int (tm_year now + 1900) @ ''_'' @ show_pad 2 (tm_mon now + 1) @ ''_'' @ show_pad 2 (tm_mday now) @ ''_''"

text \<open>The path of the log file and the two name buffers; \<open>snprintf\<close> keeps 254 characters.\<close>

definition full_name :: "string \<Rightarrow> tm \<Rightarrow> log \<Rightarrow> (string \<times> log) result" where
  "full_name file_name now L =
     bind_r (strrchr (file_name @ [NUL]) 0 (CHR ''/'')) (\<lambda>p.
     case p of
       None \<Rightarrow> Inr (take 254 (date_text now @ file_name), L)
     | Some p \<Rightarrow>
         bind_r (strcpy (log_name L) 0 (drop (nat (p + 1)) file_name)) (\<lambda>ln.
         bind_r (strncpy (dir_name L) 0 file_name (nat (p + 1))) (\<lambda>dn.
         bind_r (cstr_at dn 0) (\<lambda>dir.
           Inr (take 254 (dir @ date_text now @ file_name), L\<lparr>log_name := ln, dir_name := dn\<rparr>)))))"

definition init_log :: "(string \<Rightarrow> bool) \<Rightarrow> tm \<Rightarrow> string \<Rightarrow> int \<Rightarrow> int \<Rightarrow> int \<Rightarrow> int \<Rightarrow> log \<Rightarrow> files
    \<Rightarrow> (bool \<times> log \<times> files) result" where
  "init_log can_open now file_name close_log log_buf_size split_lines max_queue_size L fl =
     bind_r (if max_queue_size \<ge> 1
             then bind_r (block_queue_ctor [] max_queue_size) (\<lambda>q. Inr (L\<lparr>m_is_async := True, m_log_queue := Some q\<rparr>))
             else Inr L) (\<lambda>L.
     bind_r (guard_r Uncaught_Exception (0 \<le> log_buf_size)) (\<lambda>_.
     let L = L\<lparr>log_close := close_log, m_log_buf_size := log_buf_size, m_buf := replicate (nat log_buf_size) NUL,
               m_split_lines := split_lines\<rparr> in
     bind_r (full_name file_name now L) (\<lambda>(path, L).
     let (fp, fl) = fopen can_open path fl; L = L\<lparr>m_today := tm_mday now, m_fp := fp\<rparr> in
     Inr (if fp \<noteq> None then False else True, L, fl))))"

section \<open>write\_log\<close>

definition level_tag :: "int \<Rightarrow> string" where
  "level_tag level =
     (if level = 0 then ''[debug]:'' else if level = 1 then ''[info]:'' else if level = 2 then ''[warn]:''
      else if level = 3 then ''[error]:'' else ''[info]:'')"

definition stamp :: "tm \<Rightarrow> int \<Rightarrow> int \<Rightarrow> string" where
  "stamp now usec level =
     show_int (tm_year now + 1900) @ ''-'' @ show_pad 2 (tm_mon now + 1) @ ''-'' @ show_pad 2 (tm_mday now) @ '' '' @
     show_pad 2 (tm_hour now) @ '':'' @ show_pad 2 (tm_min now) @ '':'' @ show_pad 2 (tm_sec now) @ ''.'' @
     show_pad 6 usec @ '' '' @ level_tag level @ '' ''"

text \<open>Counting the line and changing the file on a new day or after \<open>m_split_lines\<close> lines.\<close>

definition rotate :: "(string \<Rightarrow> bool) \<Rightarrow> tm \<Rightarrow> log \<Rightarrow> files \<Rightarrow> (log \<times> files) result" where
  "rotate can_open now L fl =
     (let L = L\<lparr>m_count := m_count L + 1\<rparr> in
      bind_r (if m_today L \<noteq> tm_mday now then Inr True
              else bind_r (guard_r Div_By_Zero (m_split_lines L \<noteq> 0)) (\<lambda>_. Inr (c_mod (m_count L) (m_split_lines L) = 0))) (\<lambda>change.
      if \<not> change then Inr (L, fl)
      else
        bind_r (of_option Null_Deref (m_fp L)) (\<lambda>_.
        bind_r (cstr_at (dir_name L) 0) (\<lambda>dir.
        bind_r (cstr_at (log_name L) 0) (\<lambda>name.
        let tail = take 15 (date_text now) in
        if m_today L \<noteq> tm_mday now then
          let (fp, fl) = fopen can_open (take 254 (dir @ tail @ name)) fl in
          Inr (L\<lparr>m_today := tm_mday now, m_count := 0, m_fp := fp\<rparr>, fl)
        else
          let (fp, fl) = fopen can_open
                (take 254 (dir @ tail @ name @ ''.'' @ show_int (c_div (m_count L) (m_split_lines L)))) fl in
          Inr (L\<lparr>m_fp := fp\<rparr>, fl))))))"

text \<open>The stamp, the message and a line feed in \<open>m_buf\<close>; the line that is read back from it.\<close>

definition format_line :: "tm \<Rightarrow> int \<Rightarrow> int \<Rightarrow> string \<Rightarrow> log \<Rightarrow> (string \<times> log) result" where
  "format_line now usec level msg L =
     bind_r (snprintf (m_buf L) 0 48 (stamp now usec level)) (\<lambda>(n, b).
     bind_r (snprintf b n (nat ((m_log_buf_size L - n - 1) mod 2 ^ 64)) msg) (\<lambda>(m, b).
     bind_r (arr_wr b (n + m) LF) (\<lambda>b.
     bind_r (arr_wr b (n + m + 1) NUL) (\<lambda>b.
     bind_r (cstr_at b 0) (\<lambda>log_str. Inr (log_str, L\<lparr>m_buf := b\<rparr>))))))"

text \<open>A block between \<open>m_mutex.lock()\<close> and \<open>m_mutex.unlock()\<close>.\<close>

definition locked :: "nat \<Rightarrow> (log \<Rightarrow> ('a \<times> log) result) \<Rightarrow> log \<Rightarrow> ('a \<times> log) result" where
  "locked t f L = bind_r (acquire t (log_mutex L)) (\<lambda>l.
     bind_r (f (L\<lparr>log_mutex := l\<rparr>)) (\<lambda>(x, L).
     bind_r (release t (log_mutex L)) (\<lambda>l. Inr (x, L\<lparr>log_mutex := l\<rparr>))))"

definition put_line :: "string \<Rightarrow> files \<Rightarrow> log \<Rightarrow> (files \<times> log) result" where
  "put_line s fl L = bind_r (fputs s (m_fp L) fl) (\<lambda>fl. Inr (fl, L))"

definition write_log :: "(string \<Rightarrow> bool) \<Rightarrow> nat \<Rightarrow> tm \<Rightarrow> int \<Rightarrow> int \<Rightarrow> string \<Rightarrow> log \<Rightarrow> files \<Rightarrow> (log \<times> files) result" where
  "write_log can_open t now usec level msg L fl =
     bind_r (locked t (\<lambda>L. bind_r (rotate can_open now L fl) (\<lambda>(L, fl). Inr (fl, L))) L) (\<lambda>(fl, L).
     bind_r (locked t (format_line now usec level msg) L) (\<lambda>(log_str, L).
     bind_r (if m_is_async L
             then bind_r (of_option Null_Deref (m_log_queue L)) (\<lambda>q. bind_r (full t q) (\<lambda>(is_full, q).
               Inr (\<not> is_full, L\<lparr>m_log_queue := Some q\<rparr>)))
             else Inr (False, L)) (\<lambda>(via_queue, L).
     if via_queue then
       bind_r (of_option Null_Deref (m_log_queue L)) (\<lambda>q. bind_r (push t log_str q) (\<lambda>(ok, q).
         Inr (L\<lparr>m_log_queue := Some q\<rparr>, fl)))
     else bind_r (locked t (put_line log_str fl) L) (\<lambda>(fl, L). Inr (L, fl)))))"

text \<open>One round of the writer thread when the queue is not empty.\<close>

definition async_round :: "nat \<Rightarrow> log \<Rightarrow> files \<Rightarrow> (log \<times> files) result" where
  "async_round t L fl =
     bind_r (of_option Null_Deref (m_log_queue L)) (\<lambda>q.
     bind_r (pop_now t q) (\<lambda>(single_log, q).
     bind_r (locked t (put_line single_log fl) (L\<lparr>m_log_queue := Some q\<rparr>)) (\<lambda>(fl, L). Inr (L, fl))))"

definition flush :: "nat \<Rightarrow> log \<Rightarrow> log result" where
  "flush t L = bind_r (locked t (\<lambda>L. Inr ((), L)) L) (\<lambda>(_, L). Inr L)"

section \<open>Lemmas\<close>

lemma locked_free:
  assumes "owner (log_mutex L) = None" "f (L\<lparr>log_mutex := (log_mutex L)\<lparr>owner := Some t\<rparr>\<rparr>) = Inr (x, L')"
    "log_mutex L' = (log_mutex L)\<lparr>owner := Some t\<rparr>"
  shows "locked t f L = Inr (x, L'\<lparr>log_mutex := log_mutex L\<rparr>)"
  using assms by (simp add: locked_def)

lemma format_line_ok:
  fixes now :: tm and usec level :: int
  defines "st \<equiv> stamp now usec level"
  assumes b: "length (m_buf L) = nat (m_log_buf_size L)" "m_log_buf_size L < 2 ^ 31"
    and st: "length st < 48" "NUL \<notin> set st" and msg: "NUL \<notin> set msg"
    and room: "int (length st + length msg) + 2 \<le> m_log_buf_size L"
  shows "\<exists>b'. format_line now usec level msg L = Inr (st @ msg @ [LF], L\<lparr>m_buf := b'\<rparr>) \<and> length b' = length (m_buf L)"
proof -
  let ?n = "length st" and ?m = "length msg" and ?N = "length (m_buf L)"
  have N: "?n + ?m + 2 \<le> ?N" using b room by linarith
  obtain x1 x2 r1 where split: "m_buf L = x1 @ x2 # r1" "length x1 = ?n" "r1 = drop (?n + 1) (m_buf L)"
    using id_take_nth_drop [of ?n "m_buf L"] N by auto
  have "write_at ([] @ (x1 @ [x2]) @ r1) 0 (st @ [NUL]) = Inr ([] @ (st @ [NUL]) @ r1)"
    by (rule write_at_append) (use split in auto)
  then have 1: "snprintf (m_buf L) 0 48 st = Inr (int ?n, st @ NUL # r1)"
    using st(1) split(1) by (simp add: snprintf_def)
  have lr1: "length r1 = ?N - ?n - 1" by (simp add: split(3))
  have m1: "?m < length r1" using lr1 N by simp
  obtain y z r where r1: "r1 = y @ z # r" "length y = ?m"
    using id_take_nth_drop [OF m1] m1 by (metis length_take min.absorb2 order_less_imp_le)
  have sz: "nat ((m_log_buf_size L - int ?n - 1) mod 2 ^ 64) = ?N - ?n - 1"
    using b room by (subst mod_pos_pos_trivial) auto
  have "write_at (st @ (NUL # y) @ (z # r)) (int ?n) (msg @ [NUL]) = Inr (st @ (msg @ [NUL]) @ (z # r))"
    by (rule write_at_append) (use r1(2) in auto)
  then have 2: "snprintf (st @ NUL # r1) (int ?n) (nat ((m_log_buf_size L - int ?n - 1) mod 2 ^ 64)) msg
      = Inr (int ?m, st @ msg @ NUL # z # r)"
    using N by (simp only: sz) (simp add: snprintf_def r1(1))
  have 3: "arr_wr (st @ msg @ NUL # z # r) (int ?n + int ?m) LF = Inr (st @ msg @ LF # z # r)"
    using arr_wr_append [of "st @ msg" "int ?n + int ?m" NUL "z # r" LF] by (simp del: arr_wr_in)
  have 4: "arr_wr (st @ msg @ LF # z # r) (int ?n + int ?m + 1) NUL = Inr (st @ msg @ LF # NUL # r)"
    using arr_wr_append [of "st @ msg @ [LF]" "int ?n + int ?m + 1" z r NUL] by (simp del: arr_wr_in)
  have 5: "cstr_at (st @ msg @ LF # NUL # r) 0 = Inr (st @ msg @ [LF])"
    using cstr_append [of "st @ msg @ [LF]" r] st(2) msg by (simp add: cstr_at_def NUL_def)
  show ?thesis using 1 2 3 4 5 N r1 lr1
    by (intro exI [of _ "st @ msg @ LF # NUL # r"]) (simp add: format_line_def st_def del: arr_wr_in)
qed

text \<open>The line does not fit: one of the two stores behind the message is outside the buffer.\<close>

lemma format_line_overflow:
  fixes now :: tm and usec level :: int
  defines "st \<equiv> stamp now usec level"
  assumes b: "length (m_buf L) = nat (m_log_buf_size L)" "m_log_buf_size L < 2 ^ 31"
    and st: "length st < 48" "48 \<le> m_log_buf_size L"
    and room: "m_log_buf_size L < int (length st + length msg) + 2"
  shows "format_line now usec level msg L = Inl Out_Of_Bounds"
proof -
  let ?n = "length st" and ?m = "length msg" and ?N = "length (m_buf L)"
  have N: "48 \<le> ?N" "m_log_buf_size L = int ?N" using b st by auto
  obtain b1 where b1: "snprintf (m_buf L) 0 48 st = Inr (int ?n, b1)"
    using write_at_ok [of 0 "take 47 st @ [NUL]" "m_buf L"] st(1) N(1) by (auto simp: snprintf_def)
  then have l1: "length b1 = ?N" using snprintf_length by blast
  have sz: "nat ((m_log_buf_size L - int ?n - 1) mod 2 ^ 64) = ?N - ?n - 1"
    using b(2) st N by (subst mod_pos_pos_trivial) auto
  have "int ?n + int (length (take (?N - ?n - 1 - 1) msg @ [NUL])) \<le> int (length b1)" using st(1) N l1 by auto
  then obtain b' where w: "write_at b1 (int ?n) (take (?N - ?n - 1 - 1) msg @ [NUL]) = Inr b'"
    using write_at_ok [of "int ?n" "take (?N - ?n - 1 - 1) msg @ [NUL]" b1] by auto
  obtain b2 where b2: "snprintf b1 (int ?n) (?N - ?n - 1) msg = Inr (int ?m, b2)"
    unfolding snprintf_def w by (cases "?N - ?n - 1 = 0") auto
  then have l2: "length b2 = ?N" using snprintf_length l1 by metis
  show ?thesis
  proof (cases "int ?n + int ?m < int ?N")
    case True
    then have "int ?n + int ?m + 1 = int ?N" using room N(2) by simp
    then show ?thesis using b1 b2 sz l2
      by (simp add: format_line_def st_def [symmetric] arr_wr_def)
  next
    case False
    then show ?thesis using b1 b2 sz l2 by (simp add: format_line_def st_def [symmetric] arr_wr_def)
  qed
qed

definition valid_tm :: "tm \<Rightarrow> int \<Rightarrow> bool" where
  "valid_tm now usec \<longleftrightarrow> 0 \<le> tm_year now + 1900 \<and> tm_year now + 1900 < 10000 \<and> 0 \<le> tm_mon now \<and> tm_mon now < 12 \<and>
     0 < tm_mday now \<and> tm_mday now \<le> 31 \<and> 0 \<le> tm_hour now \<and> tm_hour now < 24 \<and> 0 \<le> tm_min now \<and> tm_min now < 60 \<and>
     0 \<le> tm_sec now \<and> tm_sec now \<le> 60 \<and> 0 \<le> usec \<and> usec < 1000000"

lemma stamp_ok:
  assumes "valid_tm now usec"
  shows "length (stamp now usec level) < 48" "NUL \<notin> set (stamp now usec level)"
proof -
  have "length (show_nat (nat (tm_year now + 1900))) \<le> 4"
    using assms by (intro length_show_nat) (auto simp: valid_tm_def)
  then have y: "length (show_int (tm_year now + 1900)) \<le> 4"
    using assms by (auto simp: show_int_def valid_tm_def)
  have p: "length (show_pad 2 (tm_mon now + 1)) = 2" "length (show_pad 2 (tm_mday now)) = 2" "length (show_pad 2 (tm_hour now)) = 2"
    "length (show_pad 2 (tm_min now)) = 2" "length (show_pad 2 (tm_sec now)) = 2" "length (show_pad 6 usec) = 6"
    using assms by (auto intro!: length_show_pad simp: valid_tm_def)
  have "length (level_tag level) \<le> 8" by (simp add: level_tag_def)
  then show "length (stamp now usec level) < 48" using y p by (simp add: stamp_def)
  have "NUL \<notin> set (level_tag level)" by (simp add: level_tag_def NUL_def)
  then show "NUL \<notin> set (stamp now usec level)"
    by (simp add: stamp_def show_int_no_NUL show_pad_no_NUL) (simp add: NUL_def)
qed

definition buffer_ok :: "log \<Rightarrow> bool" where
  "buffer_ok L \<longleftrightarrow> length (m_buf L) = nat (m_log_buf_size L) \<and> 48 \<le> m_log_buf_size L \<and> m_log_buf_size L < 2 ^ 31"

definition line_fits :: "log \<Rightarrow> string \<Rightarrow> bool" where
  "line_fits L line \<longleftrightarrow> int (length line) + 1 \<le> m_log_buf_size L"

lemma buffer_ok_update [simp]:
  "buffer_ok (L\<lparr>m_count := c\<rparr>) = buffer_ok L" "buffer_ok (L\<lparr>log_mutex := l\<rparr>) = buffer_ok L" "buffer_ok (L\<lparr>m_fp := p\<rparr>) = buffer_ok L"
  "buffer_ok (L\<lparr>m_today := d\<rparr>) = buffer_ok L" "buffer_ok (L\<lparr>m_log_queue := q\<rparr>) = buffer_ok L"
  "length b = length (m_buf L) \<Longrightarrow> buffer_ok (L\<lparr>m_buf := b\<rparr>) = buffer_ok L"
  by (simp_all add: buffer_ok_def)

lemma line_fits_update [simp]:
  "line_fits (L\<lparr>m_count := c\<rparr>) = line_fits L" "line_fits (L\<lparr>log_mutex := l\<rparr>) = line_fits L" "line_fits (L\<lparr>m_fp := p\<rparr>) = line_fits L"
  "line_fits (L\<lparr>m_today := d\<rparr>) = line_fits L" "line_fits (L\<lparr>m_log_queue := q\<rparr>) = line_fits L" "line_fits (L\<lparr>m_buf := b\<rparr>) = line_fits L"
  by (simp_all add: line_fits_def fun_eq_iff)

text \<open>Taking the mutex does not change what \<open>rotate\<close> does.\<close>

lemma rotate_mutex:
  "rotate can_open now (L\<lparr>log_mutex := l\<rparr>) fl =
     bind_r (rotate can_open now L fl) (\<lambda>(L, fl). Inr (L\<lparr>log_mutex := l\<rparr>, fl))"
  by (cases "m_fp L"; cases "cstr_at (dir_name L) 0"; cases "cstr_at (log_name L) 0")
     (auto simp: rotate_def Let_def guard_r_def split: prod.splits)

lemma rotate_keeps_mutex: "rotate can_open now L fl = Inr (L', fl') \<Longrightarrow> log_mutex L' = log_mutex L"
  by (cases "m_fp L"; cases "cstr_at (dir_name L) 0"; cases "cstr_at (log_name L) 0")
     (auto simp: rotate_def Let_def guard_r_def split: prod.splits if_splits)

text \<open>What \<open>write_log\<close> does once the file is chosen.\<close>

lemma write_log_line:
  assumes fr: "owner (log_mutex L) = None" and rot: "rotate can_open now L fl = Inr (L1, fl1)"
    and B: "buffer_ok L1" and v: "valid_tm now usec" and msg: "NUL \<notin> set msg"
    and fits: "line_fits L1 (stamp now usec level @ msg @ [LF])"
  defines "line \<equiv> stamp now usec level @ msg @ [LF]"
  shows "\<exists>b. length b = length (m_buf L1) \<and> write_log can_open t now usec level msg L fl =
     (let L2 = L1\<lparr>m_buf := b\<rparr> in
      bind_r (if m_is_async L1
             then bind_r (of_option Null_Deref (m_log_queue L1)) (\<lambda>q. bind_r (full t q) (\<lambda>(is_full, q).
               Inr (\<not> is_full, L2\<lparr>m_log_queue := Some q\<rparr>)))
             else Inr (False, L2)) (\<lambda>(via_queue, L).
     if via_queue then
       bind_r (of_option Null_Deref (m_log_queue L)) (\<lambda>q. bind_r (push t line q) (\<lambda>(ok, q).
         Inr (L\<lparr>m_log_queue := Some q\<rparr>, fl1)))
     else bind_r (locked t (put_line line fl1) L) (\<lambda>(fl, L). Inr (L, fl))))"
proof -
  let ?m = "(log_mutex L)\<lparr>owner := Some t\<rparr>"
  have mu: "log_mutex L1 = log_mutex L" using rotate_keeps_mutex [OF rot] .
  have same: "L1\<lparr>log_mutex := log_mutex L\<rparr> = L1" by (simp flip: mu)
  have 1: "locked t (\<lambda>L. bind_r (rotate can_open now L fl) (\<lambda>(L, fl). Inr (fl, L))) L = Inr (fl1, L1)"
    using locked_free [OF fr, of _ t fl1 "L1\<lparr>log_mutex := ?m\<rparr>"] rot by (simp add: rotate_mutex same)
  have "\<exists>b. format_line now usec level msg (L1\<lparr>log_mutex := ?m\<rparr>) = Inr (line, L1\<lparr>log_mutex := ?m, m_buf := b\<rparr>) \<and> length b = length (m_buf L1)"
    using format_line_ok [of "L1\<lparr>log_mutex := ?m\<rparr>" now usec level msg] B stamp_ok [OF v] msg fits
    by (auto simp: buffer_ok_def line_fits_def line_def)
  then obtain b where b: "format_line now usec level msg (L1\<lparr>log_mutex := ?m\<rparr>) = Inr (line, L1\<lparr>log_mutex := ?m, m_buf := b\<rparr>)"
    "length b = length (m_buf L1)" by blast
  have "L1\<lparr>m_buf := b, log_mutex := log_mutex L\<rparr> = L1\<lparr>m_buf := b\<rparr>" by (simp flip: mu)
  then have 2: "locked t (format_line now usec level msg) L1 = Inr (line, L1\<lparr>m_buf := b\<rparr>)"
    using locked_free [of L1 "format_line now usec level msg" t line] fr b(1) mu by simp
  show ?thesis using 1 2 b(2) by (intro exI [of _ b]) (simp add: write_log_def Let_def)
qed

text \<open>A log that is idle, on a day and at a line count where the file is not changed.\<close>

definition log_ready :: "tm \<Rightarrow> log \<Rightarrow> bool" where
  "log_ready now L \<longleftrightarrow> owner (log_mutex L) = None \<and> buffer_ok L \<and> m_today L = tm_mday now \<and> m_split_lines L \<noteq> 0 \<and>
     c_mod (m_count L + 1) (m_split_lines L) \<noteq> 0"

lemma rotate_stays:
  "log_ready now L \<Longrightarrow> rotate can_open now L fl = Inr (L\<lparr>m_count := m_count L + 1\<rparr>, fl)"
  by (simp add: rotate_def log_ready_def Let_def)

lemma log_ready_lock: "log_ready now L \<Longrightarrow> owner (log_mutex L) = None \<and> buffer_ok (L\<lparr>m_count := m_count L + 1\<rparr>)"
  by (simp add: log_ready_def)

definition appends :: "string \<Rightarrow> string \<Rightarrow> files \<Rightarrow> files" where
  "appends path s fl = fl(path \<mapsto> (case fl path of None \<Rightarrow> [] | Some old \<Rightarrow> old) @ s)"

lemma appends_twice: "appends path b (appends path a fl) = appends path (a @ b) fl"
  by (simp add: appends_def)

lemma put_line_locked:
  assumes "owner (log_mutex L) = None" "m_fp L = Some path"
  shows "locked t (put_line s fl) L = Inr (appends path s fl, L)"
  using locked_free [OF assms(1), of "put_line s fl" t "appends path s fl" "L\<lparr>log_mutex := (log_mutex L)\<lparr>owner := Some t\<rparr>\<rparr>"] assms
  by (simp add: put_line_def fputs_def appends_def)

lemma full_eq: "bq_invar q \<Longrightarrow> full t q = Inr (m_size q \<ge> m_max_size q, q)"
  by (simp add: full_def bq_invar_def)

lemma write_log_direct:
  assumes "owner (log_mutex L) = None" "rotate can_open now L fl = Inr (L1, fl1)" "buffer_ok L1" "valid_tm now usec"
    "NUL \<notin> set msg" "line_fits L1 (stamp now usec level @ msg @ [LF])" "\<not> m_is_async L1" "m_fp L1 = Some path"
  shows "\<exists>b. length b = length (m_buf L1) \<and> write_log can_open t now usec level msg L fl =
     Inr (L1\<lparr>m_buf := b\<rparr>, appends path (stamp now usec level @ msg @ [LF]) fl1)"
proof -
  obtain b where b: "length b = length (m_buf L1)" "write_log can_open t now usec level msg L fl =
      bind_r (locked t (put_line (stamp now usec level @ msg @ [LF]) fl1) (L1\<lparr>m_buf := b\<rparr>)) (\<lambda>(fl, L). Inr (L, fl))"
    using write_log_line [OF assms(1-6), of t] assms(7) by (auto simp: Let_def)
  have "owner (log_mutex (L1\<lparr>m_buf := b\<rparr>)) = None" "m_fp (L1\<lparr>m_buf := b\<rparr>) = Some path"
    using assms(1,8) rotate_keeps_mutex [OF assms(2)] by simp_all
  from put_line_locked [OF this] b show ?thesis by auto
qed

lemma write_log_now:
  assumes "log_ready now L" "valid_tm now usec" "NUL \<notin> set msg" "line_fits L (stamp now usec level @ msg @ [LF])"
    and "m_fp L = Some path" "\<not> m_is_async L"
  shows "\<exists>b. length b = length (m_buf L) \<and> write_log can_open t now usec level msg L fl =
     Inr (L\<lparr>m_count := m_count L + 1, m_buf := b\<rparr>, appends path (stamp now usec level @ msg @ [LF]) fl)"
  using write_log_direct [OF _ rotate_stays [OF assms(1)], of usec msg level path] log_ready_lock [OF assms(1)] assms(2-) by simp

lemma write_log_null:
  assumes "log_ready now L" "valid_tm now usec" "NUL \<notin> set msg" "line_fits L (stamp now usec level @ msg @ [LF])"
    and "m_fp L = None" "\<not> m_is_async L"
  shows "write_log can_open t now usec level msg L fl = Inl Null_Deref"
proof -
  let ?L = "\<lambda>b. L\<lparr>m_count := m_count L + 1, m_buf := b\<rparr>"
  obtain b where "write_log can_open t now usec level msg L fl =
      bind_r (locked t (put_line (stamp now usec level @ msg @ [LF]) fl) (?L b)) (\<lambda>(fl, L). Inr (L, fl))"
    using write_log_line [OF _ rotate_stays [OF assms(1), of can_open fl], where usec = usec and msg = msg and level = level and t = t] log_ready_lock [OF assms(1)] assms(2-6)
    by (auto simp: Let_def)
  moreover have "locked t (put_line s fl) (?L b) = Inl Null_Deref" for s
    using assms(5) log_ready_lock [OF assms(1)] by (simp add: locked_def put_line_def fputs_def)
  ultimately show ?thesis by simp
qed

lemma write_log_queued:
  assumes "log_ready now L" "valid_tm now usec" "NUL \<notin> set msg" "line_fits L (stamp now usec level @ msg @ [LF])"
    and "m_is_async L" "m_log_queue L = Some q" "bq_invar q" "int (length (bq_list q)) < m_max_size q"
  shows "\<exists>b q'. length b = length (m_buf L) \<and> write_log can_open t now usec level msg L fl =
     Inr (L\<lparr>m_count := m_count L + 1, m_buf := b, m_log_queue := Some q'\<rparr>, fl) \<and>
     bq_invar q' \<and> bq_list q' = bq_list q @ [stamp now usec level @ msg @ [LF]] \<and> m_max_size q' = m_max_size q"
proof -
  have sz: "m_size q < m_max_size q" using assms(7,8) by (auto simp: bq_invar_def bq_rep_def)
  have "length (bq_list q) < nat (m_max_size q)" using assms(8) by linarith
  then obtain q' where q': "push t (stamp now usec level @ msg @ [LF]) q = Inr (True, q')" "bq_invar q'"
     "bq_list q' = bq_list q @ [stamp now usec level @ msg @ [LF]]" "nat (m_max_size q') = nat (m_max_size q)"
    using ring.enq_room [OF assms(7)] by blast
  have "m_max_size q' = m_max_size q" using q'(2,4) assms(7) by (auto simp: bq_invar_def bq_rep_def)
  moreover obtain b where b: "length b = length (m_buf L)" "write_log can_open t now usec level msg L fl =
      Inr (L\<lparr>m_count := m_count L + 1, m_buf := b, m_log_queue := Some q'\<rparr>, fl)"
    using write_log_line [OF _ rotate_stays [OF assms(1)], where usec = usec and msg = msg and level = level and t = t] log_ready_lock [OF assms(1)] assms(2-6)
      full_eq [OF assms(7), of t] sz q'(1)
    by (auto simp: Let_def)
  ultimately show ?thesis using q' by blast
qed

lemma async_round_puts:
  assumes "m_log_queue L = Some q" "bq_invar q" "bq_list q = x # xs" "owner (log_mutex L) = None" "m_fp L = Some path"
  shows "\<exists>q'. async_round t L fl = Inr (L\<lparr>m_log_queue := Some q'\<rparr>, appends path x fl) \<and> bq_invar q' \<and> bq_list q' = xs"
proof -
  obtain q' where q': "pop_now t q = Inr (x, q')" "bq_invar q'" "bq_list q' = xs"
    using ring.deq_first [OF assms(2,3)] by blast
  have "locked t (put_line x fl) (L\<lparr>m_log_queue := Some q'\<rparr>) = Inr (appends path x fl, L\<lparr>m_log_queue := Some q'\<rparr>)"
    using put_line_locked [of "L\<lparr>m_log_queue := Some q'\<rparr>" path t x fl] assms(4,5) by simp
  then show ?thesis using q' assms(1) by (auto simp: async_round_def)
qed

section \<open>Runs\<close>

type_synonym message = "int \<times> int \<times> string"

fun write_all :: "(string \<Rightarrow> bool) \<Rightarrow> nat \<Rightarrow> tm \<Rightarrow> message list \<Rightarrow> log \<Rightarrow> files \<Rightarrow> (log \<times> files) result" where
  "write_all can_open t now [] L fl = Inr (L, fl)"
| "write_all can_open t now ((usec, level, msg) # ms) L fl =
     bind_r (write_log can_open t now usec level msg L fl) (\<lambda>(L, fl). write_all can_open t now ms L fl)"

fun drain :: "nat \<Rightarrow> nat \<Rightarrow> log \<Rightarrow> files \<Rightarrow> (log \<times> files) result" where
  "drain t 0 L fl = Inr (L, fl)"
| "drain t (Suc n) L fl = bind_r (async_round t L fl) (\<lambda>(L, fl). drain t n L fl)"

fun lines_of :: "tm \<Rightarrow> message list \<Rightarrow> string list" where
  "lines_of now [] = []"
| "lines_of now ((usec, level, msg) # ms) = (stamp now usec level @ msg @ [LF]) # lines_of now ms"

lemma length_lines_of [simp]: "length (lines_of now ms) = length ms"
  by (induction now ms rule: lines_of.induct) auto

lemma lines_of_Nil [simp]: "lines_of now ms = [] \<longleftrightarrow> ms = []"
  by (metis length_0_conv length_lines_of)

definition good_messages :: "tm \<Rightarrow> log \<Rightarrow> message list \<Rightarrow> bool" where
  "good_messages now L ms \<longleftrightarrow>
     list_all (\<lambda>(usec, level, msg). valid_tm now usec \<and> NUL \<notin> set msg \<and> line_fits L (stamp now usec level @ msg @ [LF])) ms"

text \<open>An open and idle log whose file takes \<open>n\<close> more lines of this day.\<close>

definition log_room :: "tm \<Rightarrow> nat \<Rightarrow> log \<Rightarrow> bool" where
  "log_room now n L \<longleftrightarrow> owner (log_mutex L) = None \<and> buffer_ok L \<and> m_today L = tm_mday now \<and> 0 \<le> m_count L \<and>
     m_count L + int n < m_split_lines L"

lemma log_room_ready: "log_room now (Suc n) L \<Longrightarrow> log_ready now L"
  by (auto simp: log_room_def log_ready_def)

lemma write_all_sync:
  assumes "log_room now (length ms) L" "good_messages now L ms" "m_fp L = Some path" "\<not> m_is_async L"
  shows "\<exists>L'. write_all can_open t now ms L fl =
     Inr (L', if ms = [] then fl else appends path (concat (lines_of now ms)) fl)"
  using assms
proof (induction ms arbitrary: L fl)
  case (Cons m ms)
  obtain usec level msg where m: "m = (usec, level, msg)" by (cases m)
  have r: "log_ready now L" using log_room_ready Cons.prems(1) by simp
  have v: "valid_tm now usec" "NUL \<notin> set msg" "line_fits L (stamp now usec level @ msg @ [LF])"
    using Cons.prems(2) by (auto simp: good_messages_def m)
  obtain b where b: "length b = length (m_buf L)" "write_log can_open t now usec level msg L fl =
     Inr (L\<lparr>m_count := m_count L + 1, m_buf := b\<rparr>, appends path (stamp now usec level @ msg @ [LF]) fl)"
    using write_log_now [OF r v Cons.prems(3,4)] by blast
  let ?L = "L\<lparr>m_count := m_count L + 1, m_buf := b\<rparr>"
  have "log_room now (length ms) ?L" "good_messages now ?L ms" "m_fp ?L = Some path" "\<not> m_is_async ?L"
    using Cons.prems b(1) by (auto simp: log_room_def good_messages_def)
  from Cons.IH [OF this, of "appends path (stamp now usec level @ msg @ [LF]) fl"] b(2) show ?case
    by (cases "ms = []") (auto simp: m appends_twice)
qed simp

lemma write_all_async:
  assumes "log_room now (length ms) L" "good_messages now L ms" "m_is_async L"
    and "m_log_queue L = Some q" "bq_invar q" "int (length (bq_list q) + length ms) \<le> m_max_size q"
  shows "\<exists>L' q'. write_all can_open t now ms L fl = Inr (L', fl) \<and> m_log_queue L' = Some q' \<and> bq_invar q' \<and>
     bq_list q' = bq_list q @ lines_of now ms \<and> owner (log_mutex L') = None \<and> m_fp L' = m_fp L"
  using assms
proof (induction ms arbitrary: L q)
  case Nil
  then show ?case by (auto simp: log_room_def)
next
  case (Cons m ms)
  obtain usec level msg where m: "m = (usec, level, msg)" by (cases m)
  have r: "log_ready now L" using log_room_ready Cons.prems(1) by simp
  have v: "valid_tm now usec" "NUL \<notin> set msg" "line_fits L (stamp now usec level @ msg @ [LF])"
    using Cons.prems(2) by (auto simp: good_messages_def m)
  have "int (length (bq_list q)) < m_max_size q" using Cons.prems(6) by simp
  then obtain b q' where b: "length b = length (m_buf L)" "write_log can_open t now usec level msg L fl =
     Inr (L\<lparr>m_count := m_count L + 1, m_buf := b, m_log_queue := Some q'\<rparr>, fl)"
     "bq_invar q'" "bq_list q' = bq_list q @ [stamp now usec level @ msg @ [LF]]" "m_max_size q' = m_max_size q"
    using write_log_queued [OF r v Cons.prems(3-5)] by blast
  let ?L = "L\<lparr>m_count := m_count L + 1, m_buf := b, m_log_queue := Some q'\<rparr>"
  have "log_room now (length ms) ?L" "good_messages now ?L ms" "m_is_async ?L" "m_log_queue ?L = Some q'"
    "int (length (bq_list q') + length ms) \<le> m_max_size q'"
    using Cons.prems b by (auto simp: log_room_def good_messages_def simp del: length_bq_list)
  from Cons.IH [OF this(1-4) b(3) this(5)] b(2,4) show ?case by (auto simp: m)
qed

lemma drain_all:
  assumes "m_log_queue L = Some q" "bq_invar q" "owner (log_mutex L) = None" "m_fp L = Some path"
  shows "\<exists>L'. drain t (length (bq_list q)) L fl =
     Inr (L', if bq_list q = [] then fl else appends path (concat (bq_list q)) fl)"
  using assms
proof (induction "bq_list q" arbitrary: L q fl)
  case Nil
  then show ?case by (simp flip: Nil.hyps)
next
  case (Cons x xs)
  obtain q' where q': "async_round t L fl = Inr (L\<lparr>m_log_queue := Some q'\<rparr>, appends path x fl)" "bq_invar q'" "bq_list q' = xs"
    using async_round_puts [OF Cons.prems(1,2) Cons.hyps(2) [symmetric] Cons.prems(3,4)] by blast
  have "\<exists>L'. drain t (length (bq_list q')) (L\<lparr>m_log_queue := Some q'\<rparr>) (appends path x fl) =
     Inr (L', if bq_list q' = [] then appends path x fl else appends path (concat (bq_list q')) (appends path x fl))"
    using q'(2,3) Cons.prems by (intro Cons.hyps(1)) auto
  then show ?case using q'(1,3) Cons.hyps(2) [symmetric]
    by (cases "xs = []") (auto simp: appends_twice simp del: length_bq_list)
qed

section \<open>Properties\<close>


definition sample_tm :: tm where
  "sample_tm = \<lparr>tm_year = 122, tm_mon = 3, tm_mday = 9, tm_hour = 8, tm_min = 30, tm_sec = 5\<rparr>"

definition sample_log :: log where
  "sample_log = log_ctor\<lparr>dir_name := ''./'' @ replicate 126 NUL, log_name := ''log'' @ replicate 125 NUL, m_split_lines := 10,
     m_log_buf_size := 64, m_buf := replicate 64 NUL, m_today := 9, m_fp := Some ''./2022_04_09_log''\<rparr>"

lemma sample_stamp [simp]: "stamp sample_tm 7 1 = ''2022-04-09 08:30:05.000007 [info]: ''"
  by code_simp

lemma sample_log_facts [simp]:
  "valid_tm sample_tm 7" "buffer_ok sample_log" "owner (log_mutex sample_log) = None" "m_log_buf_size sample_log = 64"
  "m_today sample_log = 9" "tm_mday sample_tm = 9" "m_split_lines sample_log = 10" "m_count sample_log = 0"
  "m_fp sample_log = Some ''./2022_04_09_log''"
  by (simp_all add: valid_tm_def sample_tm_def sample_log_def buffer_ok_def log_ctor_def locker_ctor_def)




text \<open>
  A line that does not fit the buffer is not cut: \<open>vsnprintf\<close> returns the length the text would
  have had, and the line feed or the terminator is then stored behind the end of \<open>m_buf\<close>.
\<close>

theorem write_log_overflow:
  assumes "owner (log_mutex L) = None" "rotate can_open now L fl = Inr (L1, fl1)" "buffer_ok L1" "valid_tm now usec"
    and "m_log_buf_size L1 < int (length (stamp now usec level) + length msg) + 2"
  shows "write_log can_open t now usec level msg L fl = Inl Out_Of_Bounds"
proof -
  let ?m = "(log_mutex L)\<lparr>owner := Some t\<rparr>"
  have mu: "log_mutex L1 = log_mutex L" using rotate_keeps_mutex [OF assms(2)] .
  have same: "L1\<lparr>log_mutex := log_mutex L\<rparr> = L1" by (simp flip: mu)
  have 1: "locked t (\<lambda>L. bind_r (rotate can_open now L fl) (\<lambda>(L, fl). Inr (fl, L))) L = Inr (fl1, L1)"
    using locked_free [OF assms(1), of _ t fl1 "L1\<lparr>log_mutex := ?m\<rparr>"] assms(2) by (simp add: rotate_mutex same)
  have "format_line now usec level msg (L1\<lparr>log_mutex := ?m\<rparr>) = Inl Out_Of_Bounds"
    using assms(3,5) stamp_ok [OF assms(4)] by (intro format_line_overflow) (auto simp: buffer_ok_def)
  then have "locked t (format_line now usec level msg) L1 = Inl Out_Of_Bounds"
    using assms(1) mu by (simp add: locked_def)
  with 1 show ?thesis by (simp add: write_log_def)
qed

theorem write_log_overflow_witness:
  "write_log (\<lambda>_. True) 0 sample_tm 7 1 (replicate 28 CHR ''a'') sample_log Map.empty = Inl Out_Of_Bounds"
proof -
  have "log_ready sample_tm sample_log" by (simp add: log_ready_def)
  from write_log_overflow [OF _ rotate_stays [OF this], of 7 1 "replicate 28 CHR ''a''"] show ?thesis by simp
qed

lemma full_name_serverlog:
  assumes "dir_name L = dir_name log_ctor" "log_name L = log_name log_ctor"
  shows "full_name ''./serverlog'' now L = Inr (take 254 (''./'' @ date_text now @ ''./serverlog''),
     L\<lparr>log_name := ''serverlog'' @ replicate 119 NUL, dir_name := ''./'' @ replicate 126 NUL\<rparr>)"
proof -
  have "strrchr (''./serverlog'' @ [NUL]) 0 (CHR ''/'') = Inr (Some 1)"
    "strcpy (replicate 128 NUL) 0 ''serverlog'' = Inr (''serverlog'' @ replicate 119 NUL)"
    "strncpy (replicate 128 NUL) 0 ''./serverlog'' 2 = Inr (''./'' @ replicate 126 NUL)"
    "cstr_at (''./'' @ replicate 126 NUL) 0 = Inr ''./''" by code_simp+
  then show ?thesis using assms by (simp add: full_name_def log_ctor_def numeral_2_eq_2)
qed

text \<open>
  The log of the server never opens. \<open>init\<close> is called with \<open>./serverlog\<close> and appends the whole
  argument, not its last component, to the directory and the date; the resulting path lies in a
  directory \<open>2022_04_09_.\<close> or the like. Where that cannot be opened \<open>init\<close> returns \<open>true\<close>, and the first line
  written at once passes a null stream to \<open>fputs\<close>.
\<close>

theorem server_log_crashes:
  assumes "\<not> can_open (''./'' @ date_text now @ ''./serverlog'')" "valid_tm now usec" "NUL \<notin> set msg"
    and "length msg \<le> 1900"
  shows "\<exists>L. init_log can_open now ''./serverlog'' 0 2000 800000 0 log_ctor fl = Inr (True, L, fl) \<and>
     write_log can_open t now usec level msg L fl = Inl Null_Deref"
proof -
  let ?L = "log_ctor\<lparr>log_close := 0, m_log_buf_size := 2000, m_buf := replicate 2000 NUL, m_split_lines := 800000,
     log_name := ''serverlog'' @ replicate 119 NUL, dir_name := ''./'' @ replicate 126 NUL, m_today := tm_mday now, m_fp := None\<rparr>"
  have "length (show_nat (nat (tm_year now + 1900))) \<le> 4"
    using assms(2) by (intro length_show_nat) (auto simp: valid_tm_def)
  then have "length (date_text now) \<le> 15"
    using assms(2) by (auto simp: date_text_def show_int_def valid_tm_def length_show_pad)
  then have p: "take 254 (''./'' @ date_text now @ ''./serverlog'') = ''./'' @ date_text now @ ''./serverlog''" by simp
  have i: "init_log can_open now ''./serverlog'' 0 2000 800000 0 log_ctor fl = Inr (True, ?L, fl)"
    using assms(1) p by (simp add: init_log_def full_name_serverlog Let_def fopen_def)
  have r: "log_ready now ?L" by (simp add: log_ready_def buffer_ok_def log_ctor_def locker_ctor_def c_mod_def)
  have "line_fits ?L (stamp now usec level @ msg @ [LF])"
    using stamp_ok(1) [OF assms(2), of level] assms(4) by (simp add: line_fits_def)
  then have "write_log can_open t now usec level msg ?L fl = Inl Null_Deref"
    using assms(2,3) by (intro write_log_null [OF r]) (simp_all add: log_ctor_def)
  with i show ?thesis by blast
qed

theorem server_log_crashes_witness:
  "\<exists>L. init_log (\<lambda>path. path = ''./2022_04_09_serverlog'') sample_tm ''./serverlog'' 0 2000 800000 0 log_ctor Map.empty = Inr (True, L, Map.empty) \<and>
     write_log (\<lambda>path. path = ''./2022_04_09_serverlog'') 0 sample_tm 7 1 ''start'' L Map.empty = Inl Null_Deref"
proof -
  have "''./'' @ date_text sample_tm @ ''./serverlog'' \<noteq> ''./2022_04_09_serverlog''" by code_simp
  then show ?thesis by (intro server_log_crashes) (simp_all add: NUL_def)
qed

end
