(* ===== verification/Lst_Timer.thy ===== *)
theory Lst_Timer
  imports Prelude
begin

text \<open>
  \<open>ocean_http/timer/lst_timer.cpp\<close>, the class \<open>sort_timer_lst\<close>: a doubly linked list of
  heap-allocated timers, kept in the order of their expiry. The heap is explicit: a map from
  addresses to timers, in which a deleted timer is no longer defined, so that a dangling
  pointer and a double delete are faults. The theory shows that the pointer operations
  implement insertion, removal and expiry on a sorted list of addresses.
\<close>

section \<open>Timers and the heap\<close>

type_synonym addr = nat

text \<open>
  \<open>user_data\<close> points into the server's array \<open>users_timer\<close>; it is the index there.
  \<open>cb_func\<close> is one function for all timers and is a parameter of \<open>tick\<close>.
\<close>

record util_timer =
  expire :: int
  user_data :: int
  prev_t :: "addr option"
  next_t :: "addr option"

type_synonym timer_heap = "addr \<Rightarrow> util_timer option"

record sort_timer_lst =
  head :: "addr option"
  tail :: "addr option"
  heap :: timer_heap

text \<open>\<open>new util_timer\<close> at a fresh address, with its expiry and user data assigned.\<close>

definition new_timer :: "int \<Rightarrow> int \<Rightarrow> util_timer" where
  "new_timer e u = \<lparr>expire = e, user_data = u, prev_t = None, next_t = None\<rparr>"

definition ptr :: "addr option \<Rightarrow> addr result" where
  "ptr p = of_option Null_Deref p"

definition rd :: "sort_timer_lst \<Rightarrow> addr \<Rightarrow> util_timer result" where
  "rd s a = of_option Use_After_Free (heap s a)"

definition wr :: "addr \<Rightarrow> (util_timer \<Rightarrow> util_timer) \<Rightarrow> sort_timer_lst \<Rightarrow> sort_timer_lst result" where
  "wr a f s = bind_r (rd s a) (\<lambda>n. Inr (s\<lparr>heap := (heap s)(a \<mapsto> f n)\<rparr>))"

abbreviation set_next :: "addr \<Rightarrow> addr option \<Rightarrow> sort_timer_lst \<Rightarrow> sort_timer_lst result" where
  "set_next a p \<equiv> wr a (next_t_update (\<lambda>_. p))"

abbreviation set_prev :: "addr \<Rightarrow> addr option \<Rightarrow> sort_timer_lst \<Rightarrow> sort_timer_lst result" where
  "set_prev a p \<equiv> wr a (prev_t_update (\<lambda>_. p))"

definition delete_timer :: "addr \<Rightarrow> sort_timer_lst \<Rightarrow> sort_timer_lst result" where
  "delete_timer a s = bind_r (rd s a) (\<lambda>_. Inr (s\<lparr>heap := (heap s)(a := None)\<rparr>))"

section \<open>sort_timer_lst\<close>

definition sort_timer_lst_ctor :: "timer_heap \<Rightarrow> sort_timer_lst" where
  "sort_timer_lst_ctor h = \<lparr>head = None, tail = None, heap = h\<rparr>"

text \<open>The destructor's loop; \<open>None\<close> is a loop that does not end.\<close>

partial_function (option) lst_dtor :: "addr option \<Rightarrow> sort_timer_lst \<Rightarrow> sort_timer_lst result option" where
  "lst_dtor tmp s = (case tmp of
      None \<Rightarrow> Some (Inr s)
    | Some a \<Rightarrow> (case heap s a of
          None \<Rightarrow> Some (Inl Use_After_Free)
        | Some n \<Rightarrow> lst_dtor (next_t n) (s\<lparr>head := next_t n, heap := (heap s)(a := None)\<rparr>)))"

text \<open>
  The search loop of the private \<open>add_timer(timer, lst_head)\<close>: from \<open>prev\<close> and \<open>tmp\<close> to the
  first timer that expires later than \<open>e\<close>.
\<close>

partial_function (option) find_pos ::
  "timer_heap \<Rightarrow> int \<Rightarrow> addr \<Rightarrow> addr option \<Rightarrow> (addr \<times> addr option) result option" where
  "find_pos h e prev tmp = (case tmp of
      None \<Rightarrow> Some (Inr (prev, None))
    | Some a \<Rightarrow> (case h a of
          None \<Rightarrow> Some (Inl Use_After_Free)
        | Some n \<Rightarrow> if e < expire n then Some (Inr (prev, Some a)) else find_pos h e a (next_t n)))"

definition add_timer_from :: "addr \<Rightarrow> addr \<Rightarrow> sort_timer_lst \<Rightarrow> sort_timer_lst result" where
  "add_timer_from timer lst_head s =
     bind_r (rd s lst_head) (\<lambda>hn.
     bind_r (rd s timer) (\<lambda>tn.
     bind_r (case find_pos (heap s) (expire tn) lst_head (next_t hn) of None \<Rightarrow> Inl Diverges | Some r \<Rightarrow> r)
       (\<lambda>(prev, tmp). case tmp of
          Some a \<Rightarrow>
            bind_r (set_next prev (Some timer) s) (\<lambda>s.
            bind_r (set_next timer tmp s) (\<lambda>s.
            bind_r (set_prev a (Some timer) s) (\<lambda>s.
              set_prev timer (Some prev) s)))
        | None \<Rightarrow>
            bind_r (set_next prev (Some timer) s) (\<lambda>s.
            bind_r (set_prev timer (Some prev) s) (\<lambda>s.
            bind_r (set_next timer None s) (\<lambda>s.
              Inr (s\<lparr>tail := Some timer\<rparr>)))))))"

definition add_timer :: "addr option \<Rightarrow> sort_timer_lst \<Rightarrow> sort_timer_lst result" where
  "add_timer timer s = (case timer of
      None \<Rightarrow> Inr s
    | Some t \<Rightarrow> (case head s of
          None \<Rightarrow> Inr (s\<lparr>head := Some t, tail := Some t\<rparr>)
        | Some h \<Rightarrow>
            bind_r (rd s t) (\<lambda>tn. bind_r (rd s h) (\<lambda>hn.
            if expire tn < expire hn then
              bind_r (set_next t (Some h) s) (\<lambda>s.
              bind_r (set_prev h (Some t) s) (\<lambda>s. Inr (s\<lparr>head := Some t\<rparr>)))
            else add_timer_from t h s))))"

definition adjust_timer :: "addr option \<Rightarrow> sort_timer_lst \<Rightarrow> sort_timer_lst result" where
  "adjust_timer timer s = (case timer of
      None \<Rightarrow> Inr s
    | Some t \<Rightarrow> bind_r (rd s t) (\<lambda>tn. (case next_t tn of
          None \<Rightarrow> Inr s
        | Some tmp \<Rightarrow> bind_r (rd s tmp) (\<lambda>n.
            if expire tn < expire n then Inr s
            else if head s = Some t then
              let s = s\<lparr>head := Some tmp\<rparr> in
              bind_r (set_prev tmp None s) (\<lambda>s.
              bind_r (set_next t None s) (\<lambda>s. add_timer_from t tmp s))
            else
              bind_r (ptr (prev_t tn)) (\<lambda>p.
              bind_r (set_next p (Some tmp) s) (\<lambda>s.
              bind_r (set_prev tmp (Some p) s) (\<lambda>s. add_timer_from t tmp s)))))))"

definition del_timer :: "addr option \<Rightarrow> sort_timer_lst \<Rightarrow> sort_timer_lst result" where
  "del_timer timer s = (case timer of
      None \<Rightarrow> Inr s
    | Some t \<Rightarrow>
        if timer = head s \<and> timer = tail s then
          bind_r (delete_timer t s) (\<lambda>s. Inr (s\<lparr>head := None, tail := None\<rparr>))
        else if timer = head s then
          bind_r (rd s t) (\<lambda>tn.
          let s = s\<lparr>head := next_t tn\<rparr> in
          bind_r (ptr (head s)) (\<lambda>h.
          bind_r (set_prev h None s) (delete_timer t)))
        else if timer = tail s then
          bind_r (rd s t) (\<lambda>tn.
          let s = s\<lparr>tail := prev_t tn\<rparr> in
          bind_r (ptr (tail s)) (\<lambda>l.
          bind_r (set_next l None s) (delete_timer t)))
        else
          bind_r (rd s t) (\<lambda>tn.
          bind_r (ptr (prev_t tn)) (\<lambda>p.
          bind_r (set_next p (next_t tn) s) (\<lambda>s.
          bind_r (rd s t) (\<lambda>tn.
          bind_r (ptr (next_t tn)) (\<lambda>x.
          bind_r (set_prev x (prev_t tn) s) (delete_timer t)))))))"

text \<open>
  \<open>tick\<close>'s loop at time \<open>cur\<close>. \<open>cb\<close> is \<open>cb_func\<close>, run on the server state \<open>w\<close>.
\<close>

partial_function (option) tick_loop ::
  "(int \<Rightarrow> 'w \<Rightarrow> 'w result) \<Rightarrow> int \<Rightarrow> addr option \<Rightarrow> sort_timer_lst \<Rightarrow> 'w
     \<Rightarrow> (sort_timer_lst \<times> 'w) result option" where
  "tick_loop cb cur tmp s w = (case tmp of
      None \<Rightarrow> Some (Inr (s, w))
    | Some a \<Rightarrow> (case heap s a of
          None \<Rightarrow> Some (Inl Use_After_Free)
        | Some n \<Rightarrow>
            if cur < expire n then Some (Inr (s, w))
            else (case cb (user_data n) w of
                Inl e \<Rightarrow> Some (Inl e)
              | Inr w' \<Rightarrow>
                  (case (case next_t n of None \<Rightarrow> Inr (s\<lparr>head := None\<rparr>)
                         | Some b \<Rightarrow> set_prev b None (s\<lparr>head := Some b\<rparr>)) of
                     Inl e \<Rightarrow> Some (Inl e)
                   | Inr s' \<Rightarrow> tick_loop cb cur (next_t n) (s'\<lparr>heap := (heap s')(a := None)\<rparr>) w'))))"

definition tick :: "(int \<Rightarrow> 'w \<Rightarrow> 'w result) \<Rightarrow> int \<Rightarrow> sort_timer_lst \<Rightarrow> 'w
    \<Rightarrow> (sort_timer_lst \<times> 'w) result" where
  "tick cb cur s w = (case head s of
      None \<Rightarrow> Inr (s, w)
    | Some h \<Rightarrow> (case tick_loop cb cur (Some h) s w of None \<Rightarrow> Inl Diverges | Some r \<Rightarrow> r))"

section \<open>The list in the heap\<close>

text \<open>
  \<open>dseg h pv p xs nx\<close>: from \<open>p\<close>, whose predecessor is \<open>pv\<close>, the next pointers run through the
  addresses \<open>xs\<close> to \<open>nx\<close>, and the prev pointers run back.
\<close>

fun dseg :: "timer_heap \<Rightarrow> addr option \<Rightarrow> addr option \<Rightarrow> addr list \<Rightarrow> addr option \<Rightarrow> bool" where
  "dseg h pv p [] nx \<longleftrightarrow> p = nx"
| "dseg h pv p (x # xs) nx \<longleftrightarrow> p = Some x \<and> (case h x of None \<Rightarrow> False
     | Some n \<Rightarrow> prev_t n = pv \<and> dseg h (Some x) (next_t n) xs nx)"

definition lastp :: "addr option \<Rightarrow> addr list \<Rightarrow> addr option" where
  "lastp pv xs = (if xs = [] then pv else Some (last xs))"

definition firstp :: "addr list \<Rightarrow> addr option \<Rightarrow> addr option" where
  "firstp xs nx = (case xs of [] \<Rightarrow> nx | x # _ \<Rightarrow> Some x)"

text \<open>The list object \<open>s\<close> holds the timers \<open>xs\<close>; \<open>tail\<close> only counts when there are any.\<close>

definition holds :: "sort_timer_lst \<Rightarrow> addr list \<Rightarrow> bool" where
  "holds s xs \<longleftrightarrow> distinct xs \<and> dseg (heap s) None (head s) xs None \<and>
     (xs \<noteq> [] \<longrightarrow> tail s = Some (last xs))"

definition exp_at :: "timer_heap \<Rightarrow> addr \<Rightarrow> int" where
  "exp_at h a = (case h a of None \<Rightarrow> 0 | Some n \<Rightarrow> expire n)"

definition user_at :: "timer_heap \<Rightarrow> addr \<Rightarrow> int" where
  "user_at h a = (case h a of None \<Rightarrow> 0 | Some n \<Rightarrow> user_data n)"

text \<open>Insertion by expiry \<open>e\<close>, behind the timers that expire no later.\<close>

definition ins_timer :: "(addr \<Rightarrow> int) \<Rightarrow> addr \<Rightarrow> addr list \<Rightarrow> addr list" where
  "ins_timer ex t xs = takeWhile (\<lambda>a. ex a \<le> ex t) xs @ t # dropWhile (\<lambda>a. ex a \<le> ex t) xs"

lemma lastp_simps [simp]: "lastp pv [] = pv" "lastp pv (x # xs) = lastp (Some x) xs"
  "lastp pv (xs @ [x]) = Some x"
  by (auto simp: lastp_def)

lemma lastp_append [simp]: "lastp pv (xs @ ys) = lastp (lastp pv xs) ys"
  by (auto simp: lastp_def)

lemma firstp_simps [simp]: "firstp [] nx = nx" "firstp (x # xs) nx = Some x"
  by (simp_all add: firstp_def)

lemma dseg_append [simp]:
  "dseg h pv p (xs @ ys) nx \<longleftrightarrow> dseg h pv p xs (firstp ys nx) \<and> dseg h (lastp pv xs) (firstp ys nx) ys nx"
proof (induction xs arbitrary: pv p)
  case Nil
  then show ?case by (cases ys) auto
next
  case (Cons x xs)
  then show ?case by (auto split: option.splits)
qed

lemma dseg_firstp: "dseg h pv p xs nx \<Longrightarrow> p = firstp xs nx"
  by (cases xs) auto

lemma dseg_upd_other [simp]: "a \<notin> set xs \<Longrightarrow> dseg (h(a := v)) pv p xs nx = dseg h pv p xs nx"
  by (induction xs arbitrary: pv p) (auto split: option.splits)

lemma dseg_alive: "dseg h pv p xs nx \<Longrightarrow> a \<in> set xs \<Longrightarrow> \<exists>n. h a = Some n"
  by (induction xs arbitrary: pv p) (auto split: option.splits)

lemma dseg_node:
  "dseg h pv q (us @ t # vs) nx \<Longrightarrow> \<exists>n. h t = Some n \<and> prev_t n = lastp pv us \<and> next_t n = firstp vs nx"
  by (auto split: option.splits dest: dseg_firstp)

lemma exp_at_upd [simp]:
  "exp_at (h(a \<mapsto> n)) b = (if a = b then expire n else exp_at h b)"
  "user_at (h(a \<mapsto> n)) b = (if a = b then user_data n else user_at h b)"
  by (simp_all add: exp_at_def user_at_def)

lemma exp_at_Some: "h a = Some n \<Longrightarrow> exp_at h a = expire n" "h a = Some n \<Longrightarrow> user_at h a = user_data n"
  by (simp_all add: exp_at_def user_at_def)

lemma mset_takeWhile_dropWhile: "mset (takeWhile P xs) + mset (dropWhile P xs) = mset xs"
  by (induction xs) auto

lemma mset_ins_timer [simp]: "mset (ins_timer ex t xs) = add_mset t (mset xs)"
  by (simp add: ins_timer_def mset_takeWhile_dropWhile)

lemma distinct_ins_timer [simp]: "distinct (ins_timer ex t xs) \<longleftrightarrow> distinct (t # xs)"
  using mset_ins_timer [of ex t xs] by (intro mset_eq_imp_distinct_iff) simp

lemma ins_timer_Cons:
  "ins_timer ex t (x # xs) = (if ex x \<le> ex t then x # ins_timer ex t xs else t # x # xs)"
  by (simp add: ins_timer_def)

lemma ins_timer_Nil [simp]: "ins_timer ex t [] = [t]"
  by (simp add: ins_timer_def)

lemma set_ins_timer [simp]: "set (ins_timer ex t xs) = insert t (set xs)"
  by (induction xs) (auto simp: ins_timer_Cons)

lemma sorted_ins_timer: "sorted (map ex xs) \<Longrightarrow> sorted (map ex (ins_timer ex t xs))"
  by (induction xs) (auto simp: ins_timer_Cons)

section \<open>The operations on a well-formed list\<close>

lemma rd_alive [simp]: "heap s a = Some n \<Longrightarrow> rd s a = Inr n"
  by (simp add: rd_def)

lemma wr_alive [simp]: "heap s a = Some n \<Longrightarrow> wr a f s = Inr (s\<lparr>heap := (heap s)(a \<mapsto> f n)\<rparr>)"
  by (simp add: wr_def)

lemma delete_alive [simp]:
  "heap s a = Some n \<Longrightarrow> delete_timer a s = Inr (s\<lparr>heap := (heap s)(a := None)\<rparr>)"
  by (simp add: delete_timer_def)

lemma ptr_Some [simp]: "ptr (Some a) = Inr a"
  by (simp add: ptr_def)

lemma find_pos_dseg:
  "dseg h (Some p) tmp vs None \<Longrightarrow>
   find_pos h e p tmp = Some (Inr (last (p # takeWhile (\<lambda>a. exp_at h a \<le> e) vs),
                                   firstp (dropWhile (\<lambda>a. exp_at h a \<le> e) vs) None))"
proof (induction vs arbitrary: p tmp)
  case Nil
  then show ?case by (subst find_pos.simps) simp
next
  case (Cons v vs)
  then show ?case
    by (subst find_pos.simps) (auto simp: exp_at_def split: option.splits)
qed

text \<open>What the two halves of the heap agree on: only link fields may differ.\<close>

definition same_data :: "timer_heap \<Rightarrow> timer_heap \<Rightarrow> bool" where
  "same_data h h' \<longleftrightarrow> dom h = dom h' \<and> exp_at h = exp_at h' \<and> user_at h = user_at h'"

lemma same_data_refl [simp]: "same_data h h"
  by (simp add: same_data_def)

lemma same_data_upd:
  "same_data h h' \<Longrightarrow> h' a = Some n \<Longrightarrow> expire n' = expire n \<Longrightarrow> user_data n' = user_data n \<Longrightarrow>
   same_data h (h'(a \<mapsto> n'))"
  by (auto simp: same_data_def exp_at_def user_at_def fun_eq_iff dom_def split: option.splits)

lemma same_data_None: "same_data h h' \<Longrightarrow> h' a = None \<longleftrightarrow> h a = None"
  by (metis domIff same_data_def)

lemma same_data_restrictD: "same_data (h |` (- A)) h' \<Longrightarrow> a \<notin> A \<Longrightarrow> exp_at h' a = exp_at h a"
proof -
  assume "same_data (h |` (- A)) h'" and a: "a \<notin> A"
  then have "exp_at h' a = exp_at (h |` (- A)) a" by (simp add: same_data_def)
  with a show "exp_at h' a = exp_at h a" by (simp add: exp_at_def)
qed

lemma same_data_trans: "same_data h h' \<Longrightarrow> same_data h' h'' \<Longrightarrow> same_data h h''"
  by (simp add: same_data_def)

lemma link_inner:
  assumes "dseg h pv q (ws @ p # b # bs) nx" and "distinct (ws @ p # b # bs)" and "t \<notin> set (ws @ p # b # bs)"
    and "h t = Some tn" and "h p = Some pn" and "h b = Some bn"
  shows "dseg (h(p \<mapsto> pn\<lparr>next_t := Some t\<rparr>, t \<mapsto> tn\<lparr>next_t := Some b, prev_t := Some p\<rparr>,
                 b \<mapsto> bn\<lparr>prev_t := Some t\<rparr>)) pv q (ws @ p # t # b # bs) nx"
  using assms by auto

lemma link_last:
  assumes "dseg h pv q (ws @ [p]) None" and "distinct (ws @ [p])" and "t \<notin> set (ws @ [p])"
    and "h t = Some tn" and "h p = Some pn"
  shows "dseg (h(p \<mapsto> pn\<lparr>next_t := Some t\<rparr>, t \<mapsto> tn\<lparr>prev_t := Some p, next_t := None\<rparr>))
           pv q (ws @ [p, t]) None"
  using assms by auto

lemma add_timer_from_correct:
  assumes seg: "dseg (heap s) pv q (us @ p # vs) None" and dist: "distinct (us @ p # vs)"
    and t: "t \<notin> set (us @ p # vs)" "heap s t = Some tn"
    and tl: "tail s = Some (last (us @ p # vs))"
  shows "\<exists>s'. add_timer_from t p s = Inr s' \<and> head s' = head s \<and> same_data (heap s) (heap s') \<and>
     dseg (heap s') pv q (us @ p # ins_timer (exp_at (heap s)) t vs) None \<and>
     tail s' = Some (last (us @ p # ins_timer (exp_at (heap s)) t vs))"
proof -
  let ?h = "heap s" and ?le = "\<lambda>a. exp_at (heap s) a \<le> expire tn"
  define A where "A = takeWhile ?le vs"
  define B where "B = dropWhile ?le vs"
  have vs: "vs = A @ B" by (simp add: A_def B_def)
  have ex: "exp_at ?h t = expire tn" using t by (simp add: exp_at_def)
  have ins: "ins_timer (exp_at ?h) t vs = A @ t # B" by (simp add: ins_timer_def A_def B_def ex)
  obtain ws p' where wp: "p # A = ws @ [p']" by (metis append_butlast_last_id list.distinct(1))
  have list_eq: "us @ p # vs = (us @ ws) @ p' # B" "us @ p # A @ t # B = (us @ ws) @ p' # t # B"
    using wp by (simp_all add: vs)
  obtain hn where hn: "?h p = Some hn" "dseg ?h (Some p) (next_t hn) vs None"
    using seg by (auto split: option.splits)
  have p': "last (p # A) = p'" using wp by simp
  have pos: "find_pos ?h (expire tn) p (next_t hn) = Some (Inr (p', firstp B None))"
    using find_pos_dseg [OF hn(2), of "expire tn"] p' by (simp add: A_def [symmetric] B_def [symmetric])
  obtain pn where pn: "?h p' = Some pn"
    using dseg_alive [OF seg, of p'] list_eq(1) by auto
  note seg' = seg [unfolded list_eq(1)] and dist' = dist [unfolded list_eq(1)]
    and t' = t(1) [unfolded list_eq(1)]
  have tp: "t \<noteq> p'" using t' by auto
  show ?thesis
  proof (cases B)
    case Nil
    let ?h' = "?h(p' \<mapsto> pn\<lparr>next_t := Some t\<rparr>, t \<mapsto> tn\<lparr>prev_t := Some p', next_t := None\<rparr>)"
    have "add_timer_from t p s = Inr (s\<lparr>heap := ?h', tail := Some t\<rparr>)"
      using hn(1) t(2) pn tp by (simp add: add_timer_from_def pos Nil)
    moreover have "same_data ?h ?h'"
      using pn t(2) tp by (intro same_data_upd [where h' = "?h(p' \<mapsto> pn\<lparr>next_t := Some t\<rparr>)"] same_data_upd) auto
    moreover have "dseg ?h' pv q (us @ p # A @ t # B) None"
      using link_last [OF seg' [unfolded Nil] dist' [unfolded Nil] t' [unfolded Nil] t(2) pn]
      unfolding list_eq(2) unfolding Nil .
    ultimately show ?thesis by (simp add: ins Nil del: dseg_append dseg.simps)
  next
    case (Cons b bs)
    obtain bn where bn: "?h b = Some bn"
      using dseg_alive [OF seg, of b] vs Cons by auto
    have b: "b \<noteq> p'" "b \<noteq> t" using dist' t' Cons by auto
    let ?h' = "?h(p' \<mapsto> pn\<lparr>next_t := Some t\<rparr>, t \<mapsto> tn\<lparr>next_t := Some b, prev_t := Some p'\<rparr>,
                 b \<mapsto> bn\<lparr>prev_t := Some t\<rparr>)"
    have "add_timer_from t p s = Inr (s\<lparr>heap := ?h'\<rparr>)"
      using hn(1) t(2) pn tp bn b by (simp add: add_timer_from_def pos Cons fun_upd_twist)
    moreover have "same_data ?h ?h'"
      using pn t(2) tp bn b by (intro same_data_upd same_data_refl) auto
    moreover have "dseg ?h' pv q (us @ p # A @ t # B) None"
      using link_inner [OF seg' [unfolded Cons] dist' [unfolded Cons] t' [unfolded Cons] t(2) pn bn]
      unfolding list_eq(2) unfolding Cons .
    moreover have "tail s = Some (last (us @ p # A @ t # B))"
      using tl by (simp add: vs Cons)
    ultimately show ?thesis by (simp add: ins del: dseg_append dseg.simps)
  qed
qed

lemma holds_Nil: "holds s [] \<longleftrightarrow> head s = None"
  by (simp add: holds_def)

lemma holds_alive: "holds s xs \<Longrightarrow> a \<in> set xs \<Longrightarrow> \<exists>n. heap s a = Some n"
  by (auto simp: holds_def intro: dseg_alive)

lemma add_timer_correct:
  assumes "holds s xs" and "t \<notin> set xs" and "heap s t = Some tn"
    and "prev_t tn = None" and "next_t tn = None"
  shows "\<exists>s'. add_timer (Some t) s = Inr s' \<and> same_data (heap s) (heap s') \<and>
     holds s' (ins_timer (exp_at (heap s)) t xs)"
proof (cases xs)
  case Nil
  with assms show ?thesis by (auto simp: add_timer_def holds_def)
next
  case (Cons x vs)
  obtain xn where xn: "heap s x = Some xn" "head s = Some x"
    using assms(1) Cons by (auto simp: holds_def split: option.splits)
  have ex: "exp_at (heap s) t = expire tn" "exp_at (heap s) x = expire xn"
    using assms(3) xn by (simp_all add: exp_at_def)
  show ?thesis
  proof (cases "expire tn < expire xn")
    case True
    let ?h = "(heap s)(t \<mapsto> tn\<lparr>next_t := Some x\<rparr>, x \<mapsto> xn\<lparr>prev_t := Some t\<rparr>)"
    have tx: "t \<noteq> x" using assms(2) Cons by auto
    have "add_timer (Some t) s = Inr (s\<lparr>heap := ?h, head := Some t\<rparr>)"
      using True xn assms(3) tx by (simp add: add_timer_def)
    moreover have "same_data (heap s) ?h"
      using xn assms(3) tx by (intro same_data_upd same_data_refl) auto
    moreover have "holds (s\<lparr>heap := ?h, head := Some t\<rparr>) (t # x # vs)"
      using assms Cons xn tx by (auto simp: holds_def)
    moreover have "ins_timer (exp_at (heap s)) t xs = t # x # vs"
      using True by (simp add: Cons ins_timer_Cons ex)
    ultimately show ?thesis by auto
  next
    case False
    then have "add_timer (Some t) s = add_timer_from t x s"
      using xn assms(3) by (simp add: add_timer_def)
    moreover obtain s' where "add_timer_from t x s = Inr s'" "head s' = head s"
        "same_data (heap s) (heap s')"
        "dseg (heap s') None (head s) ([] @ x # ins_timer (exp_at (heap s)) t vs) None"
        "tail s' = Some (last ([] @ x # ins_timer (exp_at (heap s)) t vs))"
      using add_timer_from_correct [of s None "head s" "[]" x vs t tn] assms Cons
      by (auto simp: holds_def simp del: dseg.simps)
    ultimately show ?thesis
      using False assms(1,2) Cons ex by (simp add: holds_def ins_timer_Cons del: dseg.simps)
  qed
qed

lemma unlink:
  assumes "dseg h pv q (us @ t # v # vs) nx" and "distinct (us @ t # v # vs)"
    and "h v = Some vn"
  shows "us = [] \<Longrightarrow> dseg (h(v \<mapsto> vn\<lparr>prev_t := pv\<rparr>)) pv (Some v) (v # vs) nx"
    and "us = ws @ [p] \<Longrightarrow> h p = Some pn \<Longrightarrow>
      dseg (h(p \<mapsto> pn\<lparr>next_t := Some v\<rparr>, v \<mapsto> vn\<lparr>prev_t := Some p\<rparr>)) pv q (us @ v # vs) nx"
  using assms by (auto split: option.splits)

lemma adjust_timer_head:
  assumes "holds s (t # v # vs)" and "heap s t = Some tn" and "heap s v = Some vn" and "expire vn \<le> expire tn"
  shows "\<exists>s'. adjust_timer (Some t) s = Inr s' \<and> same_data (heap s) (heap s') \<and>
     holds s' (v # ins_timer (exp_at (heap s)) t vs)"
proof -
  let ?h = "heap s"
  let ?h1 = "?h(v \<mapsto> vn\<lparr>prev_t := None\<rparr>)"
  let ?h2 = "?h1(t \<mapsto> tn\<lparr>next_t := None\<rparr>)"
  let ?s = "s\<lparr>head := Some v, heap := ?h2\<rparr>"
  have dist: "distinct ([] @ t # v # vs)" and seg: "dseg ?h None (head s) ([] @ t # v # vs) None"
    and tl: "tail s = Some (last (v # vs))"
    using assms(1) by (simp_all add: holds_def)
  have tn: "head s = Some t" "next_t tn = Some v" and tv: "t \<noteq> v"
    using seg dist assms(2) by auto
  have adj: "adjust_timer (Some t) s = add_timer_from t v ?s"
    using tn tv assms(2-) by (simp add: adjust_timer_def)
  have sd: "same_data ?h ?h2"
    using assms(2,3) tv by (intro same_data_upd same_data_refl) auto
  have "dseg (heap ?s) None (Some v) ([] @ v # vs) None"
    using unlink(1) [OF seg dist assms(3)] dist by (simp del: dseg.simps)
  then obtain s' where "add_timer_from t v ?s = Inr s'" "head s' = Some v" "same_data ?h2 (heap s')"
      "dseg (heap s') None (Some v) ([] @ v # ins_timer (exp_at ?h2) t vs) None"
      "tail s' = Some (last ([] @ v # ins_timer (exp_at ?h2) t vs))"
    using add_timer_from_correct [of ?s None "Some v" "[]" v vs t "tn\<lparr>next_t := None\<rparr>"] dist tl
    by (auto simp del: dseg.simps)
  moreover have "exp_at ?h2 = exp_at ?h" using sd by (simp add: same_data_def)
  ultimately show ?thesis
    using dist adj same_data_trans [OF sd] by (auto simp: holds_def simp del: dseg.simps)
qed

lemma adjust_timer_inner:
  assumes "holds s (us @ t # v # vs)" and "us = ws @ [p]" and "heap s t = Some tn"
    and "heap s v = Some vn" and "expire vn \<le> expire tn"
  shows "\<exists>s'. adjust_timer (Some t) s = Inr s' \<and> same_data (heap s) (heap s') \<and>
     holds s' (us @ v # ins_timer (exp_at (heap s)) t vs)"
proof -
  let ?h = "heap s"
  have dist: "distinct (us @ t # v # vs)" and seg: "dseg ?h None (head s) (us @ t # v # vs) None"
    and tl: "tail s = Some (last (us @ v # vs))"
    using assms(1) by (simp_all add: holds_def)
  obtain pn where pn: "?h p = Some pn"
    using holds_alive [OF assms(1), of p] assms(2) by auto
  let ?h2 = "?h(p \<mapsto> pn\<lparr>next_t := Some v\<rparr>, v \<mapsto> vn\<lparr>prev_t := Some p\<rparr>)"
  let ?s = "s\<lparr>heap := ?h2\<rparr>"
  have tn: "next_t tn = Some v" "prev_t tn = Some p"
    using dseg_node [OF seg] assms(2,3) by auto
  have ne: "p \<noteq> t" "p \<noteq> v" "t \<noteq> v" using dist assms(2) by auto
  have hd: "head s \<noteq> Some t"
    using dseg_firstp [OF seg] dist assms(2) by (cases ws) auto
  have adj: "adjust_timer (Some t) s = add_timer_from t v ?s"
    using tn assms(3-) pn ne hd by (simp add: adjust_timer_def)
  have sd: "same_data ?h ?h2"
    using pn assms(4) ne by (intro same_data_upd same_data_refl) auto
  have "dseg (heap ?s) None (head s) (us @ v # vs) None"
    using unlink(2) [OF seg dist assms(4,2) pn] by (simp del: dseg.simps dseg_append)
  then obtain s' where "add_timer_from t v ?s = Inr s'" "head s' = head s" "same_data ?h2 (heap s')"
      "dseg (heap s') None (head s) (us @ v # ins_timer (exp_at ?h2) t vs) None"
      "tail s' = Some (last (us @ v # ins_timer (exp_at ?h2) t vs))"
    using add_timer_from_correct [of ?s None "head s" us v vs t tn] dist tl assms(3) ne
    by (auto simp del: dseg.simps dseg_append)
  moreover have "exp_at ?h2 = exp_at ?h" using sd by (simp add: same_data_def)
  ultimately show ?thesis
    using dist adj same_data_trans [OF sd] by (auto simp: holds_def simp del: dseg.simps dseg_append)
qed

lemma adjust_timer_correct:
  assumes "holds s (us @ t # vs)"
  shows "\<exists>s'. adjust_timer (Some t) s = Inr s' \<and> same_data (heap s) (heap s') \<and>
     holds s' (us @ ins_timer (exp_at (heap s)) t vs)"
proof -
  obtain tn where tn: "heap s t = Some tn" "next_t tn = firstp vs None"
    using assms by (auto simp: holds_def split: option.splits dest: dseg_firstp)
  show ?thesis
  proof (cases vs)
    case Nil
    with assms tn show ?thesis by (simp add: adjust_timer_def)
  next
    case (Cons v vs')
    obtain vn where vn: "heap s v = Some vn"
      using holds_alive [OF assms, of v] Cons by auto
    have ins: "ins_timer (exp_at (heap s)) t vs =
        (if expire vn \<le> expire tn then v # ins_timer (exp_at (heap s)) t vs' else t # v # vs')"
      using tn vn by (simp add: Cons ins_timer_Cons exp_at_def)
    have "adjust_timer (Some t) s = Inr s" if "expire tn < expire vn"
      using that tn vn Cons by (simp add: adjust_timer_def)
    with adjust_timer_head [of s t v vs' tn vn] adjust_timer_inner [of s us t v vs' _ _ tn vn]
      assms tn(1) vn Cons ins show ?thesis
      by (cases us rule: rev_cases) (auto simp del: dseg.simps dseg_append split: if_splits)
  qed
qed

lemma del_timer_head:
  assumes "holds s (t # v # vs)"
  shows "\<exists>s'. del_timer (Some t) s = Inr s' \<and> holds s' (v # vs) \<and> heap s' t = None \<and>
     same_data ((heap s)(t := None)) (heap s')"
proof -
  have dist: "distinct ([] @ t # v # vs)" and seg: "dseg (heap s) None (head s) ([] @ t # v # vs) None"
    and tl: "tail s = Some (last (v # vs))"
    using assms by (simp_all add: holds_def)
  obtain tn vn where n: "heap s t = Some tn" "next_t tn = Some v" "heap s v = Some vn" "head s = Some t"
    using seg by (auto split: option.splits)
  have tv: "t \<noteq> v" and tt: "tail s \<noteq> Some t" using dist tl by (auto split: if_splits)
  let ?h = "(heap s)(v \<mapsto> vn\<lparr>prev_t := None\<rparr>, t := None)"
  have "del_timer (Some t) s = Inr (s\<lparr>head := Some v, heap := ?h\<rparr>)"
    using n tv tt by (simp add: del_timer_def)
  moreover have "dseg ?h None (Some v) (v # vs) None"
    using unlink(1) [OF seg dist n(3)] dist by (simp del: dseg.simps)
  moreover have "same_data ((heap s)(t := None)) ?h"
    using same_data_upd [OF same_data_refl, of "(heap s)(t := None)" v vn "vn\<lparr>prev_t := None\<rparr>"] n tv
    by (simp add: fun_upd_twist)
  ultimately show ?thesis using dist tl by (auto simp: holds_def simp del: dseg.simps)
qed

lemma del_timer_tail:
  assumes "holds s (ws @ [p, t])"
  shows "\<exists>s'. del_timer (Some t) s = Inr s' \<and> holds s' (ws @ [p]) \<and> heap s' t = None \<and>
     same_data ((heap s)(t := None)) (heap s')"
proof -
  have dist: "distinct (ws @ [p, t])" and seg: "dseg (heap s) None (head s) (ws @ [p, t]) None"
    and tl: "tail s = Some t"
    using assms by (simp_all add: holds_def)
  obtain tn pn where n: "heap s t = Some tn" "prev_t tn = Some p" "heap s p = Some pn" "prev_t pn = lastp None ws"
    using dseg_node [of "heap s" None "head s" "ws @ [p]" t "[]" None] dseg_node [OF seg] seg by auto
  have tp: "t \<noteq> p" and hd: "head s \<noteq> Some t"
    using dseg_firstp [OF seg] dist by (cases ws; auto)+
  let ?h = "(heap s)(p \<mapsto> pn\<lparr>next_t := None\<rparr>, t := None)"
  have "del_timer (Some t) s = Inr (s\<lparr>tail := Some p, heap := ?h\<rparr>)"
    using n tp tl hd by (simp add: del_timer_def)
  moreover have "dseg ?h None (head s) (ws @ [p]) None"
    using seg dist n tp by auto
  moreover have "same_data ((heap s)(t := None)) ?h"
    using same_data_upd [OF same_data_refl, of "(heap s)(t := None)" p pn "pn\<lparr>next_t := None\<rparr>"] n tp
    by (simp add: fun_upd_twist)
  ultimately show ?thesis using dist by (auto simp: holds_def simp del: dseg.simps dseg_append)
qed

lemma del_timer_inner:
  assumes "holds s (us @ t # v # vs)" and us: "us = ws @ [p]"
  shows "\<exists>s'. del_timer (Some t) s = Inr s' \<and> holds s' (us @ v # vs) \<and> heap s' t = None \<and>
     same_data ((heap s)(t := None)) (heap s')"
proof -
  have dist: "distinct (us @ t # v # vs)" and seg: "dseg (heap s) None (head s) (us @ t # v # vs) None"
    and tl: "tail s = Some (last (v # vs))"
    using assms(1) by (simp_all add: holds_def)
  obtain pn vn where pn: "heap s p = Some pn" and vn: "heap s v = Some vn"
    using holds_alive [OF assms(1), of p] holds_alive [OF assms(1), of v] us by auto
  obtain tn where tn: "heap s t = Some tn" "prev_t tn = Some p" "next_t tn = Some v"
    using dseg_node [OF seg] us by auto
  have ne: "p \<noteq> t" "p \<noteq> v" "t \<noteq> v" and tt: "tail s \<noteq> Some t" using dist us tl by (auto split: if_splits)
  have hd: "head s \<noteq> Some t"
    using dseg_firstp [OF seg] dist us by (cases ws) auto
  let ?h1 = "(heap s)(p \<mapsto> pn\<lparr>next_t := Some v\<rparr>, v \<mapsto> vn\<lparr>prev_t := Some p\<rparr>)"
  have "del_timer (Some t) s = Inr (s\<lparr>heap := ?h1(t := None)\<rparr>)"
    using tn pn vn ne hd tt by (simp add: del_timer_def)
  moreover have "dseg (?h1(t := None)) None (head s) (us @ v # vs) None"
    using unlink(2) [OF seg dist vn us pn] dist by (simp del: dseg.simps dseg_append)
  moreover have "same_data ((heap s)(t := None)) (?h1(t := None))"
    using pn vn ne same_data_upd [OF same_data_upd [OF same_data_refl]]
    by (auto simp: same_data_def exp_at_def user_at_def fun_eq_iff dom_def)
  ultimately show ?thesis using dist tl by (auto simp: holds_def simp del: dseg.simps dseg_append)
qed

lemma del_timer_correct:
  assumes "holds s (us @ t # vs)"
  shows "\<exists>s'. del_timer (Some t) s = Inr s' \<and> holds s' (us @ vs) \<and> heap s' t = None \<and>
     same_data ((heap s)(t := None)) (heap s')"
proof (cases us rule: rev_cases)
  case Nil
  note us = Nil
  show ?thesis
  proof (cases vs)
    case Nil
    have s: "head s = Some t" "tail s = Some t" "\<exists>n. heap s t = Some n"
      using assms us Nil by (auto simp: holds_def split: option.splits)
    then show ?thesis
      using us Nil by (auto simp: del_timer_def holds_def)
  next
    case (Cons v vs')
    with del_timer_head [of s t v vs'] assms us show ?thesis by simp
  qed
next
  case (snoc ws p)
  with del_timer_tail [of s ws p t] del_timer_inner [of s us t _ _ ws p] assms show ?thesis
    by (cases vs) auto
qed

section \<open>Expiry\<close>

fun run_cbs :: "(int \<Rightarrow> 'w \<Rightarrow> 'w result) \<Rightarrow> int list \<Rightarrow> 'w \<Rightarrow> 'w result" where
  "run_cbs cb [] w = Inr w"
| "run_cbs cb (u # us) w = bind_r (cb u w) (run_cbs cb us)"

definition expired :: "timer_heap \<Rightarrow> int \<Rightarrow> addr list \<Rightarrow> addr list" where
  "expired h cur xs = takeWhile (\<lambda>a. exp_at h a \<le> cur) xs"

definition pending :: "timer_heap \<Rightarrow> int \<Rightarrow> addr list \<Rightarrow> addr list" where
  "pending h cur xs = dropWhile (\<lambda>a. exp_at h a \<le> cur) xs"

lemma expired_pending: "xs = expired h cur xs @ pending h cur xs"
  by (simp add: expired_def pending_def)

lemma expired_cong:
  assumes "\<And>a. a \<in> set xs \<Longrightarrow> exp_at h a = exp_at h' a"
  shows "expired h cur xs = expired h' cur xs" "pending h cur xs = pending h' cur xs"
  unfolding expired_def pending_def using assms
  by (auto intro!: takeWhile_cong dropWhile_cong)

lemma same_data_delD:
  assumes "same_data (h(a := None)) h'"
  shows "b \<noteq> a \<Longrightarrow> exp_at h' b = exp_at h b" "b \<noteq> a \<Longrightarrow> user_at h' b = user_at h b"
  using assms by (auto simp: same_data_def fun_eq_iff exp_at_def user_at_def split: if_splits)

lemma same_data_restrict:
  assumes "same_data (h(a := None)) h'" and "same_data (h' |` (- A)) h''"
  shows "same_data (h |` (- insert a A)) h''"
proof -
  have "dom (h(a := None)) = dom h'" and e: "exp_at (h(a := None)) = exp_at h'" "user_at (h(a := None)) = user_at h'"
    using assms(1) by (simp_all add: same_data_def)
  then have "dom (h |` (- insert a A)) = dom (h' |` (- A))" by (auto simp: restrict_map_def dom_def split: if_splits)
  moreover have "exp_at (h |` (- insert a A)) b = exp_at (h' |` (- A)) b"
    "user_at (h |` (- insert a A)) b = user_at (h' |` (- A)) b" for b
    using fun_cong [OF e(1), of b] fun_cong [OF e(2), of b]
    by (auto simp: exp_at_def user_at_def restrict_map_def)
  ultimately show ?thesis using assms(2) by (auto simp: same_data_def fun_eq_iff)
qed

lemma tick_step:
  assumes "holds s (a # vs)" and "heap s a = Some n"
  shows "\<exists>s0. (case next_t n of None \<Rightarrow> Inr (s\<lparr>head := None\<rparr>)
                | Some b \<Rightarrow> set_prev b None (s\<lparr>head := Some b\<rparr>)) = Inr s0 \<and>
     head s0 = next_t n \<and> holds (s0\<lparr>heap := (heap s0)(a := None)\<rparr>) vs \<and>
     same_data ((heap s)(a := None)) ((heap s0)(a := None))"
proof -
  have dist: "distinct ([] @ a # vs)" and seg: "dseg (heap s) None (head s) ([] @ a # vs) None"
    and tl: "vs \<noteq> [] \<Longrightarrow> tail s = Some (last vs)"
    using assms(1) by (simp_all add: holds_def)
  have nx: "next_t n = firstp vs None"
    using dseg_node [OF seg] assms(2) by auto
  show ?thesis
  proof (cases vs)
    case Nil
    with nx show ?thesis by (simp add: holds_def)
  next
    case (Cons v vs')
    obtain vn where vn: "heap s v = Some vn"
      using holds_alive [OF assms(1), of v] Cons by auto
    let ?h = "(heap s)(v \<mapsto> vn\<lparr>prev_t := None\<rparr>)"
    have av: "a \<noteq> v" using dist Cons by auto
    have "dseg (?h(a := None)) None (Some v) vs None"
      using unlink(1) [OF seg [unfolded Cons] dist [unfolded Cons] vn] dist Cons by (simp del: dseg.simps)
    moreover have "same_data ((heap s)(a := None)) (?h(a := None))"
      using same_data_upd [OF same_data_refl, of "(heap s)(a := None)" v vn "vn\<lparr>prev_t := None\<rparr>"] vn av
      by (simp add: fun_upd_twist)
    ultimately show ?thesis
      using nx Cons vn dist tl by (auto simp: holds_def simp del: dseg.simps)
  qed
qed

lemma tick_loop_correct:
  "holds s xs \<Longrightarrow> \<exists>s'. (\<forall>w. tick_loop cb cur (head s) s w =
      Some (bind_r (run_cbs cb (map (user_at (heap s)) (expired (heap s) cur xs)) w) (\<lambda>w'. Inr (s', w')))) \<and>
    holds s' (pending (heap s) cur xs) \<and>
    same_data (heap s |` (- set (expired (heap s) cur xs))) (heap s')"
proof (induction xs arbitrary: s)
  case Nil
  then have "tick_loop cb cur (head s) s w = Some (Inr (s, w))" for w
    by (subst tick_loop.simps) (simp add: holds_Nil)
  with Nil show ?case by (auto simp: expired_def pending_def restrict_map_def)
next
  case (Cons a vs)
  note inv = Cons.prems
  obtain n where n: "heap s a = Some n" and hd: "head s = Some a"
    using inv by (auto simp: holds_def split: option.splits)
  note ex = exp_at_Some [of "heap s", OF n]
  show ?case
  proof (cases "cur < expire n")
    case True
    then have "tick_loop cb cur (head s) s w = Some (Inr (s, w))" for w
      by (subst tick_loop.simps) (simp add: hd n)
    with True inv ex show ?thesis by (auto simp: expired_def pending_def restrict_map_def)
  next
    case False
    obtain s0 where s0: "(case next_t n of None \<Rightarrow> Inr (s\<lparr>head := None\<rparr>)
                | Some b \<Rightarrow> set_prev b None (s\<lparr>head := Some b\<rparr>)) = Inr s0" "head s0 = next_t n"
        "holds (s0\<lparr>heap := (heap s0)(a := None)\<rparr>) vs"
        "same_data ((heap s)(a := None)) ((heap s0)(a := None))"
      using tick_step [OF inv n] by blast
    let ?s1 = "s0\<lparr>heap := (heap s0)(a := None)\<rparr>"
    have av: "a \<notin> set vs" using inv by (simp add: holds_def)
    have same: "expired (heap ?s1) cur vs = expired (heap s) cur vs"
        "pending (heap ?s1) cur vs = pending (heap s) cur vs"
        "map (user_at (heap ?s1)) (expired (heap s) cur vs) = map (user_at (heap s)) (expired (heap s) cur vs)"
      using same_data_delD [OF s0(4)] av
      by (simp_all, intro expired_cong, metis, intro expired_cong, metis)
        (auto simp: expired_def dest!: set_takeWhileD, metis)
    have E: "expired (heap s) cur (a # vs) = a # expired (heap s) cur vs"
        "pending (heap s) cur (a # vs) = pending (heap s) cur vs"
      using False ex by (simp_all add: expired_def pending_def)
    have unfold: "tick_loop cb cur (head s) s w = (case cb (user_data n) w of Inl e \<Rightarrow> Some (Inl e)
        | Inr w' \<Rightarrow> tick_loop cb cur (head ?s1) ?s1 w')" for w
      using False s0(1,2) by (subst tick_loop.simps) (simp add: hd n split: sum.split)
    obtain s' where s': "\<And>w'. tick_loop cb cur (head ?s1) ?s1 w' =
        Some (bind_r (run_cbs cb (map (user_at (heap s)) (expired (heap s) cur vs)) w') (\<lambda>w'. Inr (s', w')))"
        "holds s' (pending (heap s) cur vs)" "same_data (heap ?s1 |` (- set (expired (heap s) cur vs))) (heap s')"
      using Cons.IH [OF s0(3)] unfolding same by blast
    show ?thesis
      using unfold s' same_data_restrict [OF s0(4), of _ "heap s'"] E ex
      by (intro exI [of _ s']) (auto split: sum.split)
  qed
qed

lemma lst_dtor_correct:
  "dseg (heap s) pv p xs None \<Longrightarrow> distinct xs \<Longrightarrow>
   \<exists>s'. lst_dtor p s = Some (Inr s') \<and> heap s' = heap s |` (- set xs) \<and> (xs \<noteq> [] \<longrightarrow> head s' = None)"
proof (induction xs arbitrary: s pv p)
  case Nil
  then have "lst_dtor p s = Some (Inr s)" by (subst lst_dtor.simps) simp
  then show ?case by (simp add: restrict_map_def)
next
  case (Cons x xs)
  then obtain n where n: "p = Some x" "heap s x = Some n" "dseg (heap s) (Some x) (next_t n) xs None"
    by (auto split: option.splits)
  let ?s = "s\<lparr>head := next_t n, heap := (heap s)(x := None)\<rparr>"
  have "dseg (heap ?s) (Some x) (next_t n) xs None" and "distinct xs"
    using n(3) Cons.prems(2) by simp_all
  from Cons.IH [OF this] obtain s' where
    s': "lst_dtor (next_t n) ?s = Some (Inr s')" "heap s' = heap ?s |` (- set xs)" "xs \<noteq> [] \<longrightarrow> head s' = None"
    by blast
  have "xs = [] \<Longrightarrow> head s' = None"
    using s'(1) n(3) by (subst (asm) lst_dtor.simps) auto
  moreover have "lst_dtor p s = lst_dtor (next_t n) ?s"
    using n by (subst lst_dtor.simps) simp
  ultimately show ?case
    using s' by (auto simp: restrict_map_def fun_eq_iff)
qed

lemma sorted_split:
  "sorted (map ex xs) \<Longrightarrow> takeWhile (\<lambda>a. ex a \<le> (cur :: int)) xs = filter (\<lambda>a. ex a \<le> cur) xs"
  "sorted (map ex xs) \<Longrightarrow> dropWhile (\<lambda>a. ex a \<le> cur) xs = filter (\<lambda>a. cur < ex a) xs"
  by (induction xs) (auto simp: filter_empty_conv intro!: filter_True [symmetric] filter_False [symmetric])

definition in_order :: "sort_timer_lst \<Rightarrow> addr list \<Rightarrow> bool" where
  "in_order s xs \<longleftrightarrow> holds s xs \<and> sorted (map (exp_at (heap s)) xs)"

lemma in_order_same_data: "same_data (heap s) (heap s') \<Longrightarrow> holds s' xs \<Longrightarrow>
    sorted (map (exp_at (heap s)) xs) \<Longrightarrow> in_order s' xs"
  by (simp add: in_order_def same_data_def)

section \<open>Properties\<close>

lemma add_in_order:
  assumes "in_order s xs" and "t \<notin> set xs" and "heap s t = Some (new_timer e u)"
  shows "\<exists>s' ys. add_timer (Some t) s = Inr s' \<and> in_order s' ys \<and> mset ys = add_mset t (mset xs) \<and>
     same_data (heap s) (heap s')"
proof -
  from assms add_timer_correct [of s xs t "new_timer e u"] obtain s' where
    "add_timer (Some t) s = Inr s'" "same_data (heap s) (heap s')"
    "holds s' (ins_timer (exp_at (heap s)) t xs)"
    by (auto simp: in_order_def new_timer_def)
  moreover from this have "in_order s' (ins_timer (exp_at (heap s)) t xs)"
    using assms(1) sorted_ins_timer [of "exp_at (heap s)" xs t]
    by (intro in_order_same_data [of s]) (auto simp: in_order_def)
  ultimately show ?thesis by auto
qed

text \<open>
  C22. Adding a fresh timer to a list in expiry order succeeds without touching freed memory
  and gives a list in expiry order that holds exactly the old timers and the new one, with
  expiry times and user data unchanged.
\<close>

theorem add_timer_sorted:
  assumes "in_order s xs" and "t \<notin> set xs" and "heap s t = Some (new_timer e u)"
  shows "\<exists>s' ys. add_timer (Some t) s = Inr s' \<and> in_order s' ys \<and> mset ys = add_mset t (mset xs) \<and>
     same_data (heap s) (heap s')"
  using assms by (rule add_in_order)

text \<open>A heap of three timers for the concrete instances.\<close>

definition demo_heap :: timer_heap where
  "demo_heap = [1 \<mapsto> new_timer 20 101, 2 \<mapsto> new_timer 10 102, 3 \<mapsto> new_timer 15 103]"

definition demo_list :: "sort_timer_lst result" where
  "demo_list = bind_r (add_timer (Some 1) (sort_timer_lst_ctor demo_heap)) (\<lambda>s.
     bind_r (add_timer (Some 2) s) (add_timer (Some 3)))"

lemmas timer_eval = demo_heap_def demo_list_def sort_timer_lst_ctor_def add_timer_def add_timer_from_def
  find_pos.simps new_timer_def exp_at_def

lemma demo_list_in_order: "\<exists>s. demo_list = Inr s \<and> in_order s [2, 3, 1] \<and>
    exp_at (heap s) 1 = 20 \<and> exp_at (heap s) 2 = 10 \<and> exp_at (heap s) 3 = 15 \<and>
    user_at (heap s) 2 = 102 \<and> user_at (heap s) 3 = 103"
  by (simp add: timer_eval in_order_def holds_def user_at_def)

theorem add_timer_sorted_witness:
  "\<exists>s' ys. add_timer (Some 2) (sort_timer_lst_ctor demo_heap\<lparr>head := Some 1, tail := Some 1\<rparr>) = Inr s' \<and>
     in_order s' ys \<and> mset ys = {#2, 1#}"
proof -
  let ?s = "sort_timer_lst_ctor demo_heap\<lparr>head := Some 1, tail := Some 1\<rparr>"
  have "in_order ?s [1]" by (simp add: in_order_def holds_def timer_eval)
  moreover have "heap ?s 2 = Some (new_timer 10 102)" by (simp add: timer_eval)
  ultimately show ?thesis
    using add_timer_sorted [of ?s "[1]" 2 10 102] by auto
qed

lemma adjust_in_order:
  assumes "holds s (us @ t # vs)" and "sorted (map (exp_at (heap s)) (us @ vs))"
    and "\<forall>a \<in> set us. exp_at (heap s) a \<le> exp_at (heap s) t"
  shows "\<exists>s' ys. adjust_timer (Some t) s = Inr s' \<and> in_order s' ys \<and> mset ys = mset (us @ t # vs) \<and>
     same_data (heap s) (heap s')"
proof -
  let ?ys = "us @ ins_timer (exp_at (heap s)) t vs"
  have "sorted (map (exp_at (heap s)) ?ys)"
    using assms(2,3) sorted_ins_timer [of "exp_at (heap s)" vs t] by (auto simp: sorted_append)
  with adjust_timer_correct [OF assms(1)] in_order_same_data show ?thesis
    by (metis mset.simps(2) mset_append mset_ins_timer)
qed

text \<open>
  When a timer's expiry has been moved to a time no earlier than that of the timers
  before it, adjust_timer restores the expiry order: the list holds the same timers, sorted,
  and no link is lost.
\<close>

theorem adjust_timer_sorted:
  assumes "holds s (us @ t # vs)" and "sorted (map (exp_at (heap s)) (us @ vs))"
    and "\<forall>a \<in> set us. exp_at (heap s) a \<le> exp_at (heap s) t"
  shows "\<exists>s' ys. adjust_timer (Some t) s = Inr s' \<and> in_order s' ys \<and> mset ys = mset (us @ t # vs) \<and>
     same_data (heap s) (heap s')"
  using assms by (rule adjust_in_order)

theorem adjust_timer_sorted_witness:
  "\<exists>s s' ys. demo_list = Inr s \<and>
     adjust_timer (Some 2) (s\<lparr>heap := (heap s)(2 \<mapsto> (the (heap s 2))\<lparr>expire := 17\<rparr>)\<rparr>) = Inr s' \<and>
     in_order s' ys \<and> mset ys = {#2, 3, 1#}"
proof -
  obtain s where s: "demo_list = Inr s" "in_order s [2, 3, 1]" "exp_at (heap s) 1 = 20" "exp_at (heap s) 3 = 15"
    using demo_list_in_order by blast
  let ?s = "s\<lparr>heap := (heap s)(2 \<mapsto> (the (heap s 2))\<lparr>expire := 17\<rparr>)\<rparr>"
  have "holds ?s ([] @ 2 # [3, 1])"
    using s(2) by (auto simp: in_order_def holds_def split: option.splits)
  with s show ?thesis
    using adjust_timer_sorted [of ?s "[]" 2 "[3, 1]"] by auto
qed

lemma del_in_order:
  assumes "in_order s (us @ t # vs)"
  shows "\<exists>s'. del_timer (Some t) s = Inr s' \<and> in_order s' (us @ vs) \<and>
     same_data ((heap s)(t := None)) (heap s')"
proof -
  obtain s' where s': "del_timer (Some t) s = Inr s'" "holds s' (us @ vs)"
      "same_data ((heap s)(t := None)) (heap s')"
    using assms del_timer_correct [of s us t vs] by (auto simp: in_order_def)
  have "t \<notin> set (us @ vs)" using assms by (simp add: in_order_def holds_def)
  then have "map (exp_at (heap s')) (us @ vs) = map (exp_at (heap s)) (us @ vs)"
    by (intro map_cong refl same_data_delD(1) [OF s'(3)]) auto
  moreover have "sorted (map (exp_at (heap s)) (us @ vs))"
    using assms by (auto simp: in_order_def sorted_append)
  ultimately have "in_order s' (us @ vs)"
    using s'(2) by (simp only: in_order_def)
  with s' show ?thesis by blast
qed

text \<open>
  Deleting a timer of the list unlinks it, frees it exactly once and keeps all the
  other timers in order.
\<close>

theorem del_timer_removes:
  assumes "in_order s (us @ t # vs)"
  shows "\<exists>s'. del_timer (Some t) s = Inr s' \<and> in_order s' (us @ vs) \<and>
     same_data ((heap s)(t := None)) (heap s')"
  using assms by (rule del_in_order)

theorem del_timer_removes_witness:
  "\<exists>s s'. demo_list = Inr s \<and> del_timer (Some 3) s = Inr s' \<and> in_order s' [2, 1] \<and> heap s' 3 = None"
proof -
  obtain s where s: "demo_list = Inr s" "in_order s ([2] @ 3 # [1])"
    using demo_list_in_order by auto
  from del_timer_removes [OF s(2)] obtain s' where
    s': "del_timer (Some 3) s = Inr s'" "in_order s' ([2] @ [1])" "same_data ((heap s)(3 := None)) (heap s')"
    by blast
  then have "heap s' 3 = None" using same_data_None [OF s'(3), of 3] by simp
  with s s' show ?thesis by auto
qed

lemma tick_in_order:
  assumes "in_order s xs"
  shows "\<exists>s'. (\<forall>w. tick cb cur s w =
      bind_r (run_cbs cb (map (user_at (heap s)) (filter (\<lambda>a. exp_at (heap s) a \<le> cur) xs)) w)
        (\<lambda>w'. Inr (s', w'))) \<and>
    in_order s' (filter (\<lambda>a. cur < exp_at (heap s) a) xs) \<and>
    same_data (heap s |` (- {a \<in> set xs. exp_at (heap s) a \<le> cur})) (heap s')"
proof -
  let ?ex = "exp_at (heap s)"
  have fl: "expired (heap s) cur xs = filter (\<lambda>a. ?ex a \<le> cur) xs"
    "pending (heap s) cur xs = filter (\<lambda>a. cur < ?ex a) xs"
    using assms sorted_split [of ?ex xs cur] by (simp_all add: expired_def pending_def in_order_def)
  obtain s' where s': "\<And>w. tick_loop cb cur (head s) s w = Some (bind_r (run_cbs cb
        (map (user_at (heap s)) (expired (heap s) cur xs)) w) (\<lambda>w'. Inr (s', w')))"
      "holds s' (pending (heap s) cur xs)" "same_data (heap s |` (- set (expired (heap s) cur xs))) (heap s')"
    using tick_loop_correct [of s xs cb cur] assms by (auto simp: in_order_def)
  have t: "tick cb cur s w = bind_r (run_cbs cb (map (user_at (heap s)) (expired (heap s) cur xs)) w)
      (\<lambda>w'. Inr (s', w'))" if "xs \<noteq> []" for w
    using that s'(1) assms by (cases xs) (auto simp: tick_def in_order_def holds_def)
  have "set (pending (heap s) cur xs) \<inter> set (expired (heap s) cur xs) = {}"
    by (auto simp: fl)
  then have "map (exp_at (heap s')) (pending (heap s) cur xs) = map ?ex (pending (heap s) cur xs)"
    by (intro map_cong refl same_data_restrictD [OF s'(3)]) auto
  moreover have "sorted (map ?ex (pending (heap s) cur xs))"
    using assms by (auto simp: in_order_def fl sorted_filter)
  ultimately have ord: "in_order s' (pending (heap s) cur xs)"
    using s'(2) by (simp only: in_order_def)
  have "tick cb cur s w = Inr (s, w)" and "holds s []" if "xs = []" for w
    using that assms by (simp_all add: tick_def in_order_def holds_Nil)
  then show ?thesis
    using t ord s'(3) by (cases "xs = []") (auto simp: fl in_order_def restrict_map_def)
qed

text \<open>
  C4. tick at time cur runs the callback exactly for the timers whose expiry is not after
  cur, in expiry order, frees exactly those, and leaves the others in order; its loop ends.
\<close>

theorem tick_fires_expired:
  assumes "in_order s xs"
  shows "\<exists>s'. tick cb cur s w =
      bind_r (run_cbs cb (map (user_at (heap s)) (filter (\<lambda>a. exp_at (heap s) a \<le> cur) xs)) w)
        (\<lambda>w'. Inr (s', w')) \<and>
    in_order s' (filter (\<lambda>a. cur < exp_at (heap s) a) xs) \<and>
    same_data (heap s |` (- {a \<in> set xs. exp_at (heap s) a \<le> cur})) (heap s')"
  using tick_in_order [OF assms, of cb cur] by blast

theorem tick_fires_expired_witness:
  "\<exists>s s'. demo_list = Inr s \<and> tick (\<lambda>fd log. Inr (log @ [fd])) 15 s [] = Inr (s', [102, 103]) \<and>
     in_order s' [1]"
proof -
  obtain s where s: "demo_list = Inr s" "in_order s [2, 3, 1]" "exp_at (heap s) 1 = 20"
      "exp_at (heap s) 2 = 10" "exp_at (heap s) 3 = 15" "user_at (heap s) 2 = 102" "user_at (heap s) 3 = 103"
    using demo_list_in_order by blast
  from tick_fires_expired [OF s(2), of "\<lambda>fd log. Inr (log @ [fd])" 15 "[]"] s show ?thesis by auto
qed

text \<open>
  Destroying the list visits every timer once, frees them all, and ends.
\<close>

theorem lst_dtor_frees_all:
  assumes "holds s xs"
  shows "\<exists>s'. lst_dtor (head s) s = Some (Inr s') \<and> heap s' = heap s |` (- set xs) \<and> head s' = None"
  using lst_dtor_correct [of s None "head s" xs] assms
  by (cases "xs = []") (auto simp: holds_def lst_dtor.simps)

theorem lst_dtor_frees_all_witness:
  "\<exists>s s'. demo_list = Inr s \<and> lst_dtor (head s) s = Some (Inr s') \<and> heap s' 1 = None \<and> heap s' 2 = None"
proof -
  obtain s where s: "demo_list = Inr s" "holds s [2, 3, 1]"
    using demo_list_in_order by (auto simp: in_order_def)
  with lst_dtor_frees_all [OF s(2)] show ?thesis by auto
qed

end
