(* ===== verification/Timer_Store.thy ===== *)
theory Timer_Store
  imports Lst_Timer
begin

text \<open>
  What the server relies on in its timer list, as an interface: timers are inserted, postponed,
  removed and reaped, and each carries the descriptor it stands for. From these laws alone it is
  shown once that a table from descriptors to timers stays in step with the list. The interface
  is implemented by \<open>sort_timer_lst\<close>.
\<close>

section \<open>The interface\<close>

locale timer_store =
  fixes ok :: "'s \<Rightarrow> addr list \<Rightarrow> bool"
    and ex :: "'s \<Rightarrow> addr \<Rightarrow> int"
    and us :: "'s \<Rightarrow> addr \<Rightarrow> int"
    and alive :: "'s \<Rightarrow> addr set"
    and insert_new :: "addr \<Rightarrow> int \<Rightarrow> int \<Rightarrow> 's \<Rightarrow> 's result"
    and postpone :: "addr \<Rightarrow> int \<Rightarrow> 's \<Rightarrow> 's result"
    and remove :: "addr \<Rightarrow> 's \<Rightarrow> 's result"
    and reap :: "(int \<Rightarrow> 'w \<Rightarrow> 'w result) \<Rightarrow> int \<Rightarrow> 's \<Rightarrow> 'w \<Rightarrow> ('s \<times> 'w) result"
  assumes ok_wf: "ok s xs \<Longrightarrow> distinct xs \<and> set xs \<subseteq> alive s"
    and insert_law: "ok s xs \<Longrightarrow> a \<notin> alive s \<Longrightarrow> \<exists>s' ys. insert_new a e u s = Inr s' \<and> ok s' ys \<and>
       mset ys = add_mset a (mset xs) \<and> ex s' = (ex s)(a := e) \<and> us s' = (us s)(a := u) \<and> alive s' = insert a (alive s)"
    and postpone_law: "ok s xs \<Longrightarrow> t \<in> set xs \<Longrightarrow> (\<And>b. b \<in> set xs \<Longrightarrow> ex s b \<le> e) \<Longrightarrow> \<exists>s' ys. postpone t e s = Inr s' \<and>
       ok s' ys \<and> mset ys = mset xs \<and> ex s' = (ex s)(t := e) \<and> us s' = us s \<and> alive s' = alive s"
    and remove_law: "ok s xs \<Longrightarrow> t \<in> set xs \<Longrightarrow> \<exists>s'. remove t s = Inr s' \<and> ok s' (remove1 t xs) \<and>
       (\<forall>b. b \<noteq> t \<longrightarrow> ex s' b = ex s b \<and> us s' b = us s b) \<and> alive s' = alive s - {t}"
    and reap_law: "ok s xs \<Longrightarrow> \<exists>s'. (\<forall>w. reap cb now s w =
         bind_r (run_cbs cb (map (us s) (filter (\<lambda>a. ex s a \<le> now) xs)) w) (\<lambda>w. Inr (s', w))) \<and>
       ok s' (filter (\<lambda>a. now < ex s a) xs) \<and>
       (\<forall>b \<in> set xs. now < ex s b \<longrightarrow> ex s' b = ex s b \<and> us s' b = us s b) \<and>
       alive s' = alive s - {a \<in> set xs. ex s a \<le> now}"

section \<open>Descriptors and their timers\<close>

text \<open>
  The timers of the list stand for the descriptors \<open>D\<close>, one for each, the table \<open>tm\<close> finds the timer of
  each descriptor of \<open>D\<close>, and no timer expires after \<open>e\<close>.
\<close>

definition owns :: "('s \<Rightarrow> addr list \<Rightarrow> bool) \<Rightarrow> ('s \<Rightarrow> addr \<Rightarrow> int) \<Rightarrow> ('s \<Rightarrow> addr \<Rightarrow> int)
    \<Rightarrow> 's \<Rightarrow> (int \<Rightarrow> addr option) \<Rightarrow> int set \<Rightarrow> int \<Rightarrow> bool" where
  "owns ok ex us s tm D e \<longleftrightarrow> (\<exists>xs. ok s xs \<and> us s ` set xs = D \<and>
     (\<forall>a \<in> set xs. tm (us s a) = Some a \<and> ex s a \<le> e))"

text \<open>
  The weaker relation that is left when connections are closed behind the list's back: every timer stands for
  a descriptor of \<open>U\<close>, there may be several for one descriptor and some for descriptors long closed, and the
  table \<open>tm\<close> finds, for each descriptor of \<open>D\<close>, a timer of the list that stands for it.
\<close>

definition tracks :: "('s \<Rightarrow> addr list \<Rightarrow> bool) \<Rightarrow> ('s \<Rightarrow> addr \<Rightarrow> int) \<Rightarrow> ('s \<Rightarrow> addr \<Rightarrow> int)
    \<Rightarrow> 's \<Rightarrow> (int \<Rightarrow> addr option) \<Rightarrow> int set \<Rightarrow> int set \<Rightarrow> int \<Rightarrow> bool" where
  "tracks ok ex us s tm D U e \<longleftrightarrow> (\<exists>xs. ok s xs \<and> us s ` set xs \<subseteq> U \<and> (\<forall>a \<in> set xs. ex s a \<le> e) \<and>
     (\<forall>fd \<in> D. \<exists>a \<in> set xs. tm fd = Some a \<and> us s a = fd))"

context timer_store
begin

lemma owns_timer:
  assumes "owns ok ex us s tm D e" "fd \<in> D"
  shows "\<exists>a. tm fd = Some a \<and> us s a = fd \<and> a \<in> alive s \<and> ex s a \<le> e"
  using assms ok_wf by (fastforce simp: owns_def)

lemma owns_weaken: "owns ok ex us s tm D e \<Longrightarrow> e \<le> e' \<Longrightarrow> owns ok ex us s tm D e'"
  unfolding owns_def by (elim exE) (rule exI, fastforce)

lemma owns_insert:
  assumes "owns ok ex us s tm D e" "a \<notin> alive s" "fd \<notin> D" "e \<le> e'"
  shows "\<exists>s'. insert_new a e' fd s = Inr s' \<and> owns ok ex us s' (tm(fd := Some a)) (insert fd D) e' \<and>
     alive s' = insert a (alive s) \<and> ex s' = (ex s)(a := e')"
proof -
  obtain xs where xs: "ok s xs" "us s ` set xs = D" "\<And>b. b \<in> set xs \<Longrightarrow> tm (us s b) = Some b \<and> ex s b \<le> e"
    using assms(1) by (auto simp: owns_def)
  obtain s' ys where s': "insert_new a e' fd s = Inr s'" "ok s' ys" "mset ys = add_mset a (mset xs)"
      "ex s' = (ex s)(a := e')" "us s' = (us s)(a := fd)" "alive s' = insert a (alive s)"
    using insert_law [OF xs(1) assms(2)] by blast
  have ys: "set ys = insert a (set xs)" using arg_cong [OF s'(3), of set_mset] by simp
  have a: "a \<notin> set xs" using ok_wf [OF xs(1)] assms(2) by auto
  have "\<forall>b \<in> set xs. us s b \<noteq> fd" using xs(2) assms(3) by auto
  then have "owns ok ex us s' (tm(fd := Some a)) (insert fd D) e'"
    unfolding owns_def using s'(2,4,5) xs a assms(4)
    by (intro exI [of _ ys]) (fastforce simp: ys image_iff)
  then show ?thesis using s'(1,4,6) by blast
qed

lemma owns_postpone:
  assumes "owns ok ex us s tm D e" "fd \<in> D" "e \<le> e'"
  shows "\<exists>a s'. tm fd = Some a \<and> a \<in> alive s \<and> postpone a e' s = Inr s' \<and> owns ok ex us s' tm D e' \<and> alive s' = alive s \<and>
     us s' = us s \<and> ex s' = (ex s)(a := e')"
proof -
  obtain xs where xs: "ok s xs" "us s ` set xs = D" "\<And>b. b \<in> set xs \<Longrightarrow> tm (us s b) = Some b \<and> ex s b \<le> e"
    using assms(1) by (auto simp: owns_def)
  obtain a where a: "a \<in> set xs" "us s a = fd" using xs(2) assms(2) by auto
  have "ex s b \<le> e'" if "b \<in> set xs" for b using xs(3) [OF that] assms(3) by simp
  from postpone_law [OF xs(1) a(1) this]
  obtain s' ys where s': "postpone a e' s = Inr s'" "ok s' ys" "mset ys = mset xs" "ex s' = (ex s)(a := e')"
      "us s' = us s" "alive s' = alive s" by blast
  have ys: "set ys = set xs" using s'(3) by (rule mset_eq_setD)
  have "owns ok ex us s' tm D e'"
    unfolding owns_def using s'(2,4,5) xs(2,3) assms(3) by (intro exI [of _ ys]) (fastforce simp: ys)
  then show ?thesis using s' xs(3) [OF a(1)] a ok_wf [OF xs(1)] by auto
qed

lemma owns_remove:
  assumes "owns ok ex us s tm D e" "fd \<in> D"
  shows "\<exists>a s'. tm fd = Some a \<and> a \<in> alive s \<and> remove a s = Inr s' \<and> owns ok ex us s' tm (D - {fd}) e \<and> alive s' = alive s - {a}"
proof -
  obtain xs where xs: "ok s xs" "us s ` set xs = D" "\<And>b. b \<in> set xs \<Longrightarrow> tm (us s b) = Some b \<and> ex s b \<le> e"
    using assms(1) by (auto simp: owns_def)
  obtain a where a: "a \<in> set xs" "us s a = fd" using xs(2) assms(2) by auto
  obtain s' where s': "remove a s = Inr s'" "ok s' (remove1 a xs)" "\<And>b. b \<noteq> a \<Longrightarrow> ex s' b = ex s b \<and> us s' b = us s b"
      "alive s' = alive s - {a}" using remove_law [OF xs(1) a(1)] by blast
  have r: "set (remove1 a xs) = set xs - {a}" using ok_wf [OF xs(1)] by (simp add: set_remove1_eq)
  have d: "us s b \<noteq> fd" if "b \<in> set xs" "b \<noteq> a" for b using xs(3) [OF that(1)] xs(3) [OF a(1)] a(2) that(2) by auto
  have i: "us s' ` (set xs - {a}) = D - {fd}" using xs(2) s'(3) d a(2) by (auto simp: image_iff)
  have "owns ok ex us s' tm (D - {fd}) e"
    unfolding owns_def r using s'(2,3) xs(3) i by (intro exI [of _ "remove1 a xs"]) (auto simp: r)
  then show ?thesis using s'(1,4) xs(3) [OF a(1)] a ok_wf [OF xs(1)] by auto
qed

lemma owns_reap:
  assumes "owns ok ex us s tm D e"
  shows "\<exists>s' fds. (\<forall>w. reap cb now s w = bind_r (run_cbs cb fds w) (\<lambda>w. Inr (s', w))) \<and> distinct fds \<and>
     set fds = {fd \<in> D. ex s (the (tm fd)) \<le> now} \<and> owns ok ex us s' tm (D - set fds) e \<and> alive s' \<subseteq> alive s"
proof -
  obtain xs where xs: "ok s xs" "us s ` set xs = D" "\<And>b. b \<in> set xs \<Longrightarrow> tm (us s b) = Some b \<and> ex s b \<le> e"
    using assms(1) by (auto simp: owns_def)
  obtain s' where s': "\<And>w. reap cb now s w =
         bind_r (run_cbs cb (map (us s) (filter (\<lambda>a. ex s a \<le> now) xs)) w) (\<lambda>w. Inr (s', w))"
       "ok s' (filter (\<lambda>a. now < ex s a) xs)"
       "\<And>b. b \<in> set xs \<Longrightarrow> now < ex s b \<Longrightarrow> ex s' b = ex s b \<and> us s' b = us s b"
       "alive s' = alive s - {a \<in> set xs. ex s a \<le> now}"
    using reap_law [OF xs(1), of cb now] by blast
  let ?fds = "map (us s) (filter (\<lambda>a. ex s a \<le> now) xs)"
  have "inj_on (us s) (set xs)" using xs(3) by (intro inj_onI) (metis option.inject)
  then have dist: "distinct ?fds"
    using ok_wf [OF xs(1)] by (auto simp: distinct_map intro: inj_on_subset)
  have fds: "set ?fds = {fd \<in> D. ex s (the (tm fd)) \<le> now}" using xs(2,3) by force
  have keep: "us s' ` {b \<in> set xs. now < ex s b} = D - set ?fds"
  proof -
    have "us s' ` {b \<in> set xs. now < ex s b} = us s ` {b \<in> set xs. now < ex s b}"
      using s'(3) by (intro image_cong) auto
    also have "\<dots> = D - set ?fds" using xs(2,3) unfolding fds by force
    finally show ?thesis .
  qed
  have "owns ok ex us s' tm (D - set ?fds) e"
    unfolding owns_def using s'(2,3) xs(3) keep by (intro exI [of _ "filter (\<lambda>a. now < ex s a) xs"]) auto
  then show ?thesis using s'(1,4) dist fds by blast
qed

lemma owns_tracks: "owns ok ex us s tm D e \<Longrightarrow> tracks ok ex us s tm D D e"
  unfolding owns_def tracks_def by fastforce

lemma tracks_mono: "tracks ok ex us s tm D U e \<Longrightarrow> D' \<subseteq> D \<Longrightarrow> U \<subseteq> U' \<Longrightarrow> e \<le> e' \<Longrightarrow> tracks ok ex us s tm D' U' e'"
  unfolding tracks_def by (elim exE) (rule exI, fastforce)

lemma tracks_users: "tracks ok ex us s tm D U e \<Longrightarrow> D \<subseteq> U"
  unfolding tracks_def by (elim exE conjE, intro subsetI) (metis image_subset_iff)

lemma tracks_timer:
  assumes "tracks ok ex us s tm D U e" "fd \<in> D"
  shows "\<exists>a. tm fd = Some a \<and> us s a = fd \<and> a \<in> alive s \<and> ex s a \<le> e"
  using assms ok_wf unfolding tracks_def by blast

lemma tracks_insert:
  assumes "tracks ok ex us s tm D U e" "a \<notin> alive s" "fd \<in> U" "e \<le> e'"
  shows "\<exists>s'. insert_new a e' fd s = Inr s' \<and> tracks ok ex us s' (tm(fd := Some a)) (insert fd D) U e' \<and>
     alive s' = insert a (alive s)"
proof -
  obtain xs where xs: "ok s xs" "us s ` set xs \<subseteq> U" "\<And>b. b \<in> set xs \<Longrightarrow> ex s b \<le> e"
      "\<And>fd. fd \<in> D \<Longrightarrow> \<exists>b \<in> set xs. tm fd = Some b \<and> us s b = fd"
    using assms(1) by (auto simp: tracks_def)
  obtain s' ys where s': "insert_new a e' fd s = Inr s'" "ok s' ys" "mset ys = add_mset a (mset xs)"
      "ex s' = (ex s)(a := e')" "us s' = (us s)(a := fd)" "alive s' = insert a (alive s)"
    using insert_law [OF xs(1) assms(2)] by blast
  have ys: "set ys = insert a (set xs)" using arg_cong [OF s'(3), of set_mset] by simp
  have a: "b \<noteq> a" if "b \<in> set xs" for b using ok_wf [OF xs(1)] assms(2) that by auto
  have "us s' ` set ys \<subseteq> U" using xs(2) assms(3) by (auto simp: s'(5) ys)
  moreover have "ex s' b \<le> e'" if "b \<in> set ys" for b using that xs(3) [of b] assms(4) by (auto simp: s'(4) ys)
  moreover have "\<exists>b \<in> set ys. (tm(fd := Some a)) x = Some b \<and> us s' b = x" if "x \<in> insert fd D" for x
    using that xs(4) [of x] a by (cases "x = fd") (auto simp: s'(5) ys)
  ultimately show ?thesis using s'(1,2,6) unfolding tracks_def by blast
qed

lemma tracks_postpone:
  assumes "tracks ok ex us s tm D U e" "fd \<in> D" "e \<le> e'"
  shows "\<exists>a s'. tm fd = Some a \<and> postpone a e' s = Inr s' \<and> tracks ok ex us s' tm D U e' \<and> ex s' = (ex s)(a := e')"
proof -
  obtain xs where xs: "ok s xs" "us s ` set xs \<subseteq> U" "\<And>b. b \<in> set xs \<Longrightarrow> ex s b \<le> e"
      "\<And>fd. fd \<in> D \<Longrightarrow> \<exists>b \<in> set xs. tm fd = Some b \<and> us s b = fd"
    using assms(1) by (auto simp: tracks_def)
  obtain a where a: "a \<in> set xs" "tm fd = Some a" using xs(4) assms(2) by blast
  have "ex s b \<le> e'" if "b \<in> set xs" for b using xs(3) [OF that] assms(3) by simp
  from postpone_law [OF xs(1) a(1) this]
  obtain s' ys where s': "postpone a e' s = Inr s'" "ok s' ys" "mset ys = mset xs" "ex s' = (ex s)(a := e')" "us s' = us s" by blast
  have ys: "set ys = set xs" using s'(3) by (rule mset_eq_setD)
  have "ex s' b \<le> e'" if "b \<in> set xs" for b using that xs(3) [of b] assms(3) by (auto simp: s'(4))
  then have "tracks ok ex us s' tm D U e'" using s'(2) xs(2,4) unfolding tracks_def by (intro exI [of _ ys]) (simp add: ys s'(5))
  then show ?thesis using a(2) s'(1,4) by blast
qed

lemma tracks_remove:
  assumes "tracks ok ex us s tm D U e" "fd \<in> D"
  shows "\<exists>a s'. tm fd = Some a \<and> a \<in> alive s \<and> remove a s = Inr s' \<and> tracks ok ex us s' tm (D - {fd}) U e \<and> alive s' = alive s - {a}"
proof -
  obtain xs where xs: "ok s xs" "us s ` set xs \<subseteq> U" "\<And>b. b \<in> set xs \<Longrightarrow> ex s b \<le> e"
      "\<And>fd. fd \<in> D \<Longrightarrow> \<exists>b \<in> set xs. tm fd = Some b \<and> us s b = fd"
    using assms(1) by (auto simp: tracks_def)
  obtain a where a: "a \<in> set xs" "tm fd = Some a" "us s a = fd" using xs(4) assms(2) by blast
  obtain s' where s': "remove a s = Inr s'" "ok s' (remove1 a xs)" "\<And>b. b \<noteq> a \<Longrightarrow> ex s' b = ex s b \<and> us s' b = us s b"
      "alive s' = alive s - {a}" using remove_law [OF xs(1) a(1)] by blast
  have r: "set (remove1 a xs) = set xs - {a}" using ok_wf [OF xs(1)] by (simp add: set_remove1_eq)
  have "\<exists>b \<in> set (remove1 a xs). tm x = Some b \<and> us s' b = x" if "x \<in> D - {fd}" for x
    using that xs(4) [of x] a(3) s'(3) unfolding r by auto
  moreover have "us s' ` set (remove1 a xs) \<subseteq> U" "\<forall>b \<in> set (remove1 a xs). ex s' b \<le> e"
    using xs(2,3) s'(3) unfolding r by auto
  ultimately have "tracks ok ex us s' tm (D - {fd}) U e" using s'(2) unfolding tracks_def by blast
  then show ?thesis using s'(1,4) a ok_wf [OF xs(1)] by auto
qed

lemma tracks_reap:
  assumes "tracks ok ex us s tm D U e"
  shows "\<exists>s' fds. (\<forall>w. reap cb now s w = bind_r (run_cbs cb fds w) (\<lambda>w. Inr (s', w))) \<and> set fds \<subseteq> U \<and>
     {fd \<in> D. ex s (the (tm fd)) \<le> now} \<subseteq> set fds \<and> tracks ok ex us s' tm (D - set fds) U e"
proof -
  obtain xs where xs: "ok s xs" "us s ` set xs \<subseteq> U" "\<And>b. b \<in> set xs \<Longrightarrow> ex s b \<le> e"
      "\<And>fd. fd \<in> D \<Longrightarrow> \<exists>b \<in> set xs. tm fd = Some b \<and> us s b = fd"
    using assms(1) by (auto simp: tracks_def)
  obtain s' where s': "\<And>w. reap cb now s w =
         bind_r (run_cbs cb (map (us s) (filter (\<lambda>a. ex s a \<le> now) xs)) w) (\<lambda>w. Inr (s', w))"
       "ok s' (filter (\<lambda>a. now < ex s a) xs)"
       "\<And>b. b \<in> set xs \<Longrightarrow> now < ex s b \<Longrightarrow> ex s' b = ex s b \<and> us s' b = us s b"
    using reap_law [OF xs(1), of cb now] by blast
  let ?fds = "map (us s) (filter (\<lambda>a. ex s a \<le> now) xs)" and ?ys = "filter (\<lambda>a. now < ex s a) xs"
  have "\<exists>b \<in> set ?ys. tm x = Some b \<and> us s' b = x" if x: "x \<in> D - set ?fds" for x
  proof -
    obtain b where b: "b \<in> set xs" "tm x = Some b" "us s b = x" using xs(4) x by blast
    then have "now < ex s b" using x by (cases "ex s b \<le> now") auto
    then show ?thesis using b s'(3) by auto
  qed
  moreover have "us s' ` set ?ys \<subseteq> U" "\<forall>b \<in> set ?ys. ex s' b \<le> e" using xs(2,3) s'(3) by auto
  ultimately have "tracks ok ex us s' tm (D - set ?fds) U e"
    unfolding tracks_def by (intro exI [of _ ?ys] conjI ballI s'(2)) auto
  moreover have "set ?fds \<subseteq> U" using xs(2) by auto
  moreover have "x \<in> set ?fds" if x: "x \<in> D" "ex s (the (tm x)) \<le> now" for x
  proof -
    obtain b where "b \<in> set xs" "tm x = Some b" "us s b = x" using xs(4) [OF x(1)] by blast
    then show ?thesis using x(2) by auto
  qed
  then have "{fd \<in> D. ex s (the (tm fd)) \<le> now} \<subseteq> set ?fds" by blast
  ultimately show ?thesis by (intro exI [of _ s'] exI [of _ ?fds] conjI allI s'(1))
qed

end

section \<open>The list of the server\<close>

text \<open>\<open>new util_timer\<close>, the assignments to it, and \<open>add_timer\<close>.\<close>

definition insert_timer :: "addr \<Rightarrow> int \<Rightarrow> int \<Rightarrow> sort_timer_lst \<Rightarrow> sort_timer_lst result" where
  "insert_timer a e u s = add_timer (Some a) (s\<lparr>heap := (heap s)(a \<mapsto> new_timer e u)\<rparr>)"

text \<open>The assignment to \<open>timer->expire\<close> and \<open>adjust_timer\<close>.\<close>

definition postpone_timer :: "addr \<Rightarrow> int \<Rightarrow> sort_timer_lst \<Rightarrow> sort_timer_lst result" where
  "postpone_timer t e s = bind_r (wr t (expire_update (\<lambda>_. e)) s) (adjust_timer (Some t))"

definition remove_timer :: "addr \<Rightarrow> sort_timer_lst \<Rightarrow> sort_timer_lst result" where
  "remove_timer t s = del_timer (Some t) s"

lemma same_data_fields:
  "same_data h h' \<Longrightarrow> exp_at h' = exp_at h \<and> user_at h' = user_at h \<and> dom h' = dom h"
  by (simp add: same_data_def)

lemma in_order_wf: "in_order s xs \<Longrightarrow> distinct xs \<and> set xs \<subseteq> dom (heap s)"
  using holds_alive by (fastforce simp: in_order_def holds_def)

lemma holds_heap_upd: "a \<notin> set xs \<Longrightarrow> holds (s\<lparr>heap := (heap s)(a := v)\<rparr>) xs = holds s xs"
  by (simp add: holds_def)

lemma insert_timer_law:
  assumes "in_order s xs" "a \<notin> dom (heap s)"
  shows "\<exists>s' ys. insert_timer a e u s = Inr s' \<and> in_order s' ys \<and> mset ys = add_mset a (mset xs) \<and>
     exp_at (heap s') = (exp_at (heap s))(a := e) \<and> user_at (heap s') = (user_at (heap s))(a := u) \<and>
     dom (heap s') = insert a (dom (heap s))"
proof -
  let ?s = "s\<lparr>heap := (heap s)(a \<mapsto> new_timer e u)\<rparr>"
  have a: "a \<notin> set xs" using in_order_wf [OF assms(1)] assms(2) by auto
  have e: "exp_at (heap ?s) = (exp_at (heap s))(a := e)" "user_at (heap ?s) = (user_at (heap s))(a := u)"
    by (auto simp: exp_at_def user_at_def new_timer_def)
  have "map (exp_at (heap ?s)) xs = map (exp_at (heap s)) xs" using a by (simp add: e)
  then have "in_order ?s xs"
    using assms(1) holds_heap_upd [OF a, of s] unfolding in_order_def by (simp only: simp_thms)
  from add_in_order [OF this a, of e u] obtain s' ys where s': "add_timer (Some a) ?s = Inr s'" "in_order s' ys"
    "mset ys = add_mset a (mset xs)" "same_data (heap ?s) (heap s')" by auto
  then show ?thesis using same_data_fields [OF s'(4)] e by (auto simp: insert_timer_def)
qed

lemma postpone_timer_law:
  assumes "in_order s xs" "t \<in> set xs" "\<And>b. b \<in> set xs \<Longrightarrow> exp_at (heap s) b \<le> e"
  shows "\<exists>s' ys. postpone_timer t e s = Inr s' \<and> in_order s' ys \<and> mset ys = mset xs \<and>
     exp_at (heap s') = (exp_at (heap s))(t := e) \<and> user_at (heap s') = user_at (heap s) \<and> dom (heap s') = dom (heap s)"
proof -
  obtain uu vs where xs: "xs = uu @ t # vs" using split_list [OF assms(2)] by blast
  obtain n where n: "heap s t = Some n" using in_order_wf [OF assms(1)] assms(2) by blast
  let ?s = "s\<lparr>heap := (heap s)(t \<mapsto> n\<lparr>expire := e\<rparr>)\<rparr>"
  have h: "holds s (uu @ t # vs)" and d: "distinct (uu @ t # vs)" using assms(1) xs by (auto simp: in_order_def holds_def)
  have ex: "exp_at (heap ?s) = (exp_at (heap s))(t := e)" "user_at (heap ?s) = user_at (heap s)" "dom (heap ?s) = dom (heap s)"
    using n by (auto simp: exp_at_def user_at_def)
  have "holds ?s (uu @ t # vs)" using h d n by (auto simp: holds_def)
  moreover have "map (exp_at (heap ?s)) (uu @ vs) = map (exp_at (heap s)) (uu @ vs)" using d by (simp add: ex(1))
  then have "sorted (map (exp_at (heap ?s)) (uu @ vs))"
    using assms(1) by (simp only: in_order_def xs) (auto simp: sorted_append)
  moreover have "\<forall>b \<in> set uu. exp_at (heap ?s) b \<le> exp_at (heap ?s) t" using assms(3) xs by (auto simp: ex(1))
  ultimately obtain s' ys where s': "adjust_timer (Some t) ?s = Inr s'" "in_order s' ys" "mset ys = mset (uu @ t # vs)"
    "same_data (heap ?s) (heap s')" using adjust_in_order [of ?s uu t vs] by blast
  show ?thesis using s' n same_data_fields [OF s'(4)] ex xs by (auto simp: postpone_timer_def)
qed

lemma remove_timer_law:
  assumes "in_order s xs" "t \<in> set xs"
  shows "\<exists>s'. remove_timer t s = Inr s' \<and> in_order s' (remove1 t xs) \<and>
     (\<forall>b. b \<noteq> t \<longrightarrow> exp_at (heap s') b = exp_at (heap s) b \<and> user_at (heap s') b = user_at (heap s) b) \<and>
     dom (heap s') = dom (heap s) - {t}"
proof -
  obtain uu vs where xs: "xs = uu @ t # vs" "t \<notin> set uu" using split_list_first [OF assms(2)] by blast
  obtain s' where s': "del_timer (Some t) s = Inr s'" "in_order s' (uu @ vs)" "same_data ((heap s)(t := None)) (heap s')"
    using del_in_order [of s uu t vs] assms(1) xs by auto
  have "dom (heap s') = dom (heap s) - {t}" using same_data_fields [OF s'(3)] by simp
  then show ?thesis using s' xs same_data_delD [OF s'(3)] by (auto simp: remove_timer_def remove1_append)
qed

lemma tick_law:
  assumes "in_order s xs"
  shows "\<exists>s'. (\<forall>w. tick cb now s w = bind_r (run_cbs cb (map (user_at (heap s)) (filter (\<lambda>a. exp_at (heap s) a \<le> now) xs)) w) (\<lambda>w. Inr (s', w))) \<and>
     in_order s' (filter (\<lambda>a. now < exp_at (heap s) a) xs) \<and>
     (\<forall>b \<in> set xs. now < exp_at (heap s) b \<longrightarrow> exp_at (heap s') b = exp_at (heap s) b \<and> user_at (heap s') b = user_at (heap s) b) \<and>
     dom (heap s') = dom (heap s) - {a \<in> set xs. exp_at (heap s) a \<le> now}"
proof -
  let ?X = "{a \<in> set xs. exp_at (heap s) a \<le> now}"
  obtain s' where s': "\<forall>w. tick cb now s w = bind_r (run_cbs cb (map (user_at (heap s)) (filter (\<lambda>a. exp_at (heap s) a \<le> now) xs)) w) (\<lambda>w. Inr (s', w))"
     "in_order s' (filter (\<lambda>a. now < exp_at (heap s) a) xs)" "same_data (heap s |` (- ?X)) (heap s')"
    using tick_in_order [OF assms, of cb now] by blast
  have "dom (heap s') = dom (heap s) - ?X" using same_data_fields [OF s'(3)] by auto
  moreover have "exp_at (heap s') b = exp_at (heap s) b \<and> user_at (heap s') b = user_at (heap s) b" if "b \<notin> ?X" for b
    using that same_data_fields [OF s'(3)] by (auto simp: exp_at_def user_at_def)
  ultimately show ?thesis using s'(1,2) by (intro exI [of _ s']) auto
qed

interpretation server_timers: timer_store in_order "\<lambda>s. exp_at (heap s)" "\<lambda>s. user_at (heap s)" "\<lambda>s. dom (heap s)"
    insert_timer postpone_timer remove_timer tick
proof unfold_locales
qed (rule in_order_wf insert_timer_law postpone_timer_law remove_timer_law tick_law; assumption)+

end
