(* ===== verification/Http_Users.thy ===== *)
theory Http_Users
  imports Sql_Pool Http_Conn
begin

text \<open>
  \<open>http_conn::initmysql_result\<close>: at start-up the table of users is read through one connection of the
  pool into the map \<open>users\<close>. The client library is a parameter: \<open>query\<close> is the result of
  \<open>mysql_query\<close>, \<open>store\<close> the stored result set (\<open>None\<close> is the null pointer) as a list of rows with two
  columns, a column being \<open>None\<close> for the SQL null, and \<open>sql_error\<close> the text of the last error.
\<close>

type_synonym row = "string option \<times> string option"

text \<open>A \<open>std::string\<close> made from a null pointer throws.\<close>

fun fetch_rows :: "row list \<Rightarrow> http_globals \<Rightarrow> http_globals result" where
  "fetch_rows [] g = Inr g"
| "fetch_rows ((c0, c1) # rows) g =
     bind_r (of_option Uncaught_Exception c0) (\<lambda>temp1.
     bind_r (of_option Uncaught_Exception c1) (\<lambda>temp2.
       fetch_rows rows (g\<lparr>users := (users g)(temp1 \<mapsto> temp2)\<rparr>)))"

definition initmysql_result :: "(nat \<Rightarrow> string \<Rightarrow> int) \<Rightarrow> (nat \<Rightarrow> row list option) \<Rightarrow> (nat \<Rightarrow> string) \<Rightarrow> bool \<Rightarrow> nat
    \<Rightarrow> http_conn \<Rightarrow> http_globals \<Rightarrow> sql_connection_pool \<Rightarrow> (http_globals \<times> sql_connection_pool) result" where
  "initmysql_result query store sql_error intr t h g sp =
     bind_r (connectionRAII_ctor intr t sp) (\<lambda>(con, r, sp).
     bind_r (of_option Null_Deref con) (\<lambda>con.
     let g = (if query con ''select username,passwd from user'' \<noteq> 0
              then log_msg 3 (m_close_log h) (''select error:'' @ sql_error con @ [LF]) g else g) in
     bind_r (of_option Null_Deref (store con)) (\<lambda>result.
     bind_r (fetch_rows result g) (\<lambda>g.
     bind_r (connectionRAII_dtor t r sp) (\<lambda>sp. Inr (g, sp))))))"

text \<open>The rows that have both columns, in the order they are stored.\<close>

definition stored :: "(string \<times> string) list \<Rightarrow> row list" where
  "stored kvs = map (\<lambda>(k, v). (Some k, Some v)) kvs"

lemma fetch_rows_all:
  "fetch_rows (stored kvs) g = Inr (g\<lparr>users := users g ++ map_of (rev kvs)\<rparr>)"
proof (induction kvs arbitrary: g)
  case (Cons kv kvs)
  obtain k v where kv: "kv = (k, v)" by (cases kv)
  have "(users g)(k \<mapsto> v) ++ map_of (rev kvs) = users g ++ map_of (rev (kv # kvs))" by (simp add: kv)
  moreover have "fetch_rows (stored (kv # kvs)) g = fetch_rows (stored kvs) (g\<lparr>users := (users g)(k \<mapsto> v)\<rparr>)"
    by (simp add: kv stored_def)
  ultimately show ?case by (cases g) (simp add: Cons.IH fun_upd_def del: rev.simps)
qed (simp add: stored_def)

lemma initmysql_loads:
  assumes "pool_ok sp"
    and "\<forall>c \<in> set (connList sp). query c ''select username,passwd from user'' = 0 \<and> store c = Some (stored kvs)"
  shows "initmysql_result query store err intr t h g sp = (case connList sp of
      [] \<Rightarrow> Inl Null_Deref
    | c # cs \<Rightarrow> Inr (g\<lparr>users := users g ++ map_of (rev kvs)\<rparr>, sp\<lparr>connList := cs @ [c]\<rparr>))"
proof (cases "connList sp")
  case Nil
  then show ?thesis by (simp add: initmysql_result_def connectionRAII_ctor_def GetConnection_def)
next
  case (Cons c cs)
  from raii_cycle [OF assms(1) Cons, of intr t] obtain r p1 where
    "connectionRAII_ctor intr t sp = Inr (Some c, r, p1)" "connectionRAII_dtor t r p1 = Inr (sp\<lparr>connList := cs @ [c]\<rparr>)" by blast
  then show ?thesis using assms(2) Cons by (simp add: initmysql_result_def fetch_rows_all)
qed

text \<open>
  Loading the users: with a connection in the pool and a result set without nulls, every row of the
  table is found in the map afterwards, a later row for the same name winning over an earlier one and
  over what was there, no other name changes, and the connection is back in the pool. Without a
  connection the null handle is used.
\<close>

theorem users_loaded:
  assumes "pool_ok sp"
    and "\<forall>c \<in> set (connList sp). query c ''select username,passwd from user'' = 0 \<and> store c = Some (stored kvs)"
  shows "initmysql_result query store err intr t h g sp = (case connList sp of
      [] \<Rightarrow> Inl Null_Deref
    | c # cs \<Rightarrow> Inr (g\<lparr>users := users g ++ map_of (rev kvs)\<rparr>, sp\<lparr>connList := cs @ [c]\<rparr>))"
  using assms by (rule initmysql_loads)

theorem users_loaded_witness:
  "initmysql_result (\<lambda>_ _. 0) (\<lambda>_. Some (stored [(''ann'', ''pw''), (''ann'', ''new'')])) (\<lambda>_. []) False 0 (sample_conn [] [])
      sample_globals (sample_pool [10]) =
    Inr (sample_globals\<lparr>users := users sample_globals ++ [''ann'' \<mapsto> ''new'']\<rparr>, sample_pool [10])"
proof -
  have p: "pool_ok (sample_pool [10])" "connList (sample_pool [10]) = [10]" "(sample_pool [10])\<lparr>connList := [10]\<rparr> = sample_pool [10]"
    by (simp_all add: pool_ok_def sample_pool_def sql_connection_pool_ctor_def locker_ctor_def SEM_VALUE_MAX_def)
  have "map_of (rev [(''ann'', ''pw''), (''ann'', ''new'')]) = [''ann'' \<mapsto> ''new'']" by simp
  with users_loaded [OF p(1), of "\<lambda>_ _. 0" "\<lambda>_. Some (stored [(''ann'', ''pw''), (''ann'', ''new'')])"
      "[(''ann'', ''pw''), (''ann'', ''new'')]" "\<lambda>_. []" False 0 "sample_conn [] []" sample_globals] p(2,3)
  show ?thesis by simp
qed

end
