(* ===== verification/Webserver.thy ===== *)
theory Webserver
  imports Thread_Pool Http_Log Timer_Store Http_Users
begin

text \<open>
  The class \<open>webserver\<close> of \<open>webserver.h\<close> and \<open>webserver.cpp\<close>, with the parts of class \<open>utils\<close> and the
  callback \<open>cb_func\<close> of \<open>timer/lst_timer.cpp\<close> that work on the server: start-up, the timers of the
  connections, the handlers of the events, and the event loop. The record \<open>server\<close> holds the members of the
  object and of its \<open>utils\<close>, and the state the components share: the statics of the connections
  and of \<open>utils\<close>, the connection pool, the log and its files. The outcomes of the blocking system calls
  (\<open>epoll_wait\<close>, \<open>accept\<close>, \<open>recv\<close>), the clock and the addresses the allocator returns are arguments.
\<close>

section \<open>Data\<close>

definition MAX_FD :: int where "MAX_FD = 65536"
definition MAX_EVENT_NUMBER :: int where "MAX_EVENT_NUMBER = 10000"
definition TIMESLOT :: int where "TIMESLOT = 5"

definition SIGPIPE :: int where "SIGPIPE = 13"
definition SIGALRM :: int where "SIGALRM = 14"
definition SIGTERM :: int where "SIGTERM = 15"
definition EINTR :: int where "EINTR = 4"

record client_data =
  cd_address :: string
  cd_sockfd :: fd
  cd_timer :: "addr option"

record server =
  ws_port :: int
  m_root :: string
  m_log_write :: int
  ws_close_log :: int
  m_actormodel :: int
  m_pipefd :: "fd \<times> fd"
  ws_epollfd :: fd
  conns :: "fd \<Rightarrow> http_conn"
  ws_connPool :: pool_ptr
  ws_user :: string
  ws_passwd :: string
  ws_dbname :: string
  m_sql_num :: int
  m_pool :: "threadpool option"
  m_thread_num :: int
  m_listenfd :: fd
  m_OPT_LINGER :: int
  ws_TRIGMode :: int
  m_LISTENTrigmode :: int
  m_COUNTrigmode :: int
  users_timer :: "fd \<Rightarrow> client_data"
  m_timer_lst :: sort_timer_lst
  m_TIMESLOT :: int
  u_pipefd :: "(fd \<times> fd) option"
  u_epollfd :: fd
  glob :: http_globals
  the_pool :: sql_connection_pool
  the_log :: log
  log_files :: files
  linger_opt :: "(int \<times> int) option"
  reuse_addr :: bool

definition log_srv :: "int \<Rightarrow> string \<Rightarrow> server \<Rightarrow> server" where
  "log_srv level msg S = S\<lparr>glob := log_msg level (ws_close_log S) msg (glob S)\<rparr>"

definition set_kern :: "(kernel \<Rightarrow> kernel) \<Rightarrow> server \<Rightarrow> server" where
  "set_kern f S = S\<lparr>glob := (glob S)\<lparr>kern := f (kern (glob S))\<rparr>\<rparr>"

text \<open>An index of the arrays \<open>users\<close> and \<open>users_timer\<close>.\<close>

definition in_table :: "fd \<Rightarrow> unit result" where
  "in_table fd = guard_r Out_Of_Bounds (0 \<le> fd \<and> fd < MAX_FD)"

section \<open>Timers of the connections\<close>

text \<open>The argument \<open>user_data\<close> points to the element of \<open>users_timer\<close> with this index, so it is never null.\<close>

definition cb_func :: "fd \<Rightarrow> server \<Rightarrow> server result" where
  "cb_func u S = bind_r (in_table u) (\<lambda>_.
     let fd = cd_sockfd (users_timer S u);
         S = set_kern (epoll_del (u_epollfd S) fd) S;
         S = set_kern (close fd) S
     in Inr (S\<lparr>glob := (glob S)\<lparr>m_user_count := m_user_count (glob S) - 1\<rparr>\<rparr>))"

definition utils_init :: "int \<Rightarrow> server \<Rightarrow> server" where
  "utils_init timeslot S = S\<lparr>m_TIMESLOT := timeslot\<rparr>"

definition timer_handler :: "int \<Rightarrow> server \<Rightarrow> server result" where
  "timer_handler now S = bind_r (tick cb_func now (m_timer_lst S) S) (\<lambda>(l, S).
     Inr (set_kern (alarm now (m_TIMESLOT S)) (S\<lparr>m_timer_lst := l\<rparr>)))"

text \<open>\<open>a\<close> is the address of the new timer.\<close>

definition timer :: "int \<Rightarrow> addr \<Rightarrow> fd \<Rightarrow> string \<Rightarrow> server \<Rightarrow> server result" where
  "timer now a connfd client_address S =
     bind_r (in_table connfd) (\<lambda>_.
     bind_r (init connfd client_address (m_root S) (m_COUNTrigmode S) (ws_close_log S) (ws_user S) (ws_passwd S) (ws_dbname S)
              (conns S connfd) (glob S)) (\<lambda>(h, g).
     let S = S\<lparr>conns := (conns S)(connfd := h), glob := g,
               users_timer := (users_timer S)(connfd :=
                 \<lparr>cd_address = client_address, cd_sockfd = connfd, cd_timer = Some a\<rparr>)\<rparr> in
     bind_r (insert_timer a (now + 3 * TIMESLOT) connfd (m_timer_lst S)) (\<lambda>l.
       Inr (S\<lparr>m_timer_lst := l\<rparr>))))"

definition ws_adjust_timer :: "int \<Rightarrow> addr option \<Rightarrow> server \<Rightarrow> server result" where
  "ws_adjust_timer now tm S =
     bind_r (ptr tm) (\<lambda>a.
     bind_r (postpone_timer a (now + 3 * TIMESLOT) (m_timer_lst S)) (\<lambda>l.
       Inr (log_srv 1 ''adjust timer once'' (S\<lparr>m_timer_lst := l\<rparr>))))"

text \<open>The pointer is used before it is tested. The entry of \<open>users_timer\<close> keeps the freed pointer.\<close>

definition deal_timer :: "addr option \<Rightarrow> fd \<Rightarrow> server \<Rightarrow> server result" where
  "deal_timer tm sockfd S =
     bind_r (ptr tm) (\<lambda>a.
     bind_r (rd (m_timer_lst S) a) (\<lambda>_.
     bind_r (cb_func sockfd S) (\<lambda>S.
     bind_r (remove_timer a (m_timer_lst S)) (\<lambda>l.
     let S = S\<lparr>m_timer_lst := l\<rparr> in
       Inr (log_srv 1 (''close fd '' @ show_int (cd_sockfd (users_timer S sockfd))) S)))))"

section \<open>New connections\<close>

text \<open>
  What \<open>accept\<close> gives: a new descriptor with the client's address, or an error number. The third
  component is the address of the timer that is allocated for the connection.
\<close>

datatype accept_result = Accepted fd string addr | Accept_Error int

definition accept :: "fd \<Rightarrow> kernel \<Rightarrow> kernel" where
  "accept fd k = k\<lparr>fdflags := (fdflags k)(fd \<mapsto> 0), interest := (interest k)(fd := None)\<rparr>"

text \<open>The body that the two branches share; the flag says whether the connection was taken.\<close>

definition take_client :: "int \<Rightarrow> accept_result \<Rightarrow> server \<Rightarrow> (bool \<times> server) result" where
  "take_client now r S = (case r of
     Accept_Error errno \<Rightarrow> Inr (False, log_srv 3 (''accept error:errno is:'' @ show_int errno) S)
   | Accepted connfd client_address a \<Rightarrow>
       let S = set_kern (accept connfd) S in
       if m_user_count (glob S) \<ge> MAX_FD
       then Inr (False, log_srv 3 ''Internal server busy'' (set_kern (show_error connfd ''Internal server busy'') S))
       else bind_r (timer now a connfd client_address S) (\<lambda>S. Inr (True, S)))"

fun accept_loop :: "int \<Rightarrow> accept_result list \<Rightarrow> server \<Rightarrow> server result" where
  "accept_loop now [] S = Inl Blocked"
| "accept_loop now (r # rs) S = bind_r (take_client now r S) (\<lambda>(ok, S). if ok then accept_loop now rs S else Inr S)"

definition dealclientdata :: "int \<Rightarrow> accept_result list \<Rightarrow> server \<Rightarrow> (bool \<times> server) result" where
  "dealclientdata now accepts S =
     (if 0 = m_LISTENTrigmode S
      then (case accepts of [] \<Rightarrow> Inl Blocked | r # rs \<Rightarrow> take_client now r S)
      else bind_r (accept_loop now accepts S) (\<lambda>S. Inr (False, S)))"

section \<open>Signals\<close>

fun take_signals :: "string \<Rightarrow> bool \<Rightarrow> bool \<Rightarrow> bool \<times> bool" where
  "take_signals [] timeout stop_server = (timeout, stop_server)"
| "take_signals (c # cs) timeout stop_server =
     (if int (of_char c) = SIGALRM then take_signals cs True stop_server
      else if int (of_char c) = SIGTERM then take_signals cs timeout True
      else take_signals cs timeout stop_server)"

definition dealwithsignal :: "recv_result \<Rightarrow> bool \<Rightarrow> bool \<Rightarrow> bool \<times> bool \<times> bool" where
  "dealwithsignal r timeout stop_server =
     (let (ret, signals) = recv r 1024 in
      if ret = -1 then (False, timeout, stop_server)
      else if ret = 0 then (False, timeout, stop_server)
      else (True, take_signals signals timeout stop_server))"

section \<open>Reading and writing\<close>

text \<open>One round of a worker thread: what it receives, whether its wait is interrupted, its number.\<close>

type_synonym worker_io = "recv_result list \<times> bool \<times> nat"

definition worker_round :: "(string \<Rightarrow> disk_file option) \<Rightarrow> (nat \<Rightarrow> string \<Rightarrow> int) \<Rightarrow> worker_io \<Rightarrow> server \<Rightarrow> server result" where
  "worker_round fs query io S = (case io of (net, intr, t) \<Rightarrow>
     bind_r (of_option Null_Deref (m_pool S)) (\<lambda>p.
     bind_r (run_round fs query net intr t p (conns S) (glob S) (the_pool S)) (\<lambda>(p, c, g, sp).
       Inr (S\<lparr>m_pool := Some p, conns := c, glob := g, the_pool := sp\<rparr>))))"

text \<open>
  The loop in which the main thread waits for \<open>improv\<close>, while the workers run; the rounds they make
  meanwhile are the list. When they make no further step the loop does not end.
\<close>

fun await_worker :: "(string \<Rightarrow> disk_file option) \<Rightarrow> (nat \<Rightarrow> string \<Rightarrow> int) \<Rightarrow> worker_io list
    \<Rightarrow> addr option \<Rightarrow> fd \<Rightarrow> server \<Rightarrow> server result" where
  "await_worker fs query ios tm sockfd S =
     (if 1 = improv (conns S sockfd) then
        bind_r (if 1 = timer_flag (conns S sockfd)
                then bind_r (deal_timer tm sockfd S) (\<lambda>S.
                       Inr (S\<lparr>conns := (conns S)(sockfd := (conns S sockfd)\<lparr>timer_flag := 0\<rparr>)\<rparr>))
                else Inr S) (\<lambda>S.
          Inr (S\<lparr>conns := (conns S)(sockfd := (conns S sockfd)\<lparr>improv := 0\<rparr>)\<rparr>))
      else (case ios of [] \<Rightarrow> Inl Diverges
        | io # rest \<Rightarrow> bind_r (worker_round fs query io S) (await_worker fs query rest tm sockfd)))"

declare await_worker.simps [simp del]

text \<open>The reactor branch of both handlers: \<open>state\<close> is 0 for reading and 1 for writing.\<close>

definition hand_over :: "(string \<Rightarrow> disk_file option) \<Rightarrow> (nat \<Rightarrow> string \<Rightarrow> int) \<Rightarrow> int \<Rightarrow> nat \<Rightarrow> worker_io list
    \<Rightarrow> int \<Rightarrow> addr option \<Rightarrow> fd \<Rightarrow> server \<Rightarrow> server result" where
  "hand_over fs query now t ios state tm sockfd S =
     bind_r (if tm \<noteq> None then ws_adjust_timer now tm S else Inr S) (\<lambda>S.
     bind_r (of_option Null_Deref (m_pool S)) (\<lambda>p.
     bind_r (append t (Some sockfd) state (conns S) p) (\<lambda>(ok, c, p).
       await_worker fs query ios tm sockfd (S\<lparr>conns := c, m_pool := Some p\<rparr>))))"

definition dealwithread :: "(string \<Rightarrow> disk_file option) \<Rightarrow> (nat \<Rightarrow> string \<Rightarrow> int) \<Rightarrow> int \<Rightarrow> nat \<Rightarrow> recv_result list \<Rightarrow> worker_io list
    \<Rightarrow> fd \<Rightarrow> server \<Rightarrow> server result" where
  "dealwithread fs query now t net ios sockfd S =
     bind_r (in_table sockfd) (\<lambda>_.
     let tm = cd_timer (users_timer S sockfd) in
     if 1 = m_actormodel S then hand_over fs query now t ios 0 tm sockfd S
     else bind_r (read_once net (conns S sockfd)) (\<lambda>(ok, h).
       let S = S\<lparr>conns := (conns S)(sockfd := h)\<rparr> in
       if ok then
         let S = log_srv 1 (''deal with the client('' @ get_address h @ '')'') S in
         bind_r (of_option Null_Deref (m_pool S)) (\<lambda>p.
         bind_r (append_p t (Some sockfd) p) (\<lambda>(queued, p).
         let S = S\<lparr>m_pool := Some p\<rparr> in
         if tm \<noteq> None then ws_adjust_timer now tm S else Inr S))
       else deal_timer tm sockfd S))"

definition dealwithwrite :: "(string \<Rightarrow> disk_file option) \<Rightarrow> (nat \<Rightarrow> string \<Rightarrow> int) \<Rightarrow> int \<Rightarrow> nat \<Rightarrow> worker_io list
    \<Rightarrow> fd \<Rightarrow> server \<Rightarrow> server result" where
  "dealwithwrite fs query now t ios sockfd S =
     bind_r (in_table sockfd) (\<lambda>_.
     let tm = cd_timer (users_timer S sockfd) in
     if 1 = m_actormodel S then hand_over fs query now t ios 1 tm sockfd S
     else bind_r (write_conn (conns S sockfd)) (\<lambda>(ok, h).
       let S = S\<lparr>conns := (conns S)(sockfd := h)\<rparr> in
       if ok then
         let S = log_srv 1 (''send data to the_client('' @ get_address h @ '')'') S in
         if tm \<noteq> None then ws_adjust_timer now tm S else Inr S
       else deal_timer tm sockfd S))"

section \<open>The event loop\<close>

text \<open>What the system calls give while one event is handled.\<close>

record event_io =
  ev_accepts :: "accept_result list"
  ev_pipe :: recv_result
  ev_net :: "recv_result list"
  ev_workers :: "worker_io list"

type_synonym event = "fd \<times> events \<times> event_io"

definition handle_event :: "(string \<Rightarrow> disk_file option) \<Rightarrow> (nat \<Rightarrow> string \<Rightarrow> int) \<Rightarrow> int \<Rightarrow> nat \<Rightarrow> event
    \<Rightarrow> bool \<Rightarrow> bool \<Rightarrow> server \<Rightarrow> (bool \<times> bool \<times> server) result" where
  "handle_event fs query now t e timeout stop_server S = (case e of (sockfd, ev, io) \<Rightarrow>
     if sockfd = m_listenfd S then
       bind_r (dealclientdata now (ev_accepts io) S) (\<lambda>(flag, S). Inr (timeout, stop_server, S))
     else if ev AND (EPOLLRDHUP OR EPOLLHUP OR EPOLLERR) \<noteq> 0 then
       bind_r (in_table sockfd) (\<lambda>_.
       bind_r (deal_timer (cd_timer (users_timer S sockfd)) sockfd S) (\<lambda>S. Inr (timeout, stop_server, S)))
     else if sockfd = fst (m_pipefd S) \<and> ev AND EPOLLIN \<noteq> 0 then
       (let (flag, timeout, stop_server) = dealwithsignal (ev_pipe io) timeout stop_server in
        Inr (timeout, stop_server, if flag then S else log_srv 3 ''dealclientdata failure'' S))
     else if ev AND EPOLLIN \<noteq> 0 then
       bind_r (dealwithread fs query now t (ev_net io) (ev_workers io) sockfd S) (\<lambda>S. Inr (timeout, stop_server, S))
     else if ev AND EPOLLOUT \<noteq> 0 then
       bind_r (dealwithwrite fs query now t (ev_workers io) sockfd S) (\<lambda>S. Inr (timeout, stop_server, S))
     else Inr (timeout, stop_server, S))"

fun handle_events :: "(string \<Rightarrow> disk_file option) \<Rightarrow> (nat \<Rightarrow> string \<Rightarrow> int) \<Rightarrow> int \<Rightarrow> nat \<Rightarrow> event list
    \<Rightarrow> bool \<Rightarrow> bool \<Rightarrow> server \<Rightarrow> (bool \<times> bool \<times> server) result" where
  "handle_events fs query now t [] timeout stop_server S = Inr (timeout, stop_server, S)"
| "handle_events fs query now t (e # es) timeout stop_server S =
     bind_r (handle_event fs query now t e timeout stop_server S) (\<lambda>(timeout, stop_server, S).
       handle_events fs query now t es timeout stop_server S)"

text \<open>The result of \<open>epoll_wait\<close>: the ready events, at most \<open>MAX_EVENT_NUMBER\<close>, or an error number.\<close>

datatype wait_result = Ready "event list" | Wait_Error int

text \<open>The end of a round: the timers are run when the signal arrived.\<close>

definition end_round :: "int \<Rightarrow> bool \<Rightarrow> server \<Rightarrow> server result" where
  "end_round now timeout S =
     (if timeout then bind_r (timer_handler now S) (\<lambda>S. Inr (log_srv 1 ''timer tick'' S)) else Inr S)"

text \<open>Each element is the time and the result of one call of \<open>epoll_wait\<close>; the list ends where it blocks.\<close>

fun eventLoop :: "(string \<Rightarrow> disk_file option) \<Rightarrow> (nat \<Rightarrow> string \<Rightarrow> int) \<Rightarrow> nat \<Rightarrow> (int \<times> wait_result) list \<Rightarrow> bool
    \<Rightarrow> server \<Rightarrow> server result" where
  "eventLoop fs query t waits True S = Inr S"
| "eventLoop fs query t [] False S = Inl Blocked"
| "eventLoop fs query t ((now, Wait_Error errno) # ws) False S =
     (if errno \<noteq> EINTR then Inr (log_srv 3 ''epoll failure'' S) else eventLoop fs query t ws False S)"
| "eventLoop fs query t ((now, Ready es) # ws) False S =
     bind_r (handle_events fs query now t (take (nat MAX_EVENT_NUMBER) es) False False S) (\<lambda>(timeout, stop_server, S).
     bind_r (end_round now timeout S) (eventLoop fs query t ws stop_server))"

section \<open>Start-up\<close>

text \<open>\<open>getcwd\<close> fails (\<open>None\<close>) for a path that does not fit the array, whose bytes are then read all the same.\<close>

definition webserver_ctor :: "string option \<Rightarrow> server \<Rightarrow> server result" where
  "webserver_ctor server_path memory =
     bind_r (of_option Uninitialised server_path) (\<lambda>path. Inr (memory\<lparr>m_root := path @ ''/root''\<rparr>))"

definition webserver_dtor :: "server \<Rightarrow> server" where
  "webserver_dtor S = (set_kern (close (fst (m_pipefd S))) (set_kern (close (snd (m_pipefd S)))
     (set_kern (close (m_listenfd S)) (set_kern (close (ws_epollfd S)) S))))\<lparr>m_pool := None\<rparr>"

definition ws_init :: "int \<Rightarrow> string \<Rightarrow> string \<Rightarrow> string \<Rightarrow> int \<Rightarrow> int \<Rightarrow> int \<Rightarrow> int \<Rightarrow> int \<Rightarrow> int \<Rightarrow> int \<Rightarrow> server \<Rightarrow> server" where
  "ws_init port user passwd dbname log_wr opt_linger trigmode sql_num thread_num close_log actor_model S =
     S\<lparr>ws_port := port, ws_user := user, ws_passwd := passwd, ws_dbname := dbname, m_sql_num := sql_num,
       m_thread_num := thread_num, m_log_write := log_wr, m_OPT_LINGER := opt_linger, ws_TRIGMode := trigmode,
       ws_close_log := close_log, m_actormodel := actor_model\<rparr>"

definition thread_pool :: "(nat \<Rightarrow> int) \<Rightarrow> (nat \<Rightarrow> int) \<Rightarrow> threadpool \<Rightarrow> server \<Rightarrow> server result" where
  "thread_pool create detach memory S =
     bind_r (threadpool_ctor create detach (m_actormodel S) (ws_connPool S) (m_thread_num S) 10000 memory) (\<lambda>p.
       Inr (S\<lparr>m_pool := Some p\<rparr>))"

text \<open>\<open>users->initmysql_result\<close> is called on the first connection object.\<close>

definition sql_pool :: "(nat \<Rightarrow> bool \<times> nat option) \<Rightarrow> (nat \<Rightarrow> string \<Rightarrow> int) \<Rightarrow> (nat \<Rightarrow> row list option) \<Rightarrow> (nat \<Rightarrow> string) \<Rightarrow> bool \<Rightarrow> nat
    \<Rightarrow> server \<Rightarrow> server result" where
  "sql_pool attempt query store sql_error intr t S =
     (let S = S\<lparr>ws_connPool := Pool_Instance\<rparr> in
      bind_r (init_pool attempt ''localhost'' (ws_user S) (ws_passwd S) (ws_dbname S) 3306 (m_sql_num S) (ws_close_log S) (the_pool S)) (\<lambda>sp.
      bind_r (initmysql_result query store sql_error intr t (conns S 0) (glob S) sp) (\<lambda>(g, sp).
        Inr (S\<lparr>glob := g, the_pool := sp\<rparr>))))"

definition log_write :: "(string \<Rightarrow> bool) \<Rightarrow> tm \<Rightarrow> server \<Rightarrow> server result" where
  "log_write can_open now S =
     (if 0 = ws_close_log S then
        bind_r (init_log can_open now ''./serverlog'' (ws_close_log S) 2000 800000 (if 1 = m_log_write S then 800 else 0)
                 (the_log S) (log_files S)) (\<lambda>(r, L, fl).
          Inr (S\<lparr>the_log := L, log_files := fl\<rparr>))
      else Inr S)"

definition trig_mode :: "server \<Rightarrow> server" where
  "trig_mode S =
     (if 0 = ws_TRIGMode S then S\<lparr>m_LISTENTrigmode := 0, m_COUNTrigmode := 0\<rparr>
      else if 1 = ws_TRIGMode S then S\<lparr>m_LISTENTrigmode := 0, m_COUNTrigmode := 1\<rparr>
      else if 2 = ws_TRIGMode S then S\<lparr>m_LISTENTrigmode := 1, m_COUNTrigmode := 0\<rparr>
      else if 3 = ws_TRIGMode S then S\<lparr>m_LISTENTrigmode := 1, m_COUNTrigmode := 1\<rparr>
      else S)"

text \<open>New descriptors, the one epoll instance, and \<open>addsig\<close> on the server's kernel.\<close>

definition open_fd :: "fd \<Rightarrow> kernel \<Rightarrow> kernel" where
  "open_fd fd k = k\<lparr>fdflags := (fdflags k)(fd \<mapsto> 0)\<rparr>"

definition epoll_create :: "fd \<Rightarrow> kernel \<Rightarrow> kernel" where
  "epoll_create fd k = (open_fd fd k)\<lparr>epfd := fd, interest := (\<lambda>_. None)\<rparr>"

definition add_signal :: "int \<Rightarrow> sighandler \<Rightarrow> bool \<Rightarrow> server \<Rightarrow> server result" where
  "add_signal sig handler restart S =
     bind_r (addsig sig handler restart (kern (glob S))) (\<lambda>k. Inr (S\<lparr>glob := (glob S)\<lparr>kern := k\<rparr>\<rparr>))"

text \<open>
  \<open>sock\<close>, \<open>ep\<close> and \<open>pipe\<close> are what \<open>socket\<close>, \<open>epoll_create\<close> and \<open>socketpair\<close> give. The address is filled in but
  neither \<open>bind\<close> nor \<open>listen\<close> is called.
\<close>

definition eventListen :: "int \<Rightarrow> int \<Rightarrow> (fd \<times> fd) option \<Rightarrow> int \<Rightarrow> server \<Rightarrow> server result" where
  "eventListen sock ep pipe now S =
     bind_r (guard_r Assert_Failed (sock \<ge> 0)) (\<lambda>_.
     let S = set_kern (open_fd sock) (S\<lparr>m_listenfd := sock\<rparr>);
         S = (if 0 = m_OPT_LINGER S then S\<lparr>linger_opt := Some (0, 1)\<rparr>
              else if 1 = m_OPT_LINGER S then S\<lparr>linger_opt := Some (1, 1)\<rparr> else S);
         S = S\<lparr>reuse_addr := True\<rparr>;
         S = utils_init TIMESLOT S in
     bind_r (guard_r Assert_Failed (ep \<noteq> -1)) (\<lambda>_.
     let S = set_kern (epoll_create ep) (S\<lparr>ws_epollfd := ep\<rparr>);
         S = set_kern (utils_addfd ep sock False (m_LISTENTrigmode S)) S;
         S = S\<lparr>glob := (glob S)\<lparr>m_epollfd := ep\<rparr>\<rparr> in
     bind_r (of_option Assert_Failed pipe) (\<lambda>(p0, p1).
     let S = set_kern (\<lambda>k. open_fd p1 (open_fd p0 k)) (S\<lparr>m_pipefd := (p0, p1)\<rparr>);
         S = set_kern (\<lambda>k. snd (utils_setnonblocking p1 k)) S;
         S = set_kern (utils_addfd ep p0 False 0) S in
     bind_r (add_signal SIGPIPE Sig_Ignore True S) (\<lambda>S.
     bind_r (add_signal SIGALRM (Sig_Function ''sig_handler'') False S) (\<lambda>S.
     bind_r (add_signal SIGTERM (Sig_Function ''sig_handler'') False S) (\<lambda>S.
     let S = set_kern (alarm now TIMESLOT) S in
       Inr (S\<lparr>u_pipefd := Some (p0, p1), u_epollfd := ep\<rparr>)))))))"

end
