(* ===== verification/Webserver_Timers.thy ===== *)
theory Webserver_Timers
  imports Webserver
begin

text \<open>
  The connections of the server and their timers. The invariant \<open>server_ok\<close> says that the timer list is
  in order, that it holds exactly one timer for each registered connection, that \<open>users_timer\<close> finds
  it, and that \<open>m_user_count\<close> is the number of connections. Every handler of the main thread keeps it and
  does not fault. A connection that a worker thread closes keeps its timer, which breaks it.
\<close>

section \<open>The invariant\<close>

definition connected :: "server \<Rightarrow> fd set" where
  "connected S = {fd. interest (kern (glob S)) fd \<noteq> None} - {m_listenfd S, fst (m_pipefd S)}"

definition fds_ok :: "server \<Rightarrow> bool" where
  "fds_ok S \<longleftrightarrow> (let k = kern (glob S) in
     finite (connected S) \<and> m_user_count (glob S) = int (card (connected S)) \<and>
     (\<forall>fd \<in> connected S. 0 \<le> fd \<and> fd < MAX_FD \<and> cd_sockfd (users_timer S fd) = fd) \<and>
     u_epollfd S = epfd k \<and> m_epollfd (glob S) = epfd k \<and> interest k (epfd k) = None \<and>
     (\<forall>fd. interest k fd \<noteq> None \<longrightarrow> fdflags k fd \<noteq> None) \<and>
     fdflags k (m_listenfd S) \<noteq> None \<and> fdflags k (fst (m_pipefd S)) \<noteq> None \<and> fdflags k (epfd k) \<noteq> None)"

definition creds_ok :: "server \<Rightarrow> bool" where
  "creds_ok S \<longleftrightarrow> length (ws_user S) < 100 \<and> length (ws_passwd S) < 100 \<and> length (ws_dbname S) < 100 \<and>
     (\<forall>fd. length (sql_user (conns S fd)) = 100 \<and> length (sql_passwd (conns S fd)) = 100 \<and> length (sql_name (conns S fd)) = 100)"

definition timers_ok :: "server \<Rightarrow> int \<Rightarrow> bool" where
  "timers_ok S e \<longleftrightarrow> owns in_order (\<lambda>s. exp_at (heap s)) (\<lambda>s. user_at (heap s)) (m_timer_lst S)
     (\<lambda>fd. cd_timer (users_timer S fd)) (connected S) e"

definition server_ok :: "server \<Rightarrow> int \<Rightarrow> bool" where
  "server_ok S now \<longleftrightarrow> fds_ok S \<and> creds_ok S \<and> timers_ok S (now + 3 * TIMESLOT)"

abbreviation expiry :: "server \<Rightarrow> fd \<Rightarrow> int" where
  "expiry S fd \<equiv> exp_at (heap (m_timer_lst S)) (the (cd_timer (users_timer S fd)))"

lemma server_ok_later: "server_ok S now \<Longrightarrow> now \<le> now' \<Longrightarrow> server_ok S now'"
  unfolding server_ok_def timers_ok_def using server_timers.owns_weaken by fastforce

lemma in_table_ok [simp]: "0 \<le> fd \<Longrightarrow> fd < MAX_FD \<Longrightarrow> in_table fd = Inr ()"
  by (simp add: in_table_def)

lemma log_srv_simps [simp]:
  "connected (log_srv l m S) = connected S" "fds_ok (log_srv l m S) = fds_ok S" "creds_ok (log_srv l m S) = creds_ok S"
  "timers_ok (log_srv l m S) e = timers_ok S e" "m_timer_lst (log_srv l m S) = m_timer_lst S"
  "users_timer (log_srv l m S) = users_timer S" "kern (glob (log_srv l m S)) = kern (glob S)"
  by (simp_all add: log_srv_def log_msg_def connected_def fds_ok_def creds_ok_def timers_ok_def Let_def)

lemma lst_update_simps [simp]:
  "connected (S\<lparr>m_timer_lst := l\<rparr>) = connected S" "fds_ok (S\<lparr>m_timer_lst := l\<rparr>) = fds_ok S" "creds_ok (S\<lparr>m_timer_lst := l\<rparr>) = creds_ok S"
  by (auto simp: connected_def fds_ok_def creds_ok_def)

lemma set_kern_simps [simp]:
  "m_timer_lst (set_kern f S) = m_timer_lst S" "users_timer (set_kern f S) = users_timer S" "creds_ok (set_kern f S) = creds_ok S"
  "kern (glob (set_kern f S)) = f (kern (glob S))" "m_LISTENTrigmode (set_kern f S) = m_LISTENTrigmode S"
  "m_user_count (glob (set_kern f S)) = m_user_count (glob S)"
  by (simp_all add: set_kern_def creds_ok_def)

section \<open>Closing\<close>

definition closed_conn :: "fd \<Rightarrow> server \<Rightarrow> server" where
  "closed_conn fd S = S\<lparr>glob := (glob S)\<lparr>kern := removefd (u_epollfd S) fd (kern (glob S)),
     m_user_count := m_user_count (glob S) - 1\<rparr>\<rparr>"

lemma closed_conn_frame [simp]:
  "m_timer_lst (closed_conn fd S) = m_timer_lst S" "users_timer (closed_conn fd S) = users_timer S"
  "creds_ok (closed_conn fd S) = creds_ok S" "u_epollfd (closed_conn fd S) = u_epollfd S" "m_TIMESLOT (closed_conn fd S) = m_TIMESLOT S"
  "kern (glob (closed_conn fd S)) = removefd (u_epollfd S) fd (kern (glob S))"
  by (simp_all add: closed_conn_def creds_ok_def)

lemma cb_func_closes:
  "0 \<le> u \<Longrightarrow> u < MAX_FD \<Longrightarrow> cb_func u S = Inr (closed_conn (cd_sockfd (users_timer S u)) S)"
  by (simp add: cb_func_def set_kern_def closed_conn_def removefd_def Let_def)

lemma connected_closed: "connected (closed_conn fd S) = connected S - {fd}"
  by (auto simp: connected_def closed_conn_def removefd_def epoll_del_def)

lemma fds_ok_closed:
  assumes "fds_ok S" "fd \<in> connected S"
  shows "fds_ok (closed_conn fd S)"
proof -
  have "fd \<noteq> epfd (kern (glob S))" "fd \<noteq> m_listenfd S" "fd \<noteq> fst (m_pipefd S)" "0 < card (connected S)"
    using assms by (auto simp: fds_ok_def connected_def Let_def card_gt_0_iff)
  then show ?thesis using assms
    unfolding fds_ok_def connected_closed Let_def
    by (auto simp: closed_conn_def removefd_def epoll_del_def of_nat_diff)
qed

lemma run_cbs_closes:
  "\<forall>u \<in> set us. 0 \<le> u \<and> u < MAX_FD \<Longrightarrow>
     run_cbs cb_func us S = Inr (fold (\<lambda>u. closed_conn (cd_sockfd (users_timer S u))) us S)"
  by (induction us arbitrary: S) (simp_all add: cb_func_closes)

lemma fold_closed_frame [simp]:
  "m_timer_lst (fold (\<lambda>u. closed_conn (f u)) us S) = m_timer_lst S" "users_timer (fold (\<lambda>u. closed_conn (f u)) us S) = users_timer S"
  "creds_ok (fold (\<lambda>u. closed_conn (f u)) us S) = creds_ok S" "m_TIMESLOT (fold (\<lambda>u. closed_conn (f u)) us S) = m_TIMESLOT S"
  "connected (fold (\<lambda>u. closed_conn (f u)) us S) = connected S - f ` set us"
  by (induction us arbitrary: S) (auto simp: connected_closed)

lemma fds_ok_fold:
  "fds_ok S \<Longrightarrow> distinct us \<Longrightarrow> set us \<subseteq> connected S \<Longrightarrow> fds_ok (fold closed_conn us S)"
proof (induction us arbitrary: S)
  case (Cons u us)
  then have "fds_ok (closed_conn u S)" "set us \<subseteq> connected (closed_conn u S)"
    by (auto simp: connected_closed intro: fds_ok_closed)
  with Cons show ?case by simp
qed simp

lemma deal_timer_ok:
  assumes "server_ok S now" "fd \<in> connected S"
  shows "\<exists>S'. deal_timer (cd_timer (users_timer S fd)) fd S = Inr S' \<and> server_ok S' now \<and> connected S' = connected S - {fd} \<and>
     fdflags (kern (glob S')) fd = None \<and> heap (m_timer_lst S') (the (cd_timer (users_timer S fd))) = None \<and> conns S' = conns S"
proof -
  have f: "fds_ok S" "creds_ok S" "cd_sockfd (users_timer S fd) = fd" "0 \<le> fd" "fd < MAX_FD"
    using assms by (auto simp: server_ok_def fds_ok_def Let_def)
  obtain a l where a: "cd_timer (users_timer S fd) = Some a" "a \<in> dom (heap (m_timer_lst S))" "remove_timer a (m_timer_lst S) = Inr l"
      "owns in_order (\<lambda>s. exp_at (heap s)) (\<lambda>s. user_at (heap s)) l (\<lambda>fd. cd_timer (users_timer S fd)) (connected S - {fd}) (now + 3 * TIMESLOT)"
      "dom (heap l) = dom (heap (m_timer_lst S)) - {a}"
    using server_timers.owns_remove [of "m_timer_lst S" "\<lambda>fd. cd_timer (users_timer S fd)" "connected S" "now + 3 * TIMESLOT" fd] assms
    by (auto simp: server_ok_def timers_ok_def)
  let ?S = "log_srv 1 (''close fd '' @ show_int fd) ((closed_conn fd S)\<lparr>m_timer_lst := l\<rparr>)"
  have "deal_timer (cd_timer (users_timer S fd)) fd S = Inr ?S"
    using a(1-3) f(3-5) by (auto simp: deal_timer_def cb_func_closes Let_def)
  moreover have "server_ok ?S now"
    using fds_ok_closed [OF f(1) assms(2)] f(2) a(4) by (simp add: server_ok_def timers_ok_def connected_closed)
  moreover have "heap l a = None" using a(5) by blast
  moreover have "conns ?S = conns S" by (simp add: log_srv_def closed_conn_def)
  ultimately show ?thesis using a(1) by (intro exI [of _ ?S]) (simp add: connected_closed)
qed

lemma timer_handler_ok:
  assumes "server_ok S now"
  shows "\<exists>S'. timer_handler now S = Inr S' \<and> server_ok S' now \<and> connected S' = {fd \<in> connected S. now < expiry S fd} \<and>
     alarm_at (kern (glob S')) = (if m_TIMESLOT S = 0 then None else Some (now + m_TIMESLOT S)) \<and> m_TIMESLOT S' = m_TIMESLOT S"
proof -
  have f: "fds_ok S" "creds_ok S" "\<And>fd. fd \<in> connected S \<Longrightarrow> cd_sockfd (users_timer S fd) = fd \<and> 0 \<le> fd \<and> fd < MAX_FD"
    using assms by (auto simp: server_ok_def fds_ok_def Let_def)
  obtain l fds where l: "\<And>w. tick cb_func now (m_timer_lst S) w = bind_r (run_cbs cb_func fds w) (\<lambda>w. Inr (l, w))" "distinct fds"
      "set fds = {fd \<in> connected S. expiry S fd \<le> now}"
      "owns in_order (\<lambda>s. exp_at (heap s)) (\<lambda>s. user_at (heap s)) l (\<lambda>fd. cd_timer (users_timer S fd)) (connected S - set fds) (now + 3 * TIMESLOT)"
    using server_timers.owns_reap [of "m_timer_lst S" "\<lambda>fd. cd_timer (users_timer S fd)" "connected S" "now + 3 * TIMESLOT" cb_func now] assms
    unfolding server_ok_def timers_ok_def by blast
  have "fold (\<lambda>u. closed_conn (cd_sockfd (users_timer S u))) fds S = fold closed_conn fds S"
    using f(3) l(3) by (intro fold_cong) auto
  then have run: "run_cbs cb_func fds S = Inr (fold closed_conn fds S)"
    using run_cbs_closes [of fds S] f(3) l(3) by auto
  let ?S1 = "(fold closed_conn fds S)\<lparr>m_timer_lst := l\<rparr>"
  let ?S = "set_kern (alarm now (m_TIMESLOT S)) ?S1"
  have c: "connected ?S1 = connected S - set fds" using fold_closed_frame(5) [of "\<lambda>x. x" fds S] by simp
  have al: "connected (set_kern (alarm n m) X) = connected X" "fds_ok (set_kern (alarm n m) X) = fds_ok X"
     "creds_ok (set_kern (alarm n m) X) = creds_ok X" "timers_ok (set_kern (alarm n m) X) e = timers_ok X e" for n m X e
    by (simp_all add: set_kern_def alarm_def connected_def fds_ok_def creds_ok_def timers_ok_def Let_def)
  have "timer_handler now S = Inr ?S"
    using l(1) run fold_closed_frame(4) [of "\<lambda>x. x" fds S] by (simp add: timer_handler_def)
  moreover have "fds_ok ?S1" using fds_ok_fold [OF f(1) l(2)] l(3) by auto
  then have "server_ok ?S now"
    using f(2) l(4) c fold_closed_frame(2,3) [of "\<lambda>x. x" fds S] unfolding server_ok_def al timers_ok_def by simp
  moreover have "connected ?S = {fd \<in> connected S. now < expiry S fd}" unfolding al c l(3) by auto
  moreover have "m_TIMESLOT ?S = m_TIMESLOT S" using fold_closed_frame(4) [of "\<lambda>x. x" fds S] by (simp add: set_kern_def)
  moreover have "alarm_at (kern (glob ?S)) = (if m_TIMESLOT S = 0 then None else Some (now + m_TIMESLOT S))" by (simp add: alarm_def)
  ultimately show ?thesis by blast
qed

section \<open>Accepting\<close>

lemma strcpy_fits: "length s < length b \<Longrightarrow> \<exists>b'. strcpy b 0 s = Inr b' \<and> length b' = length b"
  by (simp add: strcpy_def write_at_def)

lemma init_ok:
  assumes "length user < length (sql_user h)" "length passwd < length (sql_passwd h)" "length db < length (sql_name h)"
  shows "\<exists>h'. init fd addr root m cl user passwd db h g =
      Inr (h', g\<lparr>kern := addfd (m_epollfd g) fd True (m_TRIGMode h) (kern g), m_user_count := m_user_count g + 1\<rparr>) \<and>
     length (sql_user h') = length (sql_user h) \<and> length (sql_passwd h') = length (sql_passwd h) \<and>
     length (sql_name h') = length (sql_name h) \<and> m_sokcfd h' = fd \<and> m_TRIGMode h' = m"
proof -
  obtain su sp sn where "strcpy (sql_user h) 0 user = Inr su" "length su = length (sql_user h)"
    "strcpy (sql_passwd h) 0 passwd = Inr sp" "length sp = length (sql_passwd h)"
    "strcpy (sql_name h) 0 db = Inr sn" "length sn = length (sql_name h)"
    using strcpy_fits assms by meson
  then show ?thesis by (simp add: init_def init_conn_def Let_def)
qed

text \<open>A descriptor the kernel can hand out: not open, and inside the tables.\<close>

definition fresh_fd :: "server \<Rightarrow> fd \<Rightarrow> bool" where
  "fresh_fd S fd \<longleftrightarrow> fdflags (kern (glob S)) fd = None \<and> 0 \<le> fd \<and> fd < MAX_FD"

lemma fresh_fd_not_connected: "fds_ok S \<Longrightarrow> fresh_fd S fd \<Longrightarrow> interest (kern (glob S)) fd = None \<and> fd \<notin> connected S"
  by (auto simp: fresh_fd_def fds_ok_def connected_def Let_def)

lemma accept_addfd:
  fixes k :: kernel and fd :: fd and m :: int
  defines "k' \<equiv> addfd (epfd k) fd True m (accept fd k)"
  assumes "fd \<noteq> epfd k"
  shows "\<exists>ev. interest k' = (interest k)(fd \<mapsto> ev)" "fdflags k' = (fdflags k)(fd \<mapsto> O_NONBLOCK)" "epfd k' = epfd k"
  using assms(2) unfolding k'_def
  by (auto simp: addfd_def setnonblocking_def epoll_add_def accept_def fcntl_setfl_def fcntl_getfl_def Let_def)

lemma accepted_kernel:
  fixes S :: server and fd :: fd and m :: int
  defines "k' \<equiv> addfd (epfd (kern (glob S))) fd True m (accept fd (kern (glob S)))"
  assumes "fds_ok S" "fresh_fd S fd"
  shows "\<exists>ev. interest k' = (interest (kern (glob S)))(fd \<mapsto> ev)" "fdflags k' = (fdflags (kern (glob S)))(fd \<mapsto> O_NONBLOCK)"
    "epfd k' = epfd (kern (glob S))"
proof -
  have "fd \<noteq> epfd (kern (glob S))" using assms by (auto simp: fresh_fd_def fds_ok_def Let_def)
  from accept_addfd [OF this, of m]
  show "\<exists>ev. interest k' = (interest (kern (glob S)))(fd \<mapsto> ev)" "fdflags k' = (fdflags (kern (glob S)))(fd \<mapsto> O_NONBLOCK)"
    "epfd k' = epfd (kern (glob S))" unfolding k'_def by blast+
qed

text \<open>The server after a new descriptor is registered and entered in the tables.\<close>

lemma fds_ok_accepted:
  assumes "fds_ok S" "fresh_fd S fd"
    and S': "kern (glob S') = addfd (epfd (kern (glob S))) fd True m (accept fd (kern (glob S)))"
      "m_user_count (glob S') = m_user_count (glob S) + 1" "m_epollfd (glob S') = m_epollfd (glob S)" "u_epollfd S' = u_epollfd S"
      "users_timer S' = (users_timer S)(fd := c)" "cd_sockfd c = fd" "m_listenfd S' = m_listenfd S" "m_pipefd S' = m_pipefd S"
  shows "fds_ok S'" "connected S' = insert fd (connected S)"
proof -
  obtain ev where k: "interest (kern (glob S')) = (interest (kern (glob S)))(fd \<mapsto> ev)"
     "fdflags (kern (glob S')) = (fdflags (kern (glob S)))(fd \<mapsto> O_NONBLOCK)" "epfd (kern (glob S')) = epfd (kern (glob S))"
    using accepted_kernel [OF assms(1,2), of m] unfolding S'(1) by blast
  have n: "fd \<noteq> epfd (kern (glob S))" "fd \<noteq> m_listenfd S" "fd \<noteq> fst (m_pipefd S)" "fd \<notin> connected S"
    using assms(1,2) fresh_fd_not_connected [OF assms(1,2)] by (auto simp: fresh_fd_def fds_ok_def Let_def)
  show c: "connected S' = insert fd (connected S)" using n unfolding connected_def k(1) S'(7,8) by auto
  show "fds_ok S'" using assms(1,2) n k
    unfolding fds_ok_def c Let_def S'(2-8) by (auto simp: fresh_fd_def S'(6))
qed

text \<open>What \<open>timer\<close> leaves behind for a descriptor that was just accepted, whatever else the tables hold.\<close>

lemma timer_runs:
  assumes "creds_ok S" "0 \<le> fd" "fd < MAX_FD" "insert_timer a (now + 3 * TIMESLOT) fd (m_timer_lst S) = Inr l"
  shows "\<exists>h'. timer now a fd addr (set_kern (accept fd) S) = Inr (S\<lparr>conns := (conns S)(fd := h'),
       glob := (glob S)\<lparr>kern := addfd (m_epollfd (glob S)) fd True (m_TRIGMode (conns S fd)) (accept fd (kern (glob S))),
         m_user_count := m_user_count (glob S) + 1\<rparr>,
       users_timer := (users_timer S)(fd := \<lparr>cd_address = addr, cd_sockfd = fd, cd_timer = Some a\<rparr>), m_timer_lst := l\<rparr>) \<and>
     length (sql_user h') = 100 \<and> length (sql_passwd h') = 100 \<and> length (sql_name h') = 100 \<and> m_sokcfd h' = fd"
proof -
  let ?h = "conns S fd" and ?S0 = "set_kern (accept fd) S"
  obtain h' where h': "init fd addr (m_root S) (m_COUNTrigmode S) (ws_close_log S) (ws_user S) (ws_passwd S) (ws_dbname S) ?h (glob ?S0) =
       Inr (h', (glob S)\<lparr>kern := addfd (m_epollfd (glob S)) fd True (m_TRIGMode ?h) (accept fd (kern (glob S))), m_user_count := m_user_count (glob S) + 1\<rparr>)"
      "length (sql_user h') = 100" "length (sql_passwd h') = 100" "length (sql_name h') = 100" "m_sokcfd h' = fd"
    using init_ok [of "ws_user S" ?h "ws_passwd S" "ws_dbname S" fd addr "m_root S" "m_COUNTrigmode S" "ws_close_log S" "glob ?S0"] assms(1)
    by (auto simp: creds_ok_def set_kern_def)
  then show ?thesis using assms(2-4) by (intro exI [of _ h']) (simp add: timer_def set_kern_def Let_def)
qed

lemma timer_result:
  assumes "fds_ok S" "creds_ok S" "fresh_fd S fd" "insert_timer a (now + 3 * TIMESLOT) fd (m_timer_lst S) = Inr l"
  shows "\<exists>S'. timer now a fd addr (set_kern (accept fd) S) = Inr S' \<and> fds_ok S' \<and> creds_ok S' \<and> connected S' = insert fd (connected S) \<and>
     m_timer_lst S' = l \<and> users_timer S' = (users_timer S)(fd := \<lparr>cd_address = addr, cd_sockfd = fd, cd_timer = Some a\<rparr>) \<and>
     fdflags (kern (glob S')) = (fdflags (kern (glob S)))(fd \<mapsto> O_NONBLOCK) \<and> m_LISTENTrigmode S' = m_LISTENTrigmode S \<and> m_sokcfd (conns S' fd) = fd"
proof -
  have f: "m_epollfd (glob S) = epfd (kern (glob S))" "0 \<le> fd" "fd < MAX_FD"
    using assms(1,3) by (auto simp: fds_ok_def fresh_fd_def Let_def)
  let ?c = "\<lparr>cd_address = addr, cd_sockfd = fd, cd_timer = Some a\<rparr>" and ?m = "m_TRIGMode (conns S fd)"
  let ?S1 = "\<lambda>h'. S\<lparr>conns := (conns S)(fd := h'), glob := (glob S)\<lparr>kern := addfd (epfd (kern (glob S))) fd True ?m (accept fd (kern (glob S))),
      m_user_count := m_user_count (glob S) + 1\<rparr>, users_timer := (users_timer S)(fd := ?c), m_timer_lst := l\<rparr>"
  obtain h' where h': "timer now a fd addr (set_kern (accept fd) S) = Inr (?S1 h')"
      "length (sql_user h') = 100" "length (sql_passwd h') = 100" "length (sql_name h') = 100" "m_sokcfd h' = fd"
    using timer_runs [OF assms(2) f(2,3) assms(4), of addr] unfolding f(1) by blast
  have "fds_ok (?S1 h')" "connected (?S1 h') = insert fd (connected S)"
    using fds_ok_accepted [OF assms(1,3), of "?S1 h'" ?m ?c] by simp_all
  moreover have "creds_ok (?S1 h')" using assms(2) h'(2-4) by (auto simp: creds_ok_def)
  ultimately show ?thesis
    using h'(1,5) accepted_kernel(2) [OF assms(1,3)] by (intro exI [of _ "?S1 h'"]) simp
qed

lemma timer_ok:
  assumes "server_ok S now" "fresh_fd S fd" "a \<notin> dom (heap (m_timer_lst S))"
  shows "\<exists>S'. timer now a fd addr (set_kern (accept fd) S) = Inr S' \<and> server_ok S' now \<and> connected S' = insert fd (connected S) \<and>
     fdflags (kern (glob S')) = (fdflags (kern (glob S)))(fd \<mapsto> O_NONBLOCK) \<and> dom (heap (m_timer_lst S')) = insert a (dom (heap (m_timer_lst S))) \<and>
     cd_timer (users_timer S' fd) = Some a \<and> expiry S' fd = now + 3 * TIMESLOT \<and> m_LISTENTrigmode S' = m_LISTENTrigmode S \<and> m_sokcfd (conns S' fd) = fd"
proof -
  have f: "fds_ok S" "creds_ok S" using assms(1) by (auto simp: server_ok_def)
  have n: "fd \<notin> connected S" using fresh_fd_not_connected [OF f(1) assms(2)] by simp
  obtain l where l: "insert_timer a (now + 3 * TIMESLOT) fd (m_timer_lst S) = Inr l"
     "owns in_order (\<lambda>s. exp_at (heap s)) (\<lambda>s. user_at (heap s)) l ((\<lambda>fd. cd_timer (users_timer S fd))(fd := Some a)) (insert fd (connected S)) (now + 3 * TIMESLOT)"
     "dom (heap l) = insert a (dom (heap (m_timer_lst S)))" "exp_at (heap l) = (exp_at (heap (m_timer_lst S)))(a := now + 3 * TIMESLOT)"
    using server_timers.owns_insert [OF _ assms(3) n, of "\<lambda>fd. cd_timer (users_timer S fd)" "now + 3 * TIMESLOT" "now + 3 * TIMESLOT"] assms(1)
    unfolding server_ok_def timers_ok_def by auto
  obtain S' where S': "timer now a fd addr (set_kern (accept fd) S) = Inr S'" "fds_ok S'" "creds_ok S'" "connected S' = insert fd (connected S)"
      "m_timer_lst S' = l" "users_timer S' = (users_timer S)(fd := \<lparr>cd_address = addr, cd_sockfd = fd, cd_timer = Some a\<rparr>)"
      "fdflags (kern (glob S')) = (fdflags (kern (glob S)))(fd \<mapsto> O_NONBLOCK)" "m_LISTENTrigmode S' = m_LISTENTrigmode S" "m_sokcfd (conns S' fd) = fd"
    using timer_result [OF f assms(2) l(1), of addr] by blast
  have "(\<lambda>x. cd_timer (users_timer S' x)) = (\<lambda>fd. cd_timer (users_timer S fd))(fd := Some a)" by (auto simp: S'(6))
  then have "timers_ok S' (now + 3 * TIMESLOT)" using l(2) S'(4,5) by (simp add: timers_ok_def)
  with S' l(3,4) show ?thesis by (intro exI [of _ S']) (simp add: server_ok_def)
qed

text \<open>
  A client that is refused because the tables are full is told so and its descriptor is closed again.
\<close>

definition fresh_accept :: "server \<Rightarrow> accept_result \<Rightarrow> bool" where
  "fresh_accept S r = (case r of Accept_Error _ \<Rightarrow> True | Accepted fd addr a \<Rightarrow> fresh_fd S fd \<and> a \<notin> dom (heap (m_timer_lst S)))"

lemma refused_ok:
  assumes "server_ok S now" "fresh_fd S fd"
  shows "server_ok (set_kern (show_error fd msg) (set_kern (accept fd) S)) now"
    "connected (set_kern (show_error fd msg) (set_kern (accept fd) S)) = connected S"
proof -
  let ?S = "set_kern (show_error fd msg) (set_kern (accept fd) S)"
  have f: "fds_ok S" using assms(1) by (simp add: server_ok_def)
  have k: "interest (kern (glob ?S)) = interest (kern (glob S))" "fdflags (kern (glob ?S)) = fdflags (kern (glob S))"
    "epfd (kern (glob ?S)) = epfd (kern (glob S))"
    using fresh_fd_not_connected [OF f assms(2)] assms(2)
    by (auto simp: show_error_def accept_def send_def fresh_fd_def fun_eq_iff)
  show c: "connected ?S = connected S" unfolding connected_def k by (simp add: set_kern_def)
  have "fds_ok ?S" using f unfolding fds_ok_def c k Let_def by (simp add: set_kern_def)
  then show "server_ok ?S now" using assms(1) by (simp add: server_ok_def timers_ok_def c)
qed

lemma take_client_ok:
  assumes "server_ok S now" "fresh_accept S r"
  shows "\<exists>ok S'. take_client now r S = Inr (ok, S') \<and> server_ok S' now \<and>
     (case r of Accept_Error _ \<Rightarrow> \<not> ok \<and> connected S' = connected S
      | Accepted fd addr a \<Rightarrow>
          if m_user_count (glob S) \<ge> MAX_FD then \<not> ok \<and> connected S' = connected S
          else ok \<and> connected S' = insert fd (connected S) \<and> expiry S' fd = now + 3 * TIMESLOT \<and> m_sokcfd (conns S' fd) = fd \<and>
            fdflags (kern (glob S')) = (fdflags (kern (glob S)))(fd \<mapsto> O_NONBLOCK) \<and>
            dom (heap (m_timer_lst S')) = insert a (dom (heap (m_timer_lst S))))"
proof (cases r)
  case (Accept_Error e)
  then show ?thesis using assms(1) by (auto simp: take_client_def server_ok_def)
next
  case (Accepted fd addr a)
  then have fr: "fresh_fd S fd" "a \<notin> dom (heap (m_timer_lst S))" using assms(2) by (simp_all add: fresh_accept_def)
  show ?thesis
  proof (cases "m_user_count (glob S) \<ge> MAX_FD")
    case True
    then show ?thesis using Accepted refused_ok [OF assms(1) fr(1)]
      by (auto simp: take_client_def Let_def server_ok_def)
  next
    case False
    from timer_ok [OF assms(1) fr, of addr] obtain S' where
      "timer now a fd addr (set_kern (accept fd) S) = Inr S'" "server_ok S' now" "connected S' = insert fd (connected S)"
      "fdflags (kern (glob S')) = (fdflags (kern (glob S)))(fd \<mapsto> O_NONBLOCK)" "dom (heap (m_timer_lst S')) = insert a (dom (heap (m_timer_lst S)))"
      "expiry S' fd = now + 3 * TIMESLOT" "m_sokcfd (conns S' fd) = fd" by blast
    then show ?thesis using Accepted False by (auto simp: take_client_def Let_def)
  qed
qed

text \<open>A queue of pending connections: all descriptors and addresses are new and differ.\<close>

fun fresh_accepts :: "server \<Rightarrow> accept_result list \<Rightarrow> bool" where
  "fresh_accepts S [] \<longleftrightarrow> False"
| "fresh_accepts S (Accept_Error e # rs) \<longleftrightarrow> True"
| "fresh_accepts S (Accepted fd addr a # rs) \<longleftrightarrow> fresh_accept S (Accepted fd addr a) \<and>
     (\<forall>fd' addr' a'. Accepted fd' addr' a' \<in> set rs \<longrightarrow> fd' \<noteq> fd \<and> a' \<noteq> a) \<and> fresh_accepts S rs"

lemma fresh_accepts_mono:
  assumes "fresh_accepts S rs" "\<And>fd addr a. Accepted fd addr a \<in> set rs \<Longrightarrow> fresh_accept S (Accepted fd addr a) \<Longrightarrow> fresh_accept S' (Accepted fd addr a)"
  shows "fresh_accepts S' rs"
  using assms by (induction S rs rule: fresh_accepts.induct) auto

lemma accept_loop_ok:
  "server_ok S now \<Longrightarrow> fresh_accepts S rs \<Longrightarrow>
     \<exists>S'. accept_loop now rs S = Inr S' \<and> server_ok S' now \<and> connected S \<subseteq> connected S'"
proof (induction rs arbitrary: S)
  case (Cons r rs)
  have fr: "fresh_accept S r" using Cons.prems(2) by (cases r) (auto simp: fresh_accept_def)
  obtain ok S1 where S1: "take_client now r S = Inr (ok, S1)" "server_ok S1 now" and
    c: "case r of Accept_Error _ \<Rightarrow> \<not> ok \<and> connected S1 = connected S
      | Accepted fd addr a \<Rightarrow>
          if m_user_count (glob S) \<ge> MAX_FD then \<not> ok \<and> connected S1 = connected S
          else ok \<and> connected S1 = insert fd (connected S) \<and> expiry S1 fd = now + 3 * TIMESLOT \<and> m_sokcfd (conns S1 fd) = fd \<and>
            fdflags (kern (glob S1)) = (fdflags (kern (glob S)))(fd \<mapsto> O_NONBLOCK) \<and>
            dom (heap (m_timer_lst S1)) = insert a (dom (heap (m_timer_lst S)))"
    using take_client_ok [OF Cons.prems(1) fr] by blast
  show ?case
  proof (cases ok)
    case False
    then have "connected S1 = connected S" using c by (cases r) (auto split: if_splits)
    then show ?thesis using S1 False by simp
  next
    case True
    obtain fd addr a where r: "r = Accepted fd addr a" using True c by (cases r) auto
    have k: "connected S1 = insert fd (connected S)" "fdflags (kern (glob S1)) = (fdflags (kern (glob S)))(fd \<mapsto> O_NONBLOCK)"
      "dom (heap (m_timer_lst S1)) = insert a (dom (heap (m_timer_lst S)))" using c True by (auto simp: r split: if_splits)
    have "fresh_accepts S1 rs"
      using Cons.prems(2) unfolding r
      by (auto intro!: fresh_accepts_mono [of S rs] simp: fresh_accept_def fresh_fd_def k)
    from Cons.IH [OF S1(2) this] show ?thesis using S1(1) True k(1) by auto
  qed
qed simp

lemma dealclientdata_ok:
  assumes "server_ok S now" "fresh_accepts S rs"
  shows "\<exists>b S'. dealclientdata now rs S = Inr (b, S') \<and> server_ok S' now \<and> connected S \<subseteq> connected S'"
proof (cases "0 = m_LISTENTrigmode S")
  case True
  obtain r rs' where rs: "rs = r # rs'" using assms(2) by (cases rs) auto
  then have "fresh_accept S r" using assms(2) by (cases r) (auto simp: fresh_accept_def)
  from take_client_ok [OF assms(1) this] show ?thesis
    using True rs by (cases r) (auto simp: dealclientdata_def split: if_splits)
next
  case False
  then show ?thesis using accept_loop_ok [OF assms] by (auto simp: dealclientdata_def)
qed

section \<open>Activity on a connection\<close>

lemma ws_adjust_timer_ok:
  assumes "server_ok S now" "fd \<in> connected S"
  shows "\<exists>a S'. cd_timer (users_timer S fd) = Some a \<and> ws_adjust_timer now (Some a) S = Inr S' \<and> server_ok S' now \<and>
     connected S' = connected S \<and> expiry S' fd = now + 3 * TIMESLOT \<and> m_pool S' = m_pool S \<and> conns S' = conns S"
proof -
  obtain a l where a: "cd_timer (users_timer S fd) = Some a" "postpone_timer a (now + 3 * TIMESLOT) (m_timer_lst S) = Inr l"
      "owns in_order (\<lambda>s. exp_at (heap s)) (\<lambda>s. user_at (heap s)) l (\<lambda>fd. cd_timer (users_timer S fd)) (connected S) (now + 3 * TIMESLOT)"
      "exp_at (heap l) = (exp_at (heap (m_timer_lst S)))(a := now + 3 * TIMESLOT)"
    using server_timers.owns_postpone [of "m_timer_lst S" "\<lambda>fd. cd_timer (users_timer S fd)" "connected S" "now + 3 * TIMESLOT" fd] assms
    unfolding server_ok_def timers_ok_def by blast
  let ?S = "log_srv 1 ''adjust timer once'' (S\<lparr>m_timer_lst := l\<rparr>)"
  have "ws_adjust_timer now (Some a) S = Inr ?S" using a(2) by (simp add: ws_adjust_timer_def)
  moreover have "server_ok ?S now" using assms(1) a(3) by (simp add: server_ok_def timers_ok_def)
  moreover have "m_pool ?S = m_pool S" "conns ?S = conns S" by (simp_all add: log_srv_def)
  ultimately show ?thesis using a(1,4) by (intro exI [of _ a] exI [of _ ?S]) simp
qed

text \<open>Reading changes the buffer and its fill, nothing else of the connection.\<close>

definition only_read :: "http_conn \<Rightarrow> http_conn \<Rightarrow> bool" where
  "only_read h h' \<longleftrightarrow> (\<exists>b i. h' = h\<lparr>m_read_buf := b, m_read_idx := i\<rparr>)"

lemma recv_into_frame: "recv_into r h = Inr (n, h') \<Longrightarrow> only_read h (h'\<lparr>m_read_idx := i\<rparr>)"
  by (cases "recv r (nat (int READ_BUFFER_SIZE - m_read_idx h))"; cases "write_at (m_read_buf h) (m_read_idx h) (snd (recv r (nat (int READ_BUFFER_SIZE - m_read_idx h))))")
     (auto simp: recv_into_def only_read_def)

lemma only_read_idx: "only_read h h' \<Longrightarrow> only_read h' h'' \<Longrightarrow> only_read h h''"
  unfolding only_read_def by (elim exE) (simp, blast)

lemma recv_into_frame0: "recv_into r h = Inr (n, h') \<Longrightarrow> only_read h h'"
  using recv_into_frame [of r h n h' "m_read_idx h'"] by simp

lemma read_loop_frame: "read_loop net h = Inr (ok, h') \<Longrightarrow> only_read h h'"
proof (induction net arbitrary: h)
  case (Cons r net)
  obtain n h1 where h1: "recv_into r h = Inr (n, h1)" using Cons.prems by (cases "recv_into r h") auto
  show ?case
  proof (cases "n = -1 \<or> n = 0")
    case True
    then have "h' = h1" using Cons.prems h1 by (auto split: if_splits)
    with recv_into_frame0 [OF h1] show ?thesis by simp
  next
    case False
    then have "read_loop net (h1\<lparr>m_read_idx := m_read_idx h1 + n\<rparr>) = Inr (ok, h')" using Cons.prems h1 by simp
    from Cons.IH [OF this] recv_into_frame [OF h1] only_read_idx show ?thesis by blast
  qed
qed simp

lemma only_read_refl: "only_read h h"
  unfolding only_read_def by (intro exI [of _ "m_read_buf h"] exI [of _ "m_read_idx h"]) simp

lemma read_once_frame:
  assumes "read_once net h = Inr (ok, h')"
  shows "only_read h h'"
proof (cases "m_read_idx h \<ge> int READ_BUFFER_SIZE \<or> 0 \<noteq> m_TRIGMode h")
  case True
  then show ?thesis using assms read_loop_frame [of net h ok h'] only_read_refl by (auto simp: read_once_def split: if_splits)
next
  case False
  then obtain r rs where net: "net = r # rs" using assms by (cases net) (auto simp: read_once_def)
  then obtain n h1 where h1: "recv_into r h = Inr (n, h1)" using assms False by (cases "recv_into r h") (auto simp: read_once_def)
  then have "h' = h1\<lparr>m_read_idx := m_read_idx h1 + n\<rparr>" using assms False net by (simp add: read_once_def Let_def)
  then show ?thesis using recv_into_frame [OF h1] by simp
qed

lemma append_p_result:
  assumes "tp_invar p"
  shows "\<exists>b p'. append_p t x p = Inr (b, p') \<and> tp_invar p' \<and> m_workqueue p' =
     (if int (length (m_workqueue p)) < m_max_requests p then m_workqueue p @ [x] else m_workqueue p)"
  using append_p_room [OF assms, of t x] append_p_full [OF assms, of t x] assms
  by (cases "int (length (m_workqueue p)) < m_max_requests p") (auto simp: tp_invar_def)

lemma dealwithread_ok:
  assumes "server_ok S now" "fd \<in> connected S" "m_actormodel S \<noteq> 1" "read_once net (conns S fd) = Inr (ok, h')"
    and "m_pool S = Some p" "tp_invar p"
  shows "\<exists>S'. dealwithread fs query now t net ios fd S = Inr S' \<and> server_ok S' now \<and> conns S' fd = h' \<and>
     connected S' = (if ok then connected S else connected S - {fd}) \<and>
     (ok \<longrightarrow> expiry S' fd = now + 3 * TIMESLOT \<and>
        (\<exists>p'. m_pool S' = Some p' \<and> tp_invar p' \<and> m_workqueue p' =
          (if int (length (m_workqueue p)) < m_max_requests p then m_workqueue p @ [Some fd] else m_workqueue p)))"
proof -
  have iv: "0 \<le> fd" "fd < MAX_FD" using assms(1,2) by (auto simp: server_ok_def fds_ok_def Let_def)
  let ?tm = "cd_timer (users_timer S fd)" and ?S1 = "S\<lparr>conns := (conns S)(fd := h')\<rparr>"
  have h': "length (sql_user h') = length (sql_user (conns S fd))" "length (sql_passwd h') = length (sql_passwd (conns S fd))"
    "length (sql_name h') = length (sql_name (conns S fd))" using read_once_frame [OF assms(4)] by (auto simp: only_read_def)
  have c1: "connected ?S1 = connected S" by (simp add: connected_def)
  have s1: "server_ok ?S1 now"
    using assms(1) h' c1 by (simp add: server_ok_def fds_ok_def creds_ok_def timers_ok_def Let_def)
  show ?thesis
  proof (cases ok)
    case False
    obtain S' where "deal_timer ?tm fd ?S1 = Inr S'" "server_ok S' now" "connected S' = connected S - {fd}" "conns S' fd = h'"
      using deal_timer_ok [OF s1, of fd] assms(2) c1 by auto
    then show ?thesis using False assms(3,4) iv by (simp add: dealwithread_def Let_def)
  next
    case True
    obtain b p' where p': "append_p t (Some fd) p = Inr (b, p')" "tp_invar p'" "m_workqueue p' =
          (if int (length (m_workqueue p)) < m_max_requests p then m_workqueue p @ [Some fd] else m_workqueue p)"
      using append_p_result [OF assms(6)] by blast
    let ?S2 = "(log_srv 1 (''deal with the client('' @ get_address h' @ '')'') ?S1)\<lparr>m_pool := Some p'\<rparr>"
    have c2: "connected ?S2 = connected S" using c1 by (simp add: connected_def log_srv_def log_msg_def)
    have "server_ok ?S2 now" using s1 c1 c2
      by (simp add: server_ok_def fds_ok_def creds_ok_def timers_ok_def Let_def log_srv_def log_msg_def)
    from ws_adjust_timer_ok [OF this, of fd] assms(2) c2
    obtain a S' where S': "?tm = Some a" "ws_adjust_timer now (Some a) ?S2 = Inr S'" "server_ok S' now" "connected S' = connected S"
      "expiry S' fd = now + 3 * TIMESLOT" "m_pool S' = Some p'" "conns S' fd = h'" by (auto simp: log_srv_def)
    have "m_pool (log_srv l m X) = m_pool X" for l m X by (simp add: log_srv_def)
    then have "dealwithread fs query now t net ios fd S = Inr S'"
      using True assms(3-5) iv S'(1,2) p'(1) by (simp add: dealwithread_def Let_def)
    then show ?thesis using True S' p' by auto
  qed
qed

end
