(* ===== verification/Webserver_Props.thy ===== *)
theory Webserver_Props
  imports Webserver_Timers
begin

text \<open>
  The main thread of the server as a transition system: its steps are the handling of one event that
  \<open>epoll_wait\<close> may report in the current state, the run of the timers, and the passing of time. In
  every reachable state the connections and their timers agree and no handler faults. Then what
  goes wrong when the worker threads come in: timers that outlive their connection, and
  a request that the full queue refuses.
\<close>

section \<open>The main thread\<close>

text \<open>
  An event the kernel can report: a pending connection, a byte in the signal pipe, or activity on a
  registered connection. In the proactor model the connection is read at once, and its socket gives some
  outcome; writing is left out, because \<open>write\<close> returns no value.
\<close>

definition valid_event :: "server \<Rightarrow> event \<Rightarrow> bool" where
  "valid_event S e = (case e of (fd, ev, io) \<Rightarrow>
     if fd = m_listenfd S then fresh_accepts S (ev_accepts io)
     else if fd = fst (m_pipefd S) then ev = EPOLLIN
     else fd \<in> connected S \<and>
       (ev AND (EPOLLRDHUP OR EPOLLHUP OR EPOLLERR) = 0 \<longrightarrow>
          ev AND EPOLLIN \<noteq> 0 \<and> m_actormodel S \<noteq> 1 \<and> (\<exists>p. m_pool S = Some p \<and> tp_invar p) \<and>
          (\<exists>ok h'. read_once (ev_net io) (conns S fd) = Inr (ok, h'))))"

inductive main_step :: "server \<times> int \<Rightarrow> server \<times> int \<Rightarrow> bool" where
  event: "valid_event S e \<Longrightarrow> handle_event fs query now t e timeout stop S = Inr (timeout', stop', S') \<Longrightarrow>
     main_step (S, now) (S', now)"
| tick: "end_round now timeout S = Inr S' \<Longrightarrow> main_step (S, now) (S', now)"
| clock: "now \<le> now' \<Longrightarrow> main_step (S, now) (S, now')"

definition main_start :: "server \<times> int \<Rightarrow> bool" where
  "main_start sn \<longleftrightarrow> server_ok (fst sn) (snd sn) \<and> connected (fst sn) = {}"

definition main_invar :: "server \<times> int \<Rightarrow> bool" where
  "main_invar sn \<longleftrightarrow> server_ok (fst sn) (snd sn)"

lemma pipe_event_bits: "EPOLLIN AND (EPOLLRDHUP OR EPOLLHUP OR EPOLLERR) = 0" "EPOLLIN AND EPOLLIN \<noteq> 0"
  by (simp_all add: epoll_consts)

lemma handle_event_ok:
  assumes "server_ok S now" "valid_event S e"
  shows "\<exists>timeout' stop' S'. handle_event fs query now t e timeout stop S = Inr (timeout', stop', S') \<and> server_ok S' now"
proof -
  obtain fd ev io where e: "e = (fd, ev, io)" by (cases e)
  consider (listen) "fd = m_listenfd S" | (pipe) "fd \<noteq> m_listenfd S" "fd = fst (m_pipefd S)"
    | (hangup) "fd \<noteq> m_listenfd S" "fd \<noteq> fst (m_pipefd S)" "ev AND (EPOLLRDHUP OR EPOLLHUP OR EPOLLERR) \<noteq> 0"
    | (input) "fd \<noteq> m_listenfd S" "fd \<noteq> fst (m_pipefd S)" "ev AND (EPOLLRDHUP OR EPOLLHUP OR EPOLLERR) = 0" by blast
  then show ?thesis
  proof cases
    case listen
    then have "fresh_accepts S (ev_accepts io)" using assms(2) by (simp add: valid_event_def e)
    from dealclientdata_ok [OF assms(1) this] listen show ?thesis by (auto simp: handle_event_def e)
  next
    case pipe
    then have ev: "ev = EPOLLIN" using assms(2) by (simp add: valid_event_def e)
    obtain flag t' s' where d: "dealwithsignal (ev_pipe io) timeout stop = (flag, t', s')" by (metis prod_cases3)
    have "server_ok (if flag then S else log_srv 3 ''dealclientdata failure'' S) now" using assms(1) by (simp add: server_ok_def)
    then show ?thesis using pipe pipe_event_bits by (simp add: handle_event_def e ev d)
  next
    case hangup
    then have c: "fd \<in> connected S" using assms(2) by (simp add: valid_event_def e)
    then have "0 \<le> fd" "fd < MAX_FD" using assms(1) by (auto simp: server_ok_def fds_ok_def Let_def)
    with deal_timer_ok [OF assms(1) c] hangup show ?thesis by (auto simp: handle_event_def e)
  next
    case input
    then obtain p ok h' where i: "fd \<in> connected S" "ev AND EPOLLIN \<noteq> 0" "m_actormodel S \<noteq> 1" "m_pool S = Some p" "tp_invar p"
        "read_once (ev_net io) (conns S fd) = Inr (ok, h')" using assms(2) by (auto simp: valid_event_def e)
    obtain S' where "dealwithread fs query now t (ev_net io) (ev_workers io) fd S = Inr S'" "server_ok S' now"
      using dealwithread_ok [OF assms(1) i(1,3,6,4,5)] by blast
    then show ?thesis using input i(2) by (simp add: handle_event_def e)
  qed
qed

lemma end_round_ok:
  assumes "server_ok S now"
  shows "\<exists>S'. end_round now timeout S = Inr S' \<and> server_ok S' now"
  using timer_handler_ok [OF assms] assms by (cases timeout) (auto simp: end_round_def server_ok_def)

lemma main_step_invar: "main_step s s' \<Longrightarrow> main_invar s \<Longrightarrow> main_invar s'"
proof (induction rule: main_step.induct)
  case (event S e fs query now t timeout stop timeout' stop' S')
  then show ?case using handle_event_ok [of S now e fs query t timeout stop] by (auto simp: main_invar_def)
next
  case (tick now timeout S S')
  then show ?case using end_round_ok [of S now timeout] by (auto simp: main_invar_def)
next
  case (clock now now' S)
  then show ?case using server_ok_later by (auto simp: main_invar_def)
qed

interpretation main_thread: invariant_system main_start main_step main_invar
  by unfold_locales (auto simp: main_start_def main_invar_def intro: main_step_invar [unfolded main_invar_def])

section \<open>A server that has just started\<close>

definition sample_server :: server where
  "sample_server = \<lparr>ws_port = 9006, m_root = ''/srv/root'', m_log_write = 0, ws_close_log = 1, m_actormodel = 0,
     m_pipefd = (5, 6), ws_epollfd = 3, conns = (\<lambda>_. sample_conn ''/srv/root'' []), ws_connPool = Pool_Instance, ws_user = ''root'',
     ws_passwd = ''123456'', ws_dbname = ''oceanhttp'', m_sql_num = 8, m_pool = Some (sample_tp 8 10), m_thread_num = 8,
     m_listenfd = 4, m_OPT_LINGER = 0, ws_TRIGMode = 0, m_LISTENTrigmode = 0, m_COUNTrigmode = 0,
     users_timer = (\<lambda>_. \<lparr>cd_address = [], cd_sockfd = 0, cd_timer = None\<rparr>), m_timer_lst = sort_timer_lst_ctor Map.empty,
     m_TIMESLOT = 5, u_pipefd = Some (5, 6), u_epollfd = 3,
     glob = \<lparr>kern = \<lparr>fdflags = [3 \<mapsto> 0, 4 \<mapsto> 0, 5 \<mapsto> 0, 6 \<mapsto> 0], epfd = 3, interest = [4 \<mapsto> EPOLLIN, 5 \<mapsto> EPOLLIN],
        sent = (\<lambda>_. []), sigactions = (\<lambda>_. None), alarm_at = None\<rparr>,
       m_epollfd = 3, m_user_count = 0, users = (\<lambda>_. None), m_lock = locker_ctor, log_calls = []\<rparr>,
     the_pool = sample_pool [10, 11], the_log = log_ctor, log_files = (\<lambda>_. None), linger_opt = None, reuse_addr = True\<rparr>"

lemma sample_server_connected: "connected sample_server = {}"
  by (auto simp: connected_def sample_server_def split: if_splits)

lemma sample_server_ok: "server_ok sample_server 100"
proof -
  have "fds_ok sample_server" unfolding fds_ok_def sample_server_connected by (simp add: sample_server_def)
  moreover have "creds_ok sample_server" by (simp add: creds_ok_def sample_server_def sample_conn_def)
  moreover have "in_order (m_timer_lst sample_server) []"
    by (simp add: sample_server_def sort_timer_lst_ctor_def in_order_def holds_def)
  then have "timers_ok sample_server (100 + 3 * TIMESLOT)"
    unfolding timers_ok_def owns_def sample_server_connected by (intro exI [of _ "[]"]) simp
  ultimately show ?thesis by (simp add: server_ok_def)
qed

lemma sample_server_fresh: "fresh_accept sample_server (Accepted 7 ''1.2.3.4'' 1)"
  by (simp add: fresh_accept_def fresh_fd_def sample_server_def sort_timer_lst_ctor_def MAX_FD_def)

section \<open>Properties\<close>


definition sample_event :: event where
  "sample_event = (4, EPOLLIN,
     \<lparr>ev_accepts = [Accepted 7 ''1.2.3.4'' 1, Accept_Error 11], ev_pipe = Would_Block, ev_net = [], ev_workers = []\<rparr>)"

lemma sample_event_valid: "valid_event sample_server sample_event"
  using sample_server_fresh by (simp add: valid_event_def sample_event_def sample_server_def)




text \<open>
  C20. The run of the timers closes exactly the connections whose timer has expired, keeps the others
  with their timers, and sets the alarm for the next time slot.
\<close>

theorem timer_handler_reaps:
  assumes "server_ok S now"
  shows "\<exists>S'. timer_handler now S = Inr S' \<and> server_ok S' now \<and> connected S' = {fd \<in> connected S. now < expiry S fd} \<and>
     m_user_count (glob S') = int (card {fd \<in> connected S. now < expiry S fd}) \<and>
     alarm_at (kern (glob S')) = (if m_TIMESLOT S = 0 then None else Some (now + m_TIMESLOT S))"
proof -
  from timer_handler_ok [OF assms] obtain S' where S': "timer_handler now S = Inr S'" "server_ok S' now"
    "connected S' = {fd \<in> connected S. now < expiry S fd}"
    "alarm_at (kern (glob S')) = (if m_TIMESLOT S = 0 then None else Some (now + m_TIMESLOT S))" by blast
  moreover have "m_user_count (glob S') = int (card (connected S'))" using S'(2) by (simp add: server_ok_def fds_ok_def Let_def)
  ultimately show ?thesis by auto
qed

theorem timer_handler_reaps_witness:
  "\<exists>S S'. take_client 100 (Accepted 7 ''1.2.3.4'' 1) sample_server = Inr (True, S) \<and> timer_handler 115 S = Inr S' \<and> connected S = {7} \<and> connected S' = {}"
proof -
  have "m_user_count (glob sample_server) < MAX_FD" by (simp add: sample_server_def MAX_FD_def)
  with take_client_ok [OF sample_server_ok sample_server_fresh] obtain S where
    S: "take_client 100 (Accepted 7 ''1.2.3.4'' 1) sample_server = Inr (True, S)" "server_ok S 100" "connected S = {7}" "expiry S 7 = 115"
    by (auto simp: sample_server_connected TIMESLOT_def)
  from timer_handler_reaps [OF server_ok_later [OF S(2)], of 115] S show ?thesis by auto
qed

section \<open>A request that is refused\<close>

lemma run_wait_queue: "ok_r (\<lambda>p'. m_workqueue p' = m_workqueue p) (run_wait intr p)"
  unfolding run_wait_def by (intro ok_intros) (auto simp: ok_r_def)

lemma run_take_queue:
  "ok_r (\<lambda>(r, p'). (r = None \<or> (\<exists>x. r = Some x \<and> m_workqueue p = x # m_workqueue p')) \<and> (r = None \<longrightarrow> m_workqueue p' = m_workqueue p)) (run_take t p)"
  unfolding run_take_def Let_def by (rule ok_bind, cases "m_workqueue p") (auto intro!: ok_intros)

lemma run_round_other:
  assumes "Some fd \<notin> set (m_workqueue p)"
  shows "ok_r (\<lambda>(p', c', g', sp'). Some fd \<notin> set (m_workqueue p') \<and> c' fd = c fd) (run_round fs query net intr t p c g sp)"
  unfolding run_round_def
proof (rule ok_bind_ok [OF run_wait_queue], rule ok_bind_ok [OF run_take_queue], clarify)
  fix p1 r p2
  assume p1: "m_workqueue p1 = m_workqueue p" and r: "r = None \<or> (\<exists>x. r = Some x \<and> m_workqueue p1 = x # m_workqueue p2)"
    "r = None \<longrightarrow> m_workqueue p2 = m_workqueue p1"
  have q: "Some fd \<notin> set (m_workqueue p2)" using r p1 assms by (cases r) auto
  have "r \<noteq> Some (Some fd)" using r(1) p1 assms by auto
  then show "ok_r (\<lambda>(p', c', g', sp'). Some fd \<notin> set (m_workqueue p') \<and> c' fd = c fd)
     (case r of None \<Rightarrow> Inr (p2, c, g, sp) | Some None \<Rightarrow> Inr (p2, c, g, sp)
      | Some (Some fd) \<Rightarrow> bind_r (run_request fs query net intr t (m_actor_model p2) (m_connPool p2) (c fd) g sp) (\<lambda>(h, g, sp). Inr (p2, c(fd := h), g, sp)))"
    using q by (auto split: option.splits intro!: ok_intros)
qed

lemma worker_round_other:
  assumes "m_pool S = Some p" "Some fd \<notin> set (m_workqueue p)"
  shows "ok_r (\<lambda>S'. \<exists>p'. m_pool S' = Some p' \<and> Some fd \<notin> set (m_workqueue p') \<and> conns S' fd = conns S fd) (worker_round fs query io S)"
proof -
  obtain net intr t where io: "io = (net, intr, t)" by (cases io)
  show ?thesis unfolding io worker_round_def using assms(1)
    by (simp, intro ok_bind_ok [OF run_round_other [OF assms(2)]]) (auto intro!: ok_Inr)
qed

lemma await_worker_hangs:
  assumes "m_pool S = Some p" "Some fd \<notin> set (m_workqueue p)" "improv (conns S fd) \<noteq> 1"
  shows "await_worker fs query ios tm fd S \<noteq> Inr S'"
  using assms
proof (induction ios arbitrary: S p)
  case Nil
  then show ?case by (subst await_worker.simps) simp
next
  case (Cons io ios)
  have "await_worker fs query (io # ios) tm fd S = bind_r (worker_round fs query io S) (await_worker fs query ios tm fd)"
    using Cons.prems(3) by (subst await_worker.simps) simp
  moreover have "bind_r (worker_round fs query io S) (await_worker fs query ios tm fd) \<noteq> Inr S'"
  proof (cases "worker_round fs query io S")
    case (Inr S1)
    from ok_rD [OF worker_round_other [OF Cons.prems(1,2)] this] obtain p1 where
      "m_pool S1 = Some p1" "Some fd \<notin> set (m_workqueue p1)" "conns S1 fd = conns S fd" by blast
    with Cons.IH [of S1 p1] Cons.prems(3) Inr show ?thesis by simp
  qed simp
  ultimately show ?case by simp
qed

lemma ws_adjust_frame: "ok_r (\<lambda>S'. m_pool S' = m_pool S \<and> conns S' = conns S) (ws_adjust_timer now tm S)"
  unfolding ws_adjust_timer_def by (intro ok_intros) (simp add: log_srv_def)

text \<open>
  In the reactor model a refused request stops the server. When the queue of the thread pool is full,
  append returns false and the result is ignored: the main thread waits for the worker to set improv,
  but no worker has the request, so whatever the workers do the handler never returns.
\<close>

theorem refused_request_hangs:
  assumes "m_pool S = Some p" "queue_full p" "owner (m_queuelocker p) = None" "Some fd \<notin> set (m_workqueue p)" "improv (conns S fd) \<noteq> 1"
  shows "hand_over fs query now t ios state tm fd S \<noteq> Inr S'"
proof -
  have ap: "append t (Some fd) state c p = Inr (False, c, p)" for c using assms(2,3) by (simp add: append_def)
  have hang: "(case append t (Some fd) state (conns S1) p of Inl e \<Rightarrow> Inl e
       | Inr (ok, c, p) \<Rightarrow> await_worker fs query ios tm fd (S1\<lparr>conns := c, m_pool := Some p\<rparr>)) \<noteq> Inr S'"
    if "m_pool S1 = m_pool S" "conns S1 = conns S" for S1
    using await_worker_hangs [of "S1\<lparr>conns := conns S, m_pool := Some p\<rparr>" p fd fs query ios tm S'] assms that by (simp add: ap)
  have "bind_r (if tm \<noteq> None then ws_adjust_timer now tm S else Inr S) (\<lambda>S1.
     bind_r (of_option Null_Deref (m_pool S1)) (\<lambda>p. bind_r (append t (Some fd) state (conns S1) p) (\<lambda>(ok, c, p).
       await_worker fs query ios tm fd (S1\<lparr>conns := c, m_pool := Some p\<rparr>)))) \<noteq> Inr S'"
  proof (cases "if tm \<noteq> None then ws_adjust_timer now tm S else Inr S")
    case (Inr S1)
    then have "m_pool S1 = m_pool S \<and> conns S1 = conns S"
      using ok_rD [OF ws_adjust_frame, of now tm S S1] by (auto split: if_splits)
    then show ?thesis using hang [of S1] Inr assms(1) by (simp add: ap)
  qed simp
  then show ?thesis by (simp add: hand_over_def)
qed

definition full_pool :: threadpool where
  "full_pool = (sample_tp 8 1)\<lparr>m_workqueue := [Some 9], m_actor_model := 1\<rparr>"

theorem refused_request_hangs_witness:
  "hand_over (\<lambda>_. None) (\<lambda>_ _. 0) 100 0 [([Would_Block], False, 1)] 0 None 7 (sample_server\<lparr>m_pool := Some full_pool\<rparr>) \<noteq> Inr sample_server"
  by (rule refused_request_hangs [of _ full_pool])
    (simp_all add: full_pool_def sample_tp_def queue_full_def locker_ctor_def sample_server_def sample_conn_def)

section \<open>Signals\<close>

fun deliver :: "(fd \<times> fd) option \<Rightarrow> int list \<Rightarrow> kernel \<Rightarrow> kernel result" where
  "deliver u [] k = Inr k"
| "deliver u (sig # sigs) k = bind_r (sig_handler u sig k) (deliver u sigs)"

lemma deliver_sends:
  "fdflags k p1 \<noteq> None \<Longrightarrow> \<exists>k'. deliver (Some (p0, p1)) sigs k = Inr k' \<and>
     sent k' p1 = sent k p1 @ map (\<lambda>s. char_of (nat (s mod 256))) sigs \<and> fdflags k' = fdflags k"
proof (induction sigs arbitrary: k)
  case (Cons sig sigs)
  let ?k = "send p1 [char_of (nat (sig mod 256))] k"
  have "fdflags ?k p1 \<noteq> None" "sent ?k p1 = sent k p1 @ [char_of (nat (sig mod 256))]" "fdflags ?k = fdflags k"
    using Cons.prems by (auto simp: send_def)
  then show ?case using Cons.IH [of ?k] by (auto simp: sig_handler_def)
qed simp

lemma take_signals_map:
  "\<forall>s \<in> set sigs. 0 \<le> s \<and> s < 256 \<Longrightarrow>
     take_signals (map (\<lambda>s. char_of (nat (s mod 256))) sigs) a b = (a \<or> SIGALRM \<in> set sigs, b \<or> SIGTERM \<in> set sigs)"
  by (induction sigs arbitrary: a b) (auto simp: SIGALRM_def SIGTERM_def)

text \<open>
  C33. Signals reach the event loop: after the handler ran for any signals, the bytes in the pipe make
  dealwithsignal set timeout exactly when an alarm was among them and stop_server exactly when a
  termination was, and leave the flags otherwise as they were.
\<close>

theorem signals_reach_loop:
  assumes "fdflags k p1 \<noteq> None" "sent k p1 = []" "sigs \<noteq> []" "length sigs \<le> 1024" "\<forall>s \<in> set sigs. 0 < s \<and> s \<le> 64"
  shows "\<exists>k'. deliver (Some (p0, p1)) sigs k = Inr k' \<and>
     dealwithsignal (Bytes (sent k' p1)) timeout stop = (True, timeout \<or> SIGALRM \<in> set sigs, stop \<or> SIGTERM \<in> set sigs)"
proof -
  obtain k' where k': "deliver (Some (p0, p1)) sigs k = Inr k'" "sent k' p1 = map (\<lambda>s. char_of (nat (s mod 256))) sigs"
    using deliver_sends [OF assms(1)] assms(2) by auto
  have "recv (Bytes (sent k' p1)) 1024 = (int (length sigs), sent k' p1)" using assms(4) by (simp add: recv_def k'(2))
  moreover have "take_signals (sent k' p1) timeout stop = (timeout \<or> SIGALRM \<in> set sigs, stop \<or> SIGTERM \<in> set sigs)"
    unfolding k'(2) using assms(5) by (intro take_signals_map) auto
  ultimately show ?thesis using k'(1) assms(3) by (simp add: dealwithsignal_def)
qed

theorem signals_reach_loop_witness:
  "\<exists>k'. deliver (Some (5, 6)) [14, 13] (kern (glob sample_server)) = Inr k' \<and> dealwithsignal (Bytes (sent k' 6)) False False = (True, True, False)"
proof -
  have "fdflags (kern (glob sample_server)) 6 \<noteq> None" "sent (kern (glob sample_server)) 6 = []" by (simp_all add: sample_server_def)
  from signals_reach_loop [OF this, of "[14, 13]" 5 False False] show ?thesis by (simp add: SIGALRM_def SIGTERM_def)
qed

section \<open>Timers of connections that a worker has closed\<close>

lemma user_count_bound:
  assumes "fds_ok S" "fd \<notin> connected S" "0 \<le> fd" "fd < MAX_FD"
  shows "m_user_count (glob S) < MAX_FD"
proof -
  have "connected S \<subseteq> {0..<MAX_FD} - {fd}" using assms by (fastforce simp: fds_ok_def Let_def)
  then have "card (connected S) \<le> card ({0..<MAX_FD} - {fd})" by (intro card_mono) auto
  also have "\<dots> < nat MAX_FD" using assms(3,4) by simp
  finally show ?thesis using assms(1) by (simp add: fds_ok_def Let_def)
qed

lemma conns_update_simps [simp]:
  "connected (S\<lparr>conns := c\<rparr>) = connected S" "fds_ok (S\<lparr>conns := c\<rparr>) = fds_ok S"
  by (simp_all add: connected_def fds_ok_def Let_def)

text \<open>
  A worker that closes a connection leaves its timer in the list. When the kernel gives the same
  descriptor to the next client, the old timer still stands for it: at its expiry the run of the timers
  closes the new connection, long before the new connection's own timer runs out, and that timer
  stays behind in turn.
\<close>

theorem stale_timer_closes_newcomer:
  assumes "server_ok S now" "fd \<in> connected S" "m_sokcfd (conns S fd) = fd" "a \<notin> dom (heap (m_timer_lst S))"
    and "expiry S fd \<le> now3" "now3 < now2 + 3 * TIMESLOT" "close_conn True (conns S fd) (glob S) = (h', g')"
  shows "\<exists>S2 S3. take_client now2 (Accepted fd addr a) (S\<lparr>conns := (conns S)(fd := h'), glob := g'\<rparr>) = Inr (True, S2) \<and>
     fd \<in> connected S2 \<and> expiry S2 fd = now2 + 3 * TIMESLOT \<and>
     timer_handler now3 S2 = Inr S3 \<and> fd \<notin> connected S3 \<and> heap (m_timer_lst S3) a \<noteq> None"
proof -
  let ?S1 = "S\<lparr>conns := (conns S)(fd := h'), glob := g'\<rparr>"
  have f: "fds_ok S" "creds_ok S" and rng: "\<And>x. x \<in> connected S \<Longrightarrow> 0 \<le> x \<and> x < MAX_FD"
    using assms(1) by (auto simp: server_ok_def fds_ok_def Let_def)
  have h': "h' = (conns S fd)\<lparr>m_sokcfd := -1\<rparr>" "g' = glob (closed_conn fd S)"
    using assms(3,7) f(1) rng [OF assms(2)] by (auto simp: close_conn_def closed_conn_def fds_ok_def Let_def split: if_splits)
  have eq: "?S1 = (closed_conn fd S)\<lparr>conns := (conns S)(fd := h')\<rparr>" unfolding h'(2) by (simp add: closed_conn_def)
  have cr: "creds_ok ?S1" using f(2) by (simp add: creds_ok_def h'(1))
  have S1: "fds_ok ?S1" "connected ?S1 = connected S - {fd}"
    unfolding eq using fds_ok_closed [OF f(1) assms(2)] connected_closed [of fd S] by simp_all
  have fr: "fresh_fd ?S1 fd" using rng [OF assms(2)] unfolding h' by (simp add: fresh_fd_def)
  obtain xs where xs: "in_order (m_timer_lst S) xs" "user_at (heap (m_timer_lst S)) ` set xs = connected S"
    "\<And>b. b \<in> set xs \<Longrightarrow> cd_timer (users_timer S (user_at (heap (m_timer_lst S)) b)) = Some b"
    using assms(1) unfolding server_ok_def timers_ok_def owns_def by blast
  obtain b where b: "b \<in> set xs" "user_at (heap (m_timer_lst S)) b = fd" using xs(2) assms(2) by (metis imageE)
  have bt: "cd_timer (users_timer S fd) = Some b" "b \<noteq> a" using xs(3) [OF b(1)] b in_order_wf [OF xs(1)] assms(4) by auto
  obtain l ys where l: "insert_timer a (now2 + 3 * TIMESLOT) fd (m_timer_lst S) = Inr l" "in_order l ys" "mset ys = add_mset a (mset xs)"
     "exp_at (heap l) = (exp_at (heap (m_timer_lst S)))(a := now2 + 3 * TIMESLOT)" "user_at (heap l) = (user_at (heap (m_timer_lst S)))(a := fd)"
     "dom (heap l) = insert a (dom (heap (m_timer_lst S)))"
    using server_timers.insert_law [OF xs(1) assms(4)] by blast
  have ys: "set ys = insert a (set xs)" using arg_cong [OF l(3), of set_mset] by simp
  obtain S2 where S2: "timer now2 a fd addr (set_kern (accept fd) ?S1) = Inr S2" "connected S2 = insert fd (connected ?S1)"
     "m_timer_lst S2 = l" "users_timer S2 = (users_timer S)(fd := \<lparr>cd_address = addr, cd_sockfd = fd, cd_timer = Some a\<rparr>)"
    using timer_result [OF S1(1) cr fr, of a now2 l addr] l(1) by auto
  have tc: "take_client now2 (Accepted fd addr a) ?S1 = Inr (True, S2)"
    using S2(1) user_count_bound [OF S1(1), of fd] S1(2) rng [OF assms(2)] by (simp add: take_client_def Let_def)
  obtain l3 where l3: "\<And>w. tick cb_func now3 l w = bind_r (run_cbs cb_func (map (user_at (heap l)) (filter (\<lambda>a. exp_at (heap l) a \<le> now3) ys)) w) (\<lambda>w. Inr (l3, w))"
      "dom (heap l3) = dom (heap l) - {a \<in> set ys. exp_at (heap l) a \<le> now3}"
    using server_timers.reap_law [OF l(2), of cb_func now3] by blast
  let ?us = "map (user_at (heap l)) (filter (\<lambda>a. exp_at (heap l) a \<le> now3) ys)"
  let ?S3 = "set_kern (alarm now3 (m_TIMESLOT S2)) ((fold (\<lambda>u. closed_conn (cd_sockfd (users_timer S2 u))) ?us S2)\<lparr>m_timer_lst := l3\<rparr>)"
  have "\<forall>u \<in> set ?us. 0 \<le> u \<and> u < MAX_FD" using xs(2) rng assms(2) by (auto simp: ys l(5))
  from run_cbs_closes [OF this, of S2] have th: "timer_handler now3 S2 = Inr ?S3"
    by (simp only: timer_handler_def S2(3) l3(1) bind_r_Inr prod.case fold_closed_frame)
  have "fd \<in> set ?us" using b bt assms(5) by (auto simp: ys l(4,5) image_iff intro!: bexI [of _ b])
  then have "fd \<in> (\<lambda>u. cd_sockfd (users_timer S2 u)) ` set ?us" by (intro image_eqI [of _ _ fd]) (simp_all add: S2(4))
  moreover have "connected (set_kern (alarm n m) X) = connected X" for n m X by (simp add: connected_def set_kern_def alarm_def)
  ultimately have "fd \<notin> connected ?S3" by (simp only: lst_update_simps fold_closed_frame) blast
  moreover have "heap (m_timer_lst ?S3) a \<noteq> None" using l3(2) l(4,6) assms(6) by (auto simp: dom_def)
  moreover have "fd \<in> connected S2" "expiry S2 fd = now2 + 3 * TIMESLOT" using S2(2-4) l(4) by simp_all
  ultimately show ?thesis using tc th by blast
qed

theorem stale_timer_closes_newcomer_witness:
  "\<exists>S S2 S3. take_client 100 (Accepted 7 ''1.2.3.4'' 1) sample_server = Inr (True, S) \<and>
     take_client 110 (Accepted 7 ''5.6.7.8'' 2) (S\<lparr>conns := (conns S)(7 := fst (close_conn True (conns S 7) (glob S))), glob := snd (close_conn True (conns S 7) (glob S))\<rparr>) = Inr (True, S2) \<and>
     expiry S2 7 = 125 \<and> timer_handler 115 S2 = Inr S3 \<and> 7 \<in> connected S2 \<and> 7 \<notin> connected S3"
proof -
  have cnt: "m_user_count (glob sample_server) < MAX_FD" by (simp add: sample_server_def MAX_FD_def)
  obtain S where S: "take_client 100 (Accepted 7 ''1.2.3.4'' 1) sample_server = Inr (True, S)" "server_ok S 100" "connected S = {7}" "expiry S 7 = 115"
      "dom (heap (m_timer_lst S)) = {1}" "m_sokcfd (conns S 7) = 7"
    using take_client_ok [OF sample_server_ok sample_server_fresh] cnt
    by (auto simp: sample_server_connected TIMESLOT_def) (auto simp: sample_server_def sort_timer_lst_ctor_def)
  obtain h' g' where c: "close_conn True (conns S 7) (glob S) = (h', g')" by (metis surj_pair)
  then show ?thesis
    using stale_timer_closes_newcomer [OF S(2), of 7 2 115 110 h' g' "''5.6.7.8''"] S by (simp add: TIMESLOT_def) blast
qed

end
