(* ===== verification/Server_Main.thy ===== *)
theory Server_Main
  imports Webserver_Props
begin

text \<open>
  The command line of the server, class \<open>config\<close> of \<open>config.h\<close> and \<open>config.cpp\<close>, and \<open>main\<close> of
  \<open>main.cpp\<close>, which starts the components in order and enters the event loop. \<open>getopt\<close> is the one of
  the GNU library without \<open>POSIXLY_CORRECT\<close>: arguments that are no options are passed over.
\<close>

section \<open>config\<close>

record config =
  PORT :: int
  LOGWrite :: int
  TRIGMode :: int
  LISTENTrigmode :: int
  CONNTrigmode :: int
  OPT_LINGER :: int
  sql_num :: int
  thread_num :: int
  close_log :: int
  actor_model :: int

definition config_ctor :: config where
  "config_ctor = \<lparr>PORT = 9006, LOGWrite = 0, TRIGMode = 0, LISTENTrigmode = 0, CONNTrigmode = 0, OPT_LINGER = 0,
     sql_num = 8, thread_num = 8, close_log = 0, actor_model = 0\<rparr>"

text \<open>The letters of the option string, each of which takes an argument.\<close>

definition opt_letters :: string where
  "opt_letters = ''plmostca''"

text \<open>
  The values of successive calls of \<open>getopt\<close> with \<open>optarg\<close>. The first argument is what is left of the element
  that is being scanned. An unknown letter and a missing argument give a question mark.
\<close>

function getopt :: "string \<Rightarrow> string list \<Rightarrow> (char \<times> string) list" where
  "getopt [] [] = []"
| "getopt [] (a # as) =
     (if a = ''--'' then []
      else if 2 \<le> length a \<and> hd a = CHR ''-'' then getopt (tl a) as
      else getopt [] as)"
| "getopt (c # rest) as =
     (if c \<in> set opt_letters then
        (if rest \<noteq> [] then (c, rest) # getopt [] as
         else case as of [] \<Rightarrow> [(CHR ''?'', [])] | v # as' \<Rightarrow> (c, v) # getopt [] as')
      else (CHR ''?'', []) # getopt rest as)"
  by pat_completeness auto
termination
  by (relation "measure (\<lambda>(c, as). length c + sum_list (map (\<lambda>a. length a + 1) as))") auto

text \<open>The case of the letter a has no break and runs into the default, which does nothing.\<close>

definition set_option :: "char \<times> string \<Rightarrow> config \<Rightarrow> config" where
  "set_option ov c = (case ov of (opt, optarg) \<Rightarrow>
     if opt = CHR ''p'' then c\<lparr>PORT := atoi optarg\<rparr>
     else if opt = CHR ''l'' then c\<lparr>LOGWrite := atoi optarg\<rparr>
     else if opt = CHR ''m'' then c\<lparr>TRIGMode := atoi optarg\<rparr>
     else if opt = CHR ''o'' then c\<lparr>OPT_LINGER := atoi optarg\<rparr>
     else if opt = CHR ''s'' then c\<lparr>sql_num := atoi optarg\<rparr>
     else if opt = CHR ''t'' then c\<lparr>thread_num := atoi optarg\<rparr>
     else if opt = CHR ''c'' then c\<lparr>close_log := atoi optarg\<rparr>
     else if opt = CHR ''a'' then c\<lparr>actor_model := atoi optarg\<rparr>
     else c)"

definition parse_arg :: "string list \<Rightarrow> config \<Rightarrow> config" where
  "parse_arg args c = fold set_option (getopt [] args) c"

section \<open>main\<close>

text \<open>What the calls of the start-up give.\<close>

record start_env =
  se_cwd :: "string option"
  se_can_open :: "string \<Rightarrow> bool"
  se_tm :: tm
  se_now :: int
  se_attempt :: "nat \<Rightarrow> bool \<times> nat option"
  se_query :: "nat \<Rightarrow> string \<Rightarrow> int"
  se_store :: "nat \<Rightarrow> row list option"
  se_error :: "nat \<Rightarrow> string"
  se_create :: "nat \<Rightarrow> int"
  se_detach :: "nat \<Rightarrow> int"
  se_pool_memory :: threadpool
  se_sock :: int
  se_epoll :: int
  se_pipe :: "(fd \<times> fd) option"

definition start_up :: "start_env \<Rightarrow> string list \<Rightarrow> server \<Rightarrow> server result" where
  "start_up E args memory =
     (let c = parse_arg args config_ctor in
      bind_r (webserver_ctor (se_cwd E) memory) (\<lambda>S.
      let S = ws_init (PORT c) ''root'' ''123456'' ''oceanhttp'' (LOGWrite c) (OPT_LINGER c) (TRIGMode c) (sql_num c)
                (thread_num c) (close_log c) (actor_model c) S in
      bind_r (log_write (se_can_open E) (se_tm E) S) (\<lambda>S.
      bind_r (sql_pool (se_attempt E) (se_query E) (se_store E) (se_error E) False 0 S) (\<lambda>S.
      bind_r (thread_pool (se_create E) (se_detach E) (se_pool_memory E) S) (\<lambda>S.
      eventListen (se_sock E) (se_epoll E) (se_pipe E) (se_now E) (trig_mode S))))))"

definition server_main :: "start_env \<Rightarrow> (string \<Rightarrow> disk_file option) \<Rightarrow> (int \<times> wait_result) list \<Rightarrow> string list \<Rightarrow> server
    \<Rightarrow> (int \<times> server) result" where
  "server_main E fs waits args memory =
     bind_r (start_up E args memory) (\<lambda>S.
     bind_r (eventLoop fs (se_query E) 0 waits False S) (\<lambda>S. Inr (0, webserver_dtor S)))"

section \<open>The command line\<close>

text \<open>An option with a number, attached to the letter or as the next argument.\<close>

fun render_opt :: "char \<times> int \<times> bool \<Rightarrow> string list" where
  "render_opt (c, n, attached) =
     (if attached then [CHR ''-'' # c # show_int n] else [[CHR ''-'', c], show_int n])"

fun assign :: "char \<times> int \<times> bool \<Rightarrow> config \<Rightarrow> config" where
  "assign (opt, n, attached) c =
     (if opt = CHR ''p'' then c\<lparr>PORT := n\<rparr> else if opt = CHR ''l'' then c\<lparr>LOGWrite := n\<rparr>
      else if opt = CHR ''m'' then c\<lparr>TRIGMode := n\<rparr> else if opt = CHR ''o'' then c\<lparr>OPT_LINGER := n\<rparr>
      else if opt = CHR ''s'' then c\<lparr>sql_num := n\<rparr> else if opt = CHR ''t'' then c\<lparr>thread_num := n\<rparr>
      else if opt = CHR ''c'' then c\<lparr>close_log := n\<rparr> else c\<lparr>actor_model := n\<rparr>)"

lemma atoi_show_int:
  assumes "-2147483648 \<le> n" "n < 2147483648"
  shows "atoi (show_int n) = n"
proof -
  have "atol (show_int n) = n" using assms by (intro atol_show_int) (auto simp: LONG_MAX_def)
  then show ?thesis using assms by (simp add: atoi_def wrap_int32_def)
qed

lemma show_int_not_Nil: "show_int n \<noteq> []"
  using show_nat_digits [of "nat n"] by (auto simp: show_int_def)

lemma dash_letter: "c \<in> set opt_letters \<Longrightarrow> c \<noteq> CHR ''-''"
  by (auto simp: opt_letters_def)

lemma getopt_render:
  assumes "c \<in> set opt_letters"
  shows "getopt [] (render_opt (c, n, attached) @ as) = (c, show_int n) # getopt [] as"
  using assms dash_letter [OF assms] show_int_not_Nil [of n] by simp

lemma set_option_assign:
  assumes "c \<in> set opt_letters" "-2147483648 \<le> n" "n < 2147483648"
  shows "set_option (c, show_int n) cfg = assign (c, n, attached) cfg"
  using assms by (auto simp: set_option_def atoi_show_int opt_letters_def)

text \<open>
  The command line is read back: options printed with their numbers, in any order, repeated or not,
  each attached to its letter or as an argument of its own, set exactly the fields of their letters,
  the last one winning, and leave the other fields alone.
\<close>

theorem parse_arg_roundtrip:
  assumes "\<forall>(c, n, b) \<in> set opts. c \<in> set opt_letters \<and> -2147483648 \<le> n \<and> n < 2147483648"
  shows "parse_arg (concat (map render_opt opts)) cfg = fold assign opts cfg"
proof -
  have "fold set_option (getopt [] (concat (map render_opt opts))) cfg = fold assign opts cfg"
    using assms
  proof (induction opts arbitrary: cfg)
    case (Cons x opts)
    obtain c n b where x: "x = (c, n, b)" by (cases x)
    then have "c \<in> set opt_letters" "-2147483648 \<le> n" "n < 2147483648" using Cons.prems by auto
    then show ?case using Cons by (simp only: x list.map concat.simps getopt_render fold_simps set_option_assign [where attached = b]) simp
  qed simp
  then show ?thesis by (simp add: parse_arg_def)
qed

theorem parse_arg_roundtrip_witness:
  "parse_arg [''-p'', ''81'', ''-a1'', ''-p80''] config_ctor = config_ctor\<lparr>PORT := 80, actor_model := 1\<rparr>"
proof -
  have s: "show_int 81 = ''81''" "show_int 1 = ''1''" "show_int 80 = ''80''" by code_simp+
  have "parse_arg (concat (map render_opt [(CHR ''p'', 81, False), (CHR ''a'', 1, True), (CHR ''p'', 80, True)])) config_ctor =
      fold assign [(CHR ''p'', 81, False), (CHR ''a'', 1, True), (CHR ''p'', 80, True)] config_ctor"
    by (rule parse_arg_roundtrip) (simp add: opt_letters_def)
  then show ?thesis by (simp add: s)
qed

end
