(* ===== verification/Webserver_Workers.thy ===== *)
theory Webserver_Workers
  imports Webserver_Props
begin

text \<open>
  The whole server in the proactor model: the steps of the main thread interleaved with rounds of the worker
  threads, each round being one step. A worker may close a connection whose timer stays in the list, and a
  later client may get the same descriptor, so the invariant of \<open>Webserver_Timers\<close> does not hold. What remains is
  \<open>live_ok\<close>: the timers stand for descriptors that were once accepted, and each connection is found by a timer of the list.
  That is enough for the handlers never to touch freed memory and for idle connections to be closed in time.
\<close>

section \<open>The invariant\<close>

text \<open>The descriptors the server itself needs.\<close>

definition own_fds :: "server \<Rightarrow> fd set" where
  "own_fds S = {m_listenfd S, fst (m_pipefd S), snd (m_pipefd S), epfd (kern (glob S))}"

text \<open>\<open>U\<close> is the set of the descriptors accepted so far.\<close>

definition live_fds :: "server \<Rightarrow> fd set \<Rightarrow> bool" where
  "live_fds S U \<longleftrightarrow> (let k = kern (glob S) in
     finite (connected S) \<and> m_user_count (glob S) \<le> int (card (connected S)) \<and> connected S \<subseteq> U \<and> U \<inter> own_fds S = {} \<and>
     (\<forall>fd \<in> U. 0 \<le> fd \<and> fd < MAX_FD \<and> cd_sockfd (users_timer S fd) = fd \<and> m_sokcfd (conns S fd) \<in> {fd, -1}) \<and>
     u_epollfd S = epfd k \<and> m_epollfd (glob S) = epfd k \<and> interest k (epfd k) = None \<and> interest k (-1) = None \<and>
     (\<forall>fd. interest k fd \<noteq> None \<longrightarrow> fdflags k fd \<noteq> None) \<and> (\<forall>fd \<in> own_fds S. fdflags k fd \<noteq> None))"

definition live_pool :: "server \<Rightarrow> fd set \<Rightarrow> bool" where
  "live_pool S U \<longleftrightarrow> (\<exists>p. m_pool S = Some p \<and> owner (m_queuelocker p) = None \<and> (\<forall>fd. Some fd \<in> set (m_workqueue p) \<longrightarrow> fd \<in> U))"

definition live_timers :: "server \<Rightarrow> fd set \<Rightarrow> int \<Rightarrow> bool" where
  "live_timers S U e \<longleftrightarrow> tracks in_order (\<lambda>s. exp_at (heap s)) (\<lambda>s. user_at (heap s)) (m_timer_lst S)
     (\<lambda>fd. cd_timer (users_timer S fd)) (connected S) U e"

definition live_ok :: "server \<Rightarrow> fd set \<Rightarrow> int \<Rightarrow> bool" where
  "live_ok S U now \<longleftrightarrow> live_fds S U \<and> creds_ok S \<and> live_pool S U \<and> live_timers S U (now + 3 * TIMESLOT)"

lemma live_ok_later: "live_ok S U now \<Longrightarrow> now \<le> now' \<Longrightarrow> live_ok S U now'"
  unfolding live_ok_def live_timers_def using server_timers.tracks_mono by fastforce

lemma live_log [simp]:
  "own_fds (log_srv l m S) = own_fds S" "live_ok (log_srv l m S) U now = live_ok S U now" "m_pool (log_srv l m S) = m_pool S"
  by (simp_all add: live_ok_def live_fds_def live_pool_def live_timers_def own_fds_def log_srv_def log_msg_def connected_def
      creds_ok_def Let_def)

lemma live_rangeD: "live_ok S U now \<Longrightarrow> fd \<in> U \<Longrightarrow> 0 \<le> fd \<and> fd < MAX_FD \<and> cd_sockfd (users_timer S fd) = fd"
  by (auto simp: live_ok_def live_fds_def Let_def)

lemma live_connectedD: "live_ok S U now \<Longrightarrow> fd \<in> connected S \<Longrightarrow> fd \<in> U"
  by (auto simp: live_ok_def live_fds_def Let_def)

section \<open>Closing\<close>

lemma card_Diff_pred: "finite A \<Longrightarrow> n \<le> int (card A) \<Longrightarrow> n - 1 \<le> int (card (A - {x}))"
  by (cases "x \<in> A") (auto simp: card_Diff_singleton_if of_nat_diff dest: card_gt_0_iff [THEN iffD2, rotated])

text \<open>A descriptor leaves the kernel's tables, whether it was still registered or not.\<close>

lemma live_fds_closed:
  assumes "live_fds S U" "fd \<in> U"
  shows "live_fds (closed_conn fd S) U"
proof -
  have "fd \<notin> own_fds S" "m_user_count (glob S) - 1 \<le> int (card (connected S - {fd}))"
    using assms card_Diff_pred [of "connected S"] by (auto simp: live_fds_def Let_def)
  then show ?thesis using assms(1)
    unfolding live_fds_def connected_closed Let_def
    by (auto simp: closed_conn_def removefd_def epoll_del_def own_fds_def)
qed

lemma live_closed_frame [simp]:
  "conns (closed_conn fd S) = conns S" "m_pool (closed_conn fd S) = m_pool S" "live_pool (closed_conn fd S) U = live_pool S U"
  "own_fds (closed_conn fd S) = own_fds S"
  by (simp_all add: closed_conn_def live_pool_def own_fds_def)

lemma live_fds_fold: "live_fds S U \<Longrightarrow> set us \<subseteq> U \<Longrightarrow> live_fds (fold closed_conn us S) U"
  by (induction us arbitrary: S) (simp_all add: live_fds_closed)

lemma live_pool_fold: "live_pool (fold closed_conn us S) U = live_pool S U"
  by (induction us arbitrary: S) simp_all

lemma live_lst_update [simp]: "live_fds (S\<lparr>m_timer_lst := l\<rparr>) U = live_fds S U" "live_pool (S\<lparr>m_timer_lst := l\<rparr>) U = live_pool S U"
  by (simp_all add: live_fds_def live_pool_def own_fds_def connected_def Let_def)

lemma deal_timer_live:
  assumes "live_ok S U now" "fd \<in> connected S"
  shows "\<exists>S'. deal_timer (cd_timer (users_timer S fd)) fd S = Inr S' \<and> live_ok S' U now \<and> connected S' = connected S - {fd}"
proof -
  have U: "fd \<in> U" using live_connectedD [OF assms] .
  note f = live_rangeD [OF assms(1) U]
  obtain a l where a: "cd_timer (users_timer S fd) = Some a" "a \<in> dom (heap (m_timer_lst S))" "remove_timer a (m_timer_lst S) = Inr l"
      "tracks in_order (\<lambda>s. exp_at (heap s)) (\<lambda>s. user_at (heap s)) l (\<lambda>fd. cd_timer (users_timer S fd)) (connected S - {fd}) U (now + 3 * TIMESLOT)"
    using server_timers.tracks_remove [of "m_timer_lst S" "\<lambda>fd. cd_timer (users_timer S fd)" "connected S" U "now + 3 * TIMESLOT" fd] assms
    by (auto simp: live_ok_def live_timers_def)
  let ?S = "log_srv 1 (''close fd '' @ show_int fd) ((closed_conn fd S)\<lparr>m_timer_lst := l\<rparr>)"
  have "deal_timer (cd_timer (users_timer S fd)) fd S = Inr ?S"
    using a(1-3) f by (auto simp: deal_timer_def cb_func_closes Let_def)
  moreover have "live_ok ((closed_conn fd S)\<lparr>m_timer_lst := l\<rparr>) U now"
    using live_fds_closed [OF _ U, of S] a(4) assms(1) by (simp add: live_ok_def live_timers_def connected_closed)
  ultimately show ?thesis by (intro exI [of _ ?S]) (simp add: connected_closed)
qed

lemma alarm_live [simp]:
  "connected (set_kern (alarm n m) S) = connected S" "live_fds (set_kern (alarm n m) S) U = live_fds S U"
  "live_pool (set_kern (alarm n m) S) U = live_pool S U"
  by (simp_all add: set_kern_def alarm_def connected_def live_fds_def live_pool_def own_fds_def Let_def)

lemma timer_handler_live:
  assumes "live_ok S U now"
  shows "\<exists>S'. timer_handler now S = Inr S' \<and> live_ok S' U now \<and> connected S' \<subseteq> {fd \<in> connected S. now < expiry S fd}"
proof -
  obtain l fds where l: "\<And>w. tick cb_func now (m_timer_lst S) w = bind_r (run_cbs cb_func fds w) (\<lambda>w. Inr (l, w))" "set fds \<subseteq> U"
      "{fd \<in> connected S. expiry S fd \<le> now} \<subseteq> set fds"
      "tracks in_order (\<lambda>s. exp_at (heap s)) (\<lambda>s. user_at (heap s)) l (\<lambda>fd. cd_timer (users_timer S fd)) (connected S - set fds) U (now + 3 * TIMESLOT)"
    using server_timers.tracks_reap [of "m_timer_lst S" "\<lambda>fd. cd_timer (users_timer S fd)" "connected S" U "now + 3 * TIMESLOT" cb_func now] assms
    unfolding live_ok_def live_timers_def by blast
  have U: "\<forall>u \<in> set fds. 0 \<le> u \<and> u < MAX_FD" "\<And>u. u \<in> set fds \<Longrightarrow> cd_sockfd (users_timer S u) = u"
    using l(2) live_rangeD [OF assms] by blast+
  have "fold (\<lambda>u. closed_conn (cd_sockfd (users_timer S u))) fds S = fold closed_conn fds S"
    using U(2) by (intro fold_cong) auto
  with run_cbs_closes [OF U(1), of S] have run: "run_cbs cb_func fds S = Inr (fold closed_conn fds S)" by simp
  let ?S1 = "(fold closed_conn fds S)\<lparr>m_timer_lst := l\<rparr>"
  note fr = fold_closed_frame [of "\<lambda>x. x" fds S]
  have "timer_handler now S = Inr (set_kern (alarm now (m_TIMESLOT S)) ?S1)"
    using l(1) run fr(4) by (simp add: timer_handler_def)
  moreover have "live_ok (set_kern (alarm now (m_TIMESLOT S)) ?S1) U now"
    using live_fds_fold [OF _ l(2), of S] l(4) assms fr by (simp add: live_ok_def live_timers_def live_pool_fold)
  moreover have "connected ?S1 \<subseteq> {fd \<in> connected S. now < expiry S fd}" using fr(5) l(3) by auto
  ultimately show ?thesis by auto
qed

section \<open>Accepting\<close>

lemma live_fresh: "live_fds S U \<Longrightarrow> fresh_fd S fd \<Longrightarrow> interest (kern (glob S)) fd = None \<and> fd \<notin> connected S \<and> fd \<notin> own_fds S"
  by (auto simp: fresh_fd_def live_fds_def connected_def Let_def)

lemma live_fds_accepted:
  assumes "live_fds S U" "fresh_fd S fd"
    and S': "kern (glob S') = addfd (epfd (kern (glob S))) fd True m (accept fd (kern (glob S)))"
      "m_user_count (glob S') = m_user_count (glob S) + 1" "m_epollfd (glob S') = m_epollfd (glob S)" "u_epollfd S' = u_epollfd S"
      "users_timer S' = (users_timer S)(fd := c)" "cd_sockfd c = fd" "m_listenfd S' = m_listenfd S" "m_pipefd S' = m_pipefd S"
      "conns S' = (conns S)(fd := h')" "m_sokcfd h' = fd"
  shows "live_fds S' (insert fd U)" "connected S' = insert fd (connected S)"
    "fdflags (kern (glob S')) = (fdflags (kern (glob S)))(fd \<mapsto> O_NONBLOCK)"
proof -
  have n: "fd \<notin> own_fds S" "fd \<notin> connected S" using live_fresh [OF assms(1,2)] by auto
  then have "fd \<noteq> epfd (kern (glob S))" by (simp add: own_fds_def)
  from accept_addfd [OF this, of m] obtain ev where k: "interest (kern (glob S')) = (interest (kern (glob S)))(fd \<mapsto> ev)"
     "fdflags (kern (glob S')) = (fdflags (kern (glob S)))(fd \<mapsto> O_NONBLOCK)" "epfd (kern (glob S')) = epfd (kern (glob S))"
    unfolding S'(1) by blast
  show c: "connected S' = insert fd (connected S)" using n unfolding connected_def own_fds_def k(1) S'(7,8) by auto
  have r: "own_fds S' = own_fds S" by (simp add: own_fds_def S'(7,8) k(3))
  have fd: "0 \<le> fd" "fd < MAX_FD" using assms(2) by (auto simp: fresh_fd_def)
  have "finite (connected S)" "fd \<noteq> epfd (kern (glob S))" using assms(1) n by (auto simp: live_fds_def own_fds_def Let_def)
  then show "live_fds S' (insert fd U)" using assms(1) n fd
    unfolding live_fds_def c r Let_def S'(2-5,9) k by (auto simp: S'(6,10))
  show "fdflags (kern (glob S')) = (fdflags (kern (glob S)))(fd \<mapsto> O_NONBLOCK)" by (rule k(2))
qed

lemma timer_live:
  assumes "live_ok S U now" "fresh_fd S fd" "a \<notin> dom (heap (m_timer_lst S))"
  shows "\<exists>S'. timer now a fd addr (set_kern (accept fd) S) = Inr S' \<and> live_ok S' (insert fd U) now \<and>
     fdflags (kern (glob S')) = (fdflags (kern (glob S)))(fd \<mapsto> O_NONBLOCK) \<and> dom (heap (m_timer_lst S')) = insert a (dom (heap (m_timer_lst S)))"
proof -
  have f: "live_fds S U" "creds_ok S" "live_pool S U" "m_epollfd (glob S) = epfd (kern (glob S))" "0 \<le> fd" "fd < MAX_FD"
    using assms(1,2) by (auto simp: live_ok_def live_fds_def fresh_fd_def Let_def)
  have "tracks in_order (\<lambda>s. exp_at (heap s)) (\<lambda>s. user_at (heap s)) (m_timer_lst S) (\<lambda>fd. cd_timer (users_timer S fd)) (connected S) (insert fd U) (now + 3 * TIMESLOT)"
    using assms(1) by (auto simp: live_ok_def live_timers_def intro: server_timers.tracks_mono)
  from server_timers.tracks_insert [OF this assms(3), of fd "now + 3 * TIMESLOT"]
  obtain l where l: "insert_timer a (now + 3 * TIMESLOT) fd (m_timer_lst S) = Inr l"
     "tracks in_order (\<lambda>s. exp_at (heap s)) (\<lambda>s. user_at (heap s)) l ((\<lambda>fd. cd_timer (users_timer S fd))(fd := Some a)) (insert fd (connected S)) (insert fd U) (now + 3 * TIMESLOT)"
     "dom (heap l) = insert a (dom (heap (m_timer_lst S)))" by auto
  let ?c = "\<lparr>cd_address = addr, cd_sockfd = fd, cd_timer = Some a\<rparr>" and ?m = "m_TRIGMode (conns S fd)"
  let ?S1 = "\<lambda>h'. S\<lparr>conns := (conns S)(fd := h'), glob := (glob S)\<lparr>kern := addfd (epfd (kern (glob S))) fd True ?m (accept fd (kern (glob S))),
      m_user_count := m_user_count (glob S) + 1\<rparr>, users_timer := (users_timer S)(fd := ?c), m_timer_lst := l\<rparr>"
  obtain h' where h': "timer now a fd addr (set_kern (accept fd) S) = Inr (?S1 h')"
      "length (sql_user h') = 100" "length (sql_passwd h') = 100" "length (sql_name h') = 100" "m_sokcfd h' = fd"
    using timer_runs [OF f(2,5,6) l(1), of addr] unfolding f(4) by blast
  have S1: "live_fds (?S1 h') (insert fd U)" "connected (?S1 h') = insert fd (connected S)"
    "fdflags (kern (glob (?S1 h'))) = (fdflags (kern (glob S)))(fd \<mapsto> O_NONBLOCK)"
    by (rule live_fds_accepted [OF f(1) assms(2), where m = ?m and c = ?c and h' = h']; simp add: h'(5))+
  have tm: "(\<lambda>x. cd_timer (users_timer (?S1 h') x)) = (\<lambda>fd. cd_timer (users_timer S fd))(fd := Some a)" by auto
  have "live_timers (?S1 h') (insert fd U) (now + 3 * TIMESLOT)"
    unfolding live_timers_def tm S1(2) using l(2) by simp
  moreover have "creds_ok (?S1 h')" using f(2) h'(2-4) by (auto simp: creds_ok_def)
  moreover have "live_pool (?S1 h') (insert fd U)" using f(3) by (auto simp: live_pool_def)
  ultimately show ?thesis using h'(1) S1(1,3) l(3) by (intro exI [of _ "?S1 h'"]) (simp add: live_ok_def)
qed

lemma refused_live:
  assumes "live_ok S U now" "fresh_fd S fd"
  shows "live_ok (set_kern (show_error fd msg) (set_kern (accept fd) S)) U now"
proof -
  let ?S = "set_kern (show_error fd msg) (set_kern (accept fd) S)"
  have f: "live_fds S U" using assms(1) by (simp add: live_ok_def)
  have k: "interest (kern (glob ?S)) = interest (kern (glob S))" "fdflags (kern (glob ?S)) = fdflags (kern (glob S))"
    "epfd (kern (glob ?S)) = epfd (kern (glob S))"
    using live_fresh [OF f assms(2)] assms(2)
    by (auto simp: show_error_def accept_def send_def fresh_fd_def fun_eq_iff)
  have c: "connected ?S = connected S" unfolding connected_def k by (simp add: set_kern_def)
  have r: "own_fds ?S = own_fds S" unfolding own_fds_def k by (simp add: set_kern_def)
  have "live_fds ?S U" using f unfolding live_fds_def c k r Let_def by (simp add: set_kern_def)
  then show ?thesis using assms(1) c by (simp add: live_ok_def live_timers_def live_pool_def creds_ok_def set_kern_def)
qed

lemma take_client_live:
  assumes "live_ok S U now" "fresh_accept S r"
  shows "\<exists>ok S' U'. take_client now r S = Inr (ok, S') \<and> live_ok S' U' now \<and>
     (ok \<longrightarrow> (\<exists>fd addr a. r = Accepted fd addr a \<and> fdflags (kern (glob S')) = (fdflags (kern (glob S)))(fd \<mapsto> O_NONBLOCK) \<and>
        dom (heap (m_timer_lst S')) = insert a (dom (heap (m_timer_lst S)))))"
proof (cases r)
  case (Accept_Error e)
  then show ?thesis using assms(1) by (auto simp: take_client_def)
next
  case (Accepted fd addr a)
  then have fr: "fresh_fd S fd" "a \<notin> dom (heap (m_timer_lst S))" using assms(2) by (simp_all add: fresh_accept_def)
  show ?thesis
  proof (cases "m_user_count (glob S) \<ge> MAX_FD")
    case True
    then show ?thesis using Accepted refused_live [OF assms(1) fr(1)] by (auto simp: take_client_def Let_def)
  next
    case False
    then show ?thesis using Accepted timer_live [OF assms(1) fr, of addr] by (fastforce simp: take_client_def Let_def)
  qed
qed

lemma accept_loop_live:
  "live_ok S U now \<Longrightarrow> fresh_accepts S rs \<Longrightarrow> \<exists>S' U'. accept_loop now rs S = Inr S' \<and> live_ok S' U' now"
proof (induction rs arbitrary: S U)
  case (Cons r rs)
  have "fresh_accept S r" using Cons.prems(2) by (cases r) (auto simp: fresh_accept_def)
  from take_client_live [OF Cons.prems(1) this] obtain ok S1 U1 where S1: "take_client now r S = Inr (ok, S1)" "live_ok S1 U1 now" and
    c: "ok \<longrightarrow> (\<exists>fd addr a. r = Accepted fd addr a \<and> fdflags (kern (glob S1)) = (fdflags (kern (glob S)))(fd \<mapsto> O_NONBLOCK) \<and>
        dom (heap (m_timer_lst S1)) = insert a (dom (heap (m_timer_lst S))))" by blast
  show ?case
  proof (cases ok)
    case False
    then show ?thesis using S1 by auto
  next
    case True
    then obtain fd addr a where k: "r = Accepted fd addr a" "fdflags (kern (glob S1)) = (fdflags (kern (glob S)))(fd \<mapsto> O_NONBLOCK)"
      "dom (heap (m_timer_lst S1)) = insert a (dom (heap (m_timer_lst S)))" using c by blast
    have "fresh_accepts S1 rs"
      using Cons.prems(2) unfolding k(1)
      by (auto intro!: fresh_accepts_mono [of S rs] simp: fresh_accept_def fresh_fd_def k(2,3))
    from Cons.IH [OF S1(2) this] show ?thesis using S1(1) True by auto
  qed
qed simp

lemma dealclientdata_live:
  assumes "live_ok S U now" "fresh_accepts S rs"
  shows "\<exists>b S' U'. dealclientdata now rs S = Inr (b, S') \<and> live_ok S' U' now"
proof (cases "0 = m_LISTENTrigmode S")
  case True
  obtain r rs' where rs: "rs = r # rs'" using assms(2) by (cases rs) auto
  then have "fresh_accept S r" using assms(2) by (cases r) (auto simp: fresh_accept_def)
  from take_client_live [OF assms(1) this] show ?thesis using True rs by (auto simp: dealclientdata_def)
next
  case False
  then show ?thesis using accept_loop_live [OF assms] by (auto simp: dealclientdata_def)
qed

section \<open>Activity on a connection\<close>

lemma ws_adjust_timer_live:
  assumes "live_ok S U now" "fd \<in> connected S"
  shows "\<exists>a S'. cd_timer (users_timer S fd) = Some a \<and> ws_adjust_timer now (Some a) S = Inr S' \<and> live_ok S' U now"
proof -
  obtain a l where a: "cd_timer (users_timer S fd) = Some a" "postpone_timer a (now + 3 * TIMESLOT) (m_timer_lst S) = Inr l"
      "tracks in_order (\<lambda>s. exp_at (heap s)) (\<lambda>s. user_at (heap s)) l (\<lambda>fd. cd_timer (users_timer S fd)) (connected S) U (now + 3 * TIMESLOT)"
    using server_timers.tracks_postpone [of "m_timer_lst S" "\<lambda>fd. cd_timer (users_timer S fd)" "connected S" U "now + 3 * TIMESLOT" fd "now + 3 * TIMESLOT"] assms
    unfolding live_ok_def live_timers_def by blast
  have "live_ok (S\<lparr>m_timer_lst := l\<rparr>) U now" using assms(1) a(3) by (simp add: live_ok_def live_timers_def)
  then show ?thesis using a(1,2) by (simp add: ws_adjust_timer_def)
qed

lemma append_p_live:
  assumes "owner (m_queuelocker p) = None"
  shows "\<exists>b p'. append_p t x p = Inr (b, p') \<and> owner (m_queuelocker p') = None \<and> set (m_workqueue p') \<subseteq> insert x (set (m_workqueue p))"
  using assms by (cases "queue_full p") (auto simp: append_p_def append_push_def append_post_def Let_def)

text \<open>A connection object changes, but neither its descriptor nor the credentials it was given.\<close>

lemma live_conn_update:
  assumes "live_ok S U now" "sql_creds h' = sql_creds (conns S fd)" "m_sokcfd h' \<in> {m_sokcfd (conns S fd), -1}"
  shows "live_ok (S\<lparr>conns := (conns S)(fd := h')\<rparr>) U now"
  using assms by (auto simp: live_ok_def live_fds_def live_pool_def live_timers_def own_fds_def creds_ok_def Let_def)

lemma live_pool_update:
  assumes "live_ok S U now" "owner (m_queuelocker p') = None" "\<And>fd. Some fd \<in> set (m_workqueue p') \<Longrightarrow> fd \<in> U"
  shows "live_ok (S\<lparr>m_pool := Some p'\<rparr>) U now" "connected (S\<lparr>m_pool := Some p'\<rparr>) = connected S"
proof -
  show c: "connected (S\<lparr>m_pool := Some p'\<rparr>) = connected S" by (simp add: connected_def)
  show "live_ok (S\<lparr>m_pool := Some p'\<rparr>) U now" using assms
    by (simp add: live_ok_def live_fds_def live_pool_def live_timers_def own_fds_def creds_ok_def c Let_def)
qed

lemma dealwithread_live:
  assumes "live_ok S U now" "fd \<in> connected S" "m_actormodel S \<noteq> 1" "read_once net (conns S fd) = Inr (ok, h')"
  shows "\<exists>S'. dealwithread fs query now t net ios fd S = Inr S' \<and> live_ok S' U now"
proof -
  have U: "fd \<in> U" using live_connectedD [OF assms(1,2)] .
  note iv = live_rangeD [OF assms(1) U]
  let ?tm = "cd_timer (users_timer S fd)" and ?S1 = "S\<lparr>conns := (conns S)(fd := h')\<rparr>"
  have h': "sql_creds h' = sql_creds (conns S fd)" "m_sokcfd h' \<in> {m_sokcfd (conns S fd), -1}"
    using read_once_frame [OF assms(4)] by (auto simp: only_read_def)
  have s1: "live_ok ?S1 U now" by (rule live_conn_update [OF assms(1) h'])
  show ?thesis
  proof (cases ok)
    case False
    obtain S' where "deal_timer ?tm fd ?S1 = Inr S'" "live_ok S' U now" using deal_timer_live [OF s1, of fd] assms(2) by auto
    then show ?thesis using False assms(3,4) iv by (simp add: dealwithread_def Let_def)
  next
    case True
    obtain p where p: "m_pool S = Some p" "owner (m_queuelocker p) = None" "\<And>x. Some x \<in> set (m_workqueue p) \<Longrightarrow> x \<in> U"
      using assms(1) by (auto simp: live_ok_def live_pool_def)
    obtain b p' where p': "append_p t (Some fd) p = Inr (b, p')" "owner (m_queuelocker p') = None"
        "set (m_workqueue p') \<subseteq> insert (Some fd) (set (m_workqueue p))"
      using append_p_live [OF p(2)] by blast
    let ?S2 = "log_srv 1 (''deal with the client('' @ get_address h' @ '')'') ?S1"
    have "live_ok ?S2 U now" using s1 by simp
    from live_pool_update [OF this p'(2)] p'(3) p(3) U
    have S3: "live_ok (?S2\<lparr>m_pool := Some p'\<rparr>) U now" "connected (?S2\<lparr>m_pool := Some p'\<rparr>) = connected S" by auto
    from ws_adjust_timer_live [OF S3(1), of fd] assms(2) S3(2)
    obtain a S' where S': "?tm = Some a" "ws_adjust_timer now (Some a) (?S2\<lparr>m_pool := Some p'\<rparr>) = Inr S'" "live_ok S' U now" by auto
    then have "dealwithread fs query now t net ios fd S = Inr S'"
      using True assms(3,4) iv p(1) p'(1) by (simp add: dealwithread_def Let_def)
    then show ?thesis using S'(3) by blast
  qed
qed

section \<open>Workers\<close>

text \<open>What a worker may do to the kernel and the statics: nothing the main thread relies on, or closing its descriptor.\<close>

definition worker_effect :: "fd \<Rightarrow> http_globals \<Rightarrow> http_globals \<Rightarrow> bool" where
  "worker_effect fd g g' \<longleftrightarrow> m_epollfd g' = m_epollfd g \<and> epfd (kern g') = epfd (kern g) \<and>
     (dom (interest (kern g')) = dom (interest (kern g)) \<and> fdflags (kern g') = fdflags (kern g) \<and> m_user_count g' = m_user_count g \<or>
      dom (interest (kern g')) = dom (interest (kern g)) - {fd} \<and> fdflags (kern g') = (fdflags (kern g))(fd := None) \<and>
        m_user_count g' = m_user_count g - 1)"

lemma modfd_dom: "dom (interest (modfd ep fd ev m k)) = dom (interest k)"
  by (auto simp: modfd_def epoll_mod_def)

lemma removefd_dom: "dom (interest (removefd ep fd k)) = dom (interest k) - {fd}" "fdflags (removefd ep fd k) = (fdflags k)(fd := None)"
  by (auto simp: removefd_def epoll_del_def)

lemma process_effect:
  assumes "m_sokcfd h \<in> {fd, -1}"
  shows "ok_r (\<lambda>(h', g'). sql_creds h' = sql_creds h \<and> m_sokcfd h' \<in> {m_sokcfd h, -1} \<and> worker_effect fd g g') (process fs query t h g)"
proof (rule ok_rI, clarify del: conjI)
  fix h' g'
  assume "process fs query t h g = Inr (h', g')"
  from process_cases [OF this] obtain h1 g1 ev closing where *: "m_sokcfd h1 = m_sokcfd h" "sql_creds h1 = sql_creds h" "same_globals g g1"
    "let (h2, g2) = if closing then close_conn True h1 g1 else (h1, g1) in
      h' = h2 \<and> g' = g2\<lparr>kern := modfd (m_epollfd g2) (m_sokcfd h2) ev (m_TRIGMode h) (kern g2)\<rparr>" by blast
  show "sql_creds h' = sql_creds h \<and> m_sokcfd h' \<in> {m_sokcfd h, -1} \<and> worker_effect fd g g'"
  proof (cases "closing \<and> m_sokcfd h \<noteq> -1")
    case True
    then show ?thesis using * assms
      by (simp add: close_conn_def same_globals_def worker_effect_def modfd_dom removefd_dom)
  next
    case False
    then have "h' = h1 \<and> g' = g1\<lparr>kern := modfd (m_epollfd g1) (m_sokcfd h1) ev (m_TRIGMode h) (kern g1)\<rparr>"
      using *(1,4) by (auto simp: close_conn_def split: if_splits)
    then show ?thesis using *(1-3) by (simp add: same_globals_def worker_effect_def modfd_dom)
  qed
qed

lemma serve_effect:
  assumes "m_sokcfd h \<in> {fd, -1}"
  shows "ok_r (\<lambda>(h', g', sp'). sql_creds h' = sql_creds h \<and> m_sokcfd h' \<in> {m_sokcfd h, -1} \<and> worker_effect fd g g')
     (serve fs query intr t cp h g sp)"
proof -
  have p: "ok_r (\<lambda>(h', g'). sql_creds h' = sql_creds h \<and> m_sokcfd h' \<in> {m_sokcfd h, -1} \<and> worker_effect fd g g')
      (process fs query t (h\<lparr>mysql := con\<rparr>) g)" for con
    using process_effect [where h = "h\<lparr>mysql := con\<rparr>" and g = g and fs = fs and query = query and t = t] assms by simp
  show ?thesis unfolding serve_def
    by (rule ok_bind, rule ok_bind, clarify, rule ok_bind_ok [OF p], clarify del: conjI, rule ok_bind) (auto intro!: ok_Inr)
qed

lemma worker_effect_refl [simp]: "worker_effect fd g g" by (simp add: worker_effect_def)

lemma run_request_effect:
  assumes "m_sokcfd h \<in> {fd, -1}"
  shows "ok_r (\<lambda>(h', g', sp'). sql_creds h' = sql_creds h \<and> m_sokcfd h' \<in> {m_sokcfd h, -1} \<and> worker_effect fd g g')
     (run_request fs query net intr t am cp h g sp)"
proof -
  have r: "sql_creds h1 = sql_creds h \<and> m_sokcfd h1 = m_sokcfd h" if "read_once net h = Inr (ok, h1)" for ok h1
    using read_once_frame [OF that] by (auto simp: only_read_def)
  have s: "ok_r (\<lambda>(h', g', sp'). sql_creds h' = sql_creds h \<and> m_sokcfd h' \<in> {m_sokcfd h, -1} \<and> worker_effect fd g g')
      (serve fs query intr t cp (h1\<lparr>improv := 1\<rparr>) g sp)" if "read_once net h = Inr (ok, h1)" for ok h1
    using serve_effect [where h = "h1\<lparr>improv := 1\<rparr>" and g = g and fs = fs and query = query and intr = intr and t = t and cp = cp and sp = sp] assms r [OF that] by simp
  show ?thesis unfolding run_request_def
    by (intro ok_intros serve_effect [OF assms]) (auto simp: write_conn_def split_def dest: r intro: s [simplified split_def, simplified])
qed

lemma live_glob_update:
  assumes "live_ok S U now" "fd \<in> U" "worker_effect fd (glob S) g'"
  shows "live_ok (S\<lparr>glob := g'\<rparr>) U now"
proof -
  let ?S = "S\<lparr>glob := g'\<rparr>" and ?k = "kern (glob S)"
  have f: "live_fds S U" and t: "live_timers S U (now + 3 * TIMESLOT)" using assms(1) by (auto simp: live_ok_def)
  have e: "m_epollfd g' = m_epollfd (glob S)" "epfd (kern g') = epfd ?k" using assms(3) by (simp_all add: worker_effect_def)
  have r: "own_fds ?S = own_fds S" "fd \<notin> own_fds S" using e(2) f assms(2) by (auto simp: own_fds_def live_fds_def Let_def)
  have cd: "connected X = dom (interest (kern (glob X))) - {m_listenfd X, fst (m_pipefd X)}" for X by (auto simp: connected_def)
  have "live_fds ?S U \<and> connected ?S \<subseteq> connected S"
  proof (cases "dom (interest (kern g')) = dom (interest ?k) \<and> fdflags (kern g') = fdflags ?k \<and> m_user_count g' = m_user_count (glob S)")
    case True
    then have "interest (kern g') x = None \<longleftrightarrow> interest ?k x = None" for x by (metis domIff)
    moreover have "connected ?S = connected S" using True by (simp add: cd)
    ultimately show ?thesis using f True e r(1) by (simp add: live_fds_def Let_def del: not_None_eq)
  next
    case False
    then have k: "dom (interest (kern g')) = dom (interest ?k) - {fd}" "fdflags (kern g') = (fdflags ?k)(fd := None)"
        "m_user_count g' = m_user_count (glob S) - 1" using assms(3) by (auto simp: worker_effect_def)
    have i: "interest (kern g') x = None \<longleftrightarrow> interest ?k x = None \<or> x = fd" for x using k(1) by (metis Diff_iff domIff singleton_iff)
    have c: "connected ?S = connected S - {fd}" using k(1) by (auto simp: cd)
    have "m_user_count (glob S) - 1 \<le> int (card (connected S - {fd}))" using f by (intro card_Diff_pred) (simp_all add: live_fds_def Let_def)
    then show ?thesis using f r unfolding live_fds_def c r(1) Let_def by (auto simp: e k(2,3) i simp del: not_None_eq)
  qed
  moreover have "live_timers ?S U (now + 3 * TIMESLOT)" if "connected ?S \<subseteq> connected S"
    using server_timers.tracks_mono [OF t [unfolded live_timers_def] that] by (simp add: live_timers_def)
  ultimately show ?thesis using assms(1) by (simp add: live_ok_def live_pool_def creds_ok_def)
qed

lemma run_wait_lock: "ok_r (\<lambda>p'. m_workqueue p' = m_workqueue p \<and> m_queuelocker p' = m_queuelocker p) (run_wait intr p)"
  unfolding run_wait_def by (intro ok_intros) (auto simp: ok_r_def)

lemma run_take_lock:
  assumes "owner (m_queuelocker p) = None"
  shows "ok_r (\<lambda>(r, p'). owner (m_queuelocker p') = None \<and> set (m_workqueue p') \<subseteq> set (m_workqueue p) \<and>
     (\<forall>x. r = Some x \<longrightarrow> x \<in> set (m_workqueue p))) (run_take t p)"
  using assms by (cases "m_workqueue p") (auto simp: run_take_def Let_def intro!: ok_Inr)

lemma worker_round_live:
  assumes "live_ok S U now" "worker_round fs query io S = Inr S'"
  shows "live_ok S' U now"
proof -
  obtain net intr t where io: "io = (net, intr, t)" by (cases io)
  obtain p where p: "m_pool S = Some p" "owner (m_queuelocker p) = None" "\<And>x. Some x \<in> set (m_workqueue p) \<Longrightarrow> x \<in> U"
    using assms(1) by (auto simp: live_ok_def live_pool_def)
  obtain p1 r p2 where w: "run_wait intr p = Inr p1" "run_take t p1 = Inr (r, p2)" and
    res: "(case r of None \<Rightarrow> Inr (p2, conns S, glob S, the_pool S) | Some None \<Rightarrow> Inr (p2, conns S, glob S, the_pool S)
      | Some (Some fd) \<Rightarrow> bind_r (run_request fs query net intr t (m_actor_model p2) (m_connPool p2) (conns S fd) (glob S) (the_pool S)) (\<lambda>(h, g, sp).
          Inr (p2, (conns S)(fd := h), g, sp))) =
       Inr (the (m_pool S'), conns S', glob S', the_pool S')"
      "S' = S\<lparr>m_pool := m_pool S', conns := conns S', glob := glob S', the_pool := the_pool S'\<rparr>" "m_pool S' \<noteq> None"
    using assms(2) p(1) by (auto simp: worker_round_def io run_round_def)
  have p1: "m_workqueue p1 = m_workqueue p" "owner (m_queuelocker p1) = None" using ok_rD [OF run_wait_lock w(1)] p(2) by auto
  have p2: "owner (m_queuelocker p2) = None" "set (m_workqueue p2) \<subseteq> set (m_workqueue p)" "\<And>x. r = Some x \<Longrightarrow> x \<in> set (m_workqueue p)"
    using ok_rD [OF run_take_lock [OF p1(2)] w(2)] p1(1) by auto
  have sp: "live_ok (X\<lparr>the_pool := sp\<rparr>) U now = live_ok X U now" for X sp
    by (simp add: live_ok_def live_fds_def live_pool_def live_timers_def own_fds_def creds_ok_def connected_def Let_def)
  have S2: "live_ok (S\<lparr>m_pool := Some p2\<rparr>) U now" using live_pool_update(1) [OF assms(1) p2(1)] p2(2) p(3) by blast
  have mp: "m_pool S' = Some p2" using res(1,3) by (auto split: option.splits)
  show ?thesis
  proof (cases "\<exists>fd. r = Some (Some fd)")
    case False
    then have e: "conns S' = conns S" "glob S' = glob S" using res(1) by (auto split: option.splits)
    have "S' = S\<lparr>m_pool := Some p2, the_pool := the_pool S'\<rparr>" using res(2) unfolding mp e by simp
    then show ?thesis using S2 sp by metis
  next
    case True
    then obtain fd where r: "r = Some (Some fd)" by blast
    have U: "fd \<in> U" using p2(3) [OF r] p(3) by blast
    then have sk: "m_sokcfd (conns S fd) \<in> {fd, -1}" using assms(1) by (auto simp: live_ok_def live_fds_def Let_def)
    obtain h where h: "run_request fs query net intr t (m_actor_model p2) (m_connPool p2) (conns S fd) (glob S) (the_pool S) = Inr (h, glob S', the_pool S')"
        "conns S' = (conns S)(fd := h)" using res(1) by (auto simp: r)
    have eff: "sql_creds h = sql_creds (conns S fd)" "m_sokcfd h \<in> {m_sokcfd (conns S fd), -1}" "worker_effect fd (glob S) (glob S')"
      using ok_rD [OF run_request_effect [OF sk] h(1)] by auto
    have "live_ok (S\<lparr>m_pool := Some p2, conns := (conns S)(fd := h)\<rparr>) U now"
      using live_conn_update [OF S2, of h fd] eff(1,2) by simp
    from live_glob_update [OF this U, of "glob S'"] eff(3)
    have "live_ok (S\<lparr>m_pool := Some p2, conns := (conns S)(fd := h), glob := glob S'\<rparr>) U now" by simp
    moreover have "S' = S\<lparr>m_pool := Some p2, conns := (conns S)(fd := h), glob := glob S', the_pool := the_pool S'\<rparr>"
      using res(2) unfolding mp h(2) .
    ultimately show ?thesis using sp by metis
  qed
qed

section \<open>The system\<close>

text \<open>
  An event the kernel can report, as for the main thread alone, but whatever state the workers have left the
  request queue in.
\<close>

definition server_event :: "server \<Rightarrow> event \<Rightarrow> bool" where
  "server_event S e = (case e of (fd, ev, io) \<Rightarrow>
     if fd = m_listenfd S then fresh_accepts S (ev_accepts io)
     else if fd = fst (m_pipefd S) then ev = EPOLLIN
     else fd \<in> connected S \<and>
       (ev AND (EPOLLRDHUP OR EPOLLHUP OR EPOLLERR) = 0 \<longrightarrow>
          ev AND EPOLLIN \<noteq> 0 \<and> m_actormodel S \<noteq> 1 \<and> (\<exists>ok h'. read_once (ev_net io) (conns S fd) = Inr (ok, h'))))"

inductive full_step :: "server \<times> int \<Rightarrow> server \<times> int \<Rightarrow> bool" where
  event: "server_event S e \<Longrightarrow> handle_event fs query now t e timeout stop S = Inr (timeout', stop', S') \<Longrightarrow>
     full_step (S, now) (S', now)"
| tick: "end_round now timeout S = Inr S' \<Longrightarrow> full_step (S, now) (S', now)"
| worker: "worker_round fs query io S = Inr S' \<Longrightarrow> full_step (S, now) (S', now)"
| clock: "now \<le> now' \<Longrightarrow> full_step (S, now) (S, now')"

definition full_start :: "server \<times> int \<Rightarrow> bool" where
  "full_start sn = (case sn of (S, now) \<Rightarrow> main_start (S, now) \<and> fdflags (kern (glob S)) (snd (m_pipefd S)) \<noteq> None \<and>
     interest (kern (glob S)) (-1) = None \<and> (\<exists>p. m_pool S = Some p \<and> owner (m_queuelocker p) = None \<and> m_workqueue p = []))"

definition full_invar :: "server \<times> int \<Rightarrow> bool" where
  "full_invar sn \<longleftrightarrow> (\<exists>U. live_ok (fst sn) U (snd sn))"

lemma handle_event_live:
  assumes "live_ok S U now" "server_event S e"
  shows "\<exists>timeout' stop' S' U'. handle_event fs query now t e timeout stop S = Inr (timeout', stop', S') \<and> live_ok S' U' now"
proof -
  obtain fd ev io where e: "e = (fd, ev, io)" by (cases e)
  consider (listen) "fd = m_listenfd S" | (pipe) "fd \<noteq> m_listenfd S" "fd = fst (m_pipefd S)"
    | (hangup) "fd \<noteq> m_listenfd S" "fd \<noteq> fst (m_pipefd S)" "ev AND (EPOLLRDHUP OR EPOLLHUP OR EPOLLERR) \<noteq> 0"
    | (input) "fd \<noteq> m_listenfd S" "fd \<noteq> fst (m_pipefd S)" "ev AND (EPOLLRDHUP OR EPOLLHUP OR EPOLLERR) = 0" by blast
  then show ?thesis
  proof cases
    case listen
    then have "fresh_accepts S (ev_accepts io)" using assms(2) by (simp add: server_event_def e)
    from dealclientdata_live [OF assms(1) this] listen show ?thesis by (auto simp: handle_event_def e)
  next
    case pipe
    then have ev: "ev = EPOLLIN" using assms(2) by (simp add: server_event_def e)
    obtain flag t' s' where d: "dealwithsignal (ev_pipe io) timeout stop = (flag, t', s')" by (metis prod_cases3)
    let ?S = "if flag then S else log_srv 3 ''dealclientdata failure'' S"
    have "live_ok ?S U now" using assms(1) by simp
    moreover have "handle_event fs query now t e timeout stop S = Inr (t', s', ?S)"
      using pipe pipe_event_bits by (simp add: handle_event_def e ev d)
    ultimately show ?thesis by blast
  next
    case hangup
    then have c: "fd \<in> connected S" using assms(2) by (simp add: server_event_def e)
    with deal_timer_live [OF assms(1) c] hangup live_rangeD [OF assms(1) live_connectedD [OF assms(1) c]]
    show ?thesis by (auto simp: handle_event_def e)
  next
    case input
    then obtain ok h' where i: "fd \<in> connected S" "ev AND EPOLLIN \<noteq> 0" "m_actormodel S \<noteq> 1"
        "read_once (ev_net io) (conns S fd) = Inr (ok, h')" using assms(2) by (auto simp: server_event_def e)
    obtain S' where "dealwithread fs query now t (ev_net io) (ev_workers io) fd S = Inr S'" "live_ok S' U now"
      using dealwithread_live [OF assms(1) i(1,3,4)] by blast
    then show ?thesis using input i(2) by (auto simp: handle_event_def e)
  qed
qed

lemma end_round_live:
  assumes "live_ok S U now"
  shows "\<exists>S'. end_round now timeout S = Inr S' \<and> live_ok S' U now \<and> (timeout \<longrightarrow> connected S' \<subseteq> {fd \<in> connected S. now < expiry S fd})"
  using timer_handler_live [OF assms] assms by (cases timeout) (auto simp: end_round_def)

lemma full_start_live:
  assumes "full_start (S, now)"
  shows "live_ok S {} now"
proof -
  have m: "server_ok S now" "connected S = {}" using assms by (auto simp: full_start_def main_start_def)
  have f: "fds_ok S" "creds_ok S" "timers_ok S (now + 3 * TIMESLOT)" using m(1) by (auto simp: server_ok_def)
  have "live_fds S {}" using f(1) m(2) assms unfolding live_fds_def fds_ok_def full_start_def own_fds_def Let_def by auto
  moreover have "live_pool S {}" using assms by (auto simp: full_start_def live_pool_def)
  moreover have "live_timers S {} (now + 3 * TIMESLOT)"
    using server_timers.owns_tracks [OF f(3) [unfolded timers_ok_def]] m(2) by (simp add: live_timers_def)
  ultimately show ?thesis using f(2) by (simp add: live_ok_def)
qed

lemma full_step_invar: "full_step s s' \<Longrightarrow> full_invar s \<Longrightarrow> full_invar s'"
proof (induction rule: full_step.induct)
  case (event S e fs query now t timeout stop timeout' stop' S')
  then show ?case using handle_event_live [of S _ now e fs query t timeout stop] by (fastforce simp: full_invar_def)
next
  case (tick now timeout S S')
  then show ?case using end_round_live [of S _ now timeout] by (fastforce simp: full_invar_def)
next
  case (worker fs query io S S' now)
  then show ?case using worker_round_live [OF _ worker(1)] by (fastforce simp: full_invar_def)
next
  case (clock now now' S)
  then show ?case using live_ok_later [OF _ clock(1)] by (fastforce simp: full_invar_def)
qed

interpretation whole_server: invariant_system full_start full_step full_invar
proof unfold_locales
  show "full_invar s" if "full_start s" for s using full_start_live [of "fst s" "snd s"] that by (auto simp: full_invar_def)
qed (rule full_step_invar)

section \<open>Properties\<close>



end
