(* ===== verification/Server_Start.thy ===== *)
theory Server_Start
  imports Server_Main Webserver_Workers
begin

text \<open>
  Starting the server: when the calls of the start-up succeed, it leaves the server in a state from which
  \<open>main_thread_safe\<close> and \<open>full_server_safe\<close> speak, with the users of the database loaded and the sources of events
  registered.
\<close>

section \<open>The components in the order they are started\<close>

lemma log_write_ok:
  assumes "the_log S = log_ctor"
  shows "\<exists>L fl. log_write can_open now S = Inr (S\<lparr>the_log := L, log_files := fl\<rparr>)"
proof (cases "0 = ws_close_log S")
  case True
  obtain q :: "string block_queue" where "block_queue_ctor [] 800 = Inr q" by (simp add: block_queue_ctor_def)
  then have "\<exists>r L fl. init_log can_open now ''./serverlog'' (ws_close_log S) 2000 800000 (if 1 = m_log_write S then 800 else 0)
      log_ctor (log_files S) = Inr (r, L, fl)"
    by (cases "fopen can_open (take 254 (''./'' @ date_text now @ ''./serverlog'')) (log_files S)")
       (simp add: init_log_def full_name_serverlog Let_def)
  then obtain r L fl where "init_log can_open now ''./serverlog'' (ws_close_log S) 2000 800000 (if 1 = m_log_write S then 800 else 0)
      log_ctor (log_files S) = Inr (r, L, fl)" by blast
  then show ?thesis using True assms by (intro exI [of _ L] exI [of _ fl]) (simp add: log_write_def)
next
  case False
  then show ?thesis by (intro exI [of _ "the_log S"] exI [of _ "log_files S"]) (simp add: log_write_def)
qed

lemma sql_pool_ok:
  assumes "the_pool S = sql_connection_pool_ctor j1 j2" "0 < m_sql_num S" "m_sql_num S \<le> int SEM_VALUE_MAX"
    and "\<And>i. i < nat (m_sql_num S) \<Longrightarrow> \<exists>c. attempt i = (True, Some c)"
    and "\<And>c. query c ''select username,passwd from user'' = 0" "\<And>c. store c = Some (stored kvs)"
  shows "\<exists>sp. sql_pool attempt query store err False t S =
      Inr (S\<lparr>ws_connPool := Pool_Instance, glob := (glob S)\<lparr>users := users (glob S) ++ map_of (rev kvs)\<rparr>, the_pool := sp\<rparr>) \<and>
    pool_ok sp \<and> length (connList sp) = nat (m_sql_num S)"
proof -
  let ?n = "m_sql_num S"
  have "\<forall>i < nat ?n. fst (attempt i) \<and> snd (attempt i) \<noteq> None" using assms(4) by fastforce
  then obtain p where p: "init_pool attempt ''localhost'' (ws_user S) (ws_passwd S) (ws_dbname S) 3306 ?n (ws_close_log S)
       (sql_connection_pool_ctor j1 j2) = Inr p" "connList p = map (\<lambda>i. the (snd (attempt i))) [0..<nat ?n]" "pool_ok p"
    using init_pool_cases [of ?n attempt "''localhost''" "ws_user S" "ws_passwd S" "ws_dbname S" 3306 "ws_close_log S" j1 j2] assms(2,3)
    by auto
  obtain c cs where c: "connList p = c # cs" using p(2) assms(2) by (cases "connList p") auto
  have "initmysql_result query store err False t h g p = Inr (g\<lparr>users := users g ++ map_of (rev kvs)\<rparr>, p\<lparr>connList := cs @ [c]\<rparr>)" for h g
    using initmysql_loads [OF p(3), of query store kvs err False t h g] assms(5,6) c by simp
  moreover have "pool_ok (p\<lparr>connList := cs @ [c]\<rparr>)" "length (cs @ [c]) = nat ?n"
    using p(3) c arg_cong [OF p(2), of length] by (auto simp: pool_ok_def)
  ultimately show ?thesis using p(1) assms(1)
    by (intro exI [of _ "p\<lparr>connList := cs @ [c]\<rparr>"]) (simp add: sql_pool_def Let_def)
qed

lemma addsig_ok: "1 \<le> sig \<Longrightarrow> sig \<le> 64 \<Longrightarrow> sig \<noteq> 9 \<Longrightarrow> sig \<noteq> 19 \<Longrightarrow>
   add_signal sig f r S = Inr (set_kern (\<lambda>k. k\<lparr>sigactions := (sigactions k)(sig \<mapsto> \<lparr>sa_handler = f, sa_restart = r\<rparr>)\<rparr>) S)"
  by (simp add: add_signal_def addsig_def set_kern_def)

lemma addfd_new:
  assumes "ep = epfd k" "fd \<noteq> ep" "fdflags k fd = Some f" "interest k fd = None"
  shows "\<exists>ev. ev AND EPOLLIN = EPOLLIN \<and>
     addfd ep fd os m k = k\<lparr>interest := (interest k)(fd \<mapsto> ev), fdflags := (fdflags k)(fd \<mapsto> f OR O_NONBLOCK)\<rparr>"
proof -
  let ?ev = "(if 1 = m then EPOLLIN OR EPOLLET OR EPOLLRDHUP else EPOLLIN OR EPOLLHUP)"
  have "addfd ep fd os m k = k\<lparr>interest := (interest k)(fd \<mapsto> if os then ?ev OR EPOLLONESHOT else ?ev), fdflags := (fdflags k)(fd \<mapsto> f OR O_NONBLOCK)\<rparr>"
    using assms by (simp add: addfd_def setnonblocking_def epoll_add_def fcntl_setfl_def fcntl_getfl_def Let_def)
  moreover have "(if os then ?ev OR EPOLLONESHOT else ?ev) AND EPOLLIN = EPOLLIN" by (simp add: epoll_consts)
  ultimately show ?thesis by blast
qed

text \<open>The kernel when the listening socket and the pipe are registered.\<close>

lemma listen_kernel:
  assumes "distinct [sock, ep, p0, p1]"
  defines "k' \<equiv> \<lambda>m k. addfd ep p0 False 0 (snd (utils_setnonblocking p1 (open_fd p1 (open_fd p0 (addfd ep sock False m (epoll_create ep (open_fd sock k)))))))"
  shows "\<exists>e1 e2. e1 AND EPOLLIN = EPOLLIN \<and> e2 AND EPOLLIN = EPOLLIN \<and> interest (k' m k) = [sock \<mapsto> e1, p0 \<mapsto> e2] \<and>
     fdflags (k' m k) = (fdflags k)(sock \<mapsto> O_NONBLOCK, ep \<mapsto> 0, p0 \<mapsto> O_NONBLOCK, p1 \<mapsto> O_NONBLOCK) \<and> epfd (k' m k) = ep \<and>
     sigactions (k' m k) = sigactions k"
proof -
  define k1 where "k1 = epoll_create ep (open_fd sock k)"
  have k1: "epfd k1 = ep" "fdflags k1 = (fdflags k)(sock \<mapsto> 0, ep \<mapsto> 0)" "interest k1 = (\<lambda>_. None)" "sigactions k1 = sigactions k"
    by (simp_all add: k1_def epoll_create_def open_fd_def)
  obtain e1 where e1: "e1 AND EPOLLIN = EPOLLIN"
    "addfd ep sock False m k1 = k1\<lparr>interest := (interest k1)(sock \<mapsto> e1), fdflags := (fdflags k1)(sock \<mapsto> 0 OR O_NONBLOCK)\<rparr>"
    using addfd_new [of ep k1 sock 0 False m] assms(1) k1 by auto
  define k3 where "k3 = snd (utils_setnonblocking p1 (open_fd p1 (open_fd p0 (addfd ep sock False m k1))))"
  have k3: "epfd k3 = ep" "fdflags k3 = (fdflags k)(sock \<mapsto> O_NONBLOCK, ep \<mapsto> 0, p0 \<mapsto> 0, p1 \<mapsto> O_NONBLOCK)"
    "interest k3 = [sock \<mapsto> e1]" "sigactions k3 = sigactions k"
    using assms(1) unfolding k3_def e1(2)
    by (auto simp: k1 utils_setnonblocking_def open_fd_def fcntl_setfl_def fcntl_getfl_def Let_def)
  obtain e2 where e2: "e2 AND EPOLLIN = EPOLLIN"
    "addfd ep p0 False 0 k3 = k3\<lparr>interest := (interest k3)(p0 \<mapsto> e2), fdflags := (fdflags k3)(p0 \<mapsto> 0 OR O_NONBLOCK)\<rparr>"
    using addfd_new [of ep k3 p0 0 False 0] assms(1) k3 by auto
  show ?thesis unfolding k'_def k1_def [symmetric] k3_def [symmetric] e2(2) using e1(1) e2(1) assms(1)
    by (intro exI [of _ e1] exI [of _ e2]) (auto simp: k3)
qed

text \<open>The server after \<open>eventListen\<close>.\<close>

definition listening :: "fd \<Rightarrow> fd \<Rightarrow> fd \<Rightarrow> fd \<Rightarrow> int \<Rightarrow> server \<Rightarrow> server \<Rightarrow> bool" where
  "listening sock ep p0 p1 now S S' \<longleftrightarrow>
     m_listenfd S' = sock \<and> m_pipefd S' = (p0, p1) \<and> u_pipefd S' = Some (p0, p1) \<and> u_epollfd S' = ep \<and> m_TIMESLOT S' = TIMESLOT \<and>
     conns S' = conns S \<and> users_timer S' = users_timer S \<and> m_timer_lst S' = m_timer_lst S \<and> m_pool S' = m_pool S \<and>
     ws_user S' = ws_user S \<and> ws_passwd S' = ws_passwd S \<and> ws_dbname S' = ws_dbname S \<and> the_pool S' = the_pool S \<and>
     m_epollfd (glob S') = ep \<and> m_user_count (glob S') = m_user_count (glob S) \<and> users (glob S') = users (glob S) \<and>
     epfd (kern (glob S')) = ep \<and> alarm_at (kern (glob S')) = Some (now + TIMESLOT) \<and>
     (\<exists>e1 e2. e1 AND EPOLLIN = EPOLLIN \<and> e2 AND EPOLLIN = EPOLLIN \<and> interest (kern (glob S')) = [sock \<mapsto> e1, p0 \<mapsto> e2]) \<and>
     (\<forall>fd \<in> {sock, ep, p0, p1}. fdflags (kern (glob S')) fd \<noteq> None) \<and>
     sigactions (kern (glob S')) SIGALRM = Some \<lparr>sa_handler = Sig_Function ''sig_handler'', sa_restart = False\<rparr> \<and>
     sigactions (kern (glob S')) SIGTERM = Some \<lparr>sa_handler = Sig_Function ''sig_handler'', sa_restart = False\<rparr>"

lemma eventListen_ok:
  assumes "0 \<le> sock" "ep \<noteq> -1" "distinct [sock, ep, p0, p1]"
  shows "\<exists>S'. eventListen sock ep (Some (p0, p1)) now S = Inr S' \<and> listening sock ep p0 p1 now S S'"
proof -
  define k where "k = addfd ep p0 False 0 (snd (utils_setnonblocking p1 (open_fd p1 (open_fd p0
     (addfd ep sock False (m_LISTENTrigmode S) (epoll_create ep (open_fd sock (kern (glob S)))))))))"
  define S1 where "S1 = S\<lparr>m_listenfd := sock,
     linger_opt := (if 0 = m_OPT_LINGER S then Some (0, 1) else if 1 = m_OPT_LINGER S then Some (1, 1) else linger_opt S),
     reuse_addr := True, m_TIMESLOT := TIMESLOT, ws_epollfd := ep, m_pipefd := (p0, p1), glob := (glob S)\<lparr>kern := k, m_epollfd := ep\<rparr>\<rparr>"
  obtain e1 e2 where e: "e1 AND EPOLLIN = EPOLLIN" "e2 AND EPOLLIN = EPOLLIN" "interest k = [sock \<mapsto> e1, p0 \<mapsto> e2]"
     "fdflags k = (fdflags (kern (glob S)))(sock \<mapsto> O_NONBLOCK, ep \<mapsto> 0, p0 \<mapsto> O_NONBLOCK, p1 \<mapsto> O_NONBLOCK)" "epfd k = ep"
    using listen_kernel [OF assms(3), where m = "m_LISTENTrigmode S" and k = "kern (glob S)"] unfolding k_def by blast
  let ?sig = "\<lambda>s f r. set_kern (\<lambda>k. k\<lparr>sigactions := (sigactions k)(s \<mapsto> \<lparr>sa_handler = f, sa_restart = r\<rparr>)\<rparr>)"
  let ?S2 = "?sig SIGTERM (Sig_Function ''sig_handler'') False (?sig SIGALRM (Sig_Function ''sig_handler'') False (?sig SIGPIPE Sig_Ignore True S1))"
  let ?S3 = "(set_kern (alarm now TIMESLOT) ?S2)\<lparr>u_pipefd := Some (p0, p1), u_epollfd := ep\<rparr>"
  have "eventListen sock ep (Some (p0, p1)) now S =
     bind_r (add_signal SIGPIPE Sig_Ignore True S1) (\<lambda>S.
     bind_r (add_signal SIGALRM (Sig_Function ''sig_handler'') False S) (\<lambda>S.
     bind_r (add_signal SIGTERM (Sig_Function ''sig_handler'') False S) (\<lambda>S.
       Inr ((set_kern (alarm now TIMESLOT) S)\<lparr>u_pipefd := Some (p0, p1), u_epollfd := ep\<rparr>))))"
    using assms(1,2)
    by (cases S; cases "glob S") (simp add: eventListen_def Let_def S1_def k_def set_kern_def utils_init_def utils_addfd_eq)
  then have "eventListen sock ep (Some (p0, p1)) now S = Inr ?S3"
    by (simp add: addsig_ok SIGPIPE_def SIGALRM_def SIGTERM_def)
  moreover have "listening sock ep p0 p1 now S ?S3"
    unfolding listening_def using e assms(3)
    by (auto simp: S1_def set_kern_def alarm_def TIMESLOT_def SIGPIPE_def SIGALRM_def SIGTERM_def)
  ultimately show ?thesis by blast
qed

lemma listening_starts:
  assumes "listening sock ep p0 p1 now S S'" "distinct [sock, ep, p0, p1]" "creds_ok S" "in_order (m_timer_lst S) []" "m_user_count (glob S) = 0"
  shows "main_start (S', now)"
proof -
  obtain e1 e2 where i: "interest (kern (glob S')) = [sock \<mapsto> e1, p0 \<mapsto> e2]" using assms(1) by (auto simp: listening_def)
  have c: "connected S' = {}" using i assms(1) by (auto simp: connected_def listening_def split: if_splits)
  have "fds_ok S'" using assms(1,2,5) i unfolding fds_ok_def c Let_def by (auto simp: listening_def split: if_splits)
  moreover have "creds_ok S'" using assms(1,3) by (simp add: creds_ok_def listening_def)
  moreover have "timers_ok S' e" for e
    using assms(1,4) unfolding timers_ok_def owns_def c by (intro exI [of _ "[]"]) (simp add: listening_def)
  ultimately show ?thesis by (simp add: main_start_def server_ok_def c)
qed

text \<open>The memory of a process that has just begun.\<close>

definition fresh_process :: "server \<Rightarrow> bool" where
  "fresh_process M \<longleftrightarrow> the_log M = log_ctor \<and> (\<exists>j1 j2. the_pool M = sql_connection_pool_ctor j1 j2) \<and>
     head (m_timer_lst M) = None \<and> m_user_count (glob M) = 0 \<and> users (glob M) = Map.empty \<and>
     (\<forall>fd. length (sql_user (conns M fd)) = 100 \<and> length (sql_passwd (conns M fd)) = 100 \<and> length (sql_name (conns M fd)) = 100)"

text \<open>The calls that the start-up makes succeed; \<open>kvs\<close> are the rows of the user table.\<close>

definition calls_succeed :: "start_env \<Rightarrow> (string \<times> string) list \<Rightarrow> bool" where
  "calls_succeed E kvs \<longleftrightarrow> se_cwd E \<noteq> None \<and> (\<forall>i. \<exists>c. se_attempt E i = (True, Some c)) \<and>
     (\<forall>c. se_query E c ''select username,passwd from user'' = 0 \<and> se_store E c = Some (stored kvs)) \<and>
     (\<forall>i. se_create E i = 0 \<and> se_detach E i = 0) \<and> 0 \<le> se_sock E \<and> se_epoll E \<noteq> -1 \<and>
     (case se_pipe E of None \<Rightarrow> False | Some (p0, p1) \<Rightarrow> 0 \<le> p0 \<and> 0 \<le> p1 \<and> distinct [se_sock E, se_epoll E, p0, p1])"

lemma trig_mode_frame [simp]:
  "conns (trig_mode S) = conns S" "m_timer_lst (trig_mode S) = m_timer_lst S" "glob (trig_mode S) = glob S" "the_pool (trig_mode S) = the_pool S"
  "ws_user (trig_mode S) = ws_user S" "ws_passwd (trig_mode S) = ws_passwd S" "ws_dbname (trig_mode S) = ws_dbname S" "m_pool (trig_mode S) = m_pool S"
  by (simp_all add: trig_mode_def)

section \<open>Property\<close>


definition sample_env :: start_env where
  "sample_env = \<lparr>se_cwd = Some ''/srv'', se_can_open = (\<lambda>_. False), se_tm = sample_tm, se_now = 100, se_attempt = (\<lambda>i. (True, Some i)),
     se_query = (\<lambda>_ _. 0), se_store = (\<lambda>_. Some (stored [(''ann'', ''pw'')])), se_error = (\<lambda>_. []), se_create = (\<lambda>_. 0),
     se_detach = (\<lambda>_. 0), se_pool_memory = sample_tp 8 10, se_sock = 4, se_epoll = 3, se_pipe = Some (5, 6)\<rparr>"


end
