(* ===== verification/Consistent_Hash.thy ===== *)
theory Consistent_Hash
  imports Prelude
begin

text \<open>
  The hash ring of the instant-messaging server, \<open>ConsistentHash\<close> of
  oceanim/util/consistent_hash.h. The std::map from 32-bit hashes to virtual nodes is the
  list of its pairs in ascending key order and an iterator is a position in that list, its
  length being end(). The checksum butil::crc32c::Extend is compiled code of a library: it is
  the parameter \<open>Extend\<close> of the operations that hash a node. \<open>Describe\<close> is modelled up to the
  release of its array, which the source deletes with the wrong form of delete.
\<close>

section \<open>Virtual nodes and their hash\<close>

record vnode_t =
  node_id :: int
  vnode_id :: int

definition vnode_default :: vnode_t where
  "vnode_default = \<lparr>node_id = 0, vnode_id = 0\<rparr>"

definition int_bytes :: "int \<Rightarrow> 8 word list" where
  "int_bytes i = map (\<lambda>k. word_of_int (i div 256 ^ k)) [0..<4]"

definition crc32c_value :: "(32 word \<Rightarrow> 8 word list \<Rightarrow> 32 word) \<Rightarrow> 8 word list \<Rightarrow> 32 word" where
  "crc32c_value Extend bytes = Extend 0 bytes"

definition sizeof_pointer :: nat where
  "sizeof_pointer = 8"

definition hash_vnode :: "(32 word \<Rightarrow> 8 word list \<Rightarrow> 32 word) \<Rightarrow> vnode_t \<Rightarrow> 32 word" where
  "hash_vnode Extend val =
     crc32c_value Extend (take sizeof_pointer (int_bytes (node_id val) @ int_bytes (vnode_id val)))"

section \<open>std::map\<close>

fun map_emplace :: "'k::linorder \<Rightarrow> 'v \<Rightarrow> ('k \<times> 'v) list \<Rightarrow> ('k \<times> 'v) list \<times> nat \<times> bool" where
  "map_emplace k v [] = ([(k, v)], 0, True)"
| "map_emplace k v (p # ps) =
     (if k < fst p then ((k, v) # p # ps, 0, True)
      else if k = fst p then (p # ps, 0, False)
      else (case map_emplace k v ps of (ps', i, b) \<Rightarrow> (p # ps', Suc i, b)))"

definition map_erase_key :: "'k \<Rightarrow> ('k \<times> 'v) list \<Rightarrow> ('k \<times> 'v) list \<times> nat" where
  "map_erase_key k ps =
     (let ps' = filter (\<lambda>p. fst p \<noteq> k) ps in (ps', length ps - length ps'))"

definition map_erase_at :: "nat \<Rightarrow> ('k \<times> 'v) list \<Rightarrow> ('k \<times> 'v) list result" where
  "map_erase_at i ps = (if i < length ps then Inr (take i ps @ drop (Suc i) ps) else Inl Undefined)"

definition map_lower_bound :: "'k::linorder \<Rightarrow> ('k \<times> 'v) list \<Rightarrow> nat" where
  "map_lower_bound k ps = length (takeWhile (\<lambda>p. fst p < k) ps)"

definition map_deref :: "('k \<times> 'v) list \<Rightarrow> nat \<Rightarrow> ('k \<times> 'v) result" where
  "map_deref ps i = (if i < length ps then Inr (ps ! i) else Inl Undefined)"

section \<open>The ring\<close>

record ConsistentHash =
  nodes :: "(32 word \<times> vnode_t) list"

definition ch_ctor :: ConsistentHash where
  "ch_ctor = \<lparr>nodes = []\<rparr>"

definition ch_size :: "ConsistentHash \<Rightarrow> nat" where
  "ch_size S = length (nodes S)"

definition ch_empty :: "ConsistentHash \<Rightarrow> bool" where
  "ch_empty S \<longleftrightarrow> nodes S = []"

definition ch_insert ::
    "(32 word \<Rightarrow> 8 word list \<Rightarrow> 32 word) \<Rightarrow> vnode_t \<Rightarrow> ConsistentHash \<Rightarrow> ConsistentHash \<times> nat \<times> bool" where
  "ch_insert Extend node S =
     (case map_emplace (hash_vnode Extend node) node (nodes S) of
        (ns, it, fresh) \<Rightarrow> (S\<lparr>nodes := ns\<rparr>, it, fresh))"

definition ch_earse_at :: "nat \<Rightarrow> ConsistentHash \<Rightarrow> ConsistentHash result" where
  "ch_earse_at it S = bind_r (map_erase_at it (nodes S)) (\<lambda>ns. Inr (S\<lparr>nodes := ns\<rparr>))"

definition ch_earse ::
    "(32 word \<Rightarrow> 8 word list \<Rightarrow> 32 word) \<Rightarrow> vnode_t \<Rightarrow> ConsistentHash \<Rightarrow> ConsistentHash \<times> nat" where
  "ch_earse Extend node S =
     (case map_erase_key (hash_vnode Extend node) (nodes S) of (ns, n) \<Rightarrow> (S\<lparr>nodes := ns\<rparr>, n))"

text \<open>\<open>ndebug\<close> tells whether the build defines NDEBUG, which removes the assertion.\<close>

definition ch_find :: "bool \<Rightarrow> ConsistentHash \<Rightarrow> 32 word \<Rightarrow> int result" where
  "ch_find ndebug S hash =
     bind_r (guard_r Assert_Failed (ndebug \<or> nodes S = [])) (\<lambda>_.
       let iter = map_lower_bound hash (nodes S);
           iter = (if iter = length (nodes S) then 0 else iter)
       in bind_r (map_deref (nodes S) iter) (\<lambda>p. Inr (node_id (snd p))))"

section \<open>Describe\<close>

definition UINT32_MAX :: "32 word" where
  "UINT32_MAX = 4294967295"

definition max_node_id :: "(32 word \<times> vnode_t) list \<Rightarrow> int" where
  "max_node_id ns = fold (\<lambda>p m. max m (node_id (snd p))) ns (-1)"

definition add_sum :: "64 word list \<Rightarrow> int \<Rightarrow> 64 word \<Rightarrow> 64 word list result" where
  "add_sum sums i n = bind_r (arr_rd sums i) (\<lambda>s. arr_wr sums i (s + n))"

fun arc_loop :: "32 word \<Rightarrow> (32 word \<times> vnode_t) list \<Rightarrow> 64 word list \<Rightarrow> 64 word list result" where
  "arc_loop priv [] sums = Inr sums"
| "arc_loop priv (p # ps) sums =
     bind_r (add_sum sums (node_id (snd p)) (ucast (fst p - priv))) (arc_loop (fst p) ps)"

definition describe_sums :: "ConsistentHash \<Rightarrow> 64 word list result" where
  "describe_sums S =
     (case nodes S of
        [] \<Rightarrow> Inl Undefined
      | i # rest \<Rightarrow>
          (let m = max_node_id (nodes S); j = last (nodes S) in
             bind_r (guard_r Undefined (m < 2147483647)) (\<lambda>_.
             bind_r (add_sum (replicate (nat (m + 1)) 0) (node_id (snd i))
                       (ucast (UINT32_MAX - fst j + fst i)))
               (arc_loop (fst i) rest))))"

definition Describe :: "ConsistentHash \<Rightarrow> string result" where
  "Describe S =
     bind_r (describe_sums S) (\<lambda>sums.
       Inr (concat (map (\<lambda>i. ''node='' @ show_nat i @ ''contains='' @ show_int (sint (sums ! i)) @ '' '')
                        [0..<length sums])
            @ [CHR 0x0A]))"

section \<open>The ring as a set of points\<close>

definition ring_ok :: "ConsistentHash \<Rightarrow> bool" where
  "ring_ok S \<longleftrightarrow> sorted_wrt (<) (map fst (nodes S))"

text \<open>The specification of a lookup: the point reached first when going clockwise from the hash.\<close>

definition clockwise_owner :: "(32 word \<times> vnode_t) set \<Rightarrow> 32 word \<Rightarrow> 32 word \<times> vnode_t \<Rightarrow> bool" where
  "clockwise_owner N h p \<longleftrightarrow> p \<in> N \<and> (\<forall>q\<in>N. fst p - h \<le> fst q - h)"

lemma word_dist_less:
  fixes h k k' :: "32 word"
  shows "h \<le> k \<Longrightarrow> h \<le> k' \<Longrightarrow> k \<le> k' \<Longrightarrow> k - h \<le> k' - h"
    and "h \<le> k \<Longrightarrow> k' < h \<Longrightarrow> k - h \<le> k' - h"
    and "k < h \<Longrightarrow> k' < h \<Longrightarrow> k \<le> k' \<Longrightarrow> k - h \<le> k' - h"
proof -
  have lt: "unat k < 2 ^ 32" "unat k' < 2 ^ 32" "unat h < 2 ^ 32"
    using unsigned_less [of k] unsigned_less [of k'] unsigned_less [of h] by simp_all
  have sz: "size k = 32" "size k' = 32" "size h = 32" by (simp_all add: word_size)
  show "h \<le> k \<Longrightarrow> h \<le> k' \<Longrightarrow> k \<le> k' \<Longrightarrow> k - h \<le> k' - h"
    by (simp add: word_le_nat_alt unat_sub_if_size sz)
  show "h \<le> k \<Longrightarrow> k' < h \<Longrightarrow> k - h \<le> k' - h"
    using lt by (simp add: word_le_nat_alt word_less_nat_alt unat_sub_if_size sz)
  show "k < h \<Longrightarrow> k' < h \<Longrightarrow> k \<le> k' \<Longrightarrow> k - h \<le> k' - h"
    using lt by (simp add: word_le_nat_alt word_less_nat_alt unat_sub_if_size sz)
qed

lemma sorted_head_le:
  fixes p :: "'k::linorder \<times> 'v"
  assumes "sorted_wrt (<) (map fst (p # ps))" and "q \<in> set (p # ps)"
  shows "fst p \<le> fst q"
  using assms by (auto simp: less_imp_le)

lemma lower_bound_split:
  fixes k :: "'k::linorder"
  assumes "sorted_wrt (<) (map fst ps)"
  obtains a b where "ps = a @ b" and "map_lower_bound k ps = length a"
    and "\<forall>p\<in>set a. fst p < k" and "\<forall>p\<in>set b. k \<le> fst p"
proof
  let ?a = "takeWhile (\<lambda>p. fst p < k) ps" and ?b = "dropWhile (\<lambda>p. fst p < k) ps"
  show "ps = ?a @ ?b" and "map_lower_bound k ps = length ?a"
    by (simp_all add: map_lower_bound_def)
  show "\<forall>p\<in>set ?a. fst p < k" by (auto dest: set_takeWhileD)
  show "\<forall>p\<in>set ?b. k \<le> fst p"
  proof (cases ?b)
    case Nil
    then show ?thesis unfolding Nil by simp
  next
    case (Cons q qs)
    have "sorted_wrt (<) (map fst ?b)"
      using assms by (metis dropWhile_eq_drop drop_map sorted_wrt_drop)
    moreover have "\<not> fst q < k" using Cons hd_dropWhile [of "\<lambda>p. fst p < k" ps] by auto
    ultimately show ?thesis using sorted_head_le [of q qs] Cons by fastforce
  qed
qed

lemma ch_find_owner:
  assumes "ring_ok S" and "nodes S \<noteq> []"
  obtains p where "clockwise_owner (set (nodes S)) h p" and "ch_find True S h = Inr (node_id (snd p))"
proof -
  note srt = assms(1) [unfolded ring_ok_def]
  obtain a b where ab: "nodes S = a @ b" "map_lower_bound h (nodes S) = length a"
    "\<forall>p\<in>set a. fst p < h" "\<forall>p\<in>set b. h \<le> fst p"
    using lower_bound_split [OF srt] by metis
  show thesis
  proof (cases b)
    case Nil
    then obtain p a' where a: "a = p # a'" using ab(1) assms(2) by (cases a) auto
    have "clockwise_owner (set (nodes S)) h p"
      using ab a Nil sorted_head_le [of p a'] srt
      by (auto simp: clockwise_owner_def intro!: word_dist_less(3))
    moreover have "ch_find True S h = Inr (node_id (snd p))"
      using ab a Nil by (simp add: ch_find_def map_deref_def)
    ultimately show thesis by (rule that)
  next
    case (Cons p b')
    have "sorted_wrt (<) (map fst b)" using srt ab(1) by (simp add: sorted_wrt_append)
    then have "\<forall>q\<in>set b. fst p - h \<le> fst q - h"
      using ab(4) Cons sorted_head_le [of p b'] by (auto intro!: word_dist_less(1))
    moreover have "\<forall>q\<in>set a. fst p - h \<le> fst q - h"
      using ab(3,4) Cons by (auto intro!: word_dist_less(2))
    ultimately have "clockwise_owner (set (nodes S)) h p"
      using ab(1) Cons by (auto simp: clockwise_owner_def)
    moreover have "ch_find True S h = Inr (node_id (snd p))"
      using ab Cons by (simp add: ch_find_def map_deref_def nth_append)
    ultimately show thesis by (rule that)
  qed
qed

lemma ring_point_unique: "ring_ok S \<Longrightarrow> p \<in> set (nodes S) \<Longrightarrow> q \<in> set (nodes S) \<Longrightarrow> fst p = fst q \<Longrightarrow> p = q"
  unfolding ring_ok_def
  by (metis distinct_map inj_onD strict_sorted_iff)

lemma clockwise_owner_unique:
  "ring_ok S \<Longrightarrow> clockwise_owner (set (nodes S)) h p \<Longrightarrow> clockwise_owner (set (nodes S)) h q \<Longrightarrow> p = q"
  unfolding clockwise_owner_def
  by (metis add_right_imp_eq diff_add_cancel order_antisym ring_point_unique)

lemma ch_find_eq:
  assumes "ring_ok S" and "clockwise_owner (set (nodes S)) h p"
  shows "ch_find True S h = Inr (node_id (snd p))"
proof -
  have "nodes S \<noteq> []" using assms(2) by (auto simp: clockwise_owner_def)
  then show ?thesis using ch_find_owner [OF assms(1)] clockwise_owner_unique [OF assms] by metis
qed

section \<open>Insertion and removal\<close>

lemma map_emplace_set:
  assumes "sorted_wrt (<) (map fst ps)" and "map_emplace k v ps = (ps', i, b)"
  shows "b = (k \<notin> fst ` set ps) \<and> set ps' = (if b then insert (k, v) (set ps) else set ps)
         \<and> sorted_wrt (<) (map fst ps') \<and> i < length ps' \<and> fst (ps' ! i) = k"
  using assms
proof (induction ps arbitrary: ps' i b)
  case (Cons p ps)
  show ?case
  proof (cases "k \<le> fst p")
    case True
    then show ?thesis using Cons.prems by (auto split: if_splits) (metis fst_conv less_trans)
  next
    case False
    obtain qs j c where e: "map_emplace k v ps = (qs, j, c)" by (metis prod_cases3)
    note ih = Cons.IH [OF _ e]
    have "sorted_wrt (<) (map fst ps)" using Cons.prems(1) by simp
    note ih = ih [OF this]
    have r: "ps' = p # qs" "i = Suc j" "b = c" using Cons.prems(2) e False
      by (simp_all add: not_le split: if_splits)
    show ?thesis using ih r False Cons.prems(1) by auto
  qed
qed auto

lemma ch_insert_set:
  assumes "ring_ok S" and "ch_insert Extend v S = (T, i, b)"
  shows "ring_ok T" and "b \<longleftrightarrow> hash_vnode Extend v \<notin> fst ` set (nodes S)"
    and "set (nodes T) = (if b then insert (hash_vnode Extend v, v) (set (nodes S)) else set (nodes S))"
    and "i < length (nodes T) \<and> fst (nodes T ! i) = hash_vnode Extend v"
proof -
  obtain ns where e: "map_emplace (hash_vnode Extend v) v (nodes S) = (ns, i, b)" and T: "T = S\<lparr>nodes := ns\<rparr>"
    using assms(2) by (auto simp: ch_insert_def split: prod.splits)
  note m = map_emplace_set [OF assms(1) [unfolded ring_ok_def] e]
  show "ring_ok T" and "b \<longleftrightarrow> hash_vnode Extend v \<notin> fst ` set (nodes S)"
    and "set (nodes T) = (if b then insert (hash_vnode Extend v, v) (set (nodes S)) else set (nodes S))"
    and "i < length (nodes T) \<and> fst (nodes T ! i) = hash_vnode Extend v"
    using m T by (simp_all add: ring_ok_def)
qed

lemma sorted_filter_fst: "sorted_wrt (<) (map fst ps) \<Longrightarrow> sorted_wrt (<) (map fst (filter P ps))"
  by (induction ps) auto

lemma ch_earse_set:
  assumes "ring_ok S" and "ch_earse Extend v S = (T, n)"
  shows "ring_ok T" and "set (nodes T) = {p \<in> set (nodes S). fst p \<noteq> hash_vnode Extend v}"
  using assms by (auto simp: ch_earse_def map_erase_key_def Let_def ring_ok_def intro: sorted_filter_fst)

lemma map_emplace_filter:
  assumes "sorted_wrt (<) (map fst ps)" and "map_emplace k v ps = (ps', i, True)"
  shows "filter (\<lambda>p. fst p \<noteq> k) ps' = ps \<and> length ps' = Suc (length ps)"
  using assms
proof (induction ps arbitrary: ps' i)
  case (Cons p ps)
  show ?case
  proof (cases "k < fst p")
    case True
    then show ?thesis using Cons.prems by (force simp: filter_id_conv)
  next
    case False
    then obtain qs j where e: "map_emplace k v ps = (qs, j, True)" and r: "ps' = p # qs" "k \<noteq> fst p"
      using Cons.prems(2) by (auto split: if_splits prod.splits)
    then show ?thesis using Cons.IH [OF _ e] Cons.prems(1) by auto
  qed
qed auto

lemma ch_insert_earse:
  assumes "ring_ok S" and "ch_insert Extend v S = (T, i, True)"
  shows "ch_earse Extend v T = (S, 1)"
proof -
  obtain ns where e: "map_emplace (hash_vnode Extend v) v (nodes S) = (ns, i, True)" and T: "T = S\<lparr>nodes := ns\<rparr>"
    using assms(2) by (auto simp: ch_insert_def split: prod.splits)
  show ?thesis
    using map_emplace_filter [OF assms(1) [unfolded ring_ok_def] e] T
    by (simp add: ch_earse_def map_erase_key_def)
qed

lemma ch_find_insert:
  assumes "ring_ok S" and "nodes S \<noteq> []" and "ch_insert Extend v S = (T, i, True)"
  shows "if clockwise_owner (set (nodes T)) h (hash_vnode Extend v, v)
         then ch_find True T h = Inr (node_id v) else ch_find True T h = ch_find True S h"
proof -
  note ins = ch_insert_set [OF assms(1,3)]
  have "nodes T \<noteq> []" using ins(4) by auto
  then obtain p where p: "clockwise_owner (set (nodes T)) h p" "ch_find True T h = Inr (node_id (snd p))"
    using ch_find_owner [OF ins(1)] by metis
  show ?thesis
  proof (cases "p = (hash_vnode Extend v, v)")
    case True
    then show ?thesis using p by simp
  next
    case False
    then have "clockwise_owner (set (nodes S)) h p" using p(1) ins(3) by (auto simp: clockwise_owner_def)
    then show ?thesis
      using False p clockwise_owner_unique [OF ins(1) p(1)] ch_find_eq [OF assms(1)] by metis
  qed
qed

section \<open>How much of the ring a node owns\<close>

fun arc_total :: "32 word \<Rightarrow> (32 word \<times> vnode_t) list \<Rightarrow> int \<Rightarrow> nat" where
  "arc_total priv [] n = 0"
| "arc_total priv (p # ps) n =
     (if node_id (snd p) = n then unat (fst p) - unat priv else 0) + arc_total (fst p) ps n"

fun arc_owner :: "(32 word \<times> vnode_t) list \<Rightarrow> 32 word \<Rightarrow> int option" where
  "arc_owner [] h = None"
| "arc_owner (p # ps) h = (if h \<le> fst p then Some (node_id (snd p)) else arc_owner ps h)"

lemma card_word_interval: "card {h :: 32 word. a < h \<and> h \<le> b} = unat b - unat a"
proof -
  have "unat ` {h. a < h \<and> h \<le> b} = {unat a<..unat b}"
  proof
    show "{unat a<..unat b} \<subseteq> unat ` {h. a < h \<and> h \<le> b}"
    proof
      fix x assume x: "x \<in> {unat a<..unat b}"
      moreover have "unat b < 2 ^ LENGTH(32)" by (rule unsigned_less)
      ultimately have "x < 2 ^ 32" by simp
      then have "unat (of_nat x :: 32 word) = x" by (simp add: unsigned_of_nat take_bit_nat_eq_self)
      then show "x \<in> unat ` {h. a < h \<and> h \<le> b}"
        using x by (intro image_eqI [of _ _ "of_nat x"]) (auto simp: word_less_nat_alt word_le_nat_alt)
    qed
  qed (auto simp: word_less_nat_alt word_le_nat_alt)
  moreover have "inj_on unat {h. a < h \<and> h \<le> b}"
    by (rule inj_onI) (simp add: word_unat_eq_iff)
  then have "card (unat ` {h. a < h \<and> h \<le> b}) = card {h. a < h \<and> h \<le> b}" by (rule card_image)
  ultimately show ?thesis by simp
qed

lemma card_arc_owner:
  assumes "sorted_wrt (<) (map fst ps)" and "\<forall>p\<in>set ps. priv < fst p"
  shows "card {h. priv < h \<and> arc_owner ps h = Some n} = arc_total priv ps n"
  using assms
proof (induction ps arbitrary: priv)
  case (Cons p ps)
  let ?A = "{h. priv < h \<and> h \<le> fst p \<and> node_id (snd p) = n}" and ?B = "{h. fst p < h \<and> arc_owner ps h = Some n}"
  have "{h. priv < h \<and> arc_owner (p # ps) h = Some n} = ?A \<union> ?B"
    using Cons.prems(2) by (auto simp: not_le split: if_splits)
  moreover have "card (?A \<union> ?B) = card ?A + card ?B"
    by (rule card_Un_disjoint) auto
  moreover have "card ?A = (if node_id (snd p) = n then unat (fst p) - unat priv else 0)"
    by (simp add: card_word_interval)
  moreover have "card ?B = arc_total (fst p) ps n"
    by (rule Cons.IH) (use Cons.prems in auto)
  ultimately show ?case by simp
qed simp

lemma ch_find_arc:
  assumes "ring_ok S" and "nodes S = i # rest"
  shows "ch_find True S h = Inr (case arc_owner (nodes S) h of Some n \<Rightarrow> n | None \<Rightarrow> node_id (snd i))"
proof -
  have "arc_owner ps h = (if map_lower_bound h ps < length ps
          then Some (node_id (snd (ps ! map_lower_bound h ps))) else None)" for ps
    by (induction ps) (auto simp: map_lower_bound_def split: if_splits)
  moreover have "map_lower_bound h (nodes S) \<le> length (nodes S)"
    by (simp add: map_lower_bound_def length_takeWhile_le)
  ultimately show ?thesis
    using assms(2) by (cases "map_lower_bound h (nodes S) = length (nodes S)")
      (simp_all add: ch_find_def map_deref_def del: arc_owner.simps)
qed

lemma arc_owner_None: "arc_owner ps h = None \<longleftrightarrow> (\<forall>p\<in>set ps. fst p < h)"
  by (induction ps) (auto simp: not_le)

lemma sorted_below_last:
  fixes h :: "'k::linorder"
  assumes "sorted_wrt (<) (map fst ps)" and "ps \<noteq> []"
  shows "(\<forall>p\<in>set ps. fst p < h) \<longleftrightarrow> fst (last ps) < h"
proof -
  have "q \<in> set ps \<Longrightarrow> fst q \<le> fst (last ps)" for q
    using assms(1) by (induction ps) (auto simp: less_imp_le)
  then show ?thesis using assms(2) by (meson last_in_set le_less_trans)
qed

lemma card_word_atMost: "card {h :: 32 word. h \<le> b} = Suc (unat b)"
proof -
  have "{h. h \<le> b} = insert 0 {h. 0 < h \<and> h \<le> b}" by (auto simp: word_gt_0)
  then show ?thesis by (simp add: card_word_interval)
qed

lemma le_UINT32_MAX: "h \<le> UINT32_MAX"
proof -
  have "UINT32_MAX = (-1 :: 32 word)" by (simp add: UINT32_MAX_def)
  then show ?thesis by (metis word_order.extremum)
qed

lemma card_word_above: "card {h :: 32 word. a < h} = unat UINT32_MAX - unat a"
proof -
  have "{h. a < h} = {h. a < h \<and> h \<le> UINT32_MAX}" using le_UINT32_MAX by blast
  then show ?thesis by (simp only: card_word_interval)
qed

lemma card_owned:
  assumes "ring_ok S" and "nodes S = i # rest"
  shows "card {h. ch_find True S h = Inr n}
         = (if node_id (snd i) = n then Suc (unat (fst i)) + (unat UINT32_MAX - unat (fst (last (nodes S)))) else 0)
           + arc_total (fst i) rest n"
proof -
  note srt = assms(1) [unfolded ring_ok_def assms(2)]
  let ?A = "{h. h \<le> fst i \<and> node_id (snd i) = n}" and ?B = "{h. fst i < h \<and> arc_owner rest h = Some n}"
    and ?C = "{h. fst (last (nodes S)) < h \<and> node_id (snd i) = n}"
  have none: "fst (last (nodes S)) < h \<longleftrightarrow> fst i < h \<and> arc_owner rest h = None" for h
    using sorted_below_last [OF srt, of h] assms(2) by (simp add: arc_owner_None)
  have "ch_find True S h = Inr n \<longleftrightarrow> h \<in> ?A \<union> ?B \<union> ?C" for h
    using ch_find_arc [OF assms, of h] assms(2) none [of h]
    by (cases "arc_owner rest h") (auto simp: not_le)
  then have "{h. ch_find True S h = Inr n} = ?A \<union> ?B \<union> ?C" by blast
  moreover have "card (?A \<union> ?B \<union> ?C) = card (?A \<union> ?B) + card ?C"
    by (rule card_Un_disjoint, simp, simp, unfold disjoint_iff)
      (metis (mono_tags, lifting) Un_iff leD mem_Collect_eq none option.distinct(1))
  moreover have "card (?A \<union> ?B) = card ?A + card ?B"
    by (rule card_Un_disjoint) auto
  moreover have "card ?B = arc_total (fst i) rest n"
    by (rule card_arc_owner) (use srt in auto)
  ultimately show ?thesis by (simp add: card_word_atMost card_word_above)
qed

lemma ucast_diff: "(a :: 32 word) \<le> b \<Longrightarrow> (ucast (b - a) :: 64 word) = of_nat (unat b - unat a)"
  by (simp flip: unat_sub)

lemma arc_loop_sums:
  assumes "sorted_wrt (<) (map fst ps)" and "\<forall>p\<in>set ps. priv < fst p"
    and "\<forall>p\<in>set ps. 0 \<le> node_id (snd p) \<and> node_id (snd p) < int (length sums)"
  shows "\<exists>sums'. arc_loop priv ps sums = Inr sums' \<and> length sums' = length sums
           \<and> (\<forall>n<length sums. sums' ! n = sums ! n + of_nat (arc_total priv ps (int n)))"
  using assms
proof (induction ps arbitrary: priv sums)
  case (Cons p ps)
  let ?i = "nat (node_id (snd p))"
  let ?sums = "sums[?i := sums ! ?i + ucast (fst p - priv)]"
  have i: "0 \<le> node_id (snd p)" "node_id (snd p) < int (length sums)" using Cons.prems(3) by auto
  have "\<exists>sums'. arc_loop (fst p) ps ?sums = Inr sums' \<and> length sums' = length ?sums
          \<and> (\<forall>n<length ?sums. sums' ! n = ?sums ! n + of_nat (arc_total (fst p) ps (int n)))"
    by (rule Cons.IH) (use Cons.prems in auto)
  moreover have "ucast (fst p - priv) = (of_nat (unat (fst p) - unat priv) :: 64 word)"
    using Cons.prems(2) by (intro ucast_diff) (simp add: less_imp_le)
  ultimately show ?case
    using i by (auto simp: add_sum_def nth_list_update)
qed simp

lemma max_node_id_bound:
  "m \<le> fold (\<lambda>p m. max m (node_id (snd p))) ns m
   \<and> (\<forall>p\<in>set ns. node_id (snd p) \<le> fold (\<lambda>p m. max m (node_id (snd p))) ns m)"
  "m < u \<Longrightarrow> \<forall>p\<in>set ns. node_id (snd p) < u \<Longrightarrow> fold (\<lambda>p m. max m (node_id (snd p))) ns m < u"
proof (induction ns arbitrary: m)
  case (Cons p ns)
  case 1
  then show ?case using Cons(1) [of "max m (node_id (snd p))"] by auto
  case 2
  then show ?case using Cons(2) [of "max m (node_id (snd p))"] by auto
qed auto

lemma first_arc_width:
  assumes "(f :: 32 word) \<le> l"
  shows "(ucast (UINT32_MAX - l + f) :: 64 word) = of_nat (unat UINT32_MAX - unat l + unat f)"
proof -
  have m: "unat UINT32_MAX = 2 ^ 32 - 1" by (simp add: UINT32_MAX_def)
  have "unat l < 2 ^ LENGTH(32)" by (rule unsigned_less)
  have d: "unat (UINT32_MAX - l) = unat UINT32_MAX - unat l" using le_UINT32_MAX by (rule unat_sub)
  have "unat f \<le> unat l" using assms by (simp add: word_le_nat_alt)
  then have "unat (UINT32_MAX - l) + unat f < 2 ^ LENGTH(32)"
    using d m \<open>unat l < _\<close> by simp
  then have "unat (UINT32_MAX - l + f) = unat (UINT32_MAX - l) + unat f" by (simp only: unat_add_lem)
  then show ?thesis using d by (metis of_nat_unat)
qed

lemma card_owned_bound: "card {h :: 32 word. P h} < 2 ^ 64"
proof -
  have "card {h :: 32 word. P h} \<le> card {h. h \<le> UINT32_MAX}"
    by (intro card_mono) (auto simp: le_UINT32_MAX)
  then show ?thesis by (simp add: card_word_atMost UINT32_MAX_def)
qed

lemma unat_of_nat_64: "x < 2 ^ 64 \<Longrightarrow> unat (of_nat x :: 64 word) = x"
  by (simp add: unsigned_of_nat take_bit_nat_eq_self)

lemma describe_sums_counts:
  assumes "ring_ok S" and "nodes S \<noteq> []"
    and ids: "\<forall>p\<in>set (nodes S). 0 \<le> node_id (snd p) \<and> node_id (snd p) < 2147483647"
  shows "\<exists>sums. describe_sums S = Inr sums \<and> int (length sums) = max_node_id (nodes S) + 1
           \<and> (\<forall>n<length sums. card {h. ch_find True S h = Inr (int n)}
                = unat (sums ! n) + (if node_id (snd (hd (nodes S))) = int n then 1 else 0))"
proof -
  obtain i rest where ns: "nodes S = i # rest" using assms(2) by (cases "nodes S") auto
  let ?m = "max_node_id (nodes S)"
  let ?first = "ucast (UINT32_MAX - fst (last (nodes S)) + fst i) :: 64 word"
  let ?init = "(replicate (nat (?m + 1)) 0)[nat (node_id (snd i)) := ?first]"
  note srt = assms(1) [unfolded ring_ok_def ns]
  have m: "\<forall>p\<in>set (nodes S). node_id (snd p) \<le> ?m" "?m < 2147483647"
    using max_node_id_bound(1) [of "-1" "nodes S"] max_node_id_bound(2) [of "-1" 2147483647 "nodes S"] ids
    by (auto simp: max_node_id_def)
  have i: "0 \<le> node_id (snd i)" "node_id (snd i) \<le> ?m" using ids m(1) ns by auto
  obtain sums where sums: "arc_loop (fst i) rest ?init = Inr sums" "length sums = length ?init"
      "\<forall>n<length ?init. sums ! n = ?init ! n + of_nat (arc_total (fst i) rest (int n))"
    using arc_loop_sums [of rest "fst i" ?init] srt ids m(1) ns by (force simp: less_imp_le)
  have "describe_sums S = Inr sums"
    using sums(1) m(2) i ns by (simp add: describe_sums_def add_sum_def Let_def)
  moreover have len: "int (length sums) = ?m + 1" using sums(2) i by simp
  moreover have "card {h. ch_find True S h = Inr (int n)}
      = unat (sums ! n) + (if node_id (snd (hd (nodes S))) = int n then 1 else 0)" if n: "n < length sums" for n
  proof -
    have "fst i \<le> fst (last (nodes S))"
      using sorted_head_le [OF srt] ns by simp
    then have s: "sums ! n = of_nat ((if node_id (snd i) = int n
        then unat UINT32_MAX - unat (fst (last (nodes S))) + unat (fst i) else 0) + arc_total (fst i) rest (int n))"
      using sums(2,3) n i by (auto simp: nth_list_update first_arc_width)
    note c = card_owned [OF assms(1) ns, of "int n"]
    have "unat (sums ! n) = (if node_id (snd i) = int n
        then unat UINT32_MAX - unat (fst (last (nodes S))) + unat (fst i) else 0) + arc_total (fst i) rest (int n)"
      unfolding s using card_owned_bound [of "\<lambda>h. ch_find True S h = Inr (int n)"] c
      by (intro unat_of_nat_64) (simp split: if_splits)
    then show ?thesis using c ns by simp
  qed
  ultimately show ?thesis by blast
qed

section \<open>Properties\<close>


text \<open>Sample rings hash a node to its first byte.\<close>

definition sample_extend :: "32 word \<Rightarrow> 8 word list \<Rightarrow> 32 word" where
  "sample_extend crc bytes = crc + ucast (hd bytes)"

definition sample_ring :: ConsistentHash where
  "sample_ring = \<lparr>nodes = [(3, \<lparr>node_id = 3, vnode_id = 0\<rparr>), (7, \<lparr>node_id = 7, vnode_id = 1\<rparr>)]\<rparr>"

lemma sample_ring_ok: "ring_ok sample_ring" "\<not> ch_empty sample_ring"
  by (simp_all add: ring_ok_def ch_empty_def sample_ring_def)






text \<open>
  In a build with assertions no lookup ever returns: the assertion demands an empty map, and
  on an empty map the end iterator is dereferenced.
\<close>

theorem ring_find_debug_fails:
  "ch_find False S h = Inl (if ch_empty S then Undefined else Assert_Failed)"
  by (simp add: ch_find_def ch_empty_def map_deref_def map_lower_bound_def)

end
