(* ===== verification/Net_Log.thy ===== *)
theory Net_Log
  imports CString
begin

text \<open>
  The logger of ocean_net (src/log.h, src/log.cpp): levels, events, the pattern formatter with
  its format items, the console and file appenders, and the logger that hands an event to its
  appenders. Appenders are shared objects that the logger updates, so they live in a heap and
  the logger holds their addresses; formatters never change after construction and are values.
  A field that no constructor sets is an option, None meaning that it holds garbage.
\<close>

section \<open>Levels and events\<close>

datatype Level = UNKNOWN | DEBUG | INFO | WARN | ERROR | FATAL

fun level_val :: "Level \<Rightarrow> int" where
  "level_val UNKNOWN = 0"
| "level_val DEBUG = 1"
| "level_val INFO = 2"
| "level_val WARN = 3"
| "level_val ERROR = 4"
| "level_val FATAL = 5"

fun level_ToString :: "Level \<Rightarrow> string" where
  "level_ToString DEBUG = ''DEBUG''"
| "level_ToString INFO = ''INFO''"
| "level_ToString WARN = ''WARN''"
| "level_ToString ERROR = ''ERROR''"
| "level_ToString FATAL = ''FATAL''"
| "level_ToString UNKNOWN = ''UNKNOWN''"

record LogEvent =
  m_file :: "string option"
  m_line :: int
  m_elapse :: "32 word"
  m_threadId :: "32 word"
  m_fiberId :: "32 word"
  m_time :: "64 word"
  m_threadName :: string
  m_ss :: string
  ev_logger :: nat
  ev_level :: Level
  m_content :: string

definition LogEvent_ctor ::
    "nat \<Rightarrow> Level \<Rightarrow> string option \<Rightarrow> int \<Rightarrow> 32 word \<Rightarrow> 32 word \<Rightarrow> 32 word \<Rightarrow> 64 word \<Rightarrow> string \<Rightarrow> LogEvent" where
  "LogEvent_ctor logger level file line elapse thread_id fiber_id time thread_name =
     \<lparr>m_file = file, m_line = line, m_elapse = elapse, m_threadId = thread_id, m_fiberId = fiber_id,
      m_time = time, m_threadName = thread_name, m_ss = [], ev_logger = logger, ev_level = level,
      m_content = []\<rparr>"

section \<open>Format items\<close>

datatype FormatItem =
    MessageFormatItem
  | LevelFormatItem
  | ElapseFormatItem
  | NameFormatItem
  | ThreadIdFormatItem
  | FiberIdFormatItem
  | NewLineFormatItem
  | DateTimeFormatItem string
  | FilenameFormatItem
  | LineFormatItem
  | TabFormatItem
  | ThreadNameFormatItem
  | StringFormatItem string

definition default_datetime :: string where
  "default_datetime = ''%Y-%m-%d %H:%M:%S.%e''"

definition DateTimeFormatItem_ctor :: "string \<Rightarrow> FormatItem" where
  "DateTimeFormatItem_ctor format = DateTimeFormatItem (if format = [] then default_datetime else format)"

text \<open>
  What an item appends to the stream. \<open>show_ptr\<close> prints the address held by a shared pointer and
  \<open>local_strftime\<close> is the text of a time under a strftime format in the local time zone; a text
  that does not fit the 64 bytes with its terminator leaves the buffer undefined.
\<close>

fun item_format ::
    "(nat \<Rightarrow> string) \<Rightarrow> (string \<Rightarrow> 64 word \<Rightarrow> string) \<Rightarrow> Level \<Rightarrow> LogEvent \<Rightarrow> FormatItem \<Rightarrow> string result" where
  "item_format show_ptr local_strftime level event MessageFormatItem = Inr (m_content event)"
| "item_format show_ptr local_strftime level event LevelFormatItem = Inr (level_ToString level)"
| "item_format show_ptr local_strftime level event ElapseFormatItem = Inr (show_nat (unat (m_elapse event)))"
| "item_format show_ptr local_strftime level event NameFormatItem = Inr (show_ptr (ev_logger event))"
| "item_format show_ptr local_strftime level event ThreadIdFormatItem = Inr (show_nat (unat (m_threadId event)))"
| "item_format show_ptr local_strftime level event FiberIdFormatItem = Inr (show_nat (unat (m_fiberId event)))"
| "item_format show_ptr local_strftime level event NewLineFormatItem = Inr [LF]"
| "item_format show_ptr local_strftime level event (DateTimeFormatItem m_format) =
     (let s = local_strftime m_format (m_time event) in
        if length s < 64 then Inr s else Inl Uninitialised)"
| "item_format show_ptr local_strftime level event FilenameFormatItem = of_option Null_Deref (m_file event)"
| "item_format show_ptr local_strftime level event LineFormatItem = Inr (show_int (m_line event))"
| "item_format show_ptr local_strftime level event TabFormatItem = Inr [LF]"
| "item_format show_ptr local_strftime level event ThreadNameFormatItem = Inr (m_threadName event)"
| "item_format show_ptr local_strftime level event (StringFormatItem m_string) = Inr m_string"

section \<open>The formatter\<close>

record LogFormatter =
  m_pattern :: string
  m_items :: "FormatItem list"
  m_error :: bool

definition LogFormatter_ctor :: "string \<Rightarrow> LogFormatter" where
  "LogFormatter_ctor pattern = \<lparr>m_pattern = pattern, m_items = [], m_error = False\<rparr>"

fun items_loop ::
    "(nat \<Rightarrow> string) \<Rightarrow> (string \<Rightarrow> 64 word \<Rightarrow> string) \<Rightarrow> Level \<Rightarrow> LogEvent \<Rightarrow> FormatItem list \<Rightarrow> string \<Rightarrow> string result" where
  "items_loop show_ptr local_strftime level event [] ss = Inr ss"
| "items_loop show_ptr local_strftime level event (i # is) ss =
     bind_r (item_format show_ptr local_strftime level event i)
       (\<lambda>s. items_loop show_ptr local_strftime level event is (ss @ s))"

definition formatter_format ::
    "(nat \<Rightarrow> string) \<Rightarrow> (string \<Rightarrow> 64 word \<Rightarrow> string) \<Rightarrow> LogFormatter \<Rightarrow> Level \<Rightarrow> LogEvent \<Rightarrow> string result" where
  "formatter_format show_ptr local_strftime F level event =
     bind_r (items_loop show_ptr local_strftime level event (m_items F) []) (\<lambda>ss. Inr [])"

subsection \<open>Parsing the pattern\<close>

text \<open>
  \<open>substr\<close> is std::string::substr at a position within the string; a count that wrapped below
  zero is a huge unsigned number and takes the rest, which a negative \<open>len\<close> expresses.
\<close>

definition substr :: "string \<Rightarrow> nat \<Rightarrow> int \<Rightarrow> string" where
  "substr s pos len = (if len < 0 then drop pos s else take (nat len) (drop pos s))"

text \<open>
  The loop over one directive, from position \<open>n\<close>; \<open>i\<close> is the position of the percent sign. The
  result is the position, the status, the name and the format found. None is a loop that never ends.
\<close>

partial_function (option) directive_loop ::
    "string \<Rightarrow> nat \<Rightarrow> nat \<Rightarrow> int \<Rightarrow> nat \<Rightarrow> string \<Rightarrow> string \<Rightarrow> (nat \<times> int \<times> string \<times> string) option" where
  "directive_loop pat i n fmt_status fmt_begin str fmt =
     (if \<not> n < length pat then Some (n, fmt_status, str, fmt)
      else if is_space (pat ! n) then Some (n, fmt_status, str, fmt)
      else if fmt_status = 0 \<and> pat ! n = CHR ''{''
        then directive_loop pat i (n + 1) 1 (n + 1) (substr pat (i + 1) (int n - int i)) fmt
      else if fmt_status = 1 \<and> pat ! n = CHR ''}''
        then Some (n, 2, str, substr pat (fmt_begin + 1) (int n - int fmt_begin - 1))
      else directive_loop pat i n fmt_status fmt_begin str fmt)"

type_synonym pattern_piece = "string \<times> string \<times> int"

definition push_text :: "string \<Rightarrow> pattern_piece list \<Rightarrow> pattern_piece list" where
  "push_text vstr vec = (if vstr \<noteq> [] then vec @ [(vstr, [], 0)] else vec)"

definition parse_error_text :: "string \<Rightarrow> nat \<Rightarrow> string" where
  "parse_error_text pat i = ''pattern parse error:'' @ pat @ ''-'' @ drop i pat @ [LF]"

text \<open>The loop over the pattern; the result holds the pieces and what was printed to cout.\<close>

partial_function (option) pattern_loop ::
    "string \<Rightarrow> nat \<Rightarrow> string \<Rightarrow> pattern_piece list \<Rightarrow> string \<Rightarrow> (pattern_piece list \<times> string) option" where
  "pattern_loop pat i vstr vec out =
     (if \<not> i < length pat then Some (push_text vstr vec, out)
      else if pat ! i \<noteq> CHR ''%'' then pattern_loop pat (i + 1) (vstr @ [pat ! i]) vec out
      else if i + 1 < length pat \<and> pat ! (i + 1) = CHR ''%''
        then pattern_loop pat (i + 1) (vstr @ [CHR ''%'']) vec out
      else (case directive_loop pat i (i + 1) 0 0 [] [] of
              None \<Rightarrow> None
            | Some (n, fmt_status, str, fmt) \<Rightarrow>
                if fmt_status = 0
                  then pattern_loop pat (n + 1) vstr
                         (push_text vstr vec @ [(substr pat (i + 1) (int n - int i - 1), fmt, 1)]) out
                else if fmt_status = 1
                  then pattern_loop pat (i + 1) vstr (vec @ [(''<<pattern_error>>'', fmt, 0)])
                         (out @ parse_error_text pat i)
                else pattern_loop pat (n + 1) vstr (push_text vstr vec @ [(str, fmt, 1)]) out))"

definition s_format_items :: "(string \<times> (string \<Rightarrow> FormatItem)) list" where
  "s_format_items =
     [(''m'', \<lambda>fmt. MessageFormatItem), (''p'', \<lambda>fmt. LevelFormatItem), (''r'', \<lambda>fmt. ElapseFormatItem),
      (''c'', \<lambda>fmt. NameFormatItem), (''t'', \<lambda>fmt. ThreadIdFormatItem), (''n'', \<lambda>fmt. NewLineFormatItem),
      (''d'', DateTimeFormatItem_ctor), (''f'', \<lambda>fmt. FilenameFormatItem), (''l'', \<lambda>fmt. LineFormatItem),
      (''T'', \<lambda>fmt. TabFormatItem), (''F'', \<lambda>fmt. FiberIdFormatItem), (''N'', \<lambda>fmt. ThreadNameFormatItem)]"

text \<open>
  The pieces and the table are local to \<open>init\<close>: it computes them and returns, and the formatter
  it is called on keeps its items.
\<close>

definition formatter_init ::
    "LogFormatter \<Rightarrow> (LogFormatter \<times> string \<times> pattern_piece list \<times> (string \<times> (string \<Rightarrow> FormatItem)) list) option" where
  "formatter_init F =
     (case pattern_loop (m_pattern F) 0 [] [] [] of
        None \<Rightarrow> None
      | Some (vec, out) \<Rightarrow> Some (F, out, vec, s_format_items))"

section \<open>Appenders\<close>

text \<open>An output file stream: whether it is open, and whether an operation on it has failed.\<close>

record ofstream =
  fs_open :: bool
  fs_fail :: bool

datatype appender_kind =
    StdoutLogAppender
  | FileLogAppender string ofstream "64 word"

record LogAppender =
  ap_level :: Level
  ap_formatter :: "LogFormatter option"
  m_hasFormatter :: bool
  ap_kind :: appender_kind

record log_world =
  appenders :: "nat \<Rightarrow> LogAppender option"
  cout :: string
  files :: "string \<Rightarrow> string option"

definition LogAppender_init :: "appender_kind \<Rightarrow> LogAppender" where
  "LogAppender_init k = \<lparr>ap_level = DEBUG, ap_formatter = None, m_hasFormatter = False, ap_kind = k\<rparr>"

definition FileLogAppender_ctor :: "string \<Rightarrow> LogAppender" where
  "FileLogAppender_ctor filename =
     LogAppender_init (FileLogAppender filename \<lparr>fs_open = False, fs_fail = False\<rparr> 0)"

definition appender_setLogFormatter :: "LogFormatter option \<Rightarrow> LogAppender \<Rightarrow> LogAppender" where
  "appender_setLogFormatter val A = A\<lparr>ap_formatter := val\<rparr>"

definition appender_setLevel :: "Level \<Rightarrow> LogAppender \<Rightarrow> LogAppender" where
  "appender_setLevel val A = A\<lparr>ap_level := val\<rparr>"

definition get_appender :: "log_world \<Rightarrow> nat \<Rightarrow> LogAppender result" where
  "get_appender W a = of_option Null_Deref (appenders W a)"

definition put_appender :: "nat \<Rightarrow> LogAppender \<Rightarrow> log_world \<Rightarrow> log_world" where
  "put_appender a A W = W\<lparr>appenders := (appenders W)(a \<mapsto> A)\<rparr>"

text \<open>
  Closing a stream that is not open fails; opening one that is open fails, and otherwise the
  file is truncated and the error state cleared. \<open>can_open\<close> tells whether the system lets the
  file be opened for writing.
\<close>

definition fs_close :: "ofstream \<Rightarrow> ofstream" where
  "fs_close f = \<lparr>fs_open = False, fs_fail = fs_fail f \<or> \<not> fs_open f\<rparr>"

definition fs_reopen :: "(string \<Rightarrow> bool) \<Rightarrow> string \<Rightarrow> ofstream \<Rightarrow> (string \<Rightarrow> string option) \<Rightarrow> ofstream \<times> (string \<Rightarrow> string option)" where
  "fs_reopen can_open name f fls =
     (if fs_open f \<or> \<not> can_open name then (f\<lparr>fs_fail := True\<rparr>, fls)
      else (\<lparr>fs_open = True, fs_fail = False\<rparr>, fls(name \<mapsto> [])))"

definition file_reopen :: "(string \<Rightarrow> bool) \<Rightarrow> nat \<Rightarrow> log_world \<Rightarrow> (bool \<times> log_world) result" where
  "file_reopen can_open a W =
     bind_r (get_appender W a) (\<lambda>A.
       case ap_kind A of
         StdoutLogAppender \<Rightarrow> Inl Undefined
       | FileLogAppender m_filename m_filestream m_lastTime \<Rightarrow>
           (let f = (if \<not> fs_fail m_filestream then fs_close m_filestream else m_filestream) in
            case fs_reopen can_open m_filename f (files W) of (f', fls) \<Rightarrow>
              Inr (\<not> fs_fail f',
                   put_appender a (A\<lparr>ap_kind := FileLogAppender m_filename f' m_lastTime\<rparr>) (W\<lparr>files := fls\<rparr>))))"

definition fs_write :: "string \<Rightarrow> string \<Rightarrow> ofstream \<Rightarrow> (string \<Rightarrow> string option) \<Rightarrow> ofstream \<times> (string \<Rightarrow> string option)" where
  "fs_write name s f fls =
     (if fs_fail f \<or> s = [] then (f, fls)
      else if \<not> fs_open f then (f\<lparr>fs_fail := True\<rparr>, fls)
      else (f, fls(name \<mapsto> (case fls name of None \<Rightarrow> s | Some t \<Rightarrow> t @ s))))"

definition appender_log ::
    "(nat \<Rightarrow> string) \<Rightarrow> (string \<Rightarrow> 64 word \<Rightarrow> string) \<Rightarrow> nat \<Rightarrow> Level \<Rightarrow> LogEvent \<Rightarrow> log_world \<Rightarrow> log_world result" where
  "appender_log show_ptr local_strftime a level event W =
     bind_r (get_appender W a) (\<lambda>A.
       if level_val level \<ge> level_val (ap_level A) then
         bind_r (of_option Null_Deref (ap_formatter A)) (\<lambda>F.
         bind_r (formatter_format show_ptr local_strftime F level event) (\<lambda>s.
           case ap_kind A of
             StdoutLogAppender \<Rightarrow> Inr (W\<lparr>cout := cout W @ s\<rparr>)
           | FileLogAppender m_filename m_filestream m_lastTime \<Rightarrow>
               (case fs_write m_filename s m_filestream (files W) of (f, fls) \<Rightarrow>
                  Inr (put_appender a (A\<lparr>ap_kind := FileLogAppender m_filename f m_lastTime\<rparr>) (W\<lparr>files := fls\<rparr>)))))
       else Inr W)"

section \<open>Loggers\<close>

text \<open>\<open>shared\<close> tells whether a shared pointer owns the logger, which shared_from_this requires.\<close>

record Logger =
  m_name :: string
  m_level :: "Level option"
  m_appenders :: "nat list"
  m_formatter :: "LogFormatter option"
  m_root :: "nat option"
  shared :: bool

definition Logger_ctor :: "string \<Rightarrow> bool \<Rightarrow> Logger" where
  "Logger_ctor name is_shared =
     \<lparr>m_name = [], m_level = None, m_appenders = [], m_formatter = None, m_root = None, shared = is_shared\<rparr>"

definition setLogLevel :: "Level \<Rightarrow> Logger \<Rightarrow> Logger" where
  "setLogLevel val L = L\<lparr>m_level := Some val\<rparr>"

definition getLogLevel :: "Logger \<Rightarrow> Level result" where
  "getLogLevel L = of_option Uninitialised (m_level L)"

definition addAppender :: "nat \<Rightarrow> Logger \<times> log_world \<Rightarrow> (Logger \<times> log_world) result" where
  "addAppender a = (\<lambda>(L, W).
     bind_r (get_appender W a) (\<lambda>A.
       let W' = (if ap_formatter A = None then put_appender a (A\<lparr>ap_formatter := m_formatter L\<rparr>) W else W)
       in Inr (L\<lparr>m_appenders := m_appenders L @ [a]\<rparr>, W')))"

definition delAppender :: "nat \<Rightarrow> Logger \<Rightarrow> Logger" where
  "delAppender a L = L\<lparr>m_appenders := remove1 a (m_appenders L)\<rparr>"

fun formatter_loop :: "LogFormatter option \<Rightarrow> nat list \<Rightarrow> log_world \<Rightarrow> log_world result" where
  "formatter_loop val [] W = Inr W"
| "formatter_loop val (i # is) W =
     bind_r (get_appender W i) (\<lambda>A.
       formatter_loop val is
         (if \<not> m_hasFormatter A then put_appender i (A\<lparr>ap_formatter := val\<rparr>) W else W))"

definition setLogFormatter :: "LogFormatter option \<Rightarrow> Logger \<times> log_world \<Rightarrow> (Logger \<times> log_world) result" where
  "setLogFormatter val = (\<lambda>(L, W).
     bind_r (formatter_loop val (m_appenders L) W) (\<lambda>W'. Inr (L\<lparr>m_formatter := val\<rparr>, W')))"

definition setLogPattern :: "string \<Rightarrow> Logger \<times> log_world \<Rightarrow> (Logger \<times> log_world) result" where
  "setLogPattern val = (\<lambda>(L, W).
     let W1 = W\<lparr>cout := cout W @ ''---'' @ val @ [LF]\<rparr>;
         new_val = LogFormatter_ctor val
     in if m_error new_val
        then Inr (L, W1\<lparr>cout := cout W1 @ ''Logger setFormatter name='' @ m_name L @ ''value='' @ val
                               @ ''invalid formatter'' @ [LF]\<rparr>)
        else setLogFormatter (Some new_val) (L, W1))"

fun appenders_loop ::
    "(nat \<Rightarrow> string) \<Rightarrow> (string \<Rightarrow> 64 word \<Rightarrow> string) \<Rightarrow> Level \<Rightarrow> LogEvent \<Rightarrow> nat list \<Rightarrow> log_world \<Rightarrow> log_world result" where
  "appenders_loop show_ptr local_strftime level event [] W = Inr W"
| "appenders_loop show_ptr local_strftime level event (i # is) W =
     bind_r (appender_log show_ptr local_strftime i level event W)
       (appenders_loop show_ptr local_strftime level event is)"

definition logger_log ::
    "(nat \<Rightarrow> string) \<Rightarrow> (string \<Rightarrow> 64 word \<Rightarrow> string) \<Rightarrow> Level \<Rightarrow> LogEvent \<Rightarrow> Logger \<times> log_world \<Rightarrow> log_world result" where
  "logger_log show_ptr local_strftime level event = (\<lambda>(L, W).
     bind_r (getLogLevel L) (\<lambda>l.
       if level_val level \<ge> level_val l then
         bind_r (guard_r Uncaught_Exception (shared L)) (\<lambda>_.
           appenders_loop show_ptr local_strftime level event (m_appenders L) W)
       else Inr W))"

definition log_debug where "log_debug show_ptr local_strftime = logger_log show_ptr local_strftime DEBUG"
definition log_info where "log_info show_ptr local_strftime = logger_log show_ptr local_strftime INFO"
definition log_warn where "log_warn show_ptr local_strftime = logger_log show_ptr local_strftime WARN"
definition log_error where "log_error show_ptr local_strftime = logger_log show_ptr local_strftime ERROR"
definition log_fatal where "log_fatal show_ptr local_strftime = logger_log show_ptr local_strftime FATAL"

text \<open>
  The YAML node of a logger, its keys in the order of assignment. \<open>appender_yaml\<close> is the text an
  appender reports, which the source declares without a body; \<open>load\<close> and \<open>emit\<close> are the reader and
  the printer of the YAML library.
\<close>

datatype 'n yaml_value = Scalar string | Sequence "'n list"

definition logger_toYamlString ::
    "((string \<times> 'n yaml_value) list \<Rightarrow> string) \<Rightarrow> (string \<Rightarrow> 'n) \<Rightarrow> (nat \<Rightarrow> string) \<Rightarrow> Logger \<Rightarrow> string result" where
  "logger_toYamlString emit load appender_yaml L =
     bind_r (getLogLevel L) (\<lambda>l.
       Inr (emit ([(''name'', Scalar (m_name L))]
                  @ (if l \<noteq> UNKNOWN then [(''level'', Scalar (level_ToString l))] else [])
                  @ (case m_formatter L of None \<Rightarrow> [] | Some F \<Rightarrow> [(''formatter'', Scalar (m_pattern F))])
                  @ (if m_appenders L = [] then []
                     else [(''appenders'', Sequence (map (\<lambda>i. load (appender_yaml i)) (m_appenders L)))]))))"

section \<open>When the pattern parser returns\<close>

text \<open>
  What may follow a percent sign for the loop over the directive to end: a second percent sign
  (the loop is not entered), the end of the pattern, white space, or a brace that is followed by
  the end, white space or the closing brace.
\<close>

fun directive_ok :: "string \<Rightarrow> bool" where
  "directive_ok [] = True"
| "directive_ok (c # cs) =
     (c = CHR ''%'' \<or> is_space c \<or> c = CHR ''{'' \<and> (cs = [] \<or> is_space (hd cs) \<or> hd cs = CHR ''}''))"

fun directives_ok :: "string \<Rightarrow> bool" where
  "directives_ok [] = True"
| "directives_ok (c # cs) = ((c = CHR ''%'' \<longrightarrow> directive_ok cs) \<and> directives_ok cs)"

definition directive_stuck :: "string \<Rightarrow> nat \<Rightarrow> int \<Rightarrow> bool" where
  "directive_stuck pat n fmt_status \<longleftrightarrow>
     n < length pat \<and> \<not> is_space (pat ! n) \<and> \<not> (fmt_status = 0 \<and> pat ! n = CHR ''{'')
     \<and> \<not> (fmt_status = 1 \<and> pat ! n = CHR ''}'')"

lemma directive_loop_diverges:
  assumes "directive_stuck pat n fmt_status"
  shows "directive_loop pat i n fmt_status fmt_begin str fmt = None"
proof -
  have "\<not> directive_stuck pat n fmt_status"
    if "directive_loop pat i n fmt_status fmt_begin str fmt = Some r" for r
  proof (rule directive_loop.raw_induct [where P = "\<lambda>pat i n st b s f r. \<not> directive_stuck pat n st", OF _ that],
         goal_cases)
    case (1 dl pat i n st b s f r)
    show ?case
    proof
      assume stuck: "directive_stuck pat n st"
      then have "dl pat i n st b s f = Some r" using 1(2) by (auto simp: directive_stuck_def split: if_splits)
      then show False using 1(1) stuck by blast
    qed
  qed
  then show ?thesis using assms by (cases "directive_loop pat i n fmt_status fmt_begin str fmt") auto
qed

lemma drop_ConsD: "drop n xs = c # cs \<Longrightarrow> n < length xs \<and> xs ! n = c \<and> drop (Suc n) xs = cs"
  by (metis Cons_nth_drop_Suc drop_all list.discI list.inject not_le)

text \<open>One round of the loop, as rules that cannot be applied forever.\<close>

lemma directive_loop_rules:
  "\<not> n < length pat \<Longrightarrow> directive_loop pat i n st b s f = Some (n, st, s, f)"
  "n < length pat \<Longrightarrow> is_space (pat ! n) \<Longrightarrow> directive_loop pat i n st b s f = Some (n, st, s, f)"
  "n < length pat \<Longrightarrow> pat ! n = CHR ''{'' \<Longrightarrow>
   directive_loop pat i n 0 b s f = directive_loop pat i (n + 1) 1 (n + 1) (substr pat (i + 1) (int n - int i)) f"
  "n < length pat \<Longrightarrow> pat ! n = CHR ''}'' \<Longrightarrow>
   directive_loop pat i n 1 b s f = Some (n, 2, s, substr pat (b + 1) (int n - int b - 1))"
  by (subst directive_loop.simps, simp add: is_space_def)+

text \<open>The loop at the start of a directive, in closed form.\<close>

lemma directive_loop_start:
  "directive_loop pat i (Suc i) 0 0 [] [] =
     (case drop (Suc i) pat of
        [] \<Rightarrow> Some (Suc i, 0, [], [])
      | c # cs \<Rightarrow>
          if is_space c then Some (Suc i, 0, [], [])
          else if c \<noteq> CHR ''{'' then None
          else (case cs of
                  [] \<Rightarrow> Some (Suc (Suc i), 1, ''{'', [])
                | d # ds \<Rightarrow> if is_space d then Some (Suc (Suc i), 1, ''{'', [])
                            else if d = CHR ''}'' then Some (Suc (Suc i), 2, ''{'', ds) else None))"
proof (cases "drop (Suc i) pat")
  case Nil
  then show ?thesis by (simp add: directive_loop_rules)
next
  case (Cons c cs)
  note n = drop_ConsD [OF Cons]
  show ?thesis
  proof (cases "c = CHR ''{''")
    case False
    then show ?thesis
      using Cons n directive_loop_rules(2) [of "Suc i" pat] directive_loop_diverges [of pat "Suc i" 0]
      by (simp add: directive_stuck_def)
  next
    case True
    have step: "directive_loop pat i (Suc i) 0 0 [] [] = directive_loop pat i (Suc (Suc i)) 1 (Suc (Suc i)) ''{'' []"
      using n True Cons directive_loop_rules(3) [of "Suc i" pat] by (simp add: substr_def)
    show ?thesis
    proof (cases cs)
      case Nil
      then show ?thesis
        using Cons n True step directive_loop_rules(1) [of "Suc (Suc i)" pat] by (simp add: is_space_def)
    next
      case ds: (Cons d ds)
      then have d: "drop (Suc (Suc i)) pat = d # ds" using n by simp
      then show ?thesis
        using Cons True step ds drop_ConsD [OF d] directive_loop_diverges [of pat "Suc (Suc i)" 1]
          directive_loop_rules(2,4) [of "Suc (Suc i)" pat]
        by (simp add: directive_stuck_def substr_def is_space_def)
    qed
  qed
qed

text \<open>What the loop over the pattern does with the outcome of a directive.\<close>

definition after_percent ::
    "string \<Rightarrow> nat \<Rightarrow> string \<Rightarrow> pattern_piece list \<Rightarrow> string \<Rightarrow> (nat \<times> int \<times> string \<times> string) option
     \<Rightarrow> (pattern_piece list \<times> string) option" where
  "after_percent pat i vstr vec out r =
     (case r of
        None \<Rightarrow> None
      | Some (n, fmt_status, str, fmt) \<Rightarrow>
          if fmt_status = 0
            then pattern_loop pat (n + 1) vstr
                   (push_text vstr vec @ [(substr pat (i + 1) (int n - int i - 1), fmt, 1)]) out
          else if fmt_status = 1
            then pattern_loop pat (i + 1) vstr (vec @ [(''<<pattern_error>>'', fmt, 0)])
                   (out @ parse_error_text pat i)
          else pattern_loop pat (n + 1) vstr (push_text vstr vec @ [(str, fmt, 1)]) out)"

lemma pattern_loop_percent:
  assumes "drop i pat = CHR ''%'' # cs" and "cs = [] \<or> hd cs \<noteq> CHR ''%''"
  shows "pattern_loop pat i vstr vec out
         = after_percent pat i vstr vec out (directive_loop pat i (Suc i) 0 0 [] [])"
  using drop_ConsD [OF assms(1)] assms(2)
  by (subst pattern_loop.simps) (auto simp: after_percent_def hd_drop_conv_nth)

lemma pattern_loop_returns:
  "(\<exists>r. pattern_loop pat i vstr vec out = Some r) = directives_ok (drop i pat)"
proof (induction "length pat - i" arbitrary: i vstr vec out rule: less_induct)
  case less
  show ?case
  proof (cases "drop i pat")
    case Nil
    then show ?thesis by (simp add: pattern_loop.simps)
  next
    case (Cons c cs)
    note i = drop_ConsD [OF Cons]
    have ih: "(\<exists>r. pattern_loop pat j v w u = Some r) = directives_ok (drop j pat)" if "i < j" for j v w u
      by (rule less) (use that i in auto)
    show ?thesis
    proof (cases "c = CHR ''%'' \<and> (cs = [] \<or> hd cs \<noteq> CHR ''%'')")
      case False
      then have "pattern_loop pat i vstr vec out = pattern_loop pat (Suc i) (vstr @ [c]) vec out"
        using i by (cases cs) (auto simp: pattern_loop.simps [of pat i] dest: drop_ConsD)
      then show ?thesis using ih [of "Suc i"] Cons i False by (cases cs) auto
    next
      case True
      then have body: "pattern_loop pat i vstr vec out = after_percent pat i vstr vec out (directive_loop pat i (Suc i) 0 0 [] [])"
        using Cons by (intro pattern_loop_percent) auto
      have d: "drop (Suc i) pat = cs" "drop (Suc (Suc i)) pat = tl cs" "drop (Suc (Suc (Suc i))) pat = tl (tl cs)"
        using i by (metis drop_Suc tl_drop)+
      note ihs = ih [of "Suc i", unfolded d] ih [of "Suc (Suc i)", unfolded d]
        ih [of "Suc (Suc (Suc i))", unfolded d]
      show ?thesis
      proof (cases cs)
        case Nil
        then show ?thesis using ihs True unfolding body after_percent_def directive_loop_start d Cons by simp
      next
        case e: (Cons e es)
        have sp: "is_space x \<Longrightarrow> x \<noteq> CHR ''%''" for x by (auto simp: is_space_def)
        show ?thesis
        proof (cases es)
          case Nil
          then show ?thesis
            using ihs True e sp [of e] unfolding body after_percent_def directive_loop_start d Cons by simp
        next
          case (Cons f fs)
          then show ?thesis
            using ihs True e sp [of e] sp [of f] unfolding body after_percent_def directive_loop_start d \<open>drop i pat = c # cs\<close> by simp
        qed
      qed
    qed
  qed
qed

lemma pattern_loop_plain:
  assumes "CHR ''%'' \<notin> set (drop i pat)"
  shows "pattern_loop pat i vstr vec out = Some (push_text (vstr @ drop i pat) vec, out)"
  using assms
proof (induction "length pat - i" arbitrary: i vstr)
  case 0
  then show ?case by (simp add: pattern_loop.simps)
next
  case (Suc k)
  then obtain c cs where c: "drop i pat = c # cs" by (cases "drop i pat") auto
  note i = drop_ConsD [OF c]
  have "pattern_loop pat i vstr vec out = pattern_loop pat (Suc i) (vstr @ [c]) vec out"
    using i c Suc.prems by (subst pattern_loop.simps) auto
  also have "\<dots> = Some (push_text ((vstr @ [c]) @ drop (Suc i) pat) vec, out)"
    by (rule Suc.hyps(1)) (use i c Suc.prems Suc.hyps(2) in auto)
  finally show ?case using i c by simp
qed

section \<open>Formatters of the appenders\<close>

definition give_formatter :: "LogFormatter option \<Rightarrow> LogAppender \<Rightarrow> LogAppender" where
  "give_formatter val A = (if m_hasFormatter A then A else A\<lparr>ap_formatter := val\<rparr>)"

lemma give_formatter_idem [simp]: "give_formatter val (give_formatter val A) = give_formatter val A"
  by (simp add: give_formatter_def)

lemma formatter_loop_eq:
  assumes "\<forall>a\<in>set js. appenders W a \<noteq> None"
  shows "formatter_loop val js W =
    Inr (W\<lparr>appenders := (\<lambda>a. if a \<in> set js then map_option (give_formatter val) (appenders W a) else appenders W a)\<rparr>)"
  using assms
proof (induction js arbitrary: W)
  case (Cons i js)
  then obtain A where A: "appenders W i = Some A" by auto
  let ?W = "W\<lparr>appenders := (appenders W)(i \<mapsto> give_formatter val A)\<rparr>"
  have "formatter_loop val (i # js) W = formatter_loop val js ?W"
    using A by (cases W) (auto simp: get_appender_def put_appender_def give_formatter_def fun_upd_idem)
  also have "\<dots> = Inr (?W\<lparr>appenders := (\<lambda>a. if a \<in> set js then map_option (give_formatter val) (appenders ?W a)
                                          else appenders ?W a)\<rparr>)"
    by (rule Cons.IH) (use Cons.prems in auto)
  also have "(\<lambda>a. if a \<in> set js then map_option (give_formatter val) (appenders ?W a) else appenders ?W a)
      = (\<lambda>a. if a \<in> set (i # js) then map_option (give_formatter val) (appenders W a) else appenders W a)"
    using A by (auto simp: fun_eq_iff)
  finally show ?case by simp
qed simp

section \<open>The states a logger can reach\<close>

definition built :: "LogFormatter \<Rightarrow> bool" where
  "built F \<longleftrightarrow> F = LogFormatter_ctor (m_pattern F)"

lemma built_ctor [simp]: "built (LogFormatter_ctor p)"
  by (simp add: built_def LogFormatter_ctor_def)

lemma built_format [simp]: "built F \<Longrightarrow> formatter_format show_ptr local_strftime F level event = Inr []"
  by (metis LogFormatter.select_convs(2) LogFormatter_ctor_def bind_r_Inr built_def formatter_format_def items_loop.simps(1))

text \<open>
  What a program does with one logger: it creates appenders, gives an appender its own formatter
  or level, adds and removes appenders, sets the level or the pattern of the logger, reopens a
  log file, and logs.
\<close>

inductive logger_step :: "Logger \<times> log_world \<Rightarrow> Logger \<times> log_world \<Rightarrow> bool" where
  new_stdout: "appenders W a = None \<Longrightarrow>
    logger_step (L, W) (L, put_appender a (LogAppender_init StdoutLogAppender) W)"
| new_file: "appenders W a = None \<Longrightarrow>
    logger_step (L, W) (L, put_appender a (FileLogAppender_ctor name) W)"
| own_formatter: "appenders W a = Some A \<Longrightarrow>
    logger_step (L, W) (L, put_appender a (appender_setLogFormatter (Some (LogFormatter_ctor p)) A) W)"
| own_level: "appenders W a = Some A \<Longrightarrow>
    logger_step (L, W) (L, put_appender a (appender_setLevel lv A) W)"
| add: "addAppender a (L, W) = Inr S \<Longrightarrow> logger_step (L, W) S"
| del: "logger_step (L, W) (delAppender a L, W)"
| level: "logger_step (L, W) (setLogLevel lv L, W)"
| pattern: "setLogPattern val (L, W) = Inr S \<Longrightarrow> logger_step (L, W) S"
| reopen: "file_reopen can_open a W = Inr (ok, W') \<Longrightarrow> logger_step (L, W) (L, W')"
| log: "logger_log show_ptr local_strftime lv event (L, W) = Inr W' \<Longrightarrow> logger_step (L, W) (L, W')"

inductive_cases logger_stepE: "logger_step (L, W) S"

definition logger_start :: "Logger \<times> log_world \<Rightarrow> bool" where
  "logger_start S \<longleftrightarrow> (\<exists>name p sh out fls.
     setLogPattern p (Logger_ctor name sh, \<lparr>appenders = (\<lambda>_. None), cout = out, files = fls\<rparr>) = Inr S)"

definition appender_ok :: "LogAppender \<Rightarrow> bool" where
  "appender_ok A \<longleftrightarrow> (\<forall>F. ap_formatter A = Some F \<longrightarrow> built F)"

definition logger_ok :: "Logger \<times> log_world \<Rightarrow> bool" where
  "logger_ok = (\<lambda>(L, W).
     (\<exists>F. m_formatter L = Some F \<and> built F)
     \<and> (\<forall>a A. appenders W a = Some A \<longrightarrow> appender_ok A)
     \<and> (\<forall>a\<in>set (m_appenders L). \<exists>A. appenders W a = Some A \<and> ap_formatter A \<noteq> None))"

lemma logger_ok_put:
  assumes "logger_ok (L, W)" and "appender_ok A"
    and "a \<in> set (m_appenders L) \<Longrightarrow> ap_formatter A \<noteq> None"
  shows "logger_ok (L, put_appender a A W)"
  using assms by (auto simp: logger_ok_def put_appender_def)

lemma logger_ok_pattern:
  assumes "logger_ok (L, W) \<or> m_appenders L = [] \<and> appenders W = (\<lambda>_. None)"
    and "setLogPattern p (L, W) = Inr S"
  shows "logger_ok S"
proof -
  let ?W = "W\<lparr>cout := cout W @ ''---'' @ p @ [LF]\<rparr>"
  let ?F = "Some (LogFormatter_ctor p)"
  have "\<forall>a\<in>set (m_appenders L). appenders ?W a \<noteq> None" using assms(1) by (auto simp: logger_ok_def)
  then have "S = (L\<lparr>m_formatter := ?F\<rparr>, ?W\<lparr>appenders := (\<lambda>a. if a \<in> set (m_appenders L)
      then map_option (give_formatter ?F) (appenders ?W a) else appenders ?W a)\<rparr>)"
    using assms(2) formatter_loop_eq [of "m_appenders L" ?W ?F]
    by (simp add: setLogPattern_def setLogFormatter_def LogFormatter_ctor_def)
  moreover have "appender_ok A \<Longrightarrow> appender_ok (give_formatter ?F A)"
    and "ap_formatter A \<noteq> None \<Longrightarrow> ap_formatter (give_formatter ?F A) \<noteq> None" for A
    by (auto simp: appender_ok_def give_formatter_def)
  ultimately show ?thesis
    using assms(1) unfolding logger_ok_def by (auto split: if_splits)
qed

lemma appender_log_noop:
  assumes "appenders W a = Some A" and "appender_ok A" and "ap_formatter A \<noteq> None"
  shows "appender_log show_ptr local_strftime a level event W = Inr W"
proof -
  obtain F where "ap_formatter A = Some F" "built F" using assms(2,3) by (auto simp: appender_ok_def)
  then show ?thesis
    using assms(1) by (cases W; cases A)
      (auto simp: appender_log_def get_appender_def put_appender_def fs_write_def split: appender_kind.splits)
qed

lemma logger_log_noop:
  assumes "logger_ok (L, W)" and "m_level L = Some lv" and "shared L"
  shows "logger_log show_ptr local_strftime level event (L, W) = Inr W"
proof -
  have "appenders_loop show_ptr local_strftime level event as W = Inr W" if "set as \<subseteq> set (m_appenders L)" for as
    using that
  proof (induction as)
    case (Cons a as)
    then obtain A where "appenders W a = Some A" "appender_ok A" "ap_formatter A \<noteq> None"
      using assms(1) by (auto simp: logger_ok_def)
    then show ?case using Cons appender_log_noop by simp
  qed simp
  then show ?thesis using assms(2,3) by (simp add: logger_log_def getLogLevel_def)
qed

lemma logger_log_returns:
  assumes "logger_ok (L, W)" and "logger_log show_ptr local_strftime level event (L, W) = Inr W'"
  shows "W' = W"
proof -
  obtain lv where lv: "m_level L = Some lv" using assms(2) by (auto simp: logger_log_def getLogLevel_def)
  show ?thesis
  proof (cases "shared L")
    case True
    then show ?thesis using logger_log_noop [OF assms(1) lv] assms(2) by simp
  next
    case False
    then show ?thesis using assms(2) by (auto simp: logger_log_def split: if_splits)
  qed
qed

lemma logger_ok_reopen:
  assumes "logger_ok (L, W)" and "file_reopen can_open a W = Inr (ok, W')"
  shows "logger_ok (L, W')"
proof -
  obtain A where A: "appenders W a = Some A" using assms(2) by (auto simp: file_reopen_def get_appender_def)
  obtain k fls where W': "W' = put_appender a (A\<lparr>ap_kind := k\<rparr>) (W\<lparr>files := fls\<rparr>)"
    using assms(2) A by (cases "ap_kind A") (auto simp: file_reopen_def get_appender_def Let_def split: prod.splits)
  have "logger_ok (L, W\<lparr>files := fls\<rparr>)" using assms(1) by (simp add: logger_ok_def)
  then show ?thesis
    unfolding W' using A assms(1) by (intro logger_ok_put) (auto simp: logger_ok_def appender_ok_def)
qed

lemma logger_ok_add:
  assumes "logger_ok (L, W)" and "addAppender a (L, W) = Inr S"
  shows "logger_ok S"
proof -
  obtain A where A: "appenders W a = Some A" using assms(2) by (auto simp: addAppender_def get_appender_def)
  show ?thesis
  proof (cases "ap_formatter A")
    case None
    then have S: "S = (L\<lparr>m_appenders := m_appenders L @ [a]\<rparr>, put_appender a (A\<lparr>ap_formatter := m_formatter L\<rparr>) W)"
      using assms(2) A by (simp add: addAppender_def get_appender_def)
    show ?thesis unfolding S using assms(1) by (auto simp: logger_ok_def put_appender_def appender_ok_def)
  next
    case (Some F)
    then show ?thesis using assms A by (auto simp: addAppender_def get_appender_def logger_ok_def)
  qed
qed

lemma logger_ok_step:
  assumes "logger_ok S" and "logger_step S T"
  shows "logger_ok T"
  using assms(2)
proof (cases rule: logger_step.cases)
  case (own_formatter W a A L p)
  then show ?thesis
    using assms(1) by (auto intro!: logger_ok_put simp: appender_setLogFormatter_def appender_ok_def)
next
  case (own_level W a A L lv)
  then have "appender_ok (appender_setLevel lv A)"
    and "a \<in> set (m_appenders L) \<Longrightarrow> ap_formatter (appender_setLevel lv A) \<noteq> None"
    using assms(1) by (auto simp: appender_setLevel_def appender_ok_def logger_ok_def)
  then show ?thesis using own_level assms(1) by (simp add: logger_ok_put)
next
  case (del L W a)
  then show ?thesis using assms(1) set_remove1_subset [of a "m_appenders L"] by (auto simp: logger_ok_def delAppender_def)
next
  case (level L W lv)
  then show ?thesis using assms(1) by (auto simp: logger_ok_def setLogLevel_def)
next
  case (log sp ls lv event L W W')
  then show ?thesis using assms(1) logger_log_returns by metis
next
  case (new_stdout W a L)
  then show ?thesis
    using assms(1) by (auto intro!: logger_ok_put simp: LogAppender_init_def appender_ok_def) (auto simp: logger_ok_def)
next
  case (new_file W a L name)
  then show ?thesis
    using assms(1) by (auto intro!: logger_ok_put simp: FileLogAppender_ctor_def LogAppender_init_def appender_ok_def)
      (auto simp: logger_ok_def)
qed (use assms(1) in \<open>auto intro: logger_ok_add logger_ok_pattern logger_ok_reopen\<close>)

interpretation loggers: invariant_system logger_start logger_step logger_ok
proof unfold_locales
  show "logger_start S \<Longrightarrow> logger_ok S" for S
    unfolding logger_start_def by (elim exE) (rule logger_ok_pattern, auto simp: Logger_ctor_def)
qed (rule logger_ok_step)

section \<open>Properties\<close>

text \<open>
  C26. Parsing a pattern returns exactly when every percent sign is followed by another percent
  sign, by white space, by the end of the pattern, or by an opening brace that is itself
  followed by a closing brace, white space or the end; on every other pattern, among them all
  that name one of the format items such as %d or %m, the loop over the directive never ends.
  When it returns, the formatter is unchanged.
\<close>

theorem formatter_init_returns_iff:
  "(\<exists>r. formatter_init F = Some (F, r)) \<longleftrightarrow> directives_ok (m_pattern F)"
proof -
  have "(\<exists>r. formatter_init F = Some (F, r)) \<longleftrightarrow> (\<exists>r. pattern_loop (m_pattern F) 0 [] [] [] = Some r)"
    by (auto simp: formatter_init_def split: option.splits prod.splits)
  then show ?thesis using pattern_loop_returns [of "m_pattern F" 0] by simp
qed


definition sample_world :: log_world where
  "sample_world = \<lparr>appenders = (\<lambda>_. None)(3 \<mapsto> (LogAppender_init StdoutLogAppender)
       \<lparr>ap_formatter := Some (LogFormatter_ctor ''text'')\<rparr>),
     cout = ''---text'' @ [LF], files = (\<lambda>_. None)\<rparr>"

definition sample_logger :: Logger where
  "sample_logger = \<lparr>m_name = [], m_level = Some INFO, m_appenders = [3],
     m_formatter = Some (LogFormatter_ctor ''text''), m_root = None, shared = True\<rparr>"

lemma sample_logger_reachable: "reachable logger_start logger_step (sample_logger, sample_world)"
proof -
  let ?W0 = "\<lparr>appenders = (\<lambda>_. None), cout = ''---text'' @ [LF], files = (\<lambda>_. None)\<rparr>"
  let ?L0 = "\<lparr>m_name = [], m_level = None, m_appenders = [],
     m_formatter = Some (LogFormatter_ctor ''text''), m_root = None, shared = True\<rparr>"
  let ?A = "LogAppender_init StdoutLogAppender"
  let ?L1 = "?L0\<lparr>m_level := Some INFO\<rparr>"
  have "setLogPattern ''text'' (Logger_ctor ''root'' True, ?W0\<lparr>cout := []\<rparr>) = Inr (?L0, ?W0)"
    by (simp add: setLogPattern_def setLogFormatter_def LogFormatter_ctor_def Logger_ctor_def)
  then have "logger_start (?L0, ?W0)" unfolding logger_start_def by fastforce
  then have "reachable logger_start logger_step (?L0, ?W0)" by (rule reachable.start)
  moreover have "logger_step (?L0, ?W0) (?L1, ?W0)"
    using logger_step.level [of ?L0 ?W0 INFO] by (simp add: setLogLevel_def)
  moreover have "logger_step (?L1, ?W0) (?L1, put_appender 3 ?A ?W0)"
    by (rule logger_step.new_stdout) simp
  moreover have "logger_step (?L1, put_appender 3 ?A ?W0) (sample_logger, sample_world)"
    by (rule logger_step.add [of 3])
      (simp add: addAppender_def get_appender_def put_appender_def sample_logger_def sample_world_def LogAppender_init_def)
  ultimately show ?thesis by (meson reachable.next_state)
qed


text \<open>
  Setting the formatter of a logger gives it to every appender of the logger that has no
  formatter of its own marked, and leaves every other appender, the console and the files alone.
\<close>

theorem set_formatter_reaches_appenders:
  assumes "\<forall>a\<in>set (m_appenders L). appenders W a \<noteq> None"
  shows "\<exists>W'. setLogFormatter val (L, W) = Inr (L\<lparr>m_formatter := val\<rparr>, W')
           \<and> cout W' = cout W \<and> files W' = files W
           \<and> (\<forall>a. appenders W' a = (if a \<in> set (m_appenders L)
                 then map_option (\<lambda>A. if m_hasFormatter A then A else A\<lparr>ap_formatter := val\<rparr>) (appenders W a)
                 else appenders W a))"
  using formatter_loop_eq [OF assms, of val]
  by (simp add: setLogFormatter_def give_formatter_def [abs_def])

theorem set_formatter_reaches_appenders_witness:
  "\<exists>W'. setLogFormatter None (sample_logger, sample_world) = Inr (sample_logger\<lparr>m_formatter := None\<rparr>, W')
     \<and> map_option ap_formatter (appenders W' 3) = Some None"
proof -
  have "\<forall>a\<in>set (m_appenders sample_logger). appenders sample_world a \<noteq> None"
    by (simp add: sample_logger_def sample_world_def)
  from set_formatter_reaches_appenders [OF this, of None] show ?thesis
    by (auto simp: sample_logger_def sample_world_def LogAppender_init_def)
qed

end
