(* ===== verification/Redis_Reply.thy ===== *)
theory Redis_Reply
  imports CString
begin

text \<open>
  What the message store uses of the RPC library it is built with, as far as the library's
  headers (ocean_im/thirds/brpc1.7/include/brpc) hold the code: \<open>RedisReply\<close> with its inline
  accessors, \<open>RedisResponse::reply\<close>, and \<open>ClosureGuard\<close>, which runs the completion closure
  of a call when its scope ends. A reply holds its data in a union; reading another member than
  the one last written is the fault \<open>Undefined\<close>. The functions that parse replies or copy
  strings into them are compiled code and do not occur here.
\<close>

section \<open>Replies\<close>

datatype RedisReplyType =
    REDIS_REPLY_STRING
  | REDIS_REPLY_ARRAY
  | REDIS_REPLY_INTEGER
  | REDIS_REPLY_NIL
  | REDIS_REPLY_STATUS
  | REDIS_REPLY_ERROR

datatype reply_data =
    Integer_Data int
  | Short_Str string
  | Long_Str string
  | Array_Data int "RedisReply list option"
and RedisReply = RedisReply (rr_type: RedisReplyType) (rr_length: int) (rr_data: reply_data)

definition npos :: int where
  "npos = -1"

definition reply_Reset :: RedisReply where
  "reply_Reset = RedisReply REDIS_REPLY_NIL 0 (Array_Data (-1) None)"

definition is_nil :: "RedisReply \<Rightarrow> bool" where
  "is_nil r \<longleftrightarrow> rr_type r = REDIS_REPLY_NIL \<or> rr_length r = npos"

definition is_error :: "RedisReply \<Rightarrow> bool" where
  "is_error r \<longleftrightarrow> rr_type r = REDIS_REPLY_ERROR"

definition is_integer :: "RedisReply \<Rightarrow> bool" where
  "is_integer r \<longleftrightarrow> rr_type r = REDIS_REPLY_INTEGER"

definition is_string :: "RedisReply \<Rightarrow> bool" where
  "is_string r \<longleftrightarrow> rr_type r = REDIS_REPLY_STRING \<or> rr_type r = REDIS_REPLY_STATUS"

definition is_array :: "RedisReply \<Rightarrow> bool" where
  "is_array r \<longleftrightarrow> rr_type r = REDIS_REPLY_ARRAY"

text \<open>The union read as an integer, as text and as an array.\<close>

fun data_integer :: "reply_data \<Rightarrow> int result" where
  "data_integer (Integer_Data i) = Inr i"
| "data_integer _ = Inl Undefined"

definition data_str :: "int \<Rightarrow> reply_data \<Rightarrow> string result" where
  "data_str len d =
     (if len < 16 then (case d of Short_Str s \<Rightarrow> Inr s | _ \<Rightarrow> Inl Undefined)
      else (case d of Long_Str s \<Rightarrow> Inr s | _ \<Rightarrow> Inl Undefined))"

definition c_string :: "string \<Rightarrow> string" where
  "c_string s = takeWhile (\<lambda>c. c \<noteq> NUL) s"

text \<open>A failed CHECK of the library only logs.\<close>

definition reply_integer :: "RedisReply \<Rightarrow> int result" where
  "reply_integer r = (if is_integer r then data_integer (rr_data r) else Inr 0)"

definition reply_SetNullArray :: "RedisReply \<Rightarrow> RedisReply" where
  "reply_SetNullArray r =
     (let r = (if rr_type r \<noteq> REDIS_REPLY_NIL then reply_Reset else r)
      in RedisReply REDIS_REPLY_ARRAY npos (rr_data r))"

definition reply_SetNullString :: "RedisReply \<Rightarrow> RedisReply" where
  "reply_SetNullString r =
     (let r = (if rr_type r \<noteq> REDIS_REPLY_NIL then reply_Reset else r)
      in RedisReply REDIS_REPLY_STRING npos (rr_data r))"

definition reply_SetInteger :: "int \<Rightarrow> RedisReply \<Rightarrow> RedisReply" where
  "reply_SetInteger v r = RedisReply REDIS_REPLY_INTEGER 0 (Integer_Data v)"

definition reply_c_str :: "RedisReply \<Rightarrow> string result" where
  "reply_c_str r =
     (if is_string r then bind_r (data_str (rr_length r) (rr_data r)) (\<lambda>s. Inr (c_string s)) else Inr [])"

definition reply_text :: "RedisReply \<Rightarrow> string result" where
  "reply_text r =
     (if is_string r then bind_r (data_str (rr_length r) (rr_data r)) (\<lambda>s. Inr (take (nat (rr_length r)) s))
      else Inr [])"

definition reply_error_message :: "RedisReply \<Rightarrow> string result" where
  "reply_error_message r =
     (if is_error r then bind_r (data_str (rr_length r) (rr_data r)) (\<lambda>s. Inr (c_string s)) else Inr [])"

text \<open>The length becomes a size_t of 64 bits.\<close>

definition reply_size :: "RedisReply \<Rightarrow> int" where
  "reply_size r = rr_length r mod 2 ^ 64"

definition reply_index :: "nat \<Rightarrow> RedisReply \<Rightarrow> RedisReply result" where
  "reply_index i r =
     (if is_array r \<and> int i < rr_length r mod 2 ^ 64 then
        (case rr_data r of
           Array_Data last_index replies \<Rightarrow>
             bind_r (of_option Null_Deref replies) (\<lambda>rs. arr_rd rs (int i))
         | _ \<Rightarrow> Inl Undefined)
      else Inr reply_Reset)"

definition reply_Swap :: "RedisReply \<times> RedisReply \<Rightarrow> RedisReply \<times> RedisReply" where
  "reply_Swap = (\<lambda>(r, other).
     (RedisReply (rr_type other) (rr_length other) (rr_data other),
      RedisReply (rr_type r) (rr_length r) (rr_data r)))"

definition reply_CopyFromSameArena :: "RedisReply \<Rightarrow> RedisReply \<Rightarrow> RedisReply" where
  "reply_CopyFromSameArena other r = RedisReply (rr_type other) (rr_length other) (rr_data other)"

section \<open>Responses\<close>

record RedisResponse =
  first_reply :: RedisReply
  other_replies :: "RedisReply list"
  nreply :: int

definition response_reply :: "RedisResponse \<Rightarrow> int \<Rightarrow> RedisReply result" where
  "response_reply R index =
     (if index < nreply R then
        (if index = 0 then Inr (first_reply R) else arr_rd (other_replies R) (index - 1))
      else Inr reply_Reset)"

section \<open>The completion guard\<close>

text \<open>A closure is a number; the calls made so far are the list of closures run.\<close>

record ClosureGuard =
  guard_done :: "nat option"

definition ClosureGuard_ctor :: "nat option \<Rightarrow> ClosureGuard" where
  "ClosureGuard_ctor done' = \<lparr>guard_done = done'\<rparr>"

definition run_done :: "ClosureGuard \<Rightarrow> nat list \<Rightarrow> nat list" where
  "run_done G calls = (case guard_done G of None \<Rightarrow> calls | Some d \<Rightarrow> calls @ [d])"

definition ClosureGuard_dtor :: "ClosureGuard \<Rightarrow> nat list \<Rightarrow> nat list" where
  "ClosureGuard_dtor G calls = run_done G calls"

definition guard_reset :: "nat option \<Rightarrow> ClosureGuard \<times> nat list \<Rightarrow> ClosureGuard \<times> nat list" where
  "guard_reset done' = (\<lambda>(G, calls). (G\<lparr>guard_done := done'\<rparr>, run_done G calls))"

definition guard_release :: "ClosureGuard \<Rightarrow> nat option \<times> ClosureGuard" where
  "guard_release G = (guard_done G, G\<lparr>guard_done := None\<rparr>)"

definition guard_empty :: "ClosureGuard \<Rightarrow> bool" where
  "guard_empty G \<longleftrightarrow> guard_done G = None"

definition guard_swap :: "ClosureGuard \<times> ClosureGuard \<Rightarrow> ClosureGuard \<times> ClosureGuard" where
  "guard_swap = (\<lambda>(G, other). (G\<lparr>guard_done := guard_done other\<rparr>, other\<lparr>guard_done := guard_done G\<rparr>))"

section \<open>Well-formed replies\<close>

text \<open>
  The shape of a reply that was parsed: the length of a text or the number of elements agrees
  with the data, short texts are kept in place, and the elements are well formed.
\<close>

fun wf_reply :: "RedisReply \<Rightarrow> bool" where
  "wf_reply (RedisReply REDIS_REPLY_NIL n d) = (n = 0)"
| "wf_reply (RedisReply REDIS_REPLY_INTEGER n d) = (n = 0 \<and> (case d of Integer_Data i \<Rightarrow> True | _ \<Rightarrow> False))"
| "wf_reply (RedisReply REDIS_REPLY_ARRAY n (Array_Data k (Some rs))) =
     (n = int (length rs) \<and> n < 2 ^ 31 \<and> (\<forall>r\<in>set rs. wf_reply r))"
| "wf_reply (RedisReply REDIS_REPLY_ARRAY n d) = False"
| "wf_reply (RedisReply t n (Short_Str s)) = (n = int (length s) \<and> n < 16)"
| "wf_reply (RedisReply t n (Long_Str s)) = (n = int (length s) \<and> 16 \<le> n \<and> n < 2 ^ 31)"
| "wf_reply (RedisReply t n d) = False"

definition str_reply :: "string \<Rightarrow> RedisReply" where
  "str_reply s = RedisReply REDIS_REPLY_STRING (int (length s))
     (if length s < 16 then Short_Str s else Long_Str s)"

definition array_reply :: "RedisReply list \<Rightarrow> RedisReply" where
  "array_reply rs = RedisReply REDIS_REPLY_ARRAY (int (length rs)) (Array_Data (-1) (Some rs))"

lemma wf_array: "wf_reply r \<Longrightarrow> is_array r \<Longrightarrow> \<exists>k rs. r = RedisReply REDIS_REPLY_ARRAY (int (length rs)) (Array_Data k (Some rs))
    \<and> int (length rs) < 2 ^ 31 \<and> (\<forall>x\<in>set rs. wf_reply x)"
  by (cases r rule: wf_reply.cases) (auto simp: is_array_def)

lemma wf_length: "wf_reply r \<Longrightarrow> 0 \<le> rr_length r \<and> rr_length r < 2 ^ 31"
  by (cases r rule: wf_reply.cases) auto

lemma wf_size [simp]: "wf_reply r \<Longrightarrow> reply_size r = rr_length r"
  using wf_length [of r] by (simp add: reply_size_def)

lemma wf_c_str:
  assumes "wf_reply r" and "is_string r"
  obtains s where "reply_c_str r = Inr s"
  using assms by (cases r rule: wf_reply.cases) (auto simp: is_string_def reply_c_str_def data_str_def)

lemma c_str_str_reply [simp]: "reply_c_str (str_reply s) = Inr (c_string s)" "is_string (str_reply s)"
  by (simp_all add: reply_c_str_def str_reply_def is_string_def data_str_def)

lemma c_string_id [simp]: "NUL \<notin> set s \<Longrightarrow> c_string s = s"
  by (auto simp: c_string_def takeWhile_eq_all_conv)

lemma wf_reply_index:
  assumes "wf_reply r" and "is_array r"
  shows "\<exists>rs. rr_length r = int (length rs) \<and> (\<forall>x\<in>set rs. wf_reply x)
           \<and> (\<forall>i. reply_index i r = Inr (if i < length rs then rs ! i else reply_Reset))"
proof -
  obtain k rs where r: "r = RedisReply REDIS_REPLY_ARRAY (int (length rs)) (Array_Data k (Some rs))"
    "int (length rs) < 2 ^ 31" "\<forall>x\<in>set rs. wf_reply x"
    using wf_array [OF assms] by blast
  then show ?thesis by (intro exI [of _ rs]) (simp add: reply_index_def is_array_def)
qed

text \<open>
  The header promises a nil reply for an index that is out of range; on a null array the length
  -1 is a huge size_t, so every index passes the test and the null pointer is followed.
\<close>

lemma null_array_index: "i < 2 ^ 32 \<Longrightarrow> reply_index i (reply_SetNullArray reply_Reset) = Inl Null_Deref"
  by (simp add: reply_index_def reply_SetNullArray_def reply_Reset_def is_array_def npos_def)

end
