(* ===== verification/Dbproxy.thy ===== *)
theory Dbproxy
  imports Redis_Reply
begin

text \<open>
  The message store of the instant-messaging server, \<open>DbproxyServiceImpl\<close> of
  oceanim/server/dbproxy: every remote procedure, with the messages of common/messages.proto
  and dbproxy.proto as records. The Redis server with the library that talks to it and the SQL
  server with its client library are the parameter \<open>B\<close> of every operation, a record of three
  functions on their own states: whether a Redis command is accepted, what a call answers, and
  what a statement yields, namely its rows and the exception, if any, that ends them. A
  connection is leased from its pool for the duration of a handler; waiting for a free one is
  not modelled. Writes to the process log are left out.
\<close>

section \<open>Messages\<close>

record SigninData =
  si_user_id :: int
  si_password :: string
  si_client_timestamp :: int
  si_access_addr :: string

record UserLastSendData =
  ul_user_id :: int
  ul_msg_id :: int
  ul_client_time :: int
  ul_msg_time :: int

record UserInfo =
  ui_user_id :: int
  ui_name :: string

record GroupInfo =
  gi_group_id :: int
  gi_name :: string

record UserAndMsgId =
  um_user_id :: int
  um_msg_id :: int

record NewPrivateMsg =
  pm_sender :: int
  pm_sender_msg_id :: int
  pm_receiver :: int
  pm_receiver_msg_id :: int
  pm_message :: string
  pm_msg_time :: int
  pm_client_time :: int

record NewGroupMsg =
  gm_group_id :: int
  gm_user_and_msgids :: "UserAndMsgId list"
  gm_sender_user_id :: int
  gm_sender_msg_id :: int
  gm_message :: string
  gm_msg_time :: int
  gm_client_time :: int

record Msg =
  mg_user_id :: int
  mg_msg_id :: int
  mg_sender :: int
  mg_receiver :: int
  mg_message :: string
  mg_group_id :: int
  mg_client_time :: int
  mg_msg_time :: int

record MsgIdRange =
  mr_user_id :: int
  mr_start_msg_id :: int
  mr_end_msg_id :: int

record Session =
  se_has_session :: bool
  se_user_id :: int
  se_addr :: string

definition empty_Msg :: Msg where
  "empty_Msg = \<lparr>mg_user_id = 0, mg_msg_id = 0, mg_sender = 0, mg_receiver = 0, mg_message = [],
     mg_group_id = 0, mg_client_time = 0, mg_msg_time = 0\<rparr>"

definition empty_UserInfo :: UserInfo where
  "empty_UserInfo = \<lparr>ui_user_id = 0, ui_name = []\<rparr>"

definition empty_GroupInfo :: GroupInfo where
  "empty_GroupInfo = \<lparr>gi_group_id = 0, gi_name = []\<rparr>"

definition empty_Session :: Session where
  "empty_Session = \<lparr>se_has_session = False, se_user_id = 0, se_addr = []\<rparr>"

definition empty_UserLastSendData :: UserLastSendData where
  "empty_UserLastSendData = \<lparr>ul_user_id = 0, ul_msg_id = 0, ul_client_time = 0, ul_msg_time = 0\<rparr>"

section \<open>The servers behind the store\<close>

datatype redis_arg = Long_Arg int | Str_Arg string

text \<open>A request holds the one command added to it, or none when adding it failed.\<close>

type_synonym redis_request = "(string \<times> redis_arg list) option"

datatype sql_value = Sql_Int int | Sql_Str string | Sql_Null | Sql_Other

datatype sql_error = Soci_Error string | Other_Exception string

type_synonym sql_rows = "sql_value list list \<times> sql_error option"

record ('r, 'd) backend =
  AddCommand :: "string \<Rightarrow> redis_arg list \<Rightarrow> bool"
  CallMethod :: "redis_request \<Rightarrow> 'r \<Rightarrow> (int \<times> string + RedisResponse) \<times> 'r"
  Execute :: "string \<Rightarrow> sql_value list \<Rightarrow> 'd \<Rightarrow> sql_rows \<times> 'd"

datatype pool_name = db_message_connect_pool | db_group_members_connect_pool

record ('r, 'd) dbproxy =
  redis :: 'r
  message_db :: 'd
  group_members_db :: 'd

definition ChooseDatabase :: "int \<Rightarrow> pool_name" where
  "ChooseDatabase user_id = db_message_connect_pool"

definition sql_run ::
    "('r, 'd) backend \<Rightarrow> pool_name \<Rightarrow> string \<Rightarrow> sql_value list \<Rightarrow> ('r, 'd) dbproxy \<Rightarrow> sql_rows \<times> ('r, 'd) dbproxy" where
  "sql_run B pool q vals D =
     (case pool of
        db_message_connect_pool \<Rightarrow>
          (case Execute B q vals (message_db D) of (res, d) \<Rightarrow> (res, D\<lparr>message_db := d\<rparr>))
      | db_group_members_connect_pool \<Rightarrow>
          (case Execute B q vals (group_members_db D) of (res, d) \<Rightarrow> (res, D\<lparr>group_members_db := d\<rparr>)))"

definition redis_run ::
    "('r, 'd) backend \<Rightarrow> string \<Rightarrow> redis_arg list \<Rightarrow> ('r, 'd) dbproxy
     \<Rightarrow> (int \<times> string + RedisResponse) \<times> ('r, 'd) dbproxy" where
  "redis_run B fmt args D =
     (let request = (if AddCommand B fmt args then Some (fmt, args) else None) in
      case CallMethod B request (redis D) of (res, r) \<Rightarrow> (res, D\<lparr>redis := r\<rparr>))"

section \<open>The controller of a call\<close>

text \<open>The failures reported on the controller, and the completion closures that have run.\<close>

record rpc =
  failures :: "(int \<times> string) list"
  completed :: "nat list"

definition EINVAL :: int where
  "EINVAL = 22"

text \<open>SetFailed takes a printf format; here it is always called without arguments for it.\<close>

fun printf_noargs :: "string \<Rightarrow> string result" where
  "printf_noargs [] = Inr []"
| "printf_noargs (c # cs) =
     (if c \<noteq> CHR ''%'' then bind_r (printf_noargs cs) (\<lambda>t. Inr (c # t))
      else (case cs of
              d # ds \<Rightarrow> if d = CHR ''%'' then bind_r (printf_noargs ds) (\<lambda>t. Inr (CHR ''%'' # t)) else Inl Undefined
            | [] \<Rightarrow> Inl Undefined))"

definition SetFailed :: "int \<Rightarrow> string \<Rightarrow> rpc \<Rightarrow> rpc result" where
  "SetFailed code fmt cntl = bind_r (printf_noargs fmt) (\<lambda>t. Inr (cntl\<lparr>failures := failures cntl @ [(code, t)]\<rparr>))"

text \<open>Every handler opens with a guard on the closure \<open>done'\<close>, which runs when the handler returns.\<close>

definition guarded :: "nat option \<Rightarrow> ('a \<times> rpc \<times> 's) result \<Rightarrow> ('a \<times> rpc \<times> 's) result" where
  "guarded done' m =
     bind_r m (\<lambda>(x, cntl, D).
       Inr (x, cntl\<lparr>completed := ClosureGuard_dtor (ClosureGuard_ctor done') (completed cntl)\<rparr>, D))"

section \<open>Construction\<close>

record dbproxy_flags =
  FLAGS_db_name :: string
  FLAGS_db_connect_info :: string
  FLAGS_db_group_member_name :: string
  FLAGS_db_group_member_connect_info :: string
  FLAGS_redis_connection_type :: string
  FLAGS_redis_server :: string
  FLAGS_redis_timeout_ms :: int
  FLAGS_redis_max_retry :: int

definition default_flags :: dbproxy_flags where
  "default_flags =
     \<lparr>FLAGS_db_name = ''oceanim'', FLAGS_db_connect_info = ''dbname=oceanim user=root'',
      FLAGS_db_group_member_name = ''oceanim'',
      FLAGS_db_group_member_connect_info = ''dbname=oceanim user=root'',
      FLAGS_redis_connection_type = [], FLAGS_redis_server = ''127.0.0.1:6379'',
      FLAGS_redis_timeout_ms = 1000, FLAGS_redis_max_retry = 3\<rparr>"

definition kConnectNumEachDb :: nat where
  "kConnectNumEachDb = 10"

text \<open>
  \<open>open_session name info\<close> is the client library's connect, an error being an exception that it
  throws; \<open>channel_init\<close> is the initialisation of the Redis channel with its server, connection
  type, timeout and retries.
\<close>

fun open_loop :: "(string \<Rightarrow> string \<Rightarrow> 'd \<Rightarrow> sql_error + 'd) \<Rightarrow> string \<Rightarrow> string \<Rightarrow> nat \<Rightarrow> 'd \<Rightarrow> 'd result" where
  "open_loop open_session name info 0 d = Inr d"
| "open_loop open_session name info (Suc k) d =
     (case open_session name info d of
        Inl e \<Rightarrow> Inl Uncaught_Exception
      | Inr d' \<Rightarrow> open_loop open_session name info k d')"

definition DbproxyServiceImpl_ctor ::
    "(string \<Rightarrow> string \<Rightarrow> 'd \<Rightarrow> sql_error + 'd) \<Rightarrow> (string \<Rightarrow> string \<Rightarrow> int \<Rightarrow> int \<Rightarrow> int) \<Rightarrow> dbproxy_flags
     \<Rightarrow> ('r, 'd) dbproxy \<Rightarrow> ('r, 'd) dbproxy result" where
  "DbproxyServiceImpl_ctor open_session channel_init fl D =
     bind_r (open_loop open_session (FLAGS_db_name fl) (FLAGS_db_connect_info fl) kConnectNumEachDb (message_db D)) (\<lambda>m.
     bind_r (open_loop open_session (FLAGS_db_group_member_name fl) (FLAGS_db_group_member_connect_info fl)
               kConnectNumEachDb (group_members_db D)) (\<lambda>g.
       if channel_init (FLAGS_redis_server fl) (FLAGS_redis_connection_type fl) (FLAGS_redis_timeout_ms fl)
            (FLAGS_redis_max_retry fl) \<noteq> 0
       then Inl (Process_Exit (-1))
       else Inr (D\<lparr>message_db := m, group_members_db := g\<rparr>)))"

definition dbproxy_Test :: "nat option \<Rightarrow> rpc \<times> ('r, 'd) dbproxy \<Rightarrow> (unit \<times> rpc \<times> ('r, 'd) dbproxy) result" where
  "dbproxy_Test done' = (\<lambda>(cntl, D). guarded done' (Inr ((), cntl, D)))"

section \<open>Sessions\<close>

definition AuthAndSaveSession ::
    "('r, 'd) backend \<Rightarrow> SigninData \<Rightarrow> nat option \<Rightarrow> rpc \<times> ('r, 'd) dbproxy
     \<Rightarrow> (unit \<times> rpc \<times> ('r, 'd) dbproxy) result" where
  "AuthAndSaveSession B new_msg done' = (\<lambda>(pcntl, D). guarded done'
     (case redis_run B ''SET {%ld}a %s EX 3600''
             [Long_Arg (si_user_id new_msg), Str_Arg (c_string (si_access_addr new_msg))] D of
        (Inl (code, text), D) \<Rightarrow> bind_r (SetFailed code (c_string text) pcntl) (\<lambda>pcntl. Inr ((), pcntl, D))
      | (Inr response, D) \<Rightarrow> Inr ((), pcntl, D)))"

definition ClearSession ::
    "('r, 'd) backend \<Rightarrow> int \<Rightarrow> nat option \<Rightarrow> rpc \<times> ('r, 'd) dbproxy
     \<Rightarrow> (unit \<times> rpc \<times> ('r, 'd) dbproxy) result" where
  "ClearSession B user_id done' = (\<lambda>(pcntl, D). guarded done'
     (case redis_run B ''DEL {%ld}a'' [Long_Arg user_id] D of
        (Inl (code, text), D) \<Rightarrow> bind_r (SetFailed code (c_string text) pcntl) (\<lambda>pcntl. Inr ((), pcntl, D))
      | (Inr response, D) \<Rightarrow> Inr ((), pcntl, D)))"

definition mget_command :: "int list \<Rightarrow> string" where
  "mget_command user_ids = ''MGET '' @ concat (map (\<lambda>u. ''{'' @ show_int u @ ''}a'') user_ids)"

fun session_loop :: "int list \<Rightarrow> RedisReply \<Rightarrow> nat \<Rightarrow> nat \<Rightarrow> Session list \<Rightarrow> Session list result" where
  "session_loop user_ids r i 0 sessions = Inr sessions"
| "session_loop user_ids r i (Suc k) sessions =
     bind_r (arr_rd user_ids (int i)) (\<lambda>u.
     bind_r (reply_index i r) (\<lambda>e.
     let session = empty_Session\<lparr>se_user_id := u\<rparr> in
     bind_r (if is_string e
             then bind_r (reply_c_str e) (\<lambda>a. Inr (session\<lparr>se_has_session := True, se_addr := a\<rparr>))
             else Inr (session\<lparr>se_has_session := False\<rparr>)) (\<lambda>session.
       session_loop user_ids r (Suc i) k (sessions @ [session]))))"

text \<open>A failed CHECK_EQ aborts the process.\<close>

definition GetSessions ::
    "('r, 'd) backend \<Rightarrow> int list \<Rightarrow> nat option \<Rightarrow> rpc \<times> ('r, 'd) dbproxy
     \<Rightarrow> (Session list \<times> rpc \<times> ('r, 'd) dbproxy) result" where
  "GetSessions B user_ids done' = (\<lambda>(pcntl, D). guarded done'
     (case redis_run B (mget_command user_ids) [] D of
        (Inl (code, text), D) \<Rightarrow> bind_r (SetFailed code (c_string text) pcntl) (\<lambda>pcntl. Inr ([], pcntl, D))
      | (Inr response, D) \<Rightarrow>
          bind_r (response_reply response 0) (\<lambda>r.
          bind_r (guard_r Assert_Failed (reply_size r = int (length user_ids))) (\<lambda>_.
            if is_array r
            then bind_r (session_loop user_ids r 0 (nat (reply_size r)) []) (\<lambda>s. Inr (s, pcntl, D))
            else Inr ([], pcntl, D)))))"

section \<open>The last message a user sent\<close>

text \<open>The script that keeps the newest entry, as the source spells it, between double quotes.\<close>

definition last_send_script :: string where
  "last_send_script =
     ''eval '' @ [CHR 0x22]
     @ ''local a = redis.call('GET,KEYS[1])''
     @ '' if (a == false or tonumber(cjson.decode(a)[2]) < tonumber(ARGC[2])) then''
     @ '' redis.call('SETEX',KEYS[1],3600, cjson.encode({ARGV[1],ARGV[2],ARGV[3]}))''
     @ ''return 1''
     @ '' else''
     @ ''return 0''
     @ '' end'' @ [CHR 0x22] @ '' ''"

definition last_send_command :: "UserLastSendData \<Rightarrow> string" where
  "last_send_command u =
     last_send_script @ ''1'' @ '' '' @ ''{'' @ show_int (ul_user_id u) @ ''}'' @ ''u ''
     @ show_int (ul_msg_id u) @ '' '' @ show_int (ul_client_time u) @ '' '' @ show_int (ul_msg_time u)"

definition SetUserLastSendData_impl ::
    "('r, 'd) backend \<Rightarrow> UserLastSendData \<Rightarrow> rpc \<times> ('r, 'd) dbproxy \<Rightarrow> (unit \<times> rpc \<times> ('r, 'd) dbproxy) result" where
  "SetUserLastSendData_impl B u = (\<lambda>(pcntl, D).
     case redis_run B (last_send_command u) [] D of
       (Inl _, D) \<Rightarrow> bind_r (SetFailed EINVAL ''fail to set user last send data'' pcntl) (\<lambda>pcntl. Inr ((), pcntl, D))
     | (Inr response, D) \<Rightarrow> Inr ((), pcntl, D))"

definition SetUserLastSendData ::
    "('r, 'd) backend \<Rightarrow> UserLastSendData \<Rightarrow> nat option \<Rightarrow> rpc \<times> ('r, 'd) dbproxy
     \<Rightarrow> (unit \<times> rpc \<times> ('r, 'd) dbproxy) result" where
  "SetUserLastSendData B u done' S = guarded done' (SetUserLastSendData_impl B u S)"

text \<open>
  sscanf with the format [%ld,%d,%d]: a conversion skips white space and reads an optional sign
  and at least one digit, saturating as strtol does; %d keeps the low 32 bits. The first
  mismatch ends the scan and leaves the remaining variables as they are.
\<close>

definition scan_unsigned :: "string \<Rightarrow> (nat \<times> string) option" where
  "scan_unsigned s =
     (if takeWhile is_digit s = [] then None
      else Some (read_digits 0 (takeWhile is_digit s), dropWhile is_digit s))"

definition scan_long :: "string \<Rightarrow> (int \<times> string) option" where
  "scan_long s =
     (case dropWhile is_space s of
        [] \<Rightarrow> None
      | c # cs \<Rightarrow>
          if c = CHR ''-'' then map_option (\<lambda>(n, t). (clamp_long (- int n), t)) (scan_unsigned cs)
          else if c = CHR ''+'' then map_option (\<lambda>(n, t). (clamp_long (int n), t)) (scan_unsigned cs)
          else map_option (\<lambda>(n, t). (clamp_long (int n), t)) (scan_unsigned (c # cs)))"

definition scan_int :: "string \<Rightarrow> (int \<times> string) option" where
  "scan_int s = map_option (\<lambda>(i, t). (wrap_int32 i, t)) (scan_long s)"

definition scan_char :: "char \<Rightarrow> string \<Rightarrow> string option" where
  "scan_char c s = (case s of [] \<Rightarrow> None | d # t \<Rightarrow> if d = c then Some t else None)"

definition scan_last_send :: "string \<Rightarrow> int \<times> int \<times> int" where
  "scan_last_send s =
     (case Option.bind (scan_char (CHR ''['') s) scan_long of
        None \<Rightarrow> (0, 0, 0)
      | Some (msg_id, s) \<Rightarrow>
     (case Option.bind (scan_char (CHR '','') s) scan_int of
        None \<Rightarrow> (msg_id, 0, 0)
      | Some (client_time, s) \<Rightarrow>
     (case Option.bind (scan_char (CHR '','') s) scan_int of
        None \<Rightarrow> (msg_id, client_time, 0)
      | Some (msg_time, s) \<Rightarrow> (msg_id, client_time, msg_time))))"

definition last_msg_query :: string where
  "last_msg_query =
     ''SELECT msg_id,UNIX_TIMESTAMP(client_time),UNIX_TIMESTAMP(msg_time) ''
     @ ''FROM messages ''
     @ ''WHERE user_id=:user_id and sender = :sender ''
     @ ''AND client_time = (SELECT MAX(client_time) FROM messages WHERE user_id= :user_id2 AND sender=:sender2);''"

text \<open>
  The first row of the result goes into the three variables; only the first has an indicator, so
  a null in one of the others, or a number that does not fit it, is an exception. Without a row
  the indicator is not set; whatever it holds, the variables end up zero.
\<close>

definition into_int :: "sql_value \<Rightarrow> sql_error + int" where
  "into_int v =
     (case v of
        Sql_Int i \<Rightarrow> if - 2147483648 \<le> i \<and> i \<le> 2147483647 then Inr i else Inl (Soci_Error ''Cannot convert data.'')
      | Sql_Null \<Rightarrow> Inl (Soci_Error ''Null value fetched and no indicator defined.'')
      | _ \<Rightarrow> Inl (Soci_Error ''Cannot convert data.''))"

definition into_last_send :: "sql_value list list \<Rightarrow> sql_error + int \<times> int \<times> int" where
  "into_last_send rows =
     (case rows of
        [] \<Rightarrow> Inr (0, 0, 0)
      | [m, c, t] # _ \<Rightarrow>
          (case m of
             Sql_Int i \<Rightarrow>
               (case into_int c of Inl e \<Rightarrow> Inl e | Inr ct \<Rightarrow>
               (case into_int t of Inl e \<Rightarrow> Inl e | Inr mt \<Rightarrow> Inr (i, ct, mt)))
           | Sql_Null \<Rightarrow>
               (case into_int c of Inl e \<Rightarrow> Inl e | Inr ct \<Rightarrow>
               (case into_int t of Inl e \<Rightarrow> Inl e | Inr mt \<Rightarrow> Inr (0, 0, 0)))
           | _ \<Rightarrow> Inl (Soci_Error ''Cannot convert data.''))
      | _ \<Rightarrow> Inl (Soci_Error ''Cannot convert data.''))"

definition set_last_send :: "int \<times> int \<times> int \<Rightarrow> UserLastSendData \<Rightarrow> UserLastSendData" where
  "set_last_send = (\<lambda>(m, c, t) u. u\<lparr>ul_msg_id := m, ul_client_time := c, ul_msg_time := t\<rparr>)"

definition GetUserLastSendData ::
    "('r, 'd) backend \<Rightarrow> int \<Rightarrow> nat option \<Rightarrow> rpc \<times> ('r, 'd) dbproxy
     \<Rightarrow> (UserLastSendData \<times> rpc \<times> ('r, 'd) dbproxy) result" where
  "GetUserLastSendData B user_id done' = (\<lambda>(pcntl, D). guarded done'
     (case redis_run B ''GET {%ld}u'' [Long_Arg user_id] D of
        (Inl _, D) \<Rightarrow>
          bind_r (SetFailed EINVAL ''Fail to get data from redis.'' pcntl)
            (\<lambda>pcntl. Inr (empty_UserLastSendData, pcntl, D))
      | (Inr response, D) \<Rightarrow>
          bind_r (response_reply response 0) (\<lambda>r.
            if is_string r then
              bind_r (reply_c_str r) (\<lambda>s.
                Inr (set_last_send (scan_last_send s) empty_UserLastSendData, pcntl, D))
            else
              (case sql_run B (ChooseDatabase user_id) last_msg_query
                      [Sql_Int user_id, Sql_Int user_id, Sql_Int user_id, Sql_Int user_id] D of
                 ((rows, err), D) \<Rightarrow>
                   (case (if rows = [] \<and> err \<noteq> None then Inl (the err) else into_last_send rows) of
                      Inl e \<Rightarrow>
                        bind_r (SetFailed EINVAL ''Fail to select from messages. '' pcntl)
                          (\<lambda>pcntl. Inr (empty_UserLastSendData, pcntl, D))
                    | Inr v \<Rightarrow> Inr (set_last_send v empty_UserLastSendData, pcntl, D))))))"

section \<open>Saving messages\<close>

definition message_values :: "int \<Rightarrow> int \<Rightarrow> int \<Rightarrow> int \<Rightarrow> int \<Rightarrow> string \<Rightarrow> int \<Rightarrow> int \<Rightarrow> sql_value list" where
  "message_values user_id sender receiver msg_id group_id message client_time msg_time =
     [Sql_Int user_id, Sql_Int sender, Sql_Int receiver, Sql_Int msg_id,
      Sql_Int group_id, Sql_Str message, Sql_Int client_time, Sql_Int msg_time]"

definition insert_pair_query :: string where
  "insert_pair_query =
     ''INSERT INTO messages(user_id, sender, receiver, msg_id, group_id, message, client_time, msg_time) ''
     @ ''VALUES (:user_id, :sender, :receiver, :msg_id, :group_id, :message, FROM_UNIXTIME(:client_time), FROM_UNIXTIME(:msg_time)), ''
     @ ''(:receiver2, :sender2, :receiver2, :receiver_msg_id2, :group_id2, :message2, FROM_UNIXTIME(:client_time2), FROM_UNIXTIME(:msg_time2));''"

definition insert_sender_query :: string where
  "insert_sender_query =
     ''INSERT INTO messages(user_id, sender,receiver,msg_id,group_id,message,client_time,msg_time) ''
     @ ''VALUES (:user_id,:sender,:receiver,:msg_id,:group_id,:message, FROM_UNIXTIME(:client_time), FROM_UNIXTIME(:msg_time));''"

definition insert_receiver_query :: string where
  "insert_receiver_query =
     ''INSERT INTO messages(user_id, sender, receiver, msg_id, group_id, message, client_time, msg_time) ''
     @ ''VALUES (:user_id, :sender, :receiver, :receiver_msg_id, :group_id, :message, FROM_UNIXTIME(:client_send), FROM_UNIXTIME(:msg_time));''"

definition insert_group_query :: string where
  "insert_group_query =
     ''INSERT INTO messages(user_id, sender,receiver,msg_id,group_id,message,client_time, msg_time) ''
     @ ''VALUES (:user_id,:sender,:receiver,:msg_id,:group_id,:message,FROM_UNIXTIME(:client_time),FROM_UNIXTIME(:msg_time)) ''"

definition sender_values :: "NewPrivateMsg \<Rightarrow> sql_value list" where
  "sender_values n = message_values (pm_sender n) (pm_sender n) (pm_receiver n) (pm_sender_msg_id n) 0
     (pm_message n) (pm_client_time n) (pm_msg_time n)"

definition receiver_values :: "NewPrivateMsg \<Rightarrow> sql_value list" where
  "receiver_values n = message_values (pm_receiver n) (pm_sender n) (pm_receiver n) (pm_receiver_msg_id n) 0
     (pm_message n) (pm_client_time n) (pm_msg_time n)"

definition insert_private ::
    "('r, 'd) backend \<Rightarrow> NewPrivateMsg \<Rightarrow> ('r, 'd) dbproxy \<Rightarrow> sql_error option \<times> ('r, 'd) dbproxy" where
  "insert_private B n D =
     (let pool = ChooseDatabase (pm_sender n); peer_pool = ChooseDatabase (pm_receiver n) in
      if pool = peer_pool then
        (case sql_run B pool insert_pair_query (sender_values n @ receiver_values n) D of
           ((_, err), D) \<Rightarrow> (err, D))
      else
        (case sql_run B pool insert_sender_query (sender_values n) D of
           ((_, Some e), D) \<Rightarrow> (Some e, D)
         | ((_, None), D) \<Rightarrow>
             (case sql_run B peer_pool insert_receiver_query (receiver_values n) D of
                ((_, err), D) \<Rightarrow> (err, D))))"

definition SavePrivateMsg ::
    "('r, 'd) backend \<Rightarrow> NewPrivateMsg \<Rightarrow> nat option \<Rightarrow> rpc \<times> ('r, 'd) dbproxy
     \<Rightarrow> (unit \<times> rpc \<times> ('r, 'd) dbproxy) result" where
  "SavePrivateMsg B n done' = (\<lambda>(cntl, D). guarded done'
     (case insert_private B n D of
        (Some (Soci_Error e), D) \<Rightarrow>
          bind_r (SetFailed EINVAL ''Fail to insert to message.'' cntl) (\<lambda>cntl. Inr ((), cntl, D))
      | (Some (Other_Exception e), D) \<Rightarrow> Inl Uncaught_Exception
      | (None, D) \<Rightarrow>
          SetUserLastSendData_impl B
            \<lparr>ul_user_id = pm_sender n, ul_msg_id = pm_sender_msg_id n,
             ul_client_time = pm_client_time n, ul_msg_time = pm_msg_time n\<rparr> (cntl, D)))"

definition group_values :: "NewGroupMsg \<Rightarrow> UserAndMsgId \<Rightarrow> sql_value list" where
  "group_values g u = message_values (um_user_id u) (gm_sender_user_id g) (gm_group_id g) (um_msg_id u) (gm_group_id g)
     (gm_message g) (gm_client_time g) (gm_msg_time g)"

fun group_loop ::
    "('r, 'd) backend \<Rightarrow> NewGroupMsg \<Rightarrow> UserAndMsgId list \<Rightarrow> ('r, 'd) dbproxy \<Rightarrow> sql_error option \<times> ('r, 'd) dbproxy" where
  "group_loop B g [] D = (None, D)"
| "group_loop B g (u # us) D =
     (case sql_run B (ChooseDatabase (um_user_id u)) insert_group_query (group_values g u) D of
        ((_, Some e), D) \<Rightarrow> (Some e, D)
      | ((_, None), D) \<Rightarrow> group_loop B g us D)"

definition SaveGroupMsg ::
    "('r, 'd) backend \<Rightarrow> NewGroupMsg \<Rightarrow> nat option \<Rightarrow> rpc \<times> ('r, 'd) dbproxy
     \<Rightarrow> (unit \<times> rpc \<times> ('r, 'd) dbproxy) result" where
  "SaveGroupMsg B g done' = (\<lambda>(cntl, D). guarded done'
     (case group_loop B g (gm_user_and_msgids g) D of
        (Some e, D) \<Rightarrow>
          bind_r (SetFailed EINVAL ''fail to insert into messgaes.'' cntl) (\<lambda>cntl. Inr ((), cntl, D))
      | (None, D) \<Rightarrow>
          SetUserLastSendData_impl B
            \<lparr>ul_user_id = gm_sender_user_id g, ul_msg_id = gm_sender_msg_id g,
             ul_client_time = gm_client_time g, ul_msg_time = gm_msg_time g\<rparr> (cntl, D)))"

section \<open>Reading messages, friends and groups\<close>

text \<open>
  row.get<long long> and row.get<std::string>: a missing column and a value of another type are
  exceptions of the standard library, a null is one of the client library.
\<close>

definition get_long :: "sql_value list \<Rightarrow> nat \<Rightarrow> sql_error + int" where
  "get_long row i =
     (if i < length row then
        (case row ! i of
           Sql_Int v \<Rightarrow> Inr v
         | Sql_Null \<Rightarrow> Inl (Soci_Error ''Null value not allowed for this type'')
         | _ \<Rightarrow> Inl (Other_Exception ''std::bad_cast''))
      else Inl (Other_Exception ''std::out_of_range''))"

definition get_str :: "sql_value list \<Rightarrow> nat \<Rightarrow> sql_error + string" where
  "get_str row i =
     (if i < length row then
        (case row ! i of
           Sql_Str s \<Rightarrow> Inr s
         | Sql_Null \<Rightarrow> Inl (Soci_Error ''Null value not allowed for this type'')
         | _ \<Rightarrow> Inl (Other_Exception ''std::bad_cast''))
      else Inl (Other_Exception ''std::out_of_range''))"

text \<open>
  An element is added to the response before its fields are set from the row, so an exception
  leaves it there with the fields set so far.
\<close>

fun run_setters :: "('m \<Rightarrow> sql_error + 'm) list \<Rightarrow> 'm \<Rightarrow> 'm \<times> sql_error option" where
  "run_setters [] m = (m, None)"
| "run_setters (f # fs) m = (case f m of Inl e \<Rightarrow> (m, Some e) | Inr m' \<Rightarrow> run_setters fs m')"

fun row_loop :: "(sql_value list \<Rightarrow> ('m \<Rightarrow> sql_error + 'm) list) \<Rightarrow> 'm \<Rightarrow> sql_value list list \<Rightarrow> sql_error option \<Rightarrow> 'm list
     \<Rightarrow> 'm list \<times> sql_error option" where
  "row_loop setters m [] err ms = (ms, err)"
| "row_loop setters m (row # rows) err ms =
     (case run_setters (setters row) m of
        (m', Some e) \<Rightarrow> (ms @ [m'], Some e)
      | (m', None) \<Rightarrow> row_loop setters m rows err (ms @ [m']))"

definition setting :: "sql_error + 'v \<Rightarrow> ('v \<Rightarrow> 'm \<Rightarrow> 'm) \<Rightarrow> 'm \<Rightarrow> sql_error + 'm" where
  "setting v f m = (case v of Inl e \<Rightarrow> Inl e | Inr x \<Rightarrow> Inr (f x m))"

definition msg_fields :: "int \<Rightarrow> sql_value list \<Rightarrow> (Msg \<Rightarrow> sql_error + Msg) list" where
  "msg_fields user_id row =
     [setting (Inr user_id) (\<lambda>v m. m\<lparr>mg_user_id := v\<rparr>),
      setting (get_long row 0) (\<lambda>v m. m\<lparr>mg_sender := v\<rparr>),
      setting (get_long row 1) (\<lambda>v m. m\<lparr>mg_receiver := v\<rparr>),
      setting (get_long row 2) (\<lambda>v m. m\<lparr>mg_msg_id := v\<rparr>),
      setting (get_long row 3) (\<lambda>v m. m\<lparr>mg_group_id := v\<rparr>),
      setting (get_str row 4) (\<lambda>v m. m\<lparr>mg_message := v\<rparr>),
      setting (get_long row 5) (\<lambda>v m. m\<lparr>mg_client_time := wrap_int32 v\<rparr>),
      setting (get_long row 6) (\<lambda>v m. m\<lparr>mg_msg_time := wrap_int32 v\<rparr>)]"

definition user_fields :: "sql_value list \<Rightarrow> (UserInfo \<Rightarrow> sql_error + UserInfo) list" where
  "user_fields row =
     [setting (get_long row 0) (\<lambda>v m. m\<lparr>ui_user_id := v\<rparr>), setting (get_str row 1) (\<lambda>v m. m\<lparr>ui_name := v\<rparr>)]"

definition group_fields :: "sql_value list \<Rightarrow> (GroupInfo \<Rightarrow> sql_error + GroupInfo) list" where
  "group_fields row =
     [setting (get_long row 0) (\<lambda>v m. m\<lparr>gi_group_id := v\<rparr>), setting (get_str row 1) (\<lambda>v m. m\<lparr>gi_name := v\<rparr>)]"

text \<open>The four reading handlers differ in the statement, the fields and the text of the failure.\<close>

definition select_into ::
    "('r, 'd) backend \<Rightarrow> pool_name \<Rightarrow> string \<Rightarrow> sql_value list \<Rightarrow> (sql_value list \<Rightarrow> ('m \<Rightarrow> sql_error + 'm) list) \<Rightarrow> 'm
     \<Rightarrow> string \<Rightarrow> rpc \<times> ('r, 'd) dbproxy \<Rightarrow> ('m list \<times> rpc \<times> ('r, 'd) dbproxy) result" where
  "select_into B pool q vals setters m text = (\<lambda>(pcntl, D).
     case sql_run B pool q vals D of ((rows, err), D) \<Rightarrow>
       (case row_loop setters m rows err [] of
          (ms, None) \<Rightarrow> Inr (ms, pcntl, D)
        | (ms, Some (Soci_Error e)) \<Rightarrow> bind_r (SetFailed EINVAL text pcntl) (\<lambda>pcntl. Inr (ms, pcntl, D))
        | (ms, Some (Other_Exception e)) \<Rightarrow> Inl Uncaught_Exception))"

definition get_msgs_query :: string where
  "get_msgs_query =
     ''SELECT sender, receiver, msg_id,group_id,message, ''
     @ ''UNIX_TIMESTAMP(client_time),UNIX_TIMESTAMP(msg_time)''
     @ ''FROM messages ''
     @ ''WHERE user_id=:user_id AND msg_id BETWEEN :start_msg_id AND :end_msg_id AND deleted =0''"

definition GetMsgs ::
    "('r, 'd) backend \<Rightarrow> MsgIdRange \<Rightarrow> nat option \<Rightarrow> rpc \<times> ('r, 'd) dbproxy
     \<Rightarrow> (Msg list \<times> rpc \<times> ('r, 'd) dbproxy) result" where
  "GetMsgs B msg_range done' S = guarded done'
     (select_into B (ChooseDatabase (mr_user_id msg_range)) get_msgs_query
        [Sql_Int (mr_user_id msg_range), Sql_Int (mr_start_msg_id msg_range), Sql_Int (mr_end_msg_id msg_range)]
        (msg_fields (mr_user_id msg_range)) empty_Msg ''fail to select from messages. '' S)"

definition GetFriends ::
    "('r, 'd) backend \<Rightarrow> int \<Rightarrow> nat option \<Rightarrow> rpc \<times> ('r, 'd) dbproxy
     \<Rightarrow> (UserInfo list \<times> rpc \<times> ('r, 'd) dbproxy) result" where
  "GetFriends B user_id done' S = guarded done'
     (select_into B (ChooseDatabase user_id)
        (''SELECT peer_id,peer_name'' @ ''FROM friends'' @ ''WHERE user_id=:user_id AND deleted=0'')
        [Sql_Int user_id] user_fields empty_UserInfo ''fail to select from friends.'' S)"

definition GetGroups ::
    "('r, 'd) backend \<Rightarrow> int \<Rightarrow> nat option \<Rightarrow> rpc \<times> ('r, 'd) dbproxy
     \<Rightarrow> (GroupInfo list \<times> rpc \<times> ('r, 'd) dbproxy) result" where
  "GetGroups B user_id done' S = guarded done'
     (select_into B (ChooseDatabase user_id)
        (''SELECT group_id,group_name'' @ ''FROM group_members'' @ ''WHERE user_id=:user_id'')
        [Sql_Int user_id] group_fields empty_GroupInfo ''fail to select from group_members.'' S)"

definition GetGroupMembers ::
    "('r, 'd) backend \<Rightarrow> int \<Rightarrow> nat option \<Rightarrow> rpc \<times> ('r, 'd) dbproxy
     \<Rightarrow> (UserInfo list \<times> rpc \<times> ('r, 'd) dbproxy) result" where
  "GetGroupMembers B group_id done' S = guarded done'
     (select_into B (ChooseDatabase group_id)
        (''SELECT user_id,user_name '' @ ''FROM group_members '' @ ''WHERE group_id =:group_id'')
        [Sql_Int group_id] user_fields empty_UserInfo ''Fail to select from group_members.'' S)"

section \<open>The service\<close>

text \<open>The calls of \<open>DbProxyService\<close> that the class implements, and their answers.\<close>

datatype dbproxy_request =
    Test_req
  | AuthAndSaveSession_req SigninData
  | ClearSession_req int
  | SavePrivateMsg_req NewPrivateMsg
  | SaveGroupMsg_req NewGroupMsg
  | SetUserLastSendData_req UserLastSendData
  | GetUserLastSendData_req int
  | GetSessions_req "int list"
  | GetMsgs_req MsgIdRange
  | GetFriends_req int
  | GetGroups_req int
  | GetGroupMembers_req int

datatype dbproxy_response =
    Empty_resp
  | LastSend_resp UserLastSendData
  | Sessions_resp "Session list"
  | Msgs_resp "Msg list"
  | UserInfos_resp "UserInfo list"
  | GroupInfos_resp "GroupInfo list"

definition answer :: "('a \<Rightarrow> dbproxy_response) \<Rightarrow> ('a \<times> rpc \<times> 's) result \<Rightarrow> (dbproxy_response \<times> rpc \<times> 's) result" where
  "answer f m = bind_r m (\<lambda>(x, cntl, D). Inr (f x, cntl, D))"

fun dbproxy_serve ::
    "('r, 'd) backend \<Rightarrow> dbproxy_request \<Rightarrow> nat option \<Rightarrow> rpc \<times> ('r, 'd) dbproxy
     \<Rightarrow> (dbproxy_response \<times> rpc \<times> ('r, 'd) dbproxy) result" where
  "dbproxy_serve B Test_req done' S = answer (\<lambda>_. Empty_resp) (dbproxy_Test done' S)"
| "dbproxy_serve B (AuthAndSaveSession_req x) done' S = answer (\<lambda>_. Empty_resp) (AuthAndSaveSession B x done' S)"
| "dbproxy_serve B (ClearSession_req x) done' S = answer (\<lambda>_. Empty_resp) (ClearSession B x done' S)"
| "dbproxy_serve B (SavePrivateMsg_req x) done' S = answer (\<lambda>_. Empty_resp) (SavePrivateMsg B x done' S)"
| "dbproxy_serve B (SaveGroupMsg_req x) done' S = answer (\<lambda>_. Empty_resp) (SaveGroupMsg B x done' S)"
| "dbproxy_serve B (SetUserLastSendData_req x) done' S = answer (\<lambda>_. Empty_resp) (SetUserLastSendData B x done' S)"
| "dbproxy_serve B (GetUserLastSendData_req x) done' S = answer LastSend_resp (GetUserLastSendData B x done' S)"
| "dbproxy_serve B (GetSessions_req x) done' S = answer Sessions_resp (GetSessions B x done' S)"
| "dbproxy_serve B (GetMsgs_req x) done' S = answer Msgs_resp (GetMsgs B x done' S)"
| "dbproxy_serve B (GetFriends_req x) done' S = answer UserInfos_resp (GetFriends B x done' S)"
| "dbproxy_serve B (GetGroups_req x) done' S = answer GroupInfos_resp (GetGroups B x done' S)"
| "dbproxy_serve B (GetGroupMembers_req x) done' S = answer UserInfos_resp (GetGroupMembers B x done' S)"

text \<open>
  The main program of dbproxy.cpp; \<open>add_service\<close> and \<open>start\<close> are what the RPC server answers to the
  registration and, for a port and an idle timeout, to the start.
\<close>

definition dbproxy_main ::
    "(string \<Rightarrow> string \<Rightarrow> 'd \<Rightarrow> sql_error + 'd) \<Rightarrow> (string \<Rightarrow> string \<Rightarrow> int \<Rightarrow> int \<Rightarrow> int) \<Rightarrow> int \<Rightarrow> (int \<Rightarrow> int \<Rightarrow> int)
     \<Rightarrow> dbproxy_flags \<Rightarrow> int \<Rightarrow> int \<Rightarrow> ('r, 'd) dbproxy \<Rightarrow> int result" where
  "dbproxy_main open_session channel_init add_service start fl port idle_timeout_s D =
     bind_r (DbproxyServiceImpl_ctor open_session channel_init fl D) (\<lambda>D.
       if add_service \<noteq> 0 then Inr (-1)
       else if start port idle_timeout_s \<noteq> 0 then Inr (-1)
       else Inr 0)"

end
