(* ===== verification/Logic_Service.thy ===== *)
theory Logic_Service
  imports Dbproxy
begin

text \<open>
  The logic server of oceanim/server/logic: \<open>LogicServiceImpl\<close> as far as it is written, and the
  closure \<open>SendToAccessClosure\<close>. Most of its remote procedures have an empty body, which the
  model keeps: they neither set a guard on the completion closure nor run it.
\<close>

record NewMsg =
  nm_user_id :: int
  nm_peer_id :: int
  nm_msg_type :: int
  nm_message :: string
  nm_client_time :: int
  nm_msg_time :: int

record LogicServiceImpl =
  id_channel :: nat
  db_channel :: nat
  access_map :: "string \<Rightarrow> nat option"

definition LogicServiceImpl_ctor :: "nat \<Rightarrow> nat \<Rightarrow> LogicServiceImpl" where
  "LogicServiceImpl_ctor id_channel' db_channel' =
     \<lparr>id_channel = id_channel', db_channel = db_channel', access_map = (\<lambda>_. None)\<rparr>"

text \<open>Objects the closure owns, by address: running it deletes them and itself.\<close>

record SendToAccessClosure =
  closure_cntl :: nat
  closure_pong :: nat

definition SendToAccessClosure_dtor :: "SendToAccessClosure \<Rightarrow> nat set \<Rightarrow> nat set result" where
  "SendToAccessClosure_dtor c live =
     bind_r (guard_r Use_After_Free (closure_cntl c \<in> live)) (\<lambda>_.
     let live = live - {closure_cntl c} in
     bind_r (guard_r Use_After_Free (closure_pong c \<in> live)) (\<lambda>_.
       Inr (live - {closure_pong c})))"

definition SendToAccessClosure_Run :: "nat \<Rightarrow> SendToAccessClosure \<Rightarrow> nat set \<Rightarrow> nat set result" where
  "SendToAccessClosure_Run this c live =
     bind_r (guard_r Use_After_Free (this \<in> live)) (\<lambda>_.
     bind_r (SendToAccessClosure_dtor c live) (\<lambda>live. Inr (live - {this})))"

definition logic_Test :: "nat option \<Rightarrow> rpc \<times> LogicServiceImpl \<Rightarrow> (unit \<times> rpc \<times> LogicServiceImpl) result" where
  "logic_Test done' = (\<lambda>(cntl, S). guarded done' (Inr ((), cntl, S)))"

definition logic_SendMsg ::
    "NewMsg \<Rightarrow> nat option \<Rightarrow> rpc \<times> LogicServiceImpl \<Rightarrow> (unit \<times> rpc \<times> LogicServiceImpl) result" where
  "logic_SendMsg new_msg done' = (\<lambda>(cntl, S). guarded done' (Inr ((), cntl, S)))"

definition logic_PullData :: "int \<Rightarrow> nat option \<Rightarrow> rpc \<times> LogicServiceImpl \<Rightarrow> (unit \<times> rpc \<times> LogicServiceImpl) result" where
  "logic_PullData ping done' = (\<lambda>(cntl, S). Inr ((), cntl, S))"

definition logic_GetMsgs :: "MsgIdRange \<Rightarrow> nat option \<Rightarrow> rpc \<times> LogicServiceImpl \<Rightarrow> (unit \<times> rpc \<times> LogicServiceImpl) result" where
  "logic_GetMsgs msg_range done' = (\<lambda>(cntl, S). Inr ((), cntl, S))"

definition logic_GetFriends :: "int \<Rightarrow> nat option \<Rightarrow> rpc \<times> LogicServiceImpl \<Rightarrow> (unit \<times> rpc \<times> LogicServiceImpl) result" where
  "logic_GetFriends user_id done' = (\<lambda>(cntl, S). Inr ((), cntl, S))"

definition logic_GetGroups :: "int \<Rightarrow> nat option \<Rightarrow> rpc \<times> LogicServiceImpl \<Rightarrow> (unit \<times> rpc \<times> LogicServiceImpl) result" where
  "logic_GetGroups user_id done' = (\<lambda>(cntl, S). Inr ((), cntl, S))"

definition logic_GetGroupMembers :: "int \<Rightarrow> nat option \<Rightarrow> rpc \<times> LogicServiceImpl \<Rightarrow> (unit \<times> rpc \<times> LogicServiceImpl) result" where
  "logic_GetGroupMembers group_id done' = (\<lambda>(cntl, S). Inr ((), cntl, S))"

definition logic_SendtoPeers :: "nat \<Rightarrow> unit result" where
  "logic_SendtoPeers args = Inl Missing_Return"

text \<open>The closure of a finished call frees exactly what it owns and itself.\<close>

lemma closure_run_frees:
  assumes "this \<in> live" "closure_cntl c \<in> live" "closure_pong c \<in> live" "closure_cntl c \<noteq> closure_pong c"
  shows "SendToAccessClosure_Run this c live = Inr (live - {this, closure_cntl c, closure_pong c})"
  using assms by (auto simp: SendToAccessClosure_Run_def SendToAccessClosure_dtor_def Let_def)

text \<open>Among the calls of the logic service only Test and SendMsg ever complete.\<close>

lemma logic_completions:
  "logic_Test (Some d) (cntl, S) = Inr ((), cntl\<lparr>completed := completed cntl @ [d]\<rparr>, S)"
  "logic_SendMsg m (Some d) (cntl, S) = Inr ((), cntl\<lparr>completed := completed cntl @ [d]\<rparr>, S)"
  "logic_GetMsgs r (Some d) (cntl, S) = Inr ((), cntl, S)"
  by (simp_all add: logic_Test_def logic_SendMsg_def logic_GetMsgs_def guarded_def ClosureGuard_dtor_def
      ClosureGuard_ctor_def run_done_def)

end
