(* ===== verification/Dbproxy_Props.thy ===== *)
theory Dbproxy_Props
  imports Dbproxy
begin

text \<open>
  What the message store guarantees: every call it returns from is answered once, messages can be
  read back by their owners, the cached last message survives its textual form, and the lookup of
  several sessions cannot succeed. What the SQL server and the Redis server contribute is stated
  as hypotheses on the parameter \<open>B\<close>: \<open>sql_table\<close> (INSERT appends the given rows, SELECT returns
  the matching ones in order) and \<open>mget_counts_keys\<close> (MGET answers one element per key).
\<close>

section \<open>Completion\<close>

definition answered :: "nat \<Rightarrow> rpc \<Rightarrow> rpc \<Rightarrow> bool" where
  "answered d cntl cntl' \<longleftrightarrow>
     completed cntl' = completed cntl @ [d]
     \<and> (failures cntl' = failures cntl \<or> (\<exists>f. failures cntl' = failures cntl @ [f]))"

definition open_call :: "rpc \<Rightarrow> rpc \<Rightarrow> bool" where
  "open_call cntl cntl' \<longleftrightarrow>
     completed cntl' = completed cntl
     \<and> (failures cntl' = failures cntl \<or> (\<exists>f. failures cntl' = failures cntl @ [f]))"

lemma open_call_refl [simp]: "open_call cntl cntl"
  by (simp add: open_call_def)

abbreviation opens :: "rpc \<Rightarrow> ('a \<times> rpc \<times> 's) result \<Rightarrow> bool" where
  "opens cntl \<equiv> ok_r (\<lambda>(x, c, D). open_call cntl c)"

lemma opens_failed: "opens cntl (bind_r (SetFailed code t cntl) (\<lambda>c. Inr (x, c, D)))"
  by (auto simp: SetFailed_def ok_r_def open_call_def split: sum.splits)

lemma opens_Inr: "opens cntl (Inr (x, cntl, D))"
  by (simp add: ok_r_def)

lemma opens_bind: "(\<And>x. opens cntl (f x)) \<Longrightarrow> opens cntl (bind_r m f)"
  by (rule ok_bind)

lemma opens_Inl: "opens cntl (Inl e)"
  by (rule ok_Inl)

lemmas opens_rules = opens_failed opens_Inr opens_Inl opens_bind

lemma opens_last_send: "opens cntl (SetUserLastSendData_impl B u (cntl, D))"
  by (auto simp: SetUserLastSendData_impl_def intro: opens_rules split: prod.split sum.split)

lemma opens_select: "opens cntl (select_into B pool q vals st m t (cntl, D))"
  by (auto simp: select_into_def intro: opens_rules split: prod.split option.split sql_error.split)

lemma guarded_answered:
  "opens cntl m \<Longrightarrow> ok_r (\<lambda>(x, c, D). answered d cntl c) (guarded (Some d) m)"
  by (auto simp: guarded_def ok_r_def open_call_def answered_def ClosureGuard_dtor_def ClosureGuard_ctor_def
      run_done_def split: sum.splits)

lemma answered_answer:
  "ok_r (\<lambda>(x, c, D). answered d cntl c) m \<Longrightarrow> ok_r (\<lambda>(x, c, D). answered d cntl c) (answer f m)"
  by (auto simp: answer_def ok_r_def split: sum.splits)

lemmas handler_defs = AuthAndSaveSession_def ClearSession_def SavePrivateMsg_def SaveGroupMsg_def
  SetUserLastSendData_def GetUserLastSendData_def GetSessions_def GetMsgs_def GetFriends_def GetGroups_def
  GetGroupMembers_def dbproxy_Test_def

lemma serve_answered:
  "ok_r (\<lambda>(x, c, D). answered d cntl c) (dbproxy_serve B req (Some d) (cntl, D))"
  by (cases req)
     (auto simp: handler_defs
           intro!: answered_answer guarded_answered opens_rules opens_last_send opens_select
           split: prod.split sum.split option.split sql_error.split if_split)

section \<open>The message table\<close>

text \<open>A row holds the eight values of an INSERT, with times that fit the 32 bits of the message fields.\<close>

definition row_ok :: "sql_value list \<Rightarrow> bool" where
  "row_ok row \<longleftrightarrow> (\<exists>u s r i g m c t. row = message_values u s r i g m c t
     \<and> - 2147483648 \<le> c \<and> c \<le> 2147483647 \<and> - 2147483648 \<le> t \<and> t \<le> 2147483647)"

definition owned_in_range :: "int \<Rightarrow> int \<Rightarrow> int \<Rightarrow> sql_value list \<Rightarrow> bool" where
  "owned_in_range u lo hi row \<longleftrightarrow>
     row ! 0 = Sql_Int u \<and> (case row ! 3 of Sql_Int i \<Rightarrow> lo \<le> i \<and> i \<le> hi | _ \<Rightarrow> False)"

definition msg_columns :: "sql_value list \<Rightarrow> sql_value list" where
  "msg_columns row = [row ! 1, row ! 2, row ! 3, row ! 4, row ! 5, row ! 6, row ! 7]"

definition sql_table :: "('r, sql_value list list) backend \<Rightarrow> bool" where
  "sql_table B \<longleftrightarrow>
     (\<forall>v w d. length v = 8 \<longrightarrow> length w = 8 \<longrightarrow> Execute B insert_pair_query (v @ w) d = (([], None), d @ [v, w]))
     \<and> (\<forall>v d. length v = 8 \<longrightarrow> Execute B insert_group_query v d = (([], None), d @ [v]))
     \<and> (\<forall>u lo hi d. Execute B get_msgs_query [Sql_Int u, Sql_Int lo, Sql_Int hi] d
           = ((map msg_columns (filter (owned_in_range u lo hi) d), None), d))"

definition sql_int :: "sql_value \<Rightarrow> int" where
  "sql_int v = (case v of Sql_Int i \<Rightarrow> i | _ \<Rightarrow> 0)"

definition sql_str :: "sql_value \<Rightarrow> string" where
  "sql_str v = (case v of Sql_Str s \<Rightarrow> s | _ \<Rightarrow> [])"

definition row_msg :: "sql_value list \<Rightarrow> Msg" where
  "row_msg row =
     \<lparr>mg_user_id = sql_int (row ! 0), mg_msg_id = sql_int (row ! 3), mg_sender = sql_int (row ! 1),
      mg_receiver = sql_int (row ! 2), mg_message = sql_str (row ! 5), mg_group_id = sql_int (row ! 4),
      mg_client_time = sql_int (row ! 6), mg_msg_time = sql_int (row ! 7)\<rparr>"

lemma wrap_int32_id [simp]: "- 2147483648 \<le> i \<Longrightarrow> i \<le> 2147483647 \<Longrightarrow> wrap_int32 i = i"
  by (simp add: wrap_int32_def)

lemma run_msg_fields:
  assumes "row_ok row" and "row ! 0 = Sql_Int u"
  shows "run_setters (msg_fields u (msg_columns row)) empty_Msg = (row_msg row, None)"
  using assms
  by (auto simp: row_ok_def message_values_def msg_columns_def msg_fields_def setting_def get_long_def get_str_def
      empty_Msg_def row_msg_def sql_int_def sql_str_def)

lemma row_loop_msgs:
  assumes "\<forall>row\<in>set rows. row_ok row \<and> row ! 0 = Sql_Int u"
  shows "row_loop (msg_fields u) empty_Msg (map msg_columns rows) None ms = (ms @ map row_msg rows, None)"
  using assms by (induction rows arbitrary: ms) (simp_all add: run_msg_fields)

lemma GetMsgs_rows:
  assumes "sql_table B" and "\<forall>row\<in>set (message_db D). row_ok row"
  shows "GetMsgs B \<lparr>mr_user_id = u, mr_start_msg_id = lo, mr_end_msg_id = hi\<rparr> done' (cntl, D)
         = guarded done' (Inr (map row_msg (filter (owned_in_range u lo hi) (message_db D)), cntl, D))"
proof -
  have "row_loop (msg_fields u) empty_Msg (map msg_columns (filter (owned_in_range u lo hi) (message_db D))) None []
      = ([] @ map row_msg (filter (owned_in_range u lo hi) (message_db D)), None)"
    by (rule row_loop_msgs) (use assms(2) in \<open>auto simp: owned_in_range_def\<close>)
  then show ?thesis
    using assms(1) by (simp add: GetMsgs_def select_into_def sql_run_def ChooseDatabase_def sql_table_def)
qed

lemma last_send_keeps_db:
  "SetUserLastSendData_impl B u (cntl, D) = Inr (x, c, D') \<Longrightarrow> message_db D' = message_db D"
  by (auto simp: SetUserLastSendData_impl_def redis_run_def Let_def split: prod.splits sum.splits if_splits)

lemma length_message_values [simp]: "length (message_values u s r i g m c t) = 8"
  by (simp add: message_values_def)

lemma SavePrivateMsg_rows:
  assumes "sql_table B" and "SavePrivateMsg B n done' (cntl, D) = Inr (x, cntl', D')"
  shows "message_db D' = message_db D @ [sender_values n, receiver_values n]"
proof -
  have "Execute B insert_pair_query (sender_values n @ receiver_values n) (message_db D)
      = (([], None), message_db D @ [sender_values n, receiver_values n])"
    using assms(1) by (simp add: sql_table_def sender_values_def receiver_values_def)
  then have "insert_private B n D = (None, D\<lparr>message_db := message_db D @ [sender_values n, receiver_values n]\<rparr>)"
    by (simp add: insert_private_def ChooseDatabase_def sql_run_def)
  then show ?thesis
    using assms(2) by (auto simp: SavePrivateMsg_def guarded_def dest: last_send_keeps_db)
qed

lemma group_loop_rows:
  assumes "sql_table B"
  shows "group_loop B g us D = (None, D\<lparr>message_db := message_db D @ map (group_values g) us\<rparr>)"
proof (induction us arbitrary: D)
  case (Cons u us)
  have "Execute B insert_group_query (group_values g u) (message_db D) = (([], None), message_db D @ [group_values g u])"
    using assms by (simp add: sql_table_def group_values_def)
  then show ?case using Cons by (simp add: ChooseDatabase_def sql_run_def)
qed simp

lemma SaveGroupMsg_rows:
  assumes "sql_table B" and "SaveGroupMsg B g done' (cntl, D) = Inr (x, cntl', D')"
  shows "message_db D' = message_db D @ map (group_values g) (gm_user_and_msgids g)"
  using assms(2) group_loop_rows [OF assms(1)] by (auto simp: SaveGroupMsg_def guarded_def dest!: last_send_keeps_db)

section \<open>The cached last message\<close>

lemma takeWhile_digits [simp]:
  "\<not> is_digit c \<Longrightarrow> takeWhile is_digit (show_nat n @ c # t) = show_nat n"
  "\<not> is_digit c \<Longrightarrow> dropWhile is_digit (show_nat n @ c # t) = c # t"
  using show_nat_digits [of n] by (auto simp: takeWhile_append2 dropWhile_append2)

lemma scan_unsigned_show: "\<not> is_digit c \<Longrightarrow> scan_unsigned (show_nat n @ c # t) = Some (n, c # t)"
  by (simp add: scan_unsigned_def read_digits_show_nat)

lemma scan_long_show:
  assumes "- LONG_MAX - 1 \<le> i" and "i \<le> LONG_MAX" and "\<not> is_digit c"
  shows "scan_long (show_int i @ c # t) = Some (i, c # t)"
proof (cases "i < 0")
  case True
  then show ?thesis
    using assms by (simp add: show_int_def scan_long_def scan_unsigned_show clamp_long_def)
next
  case False
  obtain d ds where s: "show_nat (nat i) = d # ds" by (cases "show_nat (nat i)") auto
  then have d: "is_digit d" using show_nat_digits [of "nat i"] by simp
  have "scan_unsigned (d # ds @ c # t) = Some (nat i, c # t)"
    using scan_unsigned_show [OF assms(3), of "nat i" t] s by simp
  then show ?thesis
    using False assms s digit_not_space [OF d] digit_not_sign [OF d]
    by (simp add: show_int_def scan_long_def clamp_long_def)
qed

lemma scan_int_show:
  assumes "- 2147483648 \<le> i" and "i \<le> 2147483647" and "\<not> is_digit c"
  shows "scan_int (show_int i @ c # t) = Some (i, c # t)"
  using assms by (simp add: scan_int_def scan_long_show LONG_MAX_def)

definition last_send_text :: "int \<Rightarrow> int \<Rightarrow> int \<Rightarrow> string" where
  "last_send_text m c t = ''['' @ show_int m @ '','' @ show_int c @ '','' @ show_int t @ '']''"

lemma scan_last_send_text:
  assumes "- LONG_MAX - 1 \<le> m" and "m \<le> LONG_MAX"
    and "- 2147483648 \<le> c" and "c \<le> 2147483647" and "- 2147483648 \<le> t" and "t \<le> 2147483647"
  shows "scan_last_send (last_send_text m c t) = (m, c, t)"
  using assms
  by (simp add: scan_last_send_def last_send_text_def scan_char_def scan_long_show scan_int_show is_digit_def)

text \<open>An array of strings, which is how the cache script encodes its three arguments, is not read.\<close>

lemma scan_quoted: "scan_last_send (CHR ''['' # CHR 0x22 # s) = (0, 0, 0)"
  by (simp add: scan_last_send_def scan_char_def scan_long_def scan_unsigned_def is_space_def is_digit_def)

section \<open>Sessions\<close>

fun count_words :: "bool \<Rightarrow> string \<Rightarrow> nat" where
  "count_words inside [] = 0"
| "count_words inside (c # cs) =
     (if is_space c then count_words False cs else (if inside then 0 else 1) + count_words True cs)"

definition mget_counts_keys :: "('r, 'd) backend \<Rightarrow> bool" where
  "mget_counts_keys B \<longleftrightarrow>
     (\<forall>keys r. 0 < count_words False keys \<longrightarrow>
        (\<exists>rs others r'. length rs = count_words False keys
           \<and> CallMethod B (Some (''MGET '' @ keys, [])) r
             = (Inr \<lparr>first_reply = array_reply rs, other_replies = others, nreply = 1\<rparr>, r')))"

lemma count_words_inside: "\<forall>c\<in>set s. \<not> is_space c \<Longrightarrow> count_words True s = 0"
  by (induction s) auto

lemma count_words_single: "s \<noteq> [] \<Longrightarrow> \<forall>c\<in>set s. \<not> is_space c \<Longrightarrow> count_words False s = 1"
  by (cases s) (auto simp: count_words_inside)

lemma show_int_no_space: "\<forall>c\<in>set (show_int i). \<not> is_space c"
  using show_nat_digits by (auto simp: show_int_def digit_not_space)

lemma mget_single_word: "us \<noteq> [] \<Longrightarrow> count_words False (concat (map (\<lambda>u. ''{'' @ show_int u @ ''}a'') us)) = 1"
  using show_int_no_space by (intro count_words_single) (auto simp: is_space_def neq_Nil_conv)

section \<open>Properties\<close>

text \<open>
  C25. Every call of the message store that returns has run its completion closure exactly once,
  after everything else, and has reported at most one failure on its controller.
\<close>

theorem rpc_answered_once:
  assumes "dbproxy_serve B req (Some d) (cntl, D) = Inr (resp, cntl', D')"
  shows "completed cntl' = completed cntl @ [d]
         \<and> (failures cntl' = failures cntl \<or> (\<exists>f. failures cntl' = failures cntl @ [f]))"
  using ok_rD [OF serve_answered assms] by (simp add: answered_def)

text \<open>A server for the witnesses: a table for the SQL statements of the store, and no cache.\<close>

definition table_backend :: "(unit, sql_value list list) backend" where
  "table_backend = \<lparr>AddCommand = (\<lambda>_ _. True),
     CallMethod = (\<lambda>_ r. (Inr \<lparr>first_reply = reply_Reset, other_replies = [], nreply = 1\<rparr>, r)),
     Execute = (\<lambda>q vals d.
       if q = insert_pair_query then (([], None), d @ [take 8 vals, drop 8 vals])
       else if q = insert_group_query then (([], None), d @ [vals])
       else if q = get_msgs_query then
         (case vals of
            [Sql_Int u, Sql_Int lo, Sql_Int hi] \<Rightarrow> ((map msg_columns (filter (owned_in_range u lo hi) d), None), d)
          | _ \<Rightarrow> (([], Some (Soci_Error [])), d))
       else (([], Some (Soci_Error [])), d))\<rparr>"

lemma queries_differ:
  "insert_group_query \<noteq> insert_pair_query" "get_msgs_query \<noteq> insert_pair_query" "get_msgs_query \<noteq> insert_group_query"
  by code_simp+

lemma table_backend_ok: "sql_table table_backend"
  unfolding sql_table_def table_backend_def by (simp add: queries_differ)

definition empty_store :: "(unit, sql_value list list) dbproxy" where
  "empty_store = \<lparr>redis = (), message_db = [], group_members_db = []\<rparr>"

definition fresh_rpc :: rpc where
  "fresh_rpc = \<lparr>failures = [], completed = []\<rparr>"

theorem rpc_answered_once_witness:
  "\<exists>resp c D'. dbproxy_serve table_backend (GetFriends_req 7) (Some 1) (fresh_rpc, empty_store) = Inr (resp, c, D')
     \<and> completed c = [1] \<and> failures c \<noteq> []"
proof -
  obtain resp c D' where r: "dbproxy_serve table_backend (GetFriends_req 7) (Some 1) (fresh_rpc, empty_store) = Inr (resp, c, D')"
    and f: "failures c \<noteq> []"
    by (rule that [of "UserInfos_resp []" "\<lparr>failures = [(22, ''fail to select from friends.'')], completed = [1]\<rparr>" empty_store];
        code_simp)
  show ?thesis using rpc_answered_once [OF r] r f by (auto simp: fresh_rpc_def)
qed

lemma GetMsgs_returns_row:
  assumes "sql_table B" and "\<forall>row\<in>set (message_db D). row_ok row" and "row \<in> set (message_db D)"
    and "owned_in_range u lo hi row"
  shows "\<exists>ms c. GetMsgs B \<lparr>mr_user_id = u, mr_start_msg_id = lo, mr_end_msg_id = hi\<rparr> done' (cntl, D) = Inr (ms, c, D)
           \<and> failures c = failures cntl \<and> row_msg row \<in> set ms
           \<and> (\<forall>m\<in>set ms. mg_user_id m = u \<and> lo \<le> mg_msg_id m \<and> mg_msg_id m \<le> hi)"
  unfolding GetMsgs_rows [OF assms(1,2)] using assms(3,4)
  by (auto simp: guarded_def owned_in_range_def row_msg_def sql_int_def split: sql_value.splits)

lemma row_ok_values:
  "- 2147483648 \<le> c \<Longrightarrow> c \<le> 2147483647 \<Longrightarrow> - 2147483648 \<le> t \<Longrightarrow> t \<le> 2147483647 \<Longrightarrow> row_ok (message_values u s r i g m c t)"
  unfolding row_ok_def by blast

lemma row_msg_values:
  "row_msg (message_values u s r i g m c t) =
     \<lparr>mg_user_id = u, mg_msg_id = i, mg_sender = s, mg_receiver = r, mg_message = m, mg_group_id = g,
      mg_client_time = c, mg_msg_time = t\<rparr>"
  "owned_in_range v lo hi (message_values u s r i g m c t) \<longleftrightarrow> u = v \<and> lo \<le> i \<and> i \<le> hi"
  by (simp_all add: row_msg_def message_values_def sql_int_def sql_str_def owned_in_range_def)


definition sample_private :: NewPrivateMsg where
  "sample_private = \<lparr>pm_sender = 3, pm_sender_msg_id = 8, pm_receiver = 5, pm_receiver_msg_id = 2,
     pm_message = ''hi'', pm_msg_time = 11, pm_client_time = 10\<rparr>"


text \<open>
  Once a group message is saved, every member listed in it reads it back under the message
  number assigned to that member, with the group as receiver and every field as it was sent.
\<close>

theorem group_msg_roundtrip:
  assumes "sql_table B" and "\<forall>row\<in>set (message_db D). row_ok row"
    and "- 2147483648 \<le> gm_client_time g" "gm_client_time g \<le> 2147483647"
    and "- 2147483648 \<le> gm_msg_time g" "gm_msg_time g \<le> 2147483647"
    and "SaveGroupMsg B g done' (cntl, D) = Inr (x, cntl', D')"
    and "member \<in> set (gm_user_and_msgids g)"
  shows "\<exists>ms c. GetMsgs B \<lparr>mr_user_id = um_user_id member, mr_start_msg_id = um_msg_id member,
                          mr_end_msg_id = um_msg_id member\<rparr> done2 (cntl2, D') = Inr (ms, c, D')
           \<and> failures c = failures cntl2
           \<and> \<lparr>mg_user_id = um_user_id member, mg_msg_id = um_msg_id member, mg_sender = gm_sender_user_id g,
              mg_receiver = gm_group_id g, mg_message = gm_message g, mg_group_id = gm_group_id g,
              mg_client_time = gm_client_time g, mg_msg_time = gm_msg_time g\<rparr> \<in> set ms"
proof -
  note db = SaveGroupMsg_rows [OF assms(1,7)]
  have ok: "\<forall>row\<in>set (message_db D'). row_ok row"
    using assms(2-6) db by (auto simp: group_values_def intro: row_ok_values)
  have "group_values g member \<in> set (message_db D')" using db assms(8) by simp
  from GetMsgs_returns_row [OF assms(1) ok this, of "um_user_id member" "um_msg_id member" "um_msg_id member" done2 cntl2]
  show ?thesis by (auto simp: row_msg_values group_values_def)
qed

definition sample_group :: NewGroupMsg where
  "sample_group = \<lparr>gm_group_id = 9, gm_user_and_msgids = [\<lparr>um_user_id = 3, um_msg_id = 4\<rparr>, \<lparr>um_user_id = 5, um_msg_id = 6\<rparr>],
     gm_sender_user_id = 3, gm_sender_msg_id = 4, gm_message = ''all'', gm_msg_time = 11, gm_client_time = 10\<rparr>"

theorem group_msg_roundtrip_witness:
  "\<exists>c D'. SaveGroupMsg table_backend sample_group (Some 1) (fresh_rpc, empty_store) = Inr ((), c, D')
     \<and> (\<exists>ms c. GetMsgs table_backend \<lparr>mr_user_id = 5, mr_start_msg_id = 6, mr_end_msg_id = 6\<rparr> (Some 2) (fresh_rpc, D')
                 = Inr (ms, c, D') \<and> ms \<noteq> [])"
proof -
  obtain c D' where s: "SaveGroupMsg table_backend sample_group (Some 1) (fresh_rpc, empty_store) = Inr ((), c, D')"
    using group_loop_rows [OF table_backend_ok, of sample_group "gm_user_and_msgids sample_group" empty_store]
    by (simp add: SaveGroupMsg_def SetUserLastSendData_impl_def redis_run_def guarded_def) (simp add: table_backend_def)
  have e: "\<forall>row\<in>set (message_db empty_store). row_ok row" by (simp add: empty_store_def)
  have m: "\<lparr>um_user_id = 5, um_msg_id = 6\<rparr> \<in> set (gm_user_and_msgids sample_group)" by (simp add: sample_group_def)
  have "- 2147483648 \<le> gm_client_time sample_group" "gm_client_time sample_group \<le> 2147483647"
    "- 2147483648 \<le> gm_msg_time sample_group" "gm_msg_time sample_group \<le> 2147483647"
    by (simp_all add: sample_group_def)
  from group_msg_roundtrip [OF table_backend_ok e this s m, of "Some 2" fresh_rpc] show ?thesis
    using s by auto
qed

text \<open>
  A cached entry of the form [message number,client time,message time] is read back exactly,
  for every message number of 64 bits and times of 32 bits; the answer leaves the user number 0.
\<close>

theorem last_send_roundtrip:
  assumes "AddCommand B ''GET {%ld}u'' [Long_Arg u]"
    and "CallMethod B (Some (''GET {%ld}u'', [Long_Arg u])) (redis D)
         = (Inr \<lparr>first_reply = str_reply (last_send_text m c t), other_replies = [], nreply = 1\<rparr>, r)"
    and "- LONG_MAX - 1 \<le> m" "m \<le> LONG_MAX"
    and "- 2147483648 \<le> c" "c \<le> 2147483647" "- 2147483648 \<le> t" "t \<le> 2147483647"
  shows "GetUserLastSendData B u (Some d) (cntl, D) =
           Inr (\<lparr>ul_user_id = 0, ul_msg_id = m, ul_client_time = c, ul_msg_time = t\<rparr>,
                cntl\<lparr>completed := completed cntl @ [d]\<rparr>, D\<lparr>redis := r\<rparr>)"
proof -
  have "NUL \<notin> set (last_send_text m c t)"
    using show_int_no_NUL by (auto simp: last_send_text_def NUL_def)
  then have "reply_c_str (str_reply (last_send_text m c t)) = Inr (last_send_text m c t)" by simp
  then show ?thesis
    using assms(1,2) scan_last_send_text [OF assms(3-8)]
    by (simp add: GetUserLastSendData_def redis_run_def response_reply_def set_last_send_def
        empty_UserLastSendData_def guarded_def ClosureGuard_dtor_def ClosureGuard_ctor_def run_done_def)
qed

definition cache_backend :: "(unit, sql_value list list) backend" where
  "cache_backend = table_backend\<lparr>CallMethod := (\<lambda>_ r.
     (Inr \<lparr>first_reply = str_reply (last_send_text 8 (- 3) 11), other_replies = [], nreply = 1\<rparr>, r))\<rparr>"

theorem last_send_roundtrip_witness:
  "GetUserLastSendData cache_backend 3 (Some 1) (fresh_rpc, empty_store) =
     Inr (\<lparr>ul_user_id = 0, ul_msg_id = 8, ul_client_time = - 3, ul_msg_time = 11\<rparr>,
          fresh_rpc\<lparr>completed := completed fresh_rpc @ [1]\<rparr>, empty_store\<lparr>redis := ()\<rparr>)"
  by (rule last_send_roundtrip) (simp_all add: cache_backend_def table_backend_def LONG_MAX_def)

text \<open>
  Asking for the sessions of two or more users ends the process: the keys are joined without
  a separator into one key, the cache answers with one element, and the check that there are as
  many answers as users fails.
\<close>

theorem several_sessions_abort:
  assumes "mget_counts_keys B" and "AddCommand B (mget_command us) []" and "2 \<le> length us"
  shows "GetSessions B us done' (cntl, D) = Inl Assert_Failed"
proof -
  have "us \<noteq> []" using assms(3) by auto
  note one = mget_single_word [OF this]
  obtain rs others r' where rs: "length rs = 1"
    and call: "CallMethod B (Some (mget_command us, [])) (redis D)
        = (Inr \<lparr>first_reply = array_reply rs, other_replies = others, nreply = 1\<rparr>, r')"
    using assms(1) one unfolding mget_counts_keys_def mget_command_def by (metis zero_less_one)
  have "reply_size (array_reply rs) \<noteq> int (length us)"
    using rs assms(3) by (simp add: reply_size_def array_reply_def)
  then show ?thesis
    using assms(2) call by (simp add: GetSessions_def redis_run_def response_reply_def guarded_def)
qed

definition session_backend :: "(unit, sql_value list list) backend" where
  "session_backend = table_backend\<lparr>CallMethod := (\<lambda>req r.
     (Inr \<lparr>first_reply = array_reply (case req of None \<Rightarrow> [] | Some (cmd, args) \<Rightarrow>
              replicate (count_words False (drop 5 cmd)) (str_reply ''a:1'')),
           other_replies = [], nreply = 1\<rparr>, r))\<rparr>"

lemma session_backend_ok: "mget_counts_keys session_backend"
  by (auto simp: mget_counts_keys_def session_backend_def intro!: exI [of _ "replicate _ (str_reply ''a:1'')"])

theorem several_sessions_abort_witness:
  "GetSessions session_backend [3, 5] (Some 1) (fresh_rpc, empty_store) = Inl Assert_Failed"
  by (rule several_sessions_abort [OF session_backend_ok])
     (simp_all add: session_backend_def table_backend_def)

text \<open>With a single user the lookup succeeds and returns the cached address.\<close>

lemma single_session:
  assumes "AddCommand B (mget_command [u]) []"
    and "CallMethod B (Some (mget_command [u], [])) (redis D)
         = (Inr \<lparr>first_reply = array_reply [e], other_replies = others, nreply = 1\<rparr>, r)"
    and "wf_reply e"
  shows "\<exists>s. GetSessions B [u] (Some d) (cntl, D) =
           Inr ([s], cntl\<lparr>completed := completed cntl @ [d]\<rparr>, D\<lparr>redis := r\<rparr>)
         \<and> se_user_id s = u \<and> se_has_session s = is_string e
         \<and> (is_string e \<longrightarrow> reply_c_str e = Inr (se_addr s))"
proof -
  obtain a where a: "is_string e \<Longrightarrow> reply_c_str e = Inr a" using wf_c_str [OF assms(3)] by metis
  have "reply_index 0 (array_reply [e]) = Inr e" "is_array (array_reply [e])" "reply_size (array_reply [e]) = 1"
    by (simp_all add: array_reply_def reply_index_def is_array_def reply_size_def)
  then show ?thesis
    using assms(1,2) a
    by (cases "is_string e")
       (simp_all add: GetSessions_def redis_run_def response_reply_def guarded_def ClosureGuard_dtor_def
          ClosureGuard_ctor_def run_done_def empty_Session_def)
qed

end
