(* ===== verification/Http_Flow.thy ===== *)
theory Http_Flow
  imports Http_Response Http_Users
begin

text \<open>
  The life of a request across the parts of \<open>http_conn\<close>: a connection is initialised, reads the
  bytes that arrive in either trigger mode, and processes them; and the life of an account: loaded
  from the database or registered, then used to log in. The properties that result are stated in
  the root theory.
\<close>

lemma init_result:
  assumes "init fd addr root mode close_log user passwd sqlname h0 g0 = Inr (h, g)"
  shows "m_sokcfd h = fd \<and> doc_root h = root \<and> m_TRIGMode h = mode \<and> m_iv h = m_iv h0
         \<and> m_check_state h = CHECK_STATE_REQUESTLINE \<and> \<not> m_linger h \<and> m_content_length h = 0 \<and> cgi h = 0
         \<and> m_start_line h = 0 \<and> m_checked_idx h = 0 \<and> m_read_idx h = 0 \<and> m_write_idx h = 0
         \<and> m_read_buf h = replicate READ_BUFFER_SIZE NUL \<and> m_write_buf h = replicate WRITE_BUFFER_SIZE NUL
         \<and> m_real_file h = replicate FILENAME_LEN NUL
         \<and> g = g0\<lparr>kern := addfd (m_epollfd g0) fd True (m_TRIGMode h0) (kern g0), m_user_count := m_user_count g0 + 1\<rparr>"
  using assms by (auto simp: init_def init_conn_def Let_def)

text \<open>One delivery of the whole request, after which the socket would block, is read in both modes.\<close>

lemma read_once_whole:
  assumes "m_read_idx h = 0" and "m_read_buf h = replicate READ_BUFFER_SIZE NUL"
    and "msg \<noteq> []" and "length msg < READ_BUFFER_SIZE"
  shows "read_once (Bytes msg # Would_Block # net) h =
     Inr (True, h\<lparr>m_read_buf := msg @ replicate (READ_BUFFER_SIZE - length msg) NUL, m_read_idx := int (length msg)\<rparr>)"
proof -
  let ?b = "msg @ replicate (READ_BUFFER_SIZE - length msg) NUL"
  have w: "write_at (replicate READ_BUFFER_SIZE NUL) 0 msg = Inr ?b"
    using assms(4) by (simp add: write_at_def)
  have r: "recv_into (Bytes msg) h = Inr (int (length msg), h\<lparr>m_read_buf := ?b\<rparr>)"
    using assms w by (simp add: recv_into_def recv_def)
  have e: "write_at ?b (int (length msg)) [] = Inr ?b" by (simp add: write_at_def)
  have b: "recv_into Would_Block (h\<lparr>m_read_buf := ?b, m_read_idx := int (length msg)\<rparr>)
      = Inr (-1, h\<lparr>m_read_buf := ?b, m_read_idx := int (length msg)\<rparr>)"
    using assms(4) e by (simp add: recv_into_def recv_def)
  show ?thesis using assms r b by (simp add: read_once_def Let_def)
qed

lemma received_after_init:
  assumes "init fd addr root mode close_log user passwd sqlname h0 g0 = Inr (h, g)"
    and "msg \<noteq> []" and "length msg < READ_BUFFER_SIZE"
  shows "\<exists>h1. read_once (Bytes msg # Would_Block # net) h = Inr (True, h1) \<and> received msg h1
           \<and> m_real_file h1 = replicate FILENAME_LEN NUL \<and> doc_root h1 = root
           \<and> m_write_buf h1 = replicate WRITE_BUFFER_SIZE NUL \<and> m_write_idx h1 = 0 \<and> m_iv h1 = m_iv h0
           \<and> m_sokcfd h1 = fd \<and> m_TRIGMode h1 = mode"
proof -
  note i = init_result [OF assms(1)]
  have "replicate (READ_BUFFER_SIZE - length msg) NUL = NUL # replicate (READ_BUFFER_SIZE - length msg - 1) NUL"
    using assms(3) by (metis Suc_diff_1 replicate_Suc zero_less_diff)
  then show ?thesis
    using i read_once_whole [of h msg net] assms(2,3) by (auto simp: received_def)
qed

lemma request_text_not_Nil: "request_text l ls body \<noteq> []"
  by (simp add: request_text_def)

lemma process_file:
  assumes "process_read fs query t h g = Inr (FILE_REQUEST, h1, add_logs logs g)"
    and "st_size (m_file_stat h1) = n" "n \<noteq> 0" "m_linger h1 = keep"
    and "m_write_buf h = replicate WRITE_BUFFER_SIZE NUL" "m_write_idx h = 0" "length (m_iv h) = 2"
    and "m_epollfd g = epfd (kern g)" "interest (kern g) (m_sokcfd h) \<noteq> None"
  shows "\<exists>h2 g2. process fs query t h g = Inr (h2, g2)
           \<and> take (length (file_head n keep)) (m_write_buf h2) = file_head n keep \<and> m_iv_count h2 = 2
           \<and> m_iv h2 = [\<lparr>iov_base = Iov_Write_Buf, iov_len = int (length (file_head n keep))\<rparr>,
                        \<lparr>iov_base = Iov_File, iov_len = n\<rparr>]
           \<and> m_file_address h2 = m_file_address h1 \<and> m_sokcfd h2 = m_sokcfd h
           \<and> interest (kern g2) (m_sokcfd h) = Some (armed EPOLLOUT (m_TRIGMode h)) \<and> m_user_count g2 = m_user_count g"
proof -
  have fr: "same_fd h h1" "same_globals g (add_logs logs g)"
    using ok_rD [OF process_read_frame assms(1) [unfolded process_read_def]] by auto
  have w: "wrote [] h1 h1" using fr(1) assms(5,6) by (intro wrote_start) (simp_all add: same_fd_def)
  have iv: "length (m_iv h1) = 2" using fr(1) assms(7) by (simp add: same_fd_def)
  obtain h2 logs2 where 2: "process_write FILE_REQUEST h1 (add_logs logs g) = Inr (True, h2, add_logs logs2 (add_logs logs g))"
    "take (length (file_head n keep)) (m_write_buf h2) = file_head n keep" "m_iv_count h2 = 2"
    "m_iv h2 = [\<lparr>iov_base = Iov_Write_Buf, iov_len = int (length (file_head n keep))\<rparr>, \<lparr>iov_base = Iov_File, iov_len = n\<rparr>]"
    "m_file_address h2 = m_file_address h1" "m_sokcfd h2 = m_sokcfd h1" "m_TRIGMode h2 = m_TRIGMode h1"
    using process_write_file [OF w iv, of "add_logs logs g"] assms(2-4) by auto
  let ?g = "add_logs (logs @ logs2) g"
  have g: "kern ?g = kern g" "m_epollfd ?g = m_epollfd g" "m_user_count ?g = m_user_count g" by (simp_all add: add_logs_def)
  have "process fs query t h g = Inr (h2, ?g\<lparr>kern := modfd (m_epollfd g) (m_sokcfd h) EPOLLOUT (m_TRIGMode h) (kern g)\<rparr>)"
    using process_after_write [OF assms(1) _ 2(1)] 2(6,7) fr(1) g by (simp add: same_fd_def)
  then show ?thesis
    using 2 fr(1) g modfd_registered [OF assms(8,9), of EPOLLOUT "m_TRIGMode h"]
    by (auto simp: same_fd_def armed_def)
qed

lemma init_registers:
  assumes "init fd addr root mode close_log user passwd sqlname h0 g0 = Inr (h, g)"
    and "m_epollfd g0 = epfd (kern g0)" "fd \<noteq> epfd (kern g0)" "fdflags (kern g0) fd = Some fl" "interest (kern g0) fd = None"
  shows "m_epollfd g = epfd (kern g) \<and> interest (kern g) fd \<noteq> None \<and> m_user_count g = m_user_count g0 + 1"
  using init_result [OF assms(1)] addfd_fresh(1) [OF refl assms(3-5), of True "m_TRIGMode h0"] assms(2)
  by (simp add: addfd_others(3))

lemma file_served:
  assumes "l = request_line meth b1 ws1 url b2 ws2 ver" "good_line meth b1 ws1 url b2 ws2 ver" "clean l"
    and "good_headers ls" "NUL \<notin> set body"
    and "0 \<le> content_length_of 0 ls" "content_length_of 0 ls \<le> int (length body)"
    and "eq_nocase meth ''GET''" "good_root root" "length (request_text l ls body) < READ_BUFFER_SIZE"
    and "fs (target_path root (page_of url)) = Some d" "file_outcome (Some d) = FILE_REQUEST" "f_data d \<noteq> []"
    and init: "init fd addr root mode close_log user passwd sqlname h0 g0 = Inr (h, g)" and "length (m_iv h0) = 2"
    and "m_epollfd g0 = epfd (kern g0)" "fd \<noteq> epfd (kern g0)" "fdflags (kern g0) fd = Some fl" "interest (kern g0) fd = None"
  defines "head \<equiv> file_head (int (length (f_data d))) (list_ex keeps_alive ls)"
  shows "\<exists>h1 h2 g2. read_once (Bytes (request_text l ls body) # Would_Block # net) h = Inr (True, h1)
           \<and> process fs query t h1 g = Inr (h2, g2)
           \<and> take (length head) (m_write_buf h2) = head \<and> m_iv_count h2 = 2
           \<and> m_iv h2 = [\<lparr>iov_base = Iov_Write_Buf, iov_len = int (length head)\<rparr>,
                        \<lparr>iov_base = Iov_File, iov_len = int (length (f_data d))\<rparr>]
           \<and> m_file_address h2 = mmap d \<and> m_sokcfd h2 = fd
           \<and> interest (kern g2) fd = Some (armed EPOLLOUT mode) \<and> m_user_count g2 = m_user_count g0 + 1"
proof -
  obtain h1 where h1: "read_once (Bytes (request_text l ls body) # Would_Block # net) h = Inr (True, h1)"
    "received (request_text l ls body) h1" "m_real_file h1 = replicate FILENAME_LEN NUL" "doc_root h1 = root"
    "m_write_buf h1 = replicate WRITE_BUFFER_SIZE NUL" "m_write_idx h1 = 0" "m_iv h1 = m_iv h0" "m_sokcfd h1 = fd" "m_TRIGMode h1 = mode"
    using received_after_init [OF init request_text_not_Nil assms(10)] by blast
  obtain h2 logs where h2: "process_read fs query t h1 g = Inr (FILE_REQUEST, h2, add_logs logs g)"
    "m_linger h2 = list_ex keeps_alive ls" "m_file_address h2 = mmap d" "st_size (m_file_stat h2) = int (length (f_data d))"
    using process_read_get [OF assms(1-4) h1(2) assms(5-8) h1(3), of fs query t g] assms(9,11,12) h1(4)
    by (auto simp: Let_def)
  have n: "int (length (f_data d)) \<noteq> 0" using assms(13) by simp
  note reg = init_registers [OF init assms(16-19)]
  show ?thesis
    using process_file [OF h2(1,4) n h2(2) h1(5,6)] h1 h2(3) reg assms(15) unfolding head_def by auto
qed

lemma account_flow:
  fixes g :: http_globals and query :: "nat \<Rightarrow> string \<Rightarrow> int"
  assumes "pool_ok sp" "connList sp = c # cs"
    and "\<forall>c\<in>set (connList sp). query c ''select username,passwd from user'' = 0 \<and> store c = Some (stored kvs)"
    and "users g = (\<lambda>_. None)" "map_of kvs name = None"
    and "posts url u name password h" "page_code url = CHR ''3''" "length name + length password \<le> 151"
    and "mysql h = Some con" "owner (m_lock g) = None"
    and "posts url' u' name' password' h'" "page_code url' = CHR ''2''"
  shows "\<exists>g1 r hr g2 h2. initmysql_result query store err intr t h0 g sp = Inr (g1, sp\<lparr>connList := cs @ [c]\<rparr>)
           \<and> do_request fs query t h g1 = Inr (r, hr, g2)
           \<and> (let known = (if name' = name then password' = password else map_of (rev kvs) name' = Some password');
                  f = fs (doc_root h' @ (if known then ''/welcome.html'' else ''/logError.html''))
              in do_request fs query t h' g2 = Inr (file_outcome f, opened f h2, g2))"
proof -
  let ?g1 = "g\<lparr>users := users g ++ map_of (rev kvs)\<rparr>"
  have load: "initmysql_result query store err intr t h0 g sp = Inr (?g1, sp\<lparr>connList := cs @ [c]\<rparr>)"
    using initmysql_loads [where query = query and store = store and kvs = kvs, OF assms(1,3)] assms(2) by simp
  have fresh: "users ?g1 name = None" using assms(4,5) by (simp add: map_of_eq_None_iff map_add_def)
  let ?g2 = "?g1\<lparr>users := (users ?g1)(name \<mapsto> password)\<rparr>"
  have "owner (m_lock ?g1) = None" using assms(10) by simp
  from do_request_register [OF assms(6-9) this, of fs query t] fresh
  obtain r hr where reg: "do_request fs query t h ?g1 = Inr (r, hr, ?g2)" by auto
  have known: "users ?g2 name' = Some password'
      \<longleftrightarrow> (if name' = name then password' = password else map_of (rev kvs) name' = Some password')"
    using assms(4) by (auto simp: map_add_def split: option.splits)
  obtain h2 where "do_request fs query t h' ?g2 =
      (let f = fs (doc_root h' @ (if users ?g2 name' = Some password' then ''/welcome.html'' else ''/logError.html''))
       in Inr (file_outcome f, opened f h2, ?g2))"
    using do_request_login [OF assms(11,12), of fs query t ?g2] unfolding Let_def by blast
  then show ?thesis
    using load reg unfolding known
    by (intro exI [of _ ?g1] exI [of _ r] exI [of _ hr] exI [of _ ?g2] exI [of _ h2]) (simp add: Let_def)
qed

end
