(* ===== verification/Cxx_Int.thy ===== *)
theory Cxx_Int
  imports Prelude
begin

text \<open>
  The integer types of C++, for the code that is generic in them or depends on their width. A type
  is a record of its size and its signedness, and a value of it is an \<open>int\<close> in its range.
  Conversions wrap, arithmetic takes place in the promoted type, and signed arithmetic that leaves
  the range is undefined.
\<close>

section \<open>C++ integer types\<close>

record int_type =
  size_of :: nat
  is_signed :: bool

definition int8 :: int_type where "int8 = \<lparr>size_of = 1, is_signed = True\<rparr>"
definition uint8 :: int_type where "uint8 = \<lparr>size_of = 1, is_signed = False\<rparr>"
definition int16 :: int_type where "int16 = \<lparr>size_of = 2, is_signed = True\<rparr>"
definition uint16 :: int_type where "uint16 = \<lparr>size_of = 2, is_signed = False\<rparr>"
definition int32 :: int_type where "int32 = \<lparr>size_of = 4, is_signed = True\<rparr>"
definition uint32 :: int_type where "uint32 = \<lparr>size_of = 4, is_signed = False\<rparr>"
definition int64 :: int_type where "int64 = \<lparr>size_of = 8, is_signed = True\<rparr>"
definition uint64 :: int_type where "uint64 = \<lparr>size_of = 8, is_signed = False\<rparr>"

lemmas int_types = int8_def uint8_def int16_def uint16_def int32_def uint32_def int64_def uint64_def

definition wf_type :: "int_type \<Rightarrow> bool" where
  "wf_type T \<longleftrightarrow> size_of T \<in> {1, 2, 4, 8}"

definition bits :: "int_type \<Rightarrow> nat" where
  "bits T = 8 * size_of T"

text \<open>\<open>std::numeric_limits<T>::max()\<close> and \<open>min()\<close>.\<close>

definition numeric_max :: "int_type \<Rightarrow> int" where
  "numeric_max T = (if is_signed T then 2 ^ (bits T - 1) - 1 else 2 ^ bits T - 1)"

definition numeric_min :: "int_type \<Rightarrow> int" where
  "numeric_min T = (if is_signed T then - (2 ^ (bits T - 1)) else 0)"

definition fits :: "int_type \<Rightarrow> int \<Rightarrow> bool" where
  "fits T v \<longleftrightarrow> numeric_min T \<le> v \<and> v \<le> numeric_max T"

text \<open>\<open>static_cast<T>(v)\<close>: the low bits, read in two's complement.\<close>

definition cast :: "int_type \<Rightarrow> int \<Rightarrow> int" where
  "cast T v =
     (let m = v mod 2 ^ bits T
      in if is_signed T \<and> 2 ^ (bits T - 1) \<le> m then m - 2 ^ bits T else m)"

text \<open>The integer promotion: a type narrower than \<open>int\<close> is promoted to \<open>int\<close>.\<close>

definition promoted :: "int_type \<Rightarrow> int_type" where
  "promoted T = (if size_of T < 4 then int32 else T)"

text \<open>
  The value of an arithmetic expression on operands of type \<open>T\<close> whose exact value is \<open>v\<close>: unsigned
  arithmetic wraps, a signed result outside the range is undefined.
\<close>

definition arith :: "int_type \<Rightarrow> int \<Rightarrow> int result" where
  "arith T v =
     (if is_signed (promoted T) \<and> \<not> fits (promoted T) v then Inl Undefined
      else Inr (cast (promoted T) v))"

section \<open>Values of a type\<close>

lemma type_cases [consumes 1]:
  assumes "wf_type T"
  obtains "T = int8" | "T = uint8" | "T = int16" | "T = uint16" | "T = int32" | "T = uint32" | "T = int64" | "T = uint64"
proof -
  obtain n b where T: "T = \<lparr>size_of = n, is_signed = b\<rparr>" by (cases T)
  with assms have "n \<in> {1, 2, 4, 8}" by (simp add: wf_type_def)
  with T that show thesis by (cases b) (auto simp: int_types)
qed

lemma wf_types [simp]:
  "wf_type int8" "wf_type uint8" "wf_type int16" "wf_type uint16"
  "wf_type int32" "wf_type uint32" "wf_type int64" "wf_type uint64"
  by (simp_all add: wf_type_def int_types)

lemma bits_pos: "wf_type T \<Longrightarrow> 0 < bits T"
  by (auto simp: wf_type_def bits_def)

lemma bits_half: "wf_type T \<Longrightarrow> (2 :: int) ^ bits T = 2 * 2 ^ (bits T - 1)"
  using bits_pos [of T] by (cases "bits T") simp_all

lemma cast_fits [simp]:
  assumes "wf_type T"
  shows "fits T (cast T v)"
proof -
  define m where "m = v mod 2 ^ bits T"
  have "0 \<le> m" "m < 2 * 2 ^ (bits T - 1)"
    using bits_half [OF assms] by (simp_all add: m_def flip: bits_half)
  moreover have "cast T v = (if is_signed T \<and> 2 ^ (bits T - 1) \<le> m then m - 2 * 2 ^ (bits T - 1) else m)"
    using bits_half [OF assms] by (simp add: cast_def m_def Let_def)
  ultimately show ?thesis
    using bits_half [OF assms] by (auto simp: fits_def numeric_min_def numeric_max_def)
qed

lemma cast_id:
  assumes "wf_type T" and "fits T v"
  shows "cast T v = v"
proof (cases "v < 0")
  case True
  with assms have "is_signed T" "- (2 ^ (bits T - 1)) \<le> v"
    by (auto simp: fits_def numeric_min_def split: if_splits)
  moreover from this True have "v mod 2 ^ bits T = v + 2 ^ bits T"
    using bits_half [OF assms(1)] by (intro mod_pos_pos_trivial [of "v + 2 ^ bits T" "2 ^ bits T", simplified]) auto
  ultimately show ?thesis
    using bits_half [OF assms(1)] by (simp add: cast_def)
next
  case False
  with assms bits_half [OF assms(1)] show ?thesis
    by (auto simp: cast_def fits_def numeric_max_def Let_def split: if_splits)
qed

lemma cast_mod: "v mod 2 ^ bits T = w mod 2 ^ bits T \<Longrightarrow> cast T v = cast T w"
  by (simp add: cast_def)

lemma cast_mod_eq: "cast T v mod 2 ^ bits T = v mod 2 ^ bits T"
  by (simp add: cast_def Let_def)

lemma fits_promoted: "wf_type T \<Longrightarrow> fits T v \<Longrightarrow> fits (promoted T) v"
  by (elim type_cases) (simp_all add: promoted_def fits_def numeric_max_def numeric_min_def bits_def int_types)

lemma wf_promoted [simp]: "wf_type T \<Longrightarrow> wf_type (promoted T)"
  by (simp add: promoted_def)

lemma arith_fits [simp]: "wf_type T \<Longrightarrow> fits T v \<Longrightarrow> arith T v = Inr v"
  by (simp add: arith_def fits_promoted cast_id)

lemma limits_sign: "numeric_min T \<le> 0" "0 \<le> numeric_max T"
  by (simp_all add: numeric_min_def numeric_max_def)

text \<open>Comparing a factor with a truncated quotient is comparing the product with the bound.\<close>

lemma le_div_iff:
  fixes a b c :: int
  assumes "0 < c"
  shows "a \<le> b div c \<longleftrightarrow> a * c \<le> b"
proof
  assume "a \<le> b div c"
  then have "a * c \<le> b div c * c" using assms by (intro mult_right_mono) simp_all
  also have "\<dots> \<le> b" using pos_mod_sign [OF assms, of b] div_mult_mod_eq [of b c] by linarith
  finally show "a * c \<le> b" .
next
  assume "a * c \<le> b"
  then have "a * c div c \<le> b div c" using assms by (intro zdiv_mono1) simp_all
  with assms show "a \<le> b div c" by simp
qed

end
