(* ===== verification/Safe_Math.thy ===== *)
theory Safe_Math
  imports Cxx_Int
begin

text \<open>
  The overflow-checked integers of butil (\<open>butil/numerics\<close> of the vendored brpc headers): the
  range check behind \<open>checked_cast\<close> and \<open>saturated_cast\<close> (\<open>safe_conversions_impl.h\<close>,
  \<open>safe_conversions.h\<close>), the checked operations on one type (\<open>safe_math_impl.h\<close>) and the class
  \<open>CheckedNumeric\<close> with its operators (\<open>safe_math.h\<close>). The template argument of
  every operation is an \<open>int_type\<close>. The integer promotions are written out, since two of the
  operations depend on them. The
  specialisations for floating point types are not modelled.
\<close>

unbundle bit_operations_syntax

section \<open>Range checks\<close>

definition MaxExponent :: "int_type \<Rightarrow> nat" where
  "MaxExponent T = size_of T * 8 + 1 - (if is_signed T then 1 else 0)"

datatype NumericRangeRepresentation = NUMERIC_RANGE_NOT_CONTAINED | NUMERIC_RANGE_CONTAINED

text \<open>The specialisations on the signedness of the two types, in the order of the header.\<close>

definition StaticDstRangeRelationToSrcRange ::
  "int_type \<Rightarrow> int_type \<Rightarrow> NumericRangeRepresentation" where
  "StaticDstRangeRelationToSrcRange Dst Src =
     (if is_signed Dst = is_signed Src
      then (if MaxExponent Dst \<ge> MaxExponent Src then NUMERIC_RANGE_CONTAINED else NUMERIC_RANGE_NOT_CONTAINED)
      else if is_signed Dst
      then (if MaxExponent Dst > MaxExponent Src then NUMERIC_RANGE_CONTAINED else NUMERIC_RANGE_NOT_CONTAINED)
      else NUMERIC_RANGE_NOT_CONTAINED)"

datatype RangeConstraint = RANGE_VALID | RANGE_UNDERFLOW | RANGE_OVERFLOW | RANGE_INVALID

primrec constraint_val :: "RangeConstraint \<Rightarrow> int" where
  "constraint_val RANGE_VALID = 0"
| "constraint_val RANGE_UNDERFLOW = 1"
| "constraint_val RANGE_OVERFLOW = 2"
| "constraint_val RANGE_INVALID = 3"

definition GetRangeConstraint :: "int \<Rightarrow> RangeConstraint result" where
  "GetRangeConstraint i =
     (if i = 0 then Inr RANGE_VALID
      else if i = 1 then Inr RANGE_UNDERFLOW
      else if i = 2 then Inr RANGE_OVERFLOW
      else if i = 3 then Inr RANGE_INVALID
      else Inl Assert_Failed)"

definition GetRangeConstraint2 :: "bool \<Rightarrow> bool \<Rightarrow> RangeConstraint result" where
  "GetRangeConstraint2 is_in_upper_bound is_in_lower_bound =
     GetRangeConstraint
       ((if is_in_upper_bound then 0 else constraint_val RANGE_OVERFLOW)
        OR (if is_in_lower_bound then 0 else constraint_val RANGE_UNDERFLOW))"

definition DstRangeRelationToSrcRange :: "int_type \<Rightarrow> int_type \<Rightarrow> int \<Rightarrow> RangeConstraint result" where
  "DstRangeRelationToSrcRange Dst Src v =
     (if StaticDstRangeRelationToSrcRange Dst Src = NUMERIC_RANGE_CONTAINED then Inr RANGE_VALID
      else if is_signed Dst \<and> is_signed Src
      then GetRangeConstraint2 (v \<le> numeric_max Dst) (numeric_min Dst \<le> v)
      else if \<not> is_signed Dst \<and> \<not> is_signed Src
      then GetRangeConstraint2 (v \<le> numeric_max Dst) True
      else if is_signed Dst
      then (if size_of Src < size_of Dst then Inr RANGE_VALID
            else GetRangeConstraint2 (v \<le> cast Src (numeric_max Dst)) True)
      else (if MaxExponent Src \<le> MaxExponent Dst then GetRangeConstraint2 True (cast Src 0 \<le> v)
            else GetRangeConstraint2 (v \<le> cast Src (numeric_max Dst)) (cast Src 0 \<le> v)))"

definition IsValueInRangeForNumericType :: "int_type \<Rightarrow> int_type \<Rightarrow> int \<Rightarrow> bool result" where
  "IsValueInRangeForNumericType Dst Src v =
     bind_r (DstRangeRelationToSrcRange Dst Src v) (\<lambda>c. Inr (c = RANGE_VALID))"

definition checked_cast :: "int_type \<Rightarrow> int_type \<Rightarrow> int \<Rightarrow> int result" where
  "checked_cast Dst Src v =
     bind_r (IsValueInRangeForNumericType Dst Src v) (\<lambda>ok.
     bind_r (guard_r Assert_Failed ok) (\<lambda>_. Inr (cast Dst v)))"

definition saturated_cast :: "int_type \<Rightarrow> int_type \<Rightarrow> int \<Rightarrow> int result" where
  "saturated_cast Dst Src v =
     bind_r (DstRangeRelationToSrcRange Dst Src v) (\<lambda>c.
       case c of
         RANGE_VALID \<Rightarrow> Inr (cast Dst v)
       | RANGE_UNDERFLOW \<Rightarrow> Inr (numeric_min Dst)
       | RANGE_OVERFLOW \<Rightarrow> Inr (numeric_max Dst)
       | RANGE_INVALID \<Rightarrow> Inl Assert_Failed)"

section \<open>Checked operations on one type\<close>

definition UnsignedIntegerForSize :: "int_type \<Rightarrow> int_type" where
  "UnsignedIntegerForSize T = \<lparr>size_of = size_of T, is_signed = False\<rparr>"

definition SignedIntegerForSize :: "int_type \<Rightarrow> int_type" where
  "SignedIntegerForSize T = \<lparr>size_of = size_of T, is_signed = True\<rparr>"

definition TwiceWiderInteger :: "int_type \<Rightarrow> int_type" where
  "TwiceWiderInteger T = \<lparr>size_of = size_of T * 2, is_signed = is_signed T\<rparr>"

definition HasSignBit :: "int_type \<Rightarrow> int \<Rightarrow> bool" where
  "HasSignBit T x \<longleftrightarrow> drop_bit (8 * size_of T - 1) (cast (UnsignedIntegerForSize T) x) \<noteq> 0"

definition BinaryComplement :: "int_type \<Rightarrow> int \<Rightarrow> int" where
  "BinaryComplement T x = cast T (NOT x)"

text \<open>
  The argument of \<open>BinaryComplement\<close> in the signed branches is an expression on unsigned operands,
  so its type is the promoted one, and the template is instantiated there.
\<close>

definition CheckedAdd :: "int_type \<Rightarrow> int \<Rightarrow> int \<Rightarrow> int \<times> RangeConstraint" where
  "CheckedAdd T x y =
     (let U = UnsignedIntegerForSize T;
          ux = cast U x;
          uy = cast U y;
          uresult = cast U (ux + uy);
          P = promoted U
      in (cast T uresult,
          if is_signed T
          then (if HasSignBit P (BinaryComplement P ((uresult XOR ux) AND (uresult XOR uy)))
                then RANGE_VALID
                else if HasSignBit U uresult then RANGE_OVERFLOW else RANGE_UNDERFLOW)
          else (if BinaryComplement T x \<ge> y then RANGE_VALID else RANGE_OVERFLOW)))"

definition CheckedSub :: "int_type \<Rightarrow> int \<Rightarrow> int \<Rightarrow> int \<times> RangeConstraint" where
  "CheckedSub T x y =
     (let U = UnsignedIntegerForSize T;
          ux = cast U x;
          uy = cast U y;
          uresult = cast U (ux - uy);
          P = promoted U
      in (cast T uresult,
          if is_signed T
          then (if HasSignBit P (BinaryComplement P ((uresult XOR ux) AND (ux XOR uy)))
                then RANGE_VALID
                else if HasSignBit U uresult then RANGE_OVERFLOW else RANGE_UNDERFLOW)
          else (if x \<ge> y then RANGE_VALID else RANGE_UNDERFLOW)))"

text \<open>
  Division and remainder of the language: undefined for a zero divisor and when the quotient does
  not fit.
\<close>

definition lang_div :: "int_type \<Rightarrow> int \<Rightarrow> int \<Rightarrow> int result" where
  "lang_div T x y = (if y = 0 then Inl Div_By_Zero else arith T (c_div x y))"

definition lang_mod :: "int_type \<Rightarrow> int \<Rightarrow> int \<Rightarrow> int result" where
  "lang_mod T x y =
     (if y = 0 then Inl Div_By_Zero
      else bind_r (arith T (c_div x y)) (\<lambda>_. Inr (c_mod x y)))"

text \<open>
  The three overloads of the multiplication. The validity is a reference parameter, which one path
  of the signed wide overload leaves as it was: \<open>old\<close> is what the caller had there.
\<close>

definition CheckedMul :: "int_type \<Rightarrow> int \<Rightarrow> int \<Rightarrow> RangeConstraint \<Rightarrow> (int \<times> RangeConstraint) result" where
  "CheckedMul T x y old =
     (if size_of T * 2 \<le> 8
      then
        bind_r (arith (TwiceWiderInteger T) (x * y)) (\<lambda>p.
        let tmp = cast (TwiceWiderInteger T) p in
        bind_r (DstRangeRelationToSrcRange T (TwiceWiderInteger T) tmp) (\<lambda>validity.
        Inr (cast T tmp, validity)))
      else if is_signed T
      then
        (if x = 0 \<and> y = 0 then Inr (constraint_val RANGE_VALID, old)
         else
           bind_r
             (if x > 0
              then (if y > 0
                    then bind_r (lang_div T (numeric_max T) y) (\<lambda>q. Inr (if x \<le> q then RANGE_VALID else RANGE_OVERFLOW))
                    else bind_r (lang_div T (numeric_min T) x) (\<lambda>q. Inr (if y \<ge> q then RANGE_VALID else RANGE_UNDERFLOW)))
              else (if y > 0
                    then bind_r (lang_div T (numeric_min T) y) (\<lambda>q. Inr (if x \<ge> q then RANGE_VALID else RANGE_UNDERFLOW))
                    else bind_r (lang_div T (numeric_max T) x) (\<lambda>q. Inr (if y \<ge> q then RANGE_VALID else RANGE_OVERFLOW))))
             (\<lambda>validity.
           bind_r (arith T (x * y)) (\<lambda>p. Inr (p, validity))))
      else
        bind_r (if y = 0 then Inr RANGE_VALID
                else bind_r (lang_div T (numeric_max T) y) (\<lambda>q. Inr (if x \<le> q then RANGE_VALID else RANGE_OVERFLOW)))
          (\<lambda>validity.
        bind_r (arith T (x * y)) (\<lambda>p. Inr (p, validity))))"

definition CheckedDiv :: "int_type \<Rightarrow> int \<Rightarrow> int \<Rightarrow> (int \<times> RangeConstraint) result" where
  "CheckedDiv T x y =
     (if is_signed T \<and> x = numeric_min T \<and> y = cast T (- 1)
      then Inr (numeric_min T, RANGE_OVERFLOW)
      else bind_r (lang_div T x y) (\<lambda>q. Inr (cast T q, RANGE_VALID)))"

definition CheckedMod :: "int_type \<Rightarrow> int \<Rightarrow> int \<Rightarrow> (int \<times> RangeConstraint) result" where
  "CheckedMod T x y =
     bind_r (lang_mod T x y) (\<lambda>r.
       Inr (cast T r, if is_signed T then (if y > 0 then RANGE_VALID else RANGE_INVALID) else RANGE_VALID))"

definition CheckedNeg :: "int_type \<Rightarrow> int \<Rightarrow> (int \<times> RangeConstraint) result" where
  "CheckedNeg T v =
     (if is_signed T
      then bind_r (arith T (- v)) (\<lambda>r.
             Inr (cast T r, if v \<noteq> numeric_min T then RANGE_VALID else RANGE_OVERFLOW))
      else bind_r (arith (SignedIntegerForSize T) (- cast (SignedIntegerForSize T) v)) (\<lambda>r.
             Inr (cast T r, if v \<noteq> 0 then RANGE_UNDERFLOW else RANGE_VALID)))"

definition CheckedAbs :: "int_type \<Rightarrow> int \<Rightarrow> (int \<times> RangeConstraint) result" where
  "CheckedAbs T v =
     (if is_signed T
      then bind_r (arith T \<bar>v\<bar>) (\<lambda>r.
             Inr (cast T r, if v \<noteq> numeric_min T then RANGE_VALID else RANGE_OVERFLOW))
      else Inr (v, RANGE_VALID))"

section \<open>The class CheckedNumeric\<close>

record checked_numeric =
  cn_value :: int
  cn_validity :: RangeConstraint

text \<open>\<open>GetRangeConstraint(a | b)\<close>.\<close>

definition join_validity :: "RangeConstraint \<Rightarrow> RangeConstraint \<Rightarrow> RangeConstraint result" where
  "join_validity a b = GetRangeConstraint (constraint_val a OR constraint_val b)"

text \<open>The constructors: from a value of type \<open>Src\<close> and a validity, and from a value alone.\<close>

definition CheckedNumericState :: "int_type \<Rightarrow> int_type \<Rightarrow> int \<Rightarrow> RangeConstraint \<Rightarrow> checked_numeric result" where
  "CheckedNumericState T Src v validity =
     bind_r (DstRangeRelationToSrcRange T Src v) (\<lambda>c.
     bind_r (join_validity validity c) (\<lambda>c'.
     Inr \<lparr>cn_value = cast T v, cn_validity = c'\<rparr>))"

definition CheckedNumeric_of :: "int_type \<Rightarrow> int_type \<Rightarrow> int \<Rightarrow> checked_numeric result" where
  "CheckedNumeric_of T Src v =
     bind_r (DstRangeRelationToSrcRange T Src v) (\<lambda>c. Inr \<lparr>cn_value = cast T v, cn_validity = c\<rparr>)"

text \<open>The copy constructor and the static \<open>cast\<close> from \<open>CheckedNumeric<Src>\<close>.\<close>

definition CheckedNumeric_cast :: "int_type \<Rightarrow> int_type \<Rightarrow> checked_numeric \<Rightarrow> checked_numeric result" where
  "CheckedNumeric_cast T Src u =
     (if T = Src then Inr u else CheckedNumericState T Src (cn_value u) (cn_validity u))"

definition IsValid :: "checked_numeric \<Rightarrow> bool" where
  "IsValid s \<longleftrightarrow> cn_validity s = RANGE_VALID"

definition ValueOrDie :: "checked_numeric \<Rightarrow> int result" where
  "ValueOrDie s = bind_r (guard_r Assert_Failed (IsValid s)) (\<lambda>_. Inr (cn_value s))"

definition ValueOrDefault :: "checked_numeric \<Rightarrow> int \<Rightarrow> int" where
  "ValueOrDefault s d = (if IsValid s then cn_value s else d)"

definition ArithmeticPromotion :: "int_type \<Rightarrow> int_type \<Rightarrow> int_type" where
  "ArithmeticPromotion Lhs Rhs =
     (if MaxExponent Lhs > MaxExponent Rhs
      then (if MaxExponent Lhs > MaxExponent int32 then Lhs else int32)
      else (if MaxExponent Rhs > MaxExponent int32 then Rhs else int32))"

definition IsIntegerArithmeticSafe :: "int_type \<Rightarrow> int_type \<Rightarrow> int_type \<Rightarrow> bool" where
  "IsIntegerArithmeticSafe T Lhs Rhs \<longleftrightarrow>
     StaticDstRangeRelationToSrcRange T Lhs = NUMERIC_RANGE_CONTAINED \<and>
     size_of T \<ge> 2 * size_of Lhs \<and>
     StaticDstRangeRelationToSrcRange T Rhs \<noteq> NUMERIC_RANGE_CONTAINED \<and>
     size_of T \<ge> 2 * size_of Rhs"

datatype arith_op = Add | Sub | Mul | Div | Mod

text \<open>\<open>x OP y\<close> of the language, for operands converted to their common type \<open>T\<close>.\<close>

definition lang_op :: "arith_op \<Rightarrow> int_type \<Rightarrow> int \<Rightarrow> int \<Rightarrow> int result" where
  "lang_op f T x y =
     (case f of
        Add \<Rightarrow> arith T (x + y)
      | Sub \<Rightarrow> arith T (x - y)
      | Mul \<Rightarrow> arith T (x * y)
      | Div \<Rightarrow> lang_div T x y
      | Mod \<Rightarrow> lang_mod T x y)"

definition checked_op :: "arith_op \<Rightarrow> int_type \<Rightarrow> int \<Rightarrow> int \<Rightarrow> RangeConstraint \<Rightarrow> (int \<times> RangeConstraint) result" where
  "checked_op f T x y old =
     (case f of
        Add \<Rightarrow> Inr (CheckedAdd T x y)
      | Sub \<Rightarrow> Inr (CheckedSub T x y)
      | Mul \<Rightarrow> CheckedMul T x y old
      | Div \<Rightarrow> CheckedDiv T x y
      | Mod \<Rightarrow> CheckedMod T x y)"

text \<open>
  The operator on two \<open>CheckedNumeric<T>\<close>. The result of the checked operation is stored in a
  variable of type \<open>T\<close>, not of the promoted type.
\<close>

definition op_same :: "arith_op \<Rightarrow> int_type \<Rightarrow> checked_numeric \<Rightarrow> checked_numeric \<Rightarrow> checked_numeric result" where
  "op_same f T lhs rhs =
     (let Promotion = ArithmeticPromotion T T
      in if IsIntegerArithmeticSafe Promotion T T
         then
           bind_r (lang_op f T (cn_value lhs) (cn_value rhs)) (\<lambda>v.
           bind_r (join_validity (cn_validity rhs) (cn_validity lhs)) (\<lambda>c.
           CheckedNumericState Promotion (promoted T) v c))
         else
           bind_r (checked_op f Promotion (cast Promotion (cn_value lhs)) (cast Promotion (cn_value rhs)) RANGE_VALID)
             (\<lambda>(v, validity).
           let result = cast T v in
           bind_r (join_validity validity (cn_validity lhs)) (\<lambda>c.
           bind_r (join_validity c (cn_validity rhs)) (\<lambda>c'.
           CheckedNumericState Promotion T result c'))))"

text \<open>The operator on a \<open>CheckedNumeric<Src>\<close> and a \<open>CheckedNumeric<T>\<close>, for different types.\<close>

definition op_mixed ::
  "arith_op \<Rightarrow> int_type \<Rightarrow> int_type \<Rightarrow> checked_numeric \<Rightarrow> checked_numeric \<Rightarrow> checked_numeric result" where
  "op_mixed f T Src lhs rhs =
     (let Promotion = ArithmeticPromotion T Src
      in if IsIntegerArithmeticSafe Promotion T Src
         then
           bind_r (lang_op f Promotion (cast Promotion (cn_value lhs)) (cast Promotion (cn_value rhs))) (\<lambda>v.
           bind_r (join_validity (cn_validity rhs) (cn_validity lhs)) (\<lambda>c.
           CheckedNumericState Promotion Promotion v c))
         else
           bind_r (CheckedNumeric_cast Promotion Src lhs) (\<lambda>l.
           bind_r (CheckedNumeric_cast Promotion T rhs) (\<lambda>r.
           op_same f Promotion l r)))"

text \<open>The compound assignment \<open>lhs OP= rhs\<close> for a plain value of type \<open>Src\<close> on the right.\<close>

definition op_assign :: "arith_op \<Rightarrow> int_type \<Rightarrow> int_type \<Rightarrow> checked_numeric \<Rightarrow> int \<Rightarrow> checked_numeric result" where
  "op_assign f T Src lhs v =
     bind_r (CheckedNumeric_of Src Src v) (\<lambda>rhs.
       if T = Src
       then bind_r (op_same f T lhs rhs) (\<lambda>s. CheckedNumeric_cast T (ArithmeticPromotion T T) s)
       else bind_r (op_mixed f Src T lhs rhs) (\<lambda>s. CheckedNumeric_cast T (ArithmeticPromotion Src T) s))"

definition op_neg :: "int_type \<Rightarrow> checked_numeric \<Rightarrow> checked_numeric result" where
  "op_neg T s =
     bind_r (CheckedNeg T (cn_value s)) (\<lambda>(v, validity).
     bind_r (join_validity (cn_validity s) validity) (\<lambda>c.
     CheckedNumericState T T v c))"

definition op_abs :: "int_type \<Rightarrow> checked_numeric \<Rightarrow> checked_numeric result" where
  "op_abs T s =
     bind_r (CheckedAbs T (cn_value s)) (\<lambda>(v, validity).
     bind_r (join_validity (cn_validity s) validity) (\<lambda>c.
     CheckedNumericState T T v c))"

text \<open>\<open>++\<close> and \<open>--\<close>.\<close>

definition op_incr :: "int_type \<Rightarrow> checked_numeric \<Rightarrow> checked_numeric result" where
  "op_incr T s = op_assign Add T int32 s 1"

definition op_decr :: "int_type \<Rightarrow> checked_numeric \<Rightarrow> checked_numeric result" where
  "op_decr T s = op_assign Sub T int32 s 1"

section \<open>The pattern of a value\<close>

definition classify :: "int_type \<Rightarrow> int \<Rightarrow> RangeConstraint" where
  "classify T v =
     (if numeric_max T < v then RANGE_OVERFLOW
      else if v < numeric_min T then RANGE_UNDERFLOW
      else RANGE_VALID)"

lemma classify_valid [simp]: "classify T v = RANGE_VALID \<longleftrightarrow> fits T v"
  by (auto simp: classify_def fits_def)

lemma classify_valid' [simp]: "RANGE_VALID = classify T v \<longleftrightarrow> fits T v"
  by (auto simp: classify_def fits_def)

lemma bits_unsigned [simp]: "bits (UnsignedIntegerForSize T) = bits T"
  by (simp add: bits_def UnsignedIntegerForSize_def)

lemma unsigned_simps [simp]:
  "\<not> is_signed (UnsignedIntegerForSize T)" "size_of (UnsignedIntegerForSize T) = size_of T"
  "wf_type (UnsignedIntegerForSize T) = wf_type T"
  by (simp_all add: UnsignedIntegerForSize_def wf_type_def)

lemma cast_unsigned: "cast (UnsignedIntegerForSize T) v = v mod 2 ^ bits T"
  by (simp add: cast_def)

lemma cast_cast_unsigned [simp]: "cast T (cast (UnsignedIntegerForSize T) v) = cast T v"
  by (rule cast_mod) (simp add: cast_unsigned)

section \<open>The range check is exact\<close>

lemma join_validity_simps [simp]:
  "join_validity RANGE_VALID c = Inr c" "join_validity c RANGE_VALID = Inr c"
  by (cases c; simp add: join_validity_def GetRangeConstraint_def)+

lemma join_validity_total: "\<exists>c. join_validity a b = Inr c"
  by (cases a; cases b) (simp_all add: join_validity_def GetRangeConstraint_def)

lemma join_validity_valid [simp]: "join_validity a b = Inr RANGE_VALID \<longleftrightarrow> a = RANGE_VALID \<and> b = RANGE_VALID"
  by (cases a; cases b) (simp_all add: join_validity_def GetRangeConstraint_def)

lemma GetRangeConstraint2_eq:
  "GetRangeConstraint2 u l =
     Inr (if u then if l then RANGE_VALID else RANGE_UNDERFLOW else if l then RANGE_OVERFLOW else RANGE_INVALID)"
  by (simp add: GetRangeConstraint2_def GetRangeConstraint_def)

lemmas range_defs = DstRangeRelationToSrcRange_def StaticDstRangeRelationToSrcRange_def MaxExponent_def
  GetRangeConstraint2_eq classify_def fits_def numeric_max_def numeric_min_def bits_def

lemma range_check_exact:
  assumes "wf_type Dst" and "wf_type Src" and "fits Src v"
  shows "DstRangeRelationToSrcRange Dst Src v = Inr (classify Dst v)"
  using assms
  by (elim type_cases; simp add: range_defs int_types cast_def)

lemma saturated_cast_clamps:
  assumes "wf_type Dst" and "wf_type Src" and "fits Src v"
  shows "saturated_cast Dst Src v = Inr (max (numeric_min Dst) (min (numeric_max Dst) v))"
proof -
  have "numeric_min Dst \<le> numeric_max Dst" by (simp add: numeric_min_def numeric_max_def)
  with range_check_exact [OF assms] cast_id [OF assms(1)] show ?thesis
    by (auto simp: saturated_cast_def classify_def fits_def min_def max_def)
qed

lemma checked_cast_eq:
  assumes "wf_type Dst" and "wf_type Src" and "fits Src v"
  shows "checked_cast Dst Src v = (if fits Dst v then Inr v else Inl Assert_Failed)"
  using range_check_exact [OF assms] cast_id [OF assms(1)]
  by (simp add: checked_cast_def IsValueInRangeForNumericType_def)

section \<open>Addition and subtraction\<close>

lemma HasSignBit_iff:
  assumes "wf_type T"
  shows "HasSignBit T x \<longleftrightarrow> 2 ^ (bits T - 1) \<le> x mod 2 ^ bits T"
proof -
  have "HasSignBit T x \<longleftrightarrow> x mod 2 ^ bits T div 2 ^ (bits T - 1) \<noteq> 0"
    by (simp add: HasSignBit_def cast_unsigned drop_bit_eq_div bits_def)
  also have "\<dots> \<longleftrightarrow> 0 < x mod 2 ^ bits T div 2 ^ (bits T - 1)"
  proof -
    have "0 \<le> x mod 2 ^ bits T div 2 ^ (bits T - 1)" by (simp add: pos_imp_zdiv_nonneg_iff)
    then show ?thesis by linarith
  qed
  also have "\<dots> \<longleftrightarrow> 2 ^ (bits T - 1) \<le> x mod 2 ^ bits T"
    by (rule pos_imp_zdiv_pos_iff) simp
  finally show ?thesis .
qed

lemma top_bit:
  fixes x :: int
  assumes "wf_type T" and "0 \<le> x" and "x < 2 ^ bits T"
  shows "bit x (bits T - 1) \<longleftrightarrow> 2 ^ (bits T - 1) \<le> x"
proof (cases "2 ^ (bits T - 1) \<le> x")
  case True
  have "x div 2 ^ (bits T - 1) = (x - 2 ^ (bits T - 1)) div 2 ^ (bits T - 1) + 1"
    by (rule div_pos_geq) (use True in simp_all)
  also have "(x - 2 ^ (bits T - 1)) div 2 ^ (bits T - 1) = 0"
    by (rule div_pos_pos_trivial) (use True assms(3) bits_half [OF assms(1)] in simp_all)
  finally show ?thesis using True by (simp add: bit_iff_odd)
next
  case False
  with assms have "x div 2 ^ (bits T - 1) = 0" by (intro div_pos_pos_trivial) simp_all
  with False show ?thesis by (simp add: bit_iff_odd)
qed

text \<open>The sign bit of the complement of a pattern of as many bits as the type has.\<close>

lemma sign_of_complement:
  assumes "wf_type T" and "0 \<le> z" and "z < 2 ^ bits T"
  shows "HasSignBit T (BinaryComplement T z) \<longleftrightarrow> \<not> bit z (bits T - 1)"
proof -
  have "NOT z = (2 ^ bits T - 1 - z) + (- 1) * 2 ^ bits T" by (simp add: not_int_def)
  then have "NOT z mod 2 ^ bits T = (2 ^ bits T - 1 - z) mod 2 ^ bits T"
    by (simp only: mod_mult_self1)
  also have "\<dots> = 2 ^ bits T - 1 - z" using assms by (intro mod_pos_pos_trivial) simp_all
  finally have "HasSignBit T (BinaryComplement T z) \<longleftrightarrow> 2 ^ (bits T - 1) \<le> 2 ^ bits T - 1 - z"
    by (simp add: HasSignBit_iff [OF assms(1)] BinaryComplement_def cast_mod_eq)
  also have "\<dots> \<longleftrightarrow> \<not> bit z (bits T - 1)"
    using bits_half [OF assms(1)] top_bit [OF assms] by linarith
  finally show ?thesis .
qed

lemma promoted_wide: "4 \<le> size_of T \<Longrightarrow> promoted T = T"
  by (simp add: promoted_def)

lemma xor_and_bounds:
  fixes a b c d :: int
  assumes "0 \<le> a" "a < 2 ^ n" "0 \<le> b" "b < 2 ^ n" "0 \<le> c" "c < 2 ^ n" "0 \<le> d" "d < 2 ^ n"
  shows "0 \<le> (a XOR b) AND (c XOR d)" and "(a XOR b) AND (c XOR d) < 2 ^ n"
proof -
  have "take_bit n a = a" "take_bit n b = b" "take_bit n c = c" "take_bit n d = d"
    using assms by (simp_all add: take_bit_int_eq_self)
  then have "take_bit n ((a XOR b) AND (c XOR d)) = (a XOR b) AND (c XOR d)"
    by (simp add: take_bit_and take_bit_xor)
  then show "0 \<le> (a XOR b) AND (c XOR d)" and "(a XOR b) AND (c XOR d) < 2 ^ n"
    by (metis take_bit_nonnegative, metis take_bit_int_less_exp)
qed

lemma sign_of_xor:
  assumes "wf_type U"
    and "0 \<le> a" "a < 2 ^ bits U" "0 \<le> b" "b < 2 ^ bits U" "0 \<le> c" "c < 2 ^ bits U" "0 \<le> d" "d < 2 ^ bits U"
  shows "HasSignBit U (BinaryComplement U ((a XOR b) AND (c XOR d))) \<longleftrightarrow>
    \<not> ((2 ^ (bits U - 1) \<le> a) \<noteq> (2 ^ (bits U - 1) \<le> b) \<and> (2 ^ (bits U - 1) \<le> c) \<noteq> (2 ^ (bits U - 1) \<le> d))"
proof -
  note tb = top_bit [OF assms(1)]
  have "bit ((a XOR b) AND (c XOR d)) (bits U - 1) \<longleftrightarrow>
      bit a (bits U - 1) \<noteq> bit b (bits U - 1) \<and> bit c (bits U - 1) \<noteq> bit d (bits U - 1)"
    by (simp add: bit_and_iff bit_xor_iff)
  with sign_of_complement [OF assms(1) xor_and_bounds [OF assms(2-)]]
    tb [OF assms(2,3)] tb [OF assms(4,5)] tb [OF assms(6,7)] tb [OF assms(8,9)]
  show ?thesis by metis
qed

text \<open>The unsigned pattern of a value a little outside the range of the type.\<close>

lemma pattern:
  fixes s :: int
  assumes "- (2 ^ bits T) \<le> s" and "s < 2 ^ bits T"
  shows "s mod 2 ^ bits T = (if 0 \<le> s then s else s + 2 ^ bits T)"
proof (cases "0 \<le> s")
  case False
  with assms have "(s + 2 ^ bits T) mod 2 ^ bits T = s + 2 ^ bits T" by (intro mod_pos_pos_trivial) auto
  with False show ?thesis by simp
qed (use assms in simp)

lemma fits_signed:
  assumes "wf_type T" and "is_signed T" and "fits T x"
  shows "- (2 ^ (bits T - 1)) \<le> x" and "x < 2 ^ (bits T - 1)"
    and "x mod 2 ^ bits T = (if 0 \<le> x then x else x + 2 ^ bits T)"
proof -
  show b: "- (2 ^ (bits T - 1)) \<le> x" "x < 2 ^ (bits T - 1)"
    using assms by (simp_all add: fits_def numeric_min_def numeric_max_def)
  show "x mod 2 ^ bits T = (if 0 \<le> x then x else x + 2 ^ bits T)"
    using b bits_half [OF assms(1)] by (intro pattern) linarith+
qed

lemma classify_signed:
  "is_signed T \<Longrightarrow> classify T v =
     (if 2 ^ (bits T - 1) \<le> v then RANGE_OVERFLOW
      else if v < - (2 ^ (bits T - 1)) then RANGE_UNDERFLOW else RANGE_VALID)"
  by (auto simp: classify_def numeric_max_def numeric_min_def)

lemma CheckedAdd_signed:
  assumes "wf_type T" and "4 \<le> size_of T" and "is_signed T" and "fits T x" and "fits T y"
  shows "snd (CheckedAdd T x y) = classify T (x + y)"
proof -
  let ?U = "UnsignedIntegerForSize T"
  define h :: int where "h = 2 ^ (bits T - 1)"
  have n: "2 ^ bits T = 2 * h" using bits_half [OF assms(1)] by (simp add: h_def)
  have h: "0 < h" by (simp add: h_def)
  define ux uy r where "ux = x mod (2 * h)" and "uy = y mod (2 * h)" and "r = (x + y) mod (2 * h)"
  have c: "cast ?U x = ux" "cast ?U y = uy" "cast ?U (ux + uy) = r"
    by (simp_all add: cast_unsigned n ux_def uy_def r_def mod_simps)
  have bounds: "0 \<le> ux" "ux < 2 * h" "0 \<le> uy" "uy < 2 * h" "0 \<le> r" "r < 2 * h"
    using h by (simp_all add: ux_def uy_def r_def)
  have wU: "wf_type ?U" and pU: "promoted ?U = ?U" using assms by (simp_all add: promoted_wide)
  have sign: "HasSignBit ?U (BinaryComplement ?U ((r XOR ux) AND (r XOR uy))) \<longleftrightarrow>
      \<not> ((h \<le> r) \<noteq> (h \<le> ux) \<and> (h \<le> r) \<noteq> (h \<le> uy))"
    using sign_of_xor [OF wU, of r ux r uy] bounds by (simp add: n h_def)
  have top: "HasSignBit ?U r \<longleftrightarrow> h \<le> r"
    using HasSignBit_iff [OF wU, of r] bounds by (simp add: n h_def)
  note fx = fits_signed [OF assms(1,3,4), folded h_def, unfolded n, folded ux_def]
    and fy = fits_signed [OF assms(1,3,5), folded h_def, unfolded n, folded uy_def]
  have r: "r = (if 0 \<le> x + y then x + y else x + y + 2 * h)"
    using pattern [of T "x + y"] fx fy by (simp add: n r_def)
  have "snd (CheckedAdd T x y) =
      (if (h \<le> r) \<noteq> (h \<le> ux) \<and> (h \<le> r) \<noteq> (h \<le> uy)
       then if h \<le> r then RANGE_OVERFLOW else RANGE_UNDERFLOW else RANGE_VALID)"
    using sign top assms(3) by (simp add: CheckedAdd_def Let_def c pU)
  also have "\<dots> = classify T (x + y)"
    unfolding classify_signed [OF assms(3)] h_def [symmetric] r
    using fx fy h by (auto split: if_splits)
  finally show ?thesis .
qed

lemma CheckedSub_signed:
  assumes "wf_type T" and "4 \<le> size_of T" and "is_signed T" and "fits T x" and "fits T y"
  shows "snd (CheckedSub T x y) = classify T (x - y)"
proof -
  let ?U = "UnsignedIntegerForSize T"
  define h :: int where "h = 2 ^ (bits T - 1)"
  have n: "2 ^ bits T = 2 * h" using bits_half [OF assms(1)] by (simp add: h_def)
  have h: "0 < h" by (simp add: h_def)
  define ux uy r where "ux = x mod (2 * h)" and "uy = y mod (2 * h)" and "r = (x - y) mod (2 * h)"
  have c: "cast ?U x = ux" "cast ?U y = uy" "cast ?U (ux - uy) = r"
    by (simp_all add: cast_unsigned n ux_def uy_def r_def mod_simps)
  have bounds: "0 \<le> ux" "ux < 2 * h" "0 \<le> uy" "uy < 2 * h" "0 \<le> r" "r < 2 * h"
    using h by (simp_all add: ux_def uy_def r_def)
  have wU: "wf_type ?U" and pU: "promoted ?U = ?U" using assms by (simp_all add: promoted_wide)
  have sign: "HasSignBit ?U (BinaryComplement ?U ((r XOR ux) AND (ux XOR uy))) \<longleftrightarrow>
      \<not> ((h \<le> r) \<noteq> (h \<le> ux) \<and> (h \<le> ux) \<noteq> (h \<le> uy))"
    using sign_of_xor [OF wU, of r ux ux uy] bounds by (simp add: n h_def)
  have top: "HasSignBit ?U r \<longleftrightarrow> h \<le> r"
    using HasSignBit_iff [OF wU, of r] bounds by (simp add: n h_def)
  note fx = fits_signed [OF assms(1,3,4), folded h_def, unfolded n, folded ux_def]
    and fy = fits_signed [OF assms(1,3,5), folded h_def, unfolded n, folded uy_def]
  have r: "r = (if 0 \<le> x - y then x - y else x - y + 2 * h)"
    using pattern [of T "x - y"] fx fy by (simp add: n r_def)
  have "snd (CheckedSub T x y) =
      (if (h \<le> r) \<noteq> (h \<le> ux) \<and> (h \<le> ux) \<noteq> (h \<le> uy)
       then if h \<le> r then RANGE_OVERFLOW else RANGE_UNDERFLOW else RANGE_VALID)"
    using sign top assms(3) by (simp add: CheckedSub_def Let_def c pU)
  also have "\<dots> = classify T (x - y)"
    unfolding classify_signed [OF assms(3)] h_def [symmetric] r
    using fx fy h by (auto split: if_splits)
  finally show ?thesis .
qed

lemma CheckedAdd_exact:
  assumes "wf_type T" and "4 \<le> size_of T" and "fits T x" and "fits T y"
  shows "CheckedAdd T x y = (cast T (x + y), classify T (x + y))"
proof (rule prod_eqI)
  show "fst (CheckedAdd T x y) = fst (cast T (x + y), classify T (x + y))"
    by (auto simp: CheckedAdd_def Let_def cast_unsigned mod_simps intro!: cast_mod)
  show "snd (CheckedAdd T x y) = snd (cast T (x + y), classify T (x + y))"
  proof (cases "is_signed T")
    case True
    then show ?thesis using CheckedAdd_signed assms by simp
  next
    case False
    have "NOT x = (2 ^ bits T - 1 - x) + (- 1) * 2 ^ bits T" by (simp add: not_int_def)
    then have "NOT x mod 2 ^ bits T = (2 ^ bits T - 1 - x) mod 2 ^ bits T" by (simp only: mod_mult_self1)
    also have "\<dots> = 2 ^ bits T - 1 - x"
      using assms(3) False by (intro mod_pos_pos_trivial) (auto simp: fits_def numeric_max_def numeric_min_def)
    finally have "BinaryComplement T x = 2 ^ bits T - 1 - x"
      using False by (simp add: BinaryComplement_def cast_def)
    with False assms(3,4) show ?thesis
      by (auto simp: CheckedAdd_def Let_def classify_def numeric_max_def numeric_min_def fits_def)
  qed
qed

lemma CheckedSub_exact:
  assumes "wf_type T" and "4 \<le> size_of T" and "fits T x" and "fits T y"
  shows "CheckedSub T x y = (cast T (x - y), classify T (x - y))"
proof (rule prod_eqI)
  show "fst (CheckedSub T x y) = fst (cast T (x - y), classify T (x - y))"
    by (auto simp: CheckedSub_def Let_def cast_unsigned mod_simps intro!: cast_mod)
  show "snd (CheckedSub T x y) = snd (cast T (x - y), classify T (x - y))"
  proof (cases "is_signed T")
    case True
    then show ?thesis using CheckedSub_signed assms by simp
  next
    case False
    with assms(3,4) show ?thesis
      by (auto simp: CheckedSub_def Let_def classify_def numeric_max_def numeric_min_def fits_def)
  qed
qed

section \<open>Multiplication, division and negation\<close>

lemma abs_product_le:
  fixes x y :: int
  assumes "\<bar>x\<bar> \<le> a" and "\<bar>y\<bar> \<le> a"
  shows "\<bar>x * y\<bar> \<le> a * a"
  using assms by (auto simp: abs_mult intro: mult_mono order_trans [OF abs_ge_zero])

lemma product_fits_twice:
  assumes "wf_type T" and "size_of T \<le> 4" and "fits T x" and "fits T y"
  shows "fits (TwiceWiderInteger T) (x * y)"
proof -
  define a where "a = max (numeric_max T) (- numeric_min T)"
  have "\<bar>x * y\<bar> \<le> a * a"
    using assms(3,4) by (intro abs_product_le) (auto simp: a_def fits_def)
  moreover have "\<not> is_signed T \<Longrightarrow> 0 \<le> x * y"
    using assms(3,4) by (auto simp: fits_def numeric_min_def)
  ultimately show ?thesis
    using assms(1,2)
    by (elim type_cases)
       (simp_all add: a_def fits_def numeric_max_def numeric_min_def bits_def int_types TwiceWiderInteger_def
         abs_le_iff)
qed

lemma CheckedMul_narrow:
  assumes "wf_type T" and "size_of T \<le> 4" and "fits T x" and "fits T y"
  shows "CheckedMul T x y old = Inr (cast T (x * y), classify T (x * y))"
proof -
  let ?W = "TwiceWiderInteger T"
  have w: "wf_type ?W" using assms(1,2) by (auto simp: wf_type_def TwiceWiderInteger_def)
  have f: "fits ?W (x * y)" by (rule product_fits_twice [OF assms])
  show ?thesis
    using assms(1,2) w f range_check_exact [OF assms(1) w f] by (simp add: CheckedMul_def cast_id Let_def)
qed

lemma c_div_pos_neg: "0 < b \<Longrightarrow> 0 < a \<Longrightarrow> c_div (- a) b = - (a div b)"
  by (simp add: c_div_def)

lemma c_div_neg: "b < 0 \<Longrightarrow> 0 < a \<Longrightarrow> c_div a b = - (a div (- b))"
  by (simp add: c_div_def)

lemma div_le_self: "0 < (b :: int) \<Longrightarrow> 0 \<le> a \<Longrightarrow> a div b \<le> a"
  using zdiv_mono2 [of a 1 b] by simp

abbreviation I64 :: int where "I64 \<equiv> 9223372036854775808"

lemma int64_limits [simp]: "numeric_max int64 = I64 - 1" "numeric_min int64 = - I64"
  by (simp_all add: numeric_max_def numeric_min_def int_types bits_def)

lemma arith_int64: "arith int64 v = (if fits int64 v then Inr v else Inl Undefined)"
  by (simp add: arith_def promoted_def cast_id) (simp add: int_types)

lemma int64_quotients:
  "0 < b \<Longrightarrow> lang_div int64 (numeric_max int64) b = Inr ((I64 - 1) div b)"
  "0 < b \<Longrightarrow> lang_div int64 (numeric_min int64) b = Inr (- (I64 div b))"
  "b < 0 \<Longrightarrow> lang_div int64 (numeric_max int64) b = Inr (- ((I64 - 1) div (- b)))"
proof -
  show "lang_div int64 (numeric_max int64) b = Inr ((I64 - 1) div b)" if "0 < b"
    using that div_le_self [OF that, of "I64 - 1"] pos_imp_zdiv_nonneg_iff [OF that, of "I64 - 1"]
    by (simp add: lang_div_def arith_int64 fits_def)
  show "lang_div int64 (numeric_min int64) b = Inr (- (I64 div b))" if "0 < b"
    using that div_le_self [OF that, of I64] pos_imp_zdiv_nonneg_iff [OF that, of I64] c_div_pos_neg [OF that, of I64]
    by (simp add: lang_div_def arith_int64 fits_def)
  show "lang_div int64 (numeric_max int64) b = Inr (- ((I64 - 1) div (- b)))" if "b < 0"
    using that div_le_self [of "- b" "I64 - 1"] pos_imp_zdiv_nonneg_iff [of "- b" "I64 - 1"]
      c_div_neg [OF that, of "I64 - 1"]
    by (simp add: lang_div_def arith_int64 fits_def)
qed

lemma neg_le_iff: "0 < (c :: int) \<Longrightarrow> a \<ge> - (b div c) \<longleftrightarrow> - b \<le> a * c"
  using le_div_iff [of c "- a" b] by auto

lemma CheckedMul_int64:
  "CheckedMul int64 x y old =
    (if x = 0 \<and> y = 0 then Inr (0, old)
     else if x = 0 \<and> y < 0 then Inl Div_By_Zero
     else if fits int64 (x * y) then Inr (x * y, RANGE_VALID)
     else Inl Undefined)"
proof -
  have sz: "size_of int64 = 8" "is_signed int64" by (simp_all add: int_types)
  consider "x = 0" "y = 0" | "x = 0" "y < 0" | "x > 0" "y > 0" | "x > 0" "y \<le> 0" | "x \<le> 0" "y > 0" | "x < 0" "y \<le> 0"
    by linarith
  then show ?thesis
  proof cases
    case 1
    then show ?thesis by (simp add: CheckedMul_def sz)
  next
    case 2
    then show ?thesis by (simp add: CheckedMul_def sz lang_div_def)
  next
    case 3
    then have "0 < x * y" by simp
    with 3 show ?thesis
      by (simp add: CheckedMul_def sz int64_quotients le_div_iff arith_int64 fits_def del: int64_limits(1))
         (simp add: fits_def)
  next
    case 4
    then have "x * y \<le> 0" by (simp add: mult_le_0_iff)
    with 4 show ?thesis
      by (simp add: CheckedMul_def sz int64_quotients neg_le_iff arith_int64 fits_def mult.commute del: int64_limits)
         (simp add: fits_def mult.commute)
  next
    case 5
    then have "x * y \<le> 0" by (simp add: mult_le_0_iff)
    with 5 show ?thesis
      by (simp add: CheckedMul_def sz int64_quotients neg_le_iff arith_int64 fits_def del: int64_limits)
         (simp add: fits_def)
  next
    case 6
    then have "0 \<le> x * y" by (simp add: zero_le_mult_iff)
    with 6 neg_le_iff [of "- x" "I64 - 1" y] show ?thesis
      by (simp add: CheckedMul_def sz int64_quotients arith_int64 fits_def mult.commute del: int64_limits)
         (simp add: fits_def mult.commute)
  qed
qed

lemma CheckedMul_uint64:
  assumes "fits uint64 x" and "fits uint64 y"
  shows "CheckedMul uint64 x y old = Inr (cast uint64 (x * y), classify uint64 (x * y))"
proof -
  have sz: "size_of uint64 = 8" "\<not> is_signed uint64" by (simp_all add: int_types)
  have ar: "arith uint64 v = Inr (cast uint64 v)" for v
    by (simp add: arith_def promoted_def sz)
  have lim: "numeric_min uint64 = 0" "numeric_max uint64 = 18446744073709551615"
    by (simp_all add: numeric_max_def numeric_min_def bits_def sz)
  have q: "lang_div uint64 (numeric_max uint64) y = Inr (numeric_max uint64 div y)" if "0 < y"
    using that div_le_self [OF that, of "numeric_max uint64"] pos_imp_zdiv_nonneg_iff [OF that, of "numeric_max uint64"]
    by (simp add: lang_div_def lim) (simp add: fits_def lim)
  have "0 \<le> x * y" using assms by (simp add: fits_def lim)
  then show ?thesis
    using assms q le_div_iff [of y x "numeric_max uint64"]
    by (cases "y = 0") (auto simp: CheckedMul_def sz ar classify_def lim fits_def mult_less_0_iff)
qed

lemma abs_c_div: "\<bar>c_div x y\<bar> = \<bar>x\<bar> div \<bar>y\<bar>"
proof -
  have "0 \<le> \<bar>x\<bar> div \<bar>y\<bar>" by (cases "y = 0") (simp_all add: pos_imp_zdiv_nonneg_iff)
  then show ?thesis by (auto simp: c_div_def abs_mult)
qed

lemma abs_c_div_le: "\<bar>c_div x y\<bar> \<le> \<bar>x\<bar>"
  by (cases "y = 0") (simp_all add: abs_c_div div_le_self)

lemma c_div_sign: "0 \<le> x \<Longrightarrow> 0 \<le> y \<Longrightarrow> 0 \<le> c_div x y"
  by (cases "y = 0"; cases "x = 0") (simp_all add: c_div_def sgn_if pos_imp_zdiv_nonneg_iff)

lemma c_div_overflow:
  assumes "wf_type T" and "fits T x" and "fits T y" and "\<not> fits T (c_div x y)"
  shows "is_signed T \<and> x = numeric_min T \<and> y = - 1"
proof -
  define h where "h = - numeric_min T"
  have s: "is_signed T"
    using assms abs_c_div_le [of x y] c_div_sign [of x y]
    by (auto simp: fits_def numeric_min_def split: if_splits)
  then have lim: "numeric_min T = - h" "numeric_max T = h - 1" "0 < h"
    by (simp_all add: h_def numeric_min_def numeric_max_def)
  with assms abs_c_div_le [of x y] have e: "c_div x y = h" "x = - h" by (auto simp: fits_def)
  have "y \<noteq> 0" using e lim by (auto simp: c_div_def)
  have "h \<le> h div \<bar>y\<bar>" using e lim abs_c_div [of x y] by simp
  then have "h * \<bar>y\<bar> \<le> h" using \<open>y \<noteq> 0\<close> le_div_iff [of "\<bar>y\<bar>" h h] by simp
  then have "\<bar>y\<bar> = 1" using lim(3) \<open>y \<noteq> 0\<close> by (simp add: mult_le_cancel_left1)
  then show ?thesis using s e lim by (auto simp: c_div_def abs_if split: if_splits)
qed

lemma cast_minus_one: "wf_type T \<Longrightarrow> is_signed T \<Longrightarrow> cast T (- 1) = - 1"
  by (rule cast_id) (auto elim!: type_cases simp: fits_def numeric_max_def numeric_min_def bits_def int_types)

lemma CheckedDiv_exact:
  assumes "wf_type T" and "fits T x" and "fits T y"
  shows "CheckedDiv T x y =
    (if y = 0 then Inl Div_By_Zero else Inr (cast T (c_div x y), classify T (c_div x y)))"
proof (cases "is_signed T \<and> x = numeric_min T \<and> y = - 1")
  case True
  then have q: "c_div x y = numeric_max T + 1" and m: "numeric_min T = numeric_max T + 1 - 2 ^ bits T"
    using bits_half [OF assms(1)] by (simp_all add: c_div_def numeric_min_def numeric_max_def)
  then have "cast T (c_div x y) = cast T (numeric_min T)" by (intro cast_mod) simp
  also have "\<dots> = numeric_min T" using True assms by (intro cast_id) auto
  finally show ?thesis
    using True q assms(1) by (simp add: CheckedDiv_def cast_minus_one classify_def)
next
  case False
  then have "fits T (c_div x y)" using c_div_overflow [OF assms] by blast
  with False assms show ?thesis
    by (auto simp: CheckedDiv_def lang_div_def cast_minus_one cast_id)
qed

lemma c_mod_bounds: "y \<noteq> 0 \<Longrightarrow> \<bar>c_mod x y\<bar> \<le> \<bar>x\<bar> \<and> 0 \<le> sgn x * c_mod x y"
proof -
  assume y: "y \<noteq> 0"
  have "c_mod x y = sgn x * (\<bar>x\<bar> mod \<bar>y\<bar>)"
    using y by (cases x "0 :: int" rule: linorder_cases; cases y "0 :: int" rule: linorder_cases)
      (simp_all add: c_mod_def c_div_def algebra_simps minus_mult_div_eq_mod flip: minus_mult_div_eq_mod)
  moreover have "0 \<le> \<bar>x\<bar> mod \<bar>y\<bar>" "\<bar>x\<bar> mod \<bar>y\<bar> \<le> \<bar>x\<bar>"
    using y by (simp_all add: zmod_le_nonneg_dividend)
  ultimately show ?thesis
    by (cases x "0 :: int" rule: linorder_cases) (simp_all add: abs_mult)
qed

lemma fits_c_mod: "wf_type T \<Longrightarrow> fits T x \<Longrightarrow> y \<noteq> 0 \<Longrightarrow> fits T (c_mod x y)"
  using c_mod_bounds [of y x] limits_sign [of T]
  by (cases x "0 :: int" rule: linorder_cases) (auto simp: fits_def)

lemma CheckedMod_cases:
  assumes "wf_type T" and "fits T x" and "fits T y"
  shows "y = 0 \<Longrightarrow> CheckedMod T x y = Inl Div_By_Zero"
    and "y \<noteq> 0 \<Longrightarrow> fits T (c_div x y) \<Longrightarrow>
      CheckedMod T x y = Inr (c_mod x y, if is_signed T \<and> y < 0 then RANGE_INVALID else RANGE_VALID)"
    and "y \<noteq> 0 \<Longrightarrow> CheckedMod T x y = Inr (v, c) \<Longrightarrow>
      v = c_mod x y \<and> c = (if is_signed T \<and> y < 0 then RANGE_INVALID else RANGE_VALID)"
  using assms fits_c_mod [OF assms(1,2), of y]
  by (auto simp: CheckedMod_def lang_mod_def cast_id)

section \<open>Exact arithmetic, and the class against it\<close>

text \<open>
  The value an operation should have: the mathematical one, when the type can represent it. The
  class refuses a signed remainder by a negative number.
\<close>

definition exact_op :: "arith_op \<Rightarrow> int_type \<Rightarrow> int \<Rightarrow> int \<Rightarrow> int option" where
  "exact_op f T x y =
     (case f of
        Add \<Rightarrow> if fits T (x + y) then Some (x + y) else None
      | Sub \<Rightarrow> if fits T (x - y) then Some (x - y) else None
      | Mul \<Rightarrow> if fits T (x * y) then Some (x * y) else None
      | Div \<Rightarrow> if y \<noteq> 0 \<and> fits T (c_div x y) then Some (c_div x y) else None
      | Mod \<Rightarrow> if 0 < y then Some (c_mod x y) else None)"

lemma wide_cases [consumes 2]:
  assumes "wf_type T" and "4 \<le> size_of T"
  obtains "size_of T \<le> 4" | "T = int64" | "T = uint64"
  using assms by (elim type_cases) (auto simp: int_types)

lemma CheckedMul_valid:
  assumes "wf_type T" and "4 \<le> size_of T" and "fits T x" and "fits T y"
    and "CheckedMul T x y RANGE_VALID = Inr (v, c)"
  shows "fits T v" and "c = RANGE_VALID \<Longrightarrow> fits T (x * y) \<and> v = x * y"
proof -
  have "fits T v \<and> (c = RANGE_VALID \<longrightarrow> fits T (x * y) \<and> v = x * y)"
    using assms(1,2)
  proof (cases rule: wide_cases)
    case 1
    then show ?thesis using assms CheckedMul_narrow [OF assms(1) 1 assms(3,4)] by (auto simp: cast_id)
  next
    case 2
    then show ?thesis using assms(5) by (auto simp: CheckedMul_int64 fits_def split: if_splits)
  next
    case 3
    then show ?thesis using assms CheckedMul_uint64 [of x y] by (auto simp: cast_id)
  qed
  then show "fits T v" and "c = RANGE_VALID \<Longrightarrow> fits T (x * y) \<and> v = x * y" by simp_all
qed

lemma checked_op_sound:
  assumes "wf_type T" and "4 \<le> size_of T" and "fits T x" and "fits T y"
    and "checked_op f T x y RANGE_VALID = Inr (v, c)"
  shows "fits T v" and "c = RANGE_VALID \<Longrightarrow> exact_op f T x y = Some v"
proof -
  have "fits T v \<and> (c = RANGE_VALID \<longrightarrow> exact_op f T x y = Some v)"
  proof (cases f)
    case Mul
    then show ?thesis
      using CheckedMul_valid [OF assms(1-4)] assms(5) by (auto simp: checked_op_def exact_op_def)
  next
    case Div
    then show ?thesis
      using assms by (auto simp: checked_op_def exact_op_def CheckedDiv_exact cast_id split: if_splits)
  next
    case Mod
    then have m: "CheckedMod T x y = Inr (v, c)" using assms(5) by (simp add: checked_op_def)
    then have y: "y \<noteq> 0" using CheckedMod_cases(1) [OF assms(1,3,4)] by auto
    have "\<not> is_signed T \<Longrightarrow> 0 < y" using y assms(4) by (auto simp: fits_def numeric_min_def)
    with Mod y CheckedMod_cases(3) [OF assms(1,3,4) y m] fits_c_mod [OF assms(1,3) y] show ?thesis
      by (auto simp: exact_op_def)
  qed (use assms in \<open>auto simp: checked_op_def exact_op_def CheckedAdd_exact CheckedSub_exact cast_id\<close>)
  then show "fits T v" and "c = RANGE_VALID \<Longrightarrow> exact_op f T x y = Some v" by simp_all
qed

lemma checked_op_complete:
  assumes "wf_type T" and "4 \<le> size_of T" and "fits T x" and "fits T y"
    and "exact_op f T x y = Some v" and "\<not> (T = int64 \<and> x = 0 \<and> y < 0)"
  shows "checked_op f T x y RANGE_VALID = Inr (v, RANGE_VALID)"
proof (cases f)
  case Mul
  with assms(5) have p: "fits T (x * y)" "v = x * y" by (auto simp: exact_op_def split: if_splits)
  from assms(1,2) have "CheckedMul T x y RANGE_VALID = Inr (v, RANGE_VALID)"
  proof (cases rule: wide_cases)
    case 1
    then show ?thesis using CheckedMul_narrow [OF assms(1) 1 assms(3,4)] p assms(1) by (simp add: cast_id)
  next
    case 2
    then show ?thesis using p assms(6) by (auto simp: CheckedMul_int64)
  next
    case 3
    then show ?thesis using CheckedMul_uint64 [of x y] p assms by (simp add: cast_id)
  qed
  with Mul show ?thesis by (simp add: checked_op_def)
next
  case Div
  with assms show ?thesis
    by (auto simp: checked_op_def exact_op_def CheckedDiv_exact cast_id split: if_splits)
next
  case Mod
  with assms(5) have y: "0 < y" "v = c_mod x y" by (auto simp: exact_op_def split: if_splits)
  then have "fits T (c_div x y)" using c_div_overflow [OF assms(1,3,4)] by auto
  with Mod y CheckedMod_cases(2) [OF assms(1,3,4)] show ?thesis by (simp add: checked_op_def)
qed (use assms in \<open>auto simp: checked_op_def exact_op_def CheckedAdd_exact CheckedSub_exact cast_id split: if_splits\<close>)

lemma promotion_wide: "wf_type T \<Longrightarrow> 4 \<le> size_of T \<Longrightarrow> ArithmeticPromotion T T = T"
  by (elim type_cases) (simp_all add: ArithmeticPromotion_def MaxExponent_def int_types)

lemma state_same:
  assumes "wf_type T" and "fits T v"
  shows "CheckedNumericState T T v c = Inr \<lparr>cn_value = v, cn_validity = c\<rparr>"
proof -
  have "classify T v = RANGE_VALID" using assms by simp
  with assms range_check_exact [of T T v] show ?thesis by (simp add: CheckedNumericState_def cast_id)
qed

lemma state_same_fun:
  "wf_type T \<Longrightarrow> fits T v \<Longrightarrow> CheckedNumericState T T v = (\<lambda>c. Inr \<lparr>cn_value = v, cn_validity = c\<rparr>)"
  by (rule ext) (rule state_same)

lemma op_same_wide:
  assumes "wf_type T" and "4 \<le> size_of T" and "fits T (cn_value l)" and "fits T (cn_value r)"
  shows "op_same f T l r =
    bind_r (checked_op f T (cn_value l) (cn_value r) RANGE_VALID) (\<lambda>(v, c).
    bind_r (join_validity c (cn_validity l)) (\<lambda>c1.
    bind_r (join_validity c1 (cn_validity r)) (\<lambda>c2.
    Inr \<lparr>cn_value = v, cn_validity = c2\<rparr>)))"
proof -
  have "\<not> IsIntegerArithmeticSafe T T T" using assms(2) by (auto simp: IsIntegerArithmeticSafe_def)
  then have "op_same f T l r =
      bind_r (checked_op f T (cn_value l) (cn_value r) RANGE_VALID) (\<lambda>(v, c).
      bind_r (join_validity c (cn_validity l)) (\<lambda>c1.
      bind_r (join_validity c1 (cn_validity r)) (\<lambda>c2.
      CheckedNumericState T T (cast T v) c2)))"
    using assms by (simp add: op_same_def promotion_wide cast_id)
  also have "\<dots> = bind_r (checked_op f T (cn_value l) (cn_value r) RANGE_VALID) (\<lambda>(v, c).
      bind_r (join_validity c (cn_validity l)) (\<lambda>c1.
      bind_r (join_validity c1 (cn_validity r)) (\<lambda>c2.
      Inr \<lparr>cn_value = v, cn_validity = c2\<rparr>)))"
    using checked_op_sound(1) [OF assms]
    by (intro bind_r_cong refl) (auto simp: state_same_fun [OF assms(1)] cast_id [OF assms(1)])
  finally show ?thesis .
qed

text \<open>Expressions over one checked type, with literals of any type.\<close>

datatype checked_expr =
    Lit int_type int
  | Op arith_op checked_expr checked_expr
  | Neg checked_expr
  | Abs checked_expr

fun eval_expr :: "int_type \<Rightarrow> checked_expr \<Rightarrow> checked_numeric result" where
  "eval_expr T (Lit Src v) = CheckedNumeric_of T Src v"
| "eval_expr T (Op f a b) =
     bind_r (eval_expr T a) (\<lambda>l. bind_r (eval_expr T b) (\<lambda>r. op_same f T l r))"
| "eval_expr T (Neg a) = bind_r (eval_expr T a) (\<lambda>s. op_neg T s)"
| "eval_expr T (Abs a) = bind_r (eval_expr T a) (\<lambda>s. op_abs T s)"

text \<open>The mathematical value, defined when every intermediate result fits the type.\<close>

fun exact_expr :: "int_type \<Rightarrow> checked_expr \<Rightarrow> int option" where
  "exact_expr T (Lit Src v) = (if fits T v then Some v else None)"
| "exact_expr T (Op f a b) =
     (case exact_expr T a of None \<Rightarrow> None
      | Some x \<Rightarrow> (case exact_expr T b of None \<Rightarrow> None | Some y \<Rightarrow> exact_op f T x y))"
| "exact_expr T (Neg a) =
     (case exact_expr T a of None \<Rightarrow> None | Some x \<Rightarrow> if fits T (- x) then Some (- x) else None)"
| "exact_expr T (Abs a) =
     (case exact_expr T a of None \<Rightarrow> None | Some x \<Rightarrow> if fits T \<bar>x\<bar> then Some \<bar>x\<bar> else None)"

fun literals_fit :: "checked_expr \<Rightarrow> bool" where
  "literals_fit (Lit Src v) \<longleftrightarrow> wf_type Src \<and> fits Src v"
| "literals_fit (Op f a b) \<longleftrightarrow> literals_fit a \<and> literals_fit b"
| "literals_fit (Neg a) \<longleftrightarrow> literals_fit a"
| "literals_fit (Abs a) \<longleftrightarrow> literals_fit a"

lemma min_not_negatable: "is_signed T \<Longrightarrow> \<not> fits T (- numeric_min T)"
  by (simp add: fits_def numeric_max_def numeric_min_def)

lemma CheckedNeg_sound:
  assumes "wf_type T" and "fits T x" and "CheckedNeg T x = Inr (v, c)"
  shows "fits T v \<and> (c = RANGE_VALID \<longrightarrow> fits T (- x) \<and> v = - x)"
proof (cases "is_signed T")
  case True
  then have "x \<noteq> numeric_min T \<Longrightarrow> fits T (- x)"
    using assms(2) by (auto simp: fits_def numeric_min_def numeric_max_def)
  with True assms show ?thesis by (auto simp: CheckedNeg_def cast_id split: if_splits)
next
  case False
  have "wf_type (SignedIntegerForSize T)" using assms(1) by (simp add: wf_type_def SignedIntegerForSize_def)
  moreover have "fits U 0" for U using limits_sign [of U] by (simp add: fits_def)
  ultimately show ?thesis
    using False assms by (auto simp: CheckedNeg_def cast_id split: if_splits)
qed

lemma CheckedNeg_complete:
  assumes "wf_type T" and "fits T x" and "fits T (- x)"
  shows "CheckedNeg T x = Inr (- x, RANGE_VALID)"
proof (cases "is_signed T")
  case True
  with assms min_not_negatable [of T] show ?thesis by (auto simp: CheckedNeg_def cast_id)
next
  case False
  with assms have "x = 0" by (auto simp: fits_def numeric_min_def)
  moreover have "wf_type (SignedIntegerForSize T)" using assms(1) by (simp add: wf_type_def SignedIntegerForSize_def)
  moreover have "fits U 0" for U using limits_sign [of U] by (simp add: fits_def)
  ultimately show ?thesis using False assms(1) by (simp add: CheckedNeg_def cast_id)
qed

lemma CheckedAbs_cases:
  assumes "wf_type T" and "fits T x"
  shows "CheckedAbs T x = Inr (v, c) \<Longrightarrow> fits T v \<and> (c = RANGE_VALID \<longrightarrow> fits T \<bar>x\<bar> \<and> v = \<bar>x\<bar>)"
    and "fits T \<bar>x\<bar> \<Longrightarrow> CheckedAbs T x = Inr (\<bar>x\<bar>, RANGE_VALID)"
proof -
  have neg: "\<bar>x\<bar> = x" if "\<not> is_signed T" using that assms by (auto simp: fits_def numeric_min_def)
  have "is_signed T \<Longrightarrow> x \<noteq> numeric_min T \<Longrightarrow> fits T \<bar>x\<bar>"
    using assms(2) by (auto simp: fits_def numeric_min_def numeric_max_def)
  then show "CheckedAbs T x = Inr (v, c) \<Longrightarrow> fits T v \<and> (c = RANGE_VALID \<longrightarrow> fits T \<bar>x\<bar> \<and> v = \<bar>x\<bar>)"
    using assms neg by (auto simp: CheckedAbs_def cast_id split: if_splits)
  have "is_signed T \<Longrightarrow> fits T \<bar>x\<bar> \<Longrightarrow> x \<noteq> numeric_min T"
    using limits_sign [of T] min_not_negatable [of T] by auto
  then show "fits T \<bar>x\<bar> \<Longrightarrow> CheckedAbs T x = Inr (\<bar>x\<bar>, RANGE_VALID)"
    using assms neg by (auto simp: CheckedAbs_def cast_id)
qed

lemma join_two: "\<exists>c. bind_r (join_validity a b) (\<lambda>c1. join_validity c1 d) = Inr c \<and>
    (c = RANGE_VALID \<longleftrightarrow> a = RANGE_VALID \<and> b = RANGE_VALID \<and> d = RANGE_VALID)"
  by (cases a; cases b; cases d) (simp_all add: join_validity_def GetRangeConstraint_def)

lemma eval_sound:
  assumes "wf_type T" and "4 \<le> size_of T" and "literals_fit e" and "eval_expr T e = Inr s"
  shows "fits T (cn_value s) \<and> (IsValid s \<longrightarrow> exact_expr T e = Some (cn_value s))"
  using assms(3,4)
proof (induction e arbitrary: s)
  case (Lit Src v)
  with assms(1) show ?case
    by (auto simp: CheckedNumeric_of_def IsValid_def range_check_exact cast_id)
next
  case (Op f a b)
  from Op.prems obtain l r where lr: "eval_expr T a = Inr l" "eval_expr T b = Inr r" "op_same f T l r = Inr s"
    by auto
  with Op have l: "fits T (cn_value l)" "IsValid l \<longrightarrow> exact_expr T a = Some (cn_value l)"
    and r: "fits T (cn_value r)" "IsValid r \<longrightarrow> exact_expr T b = Some (cn_value r)" by auto
  from lr(3) obtain v c c1 where v: "checked_op f T (cn_value l) (cn_value r) RANGE_VALID = Inr (v, c)"
      "join_validity c (cn_validity l) = Inr c1" "join_validity c1 (cn_validity r) = Inr (cn_validity s)" "cn_value s = v"
    by (auto simp: op_same_wide [OF assms(1,2) l(1) r(1)])
  have "IsValid s \<Longrightarrow> c = RANGE_VALID \<and> IsValid l \<and> IsValid r"
    using v(2,3) by (auto simp: IsValid_def)
  with checked_op_sound [OF assms(1,2) l(1) r(1) v(1)] v(4) l(2) r(2) show ?case by auto
next
  case (Neg a)
  from Neg.prems obtain u where u: "eval_expr T a = Inr u" "op_neg T u = Inr s" by auto
  with Neg have a: "fits T (cn_value u)" "IsValid u \<longrightarrow> exact_expr T a = Some (cn_value u)" by auto
  from u(2) obtain v c c1 where v: "CheckedNeg T (cn_value u) = Inr (v, c)"
      "join_validity (cn_validity u) c = Inr c1" "CheckedNumericState T T v c1 = Inr s"
    by (auto simp: op_neg_def)
  note n = CheckedNeg_sound [OF assms(1) a(1) v(1)]
  then have "s = \<lparr>cn_value = v, cn_validity = c1\<rparr>" using v(3) state_same [OF assms(1)] by simp
  with n v(2) a(2) show ?case by (auto simp: IsValid_def)
next
  case (Abs a)
  from Abs.prems obtain u where u: "eval_expr T a = Inr u" "op_abs T u = Inr s" by auto
  with Abs have a: "fits T (cn_value u)" "IsValid u \<longrightarrow> exact_expr T a = Some (cn_value u)" by auto
  from u(2) obtain v c c1 where v: "CheckedAbs T (cn_value u) = Inr (v, c)"
      "join_validity (cn_validity u) c = Inr c1" "CheckedNumericState T T v c1 = Inr s"
    by (auto simp: op_abs_def)
  note n = CheckedAbs_cases(1) [OF assms(1) a(1) v(1)]
  then have "s = \<lparr>cn_value = v, cn_validity = c1\<rparr>" using v(3) state_same [OF assms(1)] by simp
  with n v(2) a(2) show ?case by (auto simp: IsValid_def)
qed

lemma exact_op_fits:
  "wf_type T \<Longrightarrow> fits T x \<Longrightarrow> exact_op f T x y = Some v \<Longrightarrow> fits T v"
  by (cases f) (auto simp: exact_op_def fits_c_mod split: if_splits)

lemma exact_fits: "wf_type T \<Longrightarrow> exact_expr T e = Some v \<Longrightarrow> fits T v"
proof (induction e arbitrary: v)
  case (Op f a b)
  then obtain x y where "fits T x" "exact_op f T x y = Some v" by (auto split: option.splits)
  with Op.prems(1) show ?case by (rule exact_op_fits)
qed (auto split: if_splits option.splits)

lemma eval_complete:
  assumes "wf_type T" and "4 \<le> size_of T" and "T \<noteq> int64" and "literals_fit e" and "exact_expr T e = Some v"
  shows "eval_expr T e = Inr \<lparr>cn_value = v, cn_validity = RANGE_VALID\<rparr>"
  using assms(4,5)
proof (induction e arbitrary: v)
  case (Lit Src w)
  then have "fits T w" "v = w" "classify T w = RANGE_VALID" by (auto split: if_splits)
  with assms(1) Lit range_check_exact [of T Src w] show ?case
    by (simp add: CheckedNumeric_of_def cast_id)
next
  case (Op f a b)
  then obtain x y where xy: "exact_expr T a = Some x" "exact_expr T b = Some y" "exact_op f T x y = Some v"
    by (auto split: option.splits)
  note fx = exact_fits [OF assms(1) xy(1)] and fy = exact_fits [OF assms(1) xy(2)]
  from xy Op assms(3) checked_op_complete [OF assms(1,2) fx fy xy(3)] fx fy show ?case
    by (simp add: op_same_wide [OF assms(1,2)])
next
  case (Neg a)
  then obtain x where x: "exact_expr T a = Some x" "fits T (- x)" "v = - x"
    by (auto split: option.splits if_splits)
  with Neg CheckedNeg_complete [OF assms(1) exact_fits [OF assms(1) x(1)] x(2)] show ?case
    by (simp add: op_neg_def state_same [OF assms(1)])
next
  case (Abs a)
  then obtain x where x: "exact_expr T a = Some x" "fits T \<bar>x\<bar>" "v = \<bar>x\<bar>"
    by (auto split: option.splits if_splits)
  with Abs CheckedAbs_cases(2) [OF assms(1) exact_fits [OF assms(1) x(1)] x(2)] show ?case
    by (simp add: op_abs_def state_same [OF assms(1)])
qed



text \<open>
  C37. Conversions between integer types. For every value of a source type, the range check
  reports overflow exactly above the destination's maximum and underflow exactly below its
  minimum, \<open>checked_cast\<close> returns the value unchanged or stops the program, and
  \<open>saturated_cast\<close> returns the nearest value of the destination type.
\<close>

theorem range_casts_exact:
  assumes "wf_type Dst" and "wf_type Src" and "fits Src v"
  shows "DstRangeRelationToSrcRange Dst Src v = Inr (classify Dst v) \<and>
    checked_cast Dst Src v = (if fits Dst v then Inr v else Inl Assert_Failed) \<and>
    saturated_cast Dst Src v = Inr (max (numeric_min Dst) (min (numeric_max Dst) v))"
  using range_check_exact [OF assms] checked_cast_eq [OF assms] saturated_cast_clamps [OF assms] by blast

theorem range_casts_exact_witness:
  "DstRangeRelationToSrcRange uint8 int32 (- 5) = Inr RANGE_UNDERFLOW \<and>
   checked_cast uint8 int32 (- 5) = Inl Assert_Failed \<and> saturated_cast uint8 int32 (- 5) = Inr 0"
proof -
  have "fits int32 (- 5)" "\<not> fits uint8 (- 5)" "classify uint8 (- 5) = RANGE_UNDERFLOW"
      "max (numeric_min uint8) (min (numeric_max uint8) (- 5)) = 0"
    by (simp_all add: fits_def classify_def numeric_max_def numeric_min_def bits_def int_types)
  then show ?thesis using range_casts_exact [of uint8 int32 "- 5"] by simp
qed

text \<open>
  C39. The 64 bit signed multiplication, on every pair of values. Its product is returned with the
  state valid whenever it is representable, with two exceptions: zero times a negative number
  divides by zero while looking for the bound, and zero times zero leaves the caller's validity
  as it was. A product outside the range is computed in signed arithmetic, which is undefined.
\<close>

theorem checked_mul_int64:
  "CheckedMul int64 x y old =
    (if x = 0 \<and> y = 0 then Inr (0, old)
     else if x = 0 \<and> y < 0 then Inl Div_By_Zero
     else if fits int64 (x * y) then Inr (x * y, RANGE_VALID)
     else Inl Undefined)"
  by (rule CheckedMul_int64)

section \<open>Promotion\<close>

text \<open>
  The usual arithmetic conversions of the language on integers of these sizes: promote both
  operands; of two types of one signedness the wider one; of a signed and an unsigned type the
  unsigned one, unless the signed one is wider.
\<close>

definition usual_conversions :: "int_type \<Rightarrow> int_type \<Rightarrow> int_type" where
  "usual_conversions A B =
     (let L = promoted A; R = promoted B
      in if is_signed L = is_signed R then (if size_of R \<le> size_of L then L else R)
         else if is_signed L then (if size_of R < size_of L then L else R)
         else (if size_of L < size_of R then R else L))"

text \<open>
  C38. The type of a mixed expression. For any two integer types the template that selects the
  common type agrees with the usual arithmetic conversions of the language, and the fast path that
  would skip the checks on a type twice as wide as its operands is never selected for it.
\<close>

theorem promotion_is_usual:
  assumes "wf_type L" and "wf_type R"
  shows "ArithmeticPromotion L R = usual_conversions L R \<and>
    \<not> IsIntegerArithmeticSafe (ArithmeticPromotion L R) L R"
  using assms
  by (elim type_cases;
      simp add: ArithmeticPromotion_def usual_conversions_def MaxExponent_def promoted_def
        IsIntegerArithmeticSafe_def StaticDstRangeRelationToSrcRange_def int_types)

theorem promotion_is_usual_witness:
  "ArithmeticPromotion int32 uint32 = uint32 \<and> ArithmeticPromotion int64 uint32 = int64 \<and>
   \<not> IsIntegerArithmeticSafe (ArithmeticPromotion int8 int8) int8 int8"
proof -
  have "usual_conversions int32 uint32 = uint32" "usual_conversions int64 uint32 = int64"
    by (simp_all add: usual_conversions_def promoted_def int_types)
  then show ?thesis
    using promotion_is_usual [of int32 uint32] promotion_is_usual [of int64 uint32] promotion_is_usual [of int8 int8]
    by (metis wf_types)
qed

lemma narrow_sum_fits:
  assumes "wf_type T" and "size_of T < 4" and "fits T x" and "fits T y"
  shows "fits int32 x" and "fits int32 y" and "fits int32 (x + y)"
proof -
  have p: "promoted T = int32" using assms(2) by (simp add: promoted_def)
  show "fits int32 x" and "fits int32 y" using assms fits_promoted [of T] p by metis+
  show "fits int32 (x + y)"
    using assms(2-4) by (cases rule: type_cases [OF assms(1)])
      (simp_all add: fits_def numeric_max_def numeric_min_def bits_def int_types)
qed

text \<open>
  C40. Sums of types narrower than \<open>int\<close> are not checked. The sum of two valid
  numbers of such a type is computed in \<open>int\<close>, where it cannot overflow, and then stored in a
  variable of the narrow type: the class reports the wrapped value as valid.
\<close>

theorem narrow_sum_wraps:
  assumes "wf_type T" and "size_of T < 4" and "fits T x" and "fits T y"
  shows "op_same Add T \<lparr>cn_value = x, cn_validity = RANGE_VALID\<rparr> \<lparr>cn_value = y, cn_validity = RANGE_VALID\<rparr> =
    Inr \<lparr>cn_value = cast T (x + y), cn_validity = RANGE_VALID\<rparr>"
proof -
  note f = narrow_sum_fits [OF assms]
  have p: "ArithmeticPromotion T T = int32"
    using assms(1,2) by (elim type_cases) (simp_all add: ArithmeticPromotion_def MaxExponent_def int_types)
  have s: "\<not> IsIntegerArithmeticSafe int32 T T"
    by (auto simp: IsIntegerArithmeticSafe_def)
  have "size_of int32 = 4" by (simp add: int_types)
  then have a: "CheckedAdd int32 x y = (x + y, RANGE_VALID)"
    using f CheckedAdd_exact [of int32 x y] by (simp add: cast_id)
  have c: "fits int32 (cast T (x + y))" using assms(1,2) cast_fits [OF assms(1), of "x + y"] fits_promoted [of T]
    by (simp add: promoted_def)
  then have "CheckedNumericState int32 T (cast T (x + y)) RANGE_VALID =
      Inr \<lparr>cn_value = cast T (x + y), cn_validity = RANGE_VALID\<rparr>"
    using range_check_exact [OF wf_types(5) assms(1) cast_fits [OF assms(1)], of "x + y"]
    by (simp add: CheckedNumericState_def cast_id classify_def fits_def)
  with a f s p show ?thesis
    by (simp add: op_same_def checked_op_def cast_id Let_def)
qed

theorem narrow_sum_wraps_witness:
  "op_same Add int8 \<lparr>cn_value = 100, cn_validity = RANGE_VALID\<rparr> \<lparr>cn_value = 100, cn_validity = RANGE_VALID\<rparr> =
     Inr \<lparr>cn_value = - 56, cn_validity = RANGE_VALID\<rparr>"
proof -
  have "size_of int8 < 4" "fits int8 100" "cast int8 (100 + 100) = - 56"
    by (simp_all add: fits_def numeric_max_def numeric_min_def bits_def cast_def int_types)
  then show ?thesis using narrow_sum_wraps [of int8 100 100] by simp
qed

text \<open>Called directly on such a type, the checked addition does not see the overflow either.\<close>

lemma CheckedAdd_int8: "CheckedAdd int8 100 100 = (- 56, RANGE_VALID)"
  by code_simp

end
