(* ===== verification/Bounded_Queue.thy ===== *)
theory Bounded_Queue
  imports Fifo
begin

text \<open>
  The bounded double-ended queue of butil (\<open>butil/containers/bounded_queue.h\<close> of the vendored
  brpc headers). The three indices are \<open>uint32_t\<close> and wrap. The storage is an array of slots, each
  raw memory or holding a constructed item: constructing writes a slot, destroying makes it raw
  again, and reading or destroying a raw slot is a fault. A null storage pointer is \<open>None\<close>.
\<close>

record 'a bounded_queue =
  bd_count :: "32 word"
  bd_cap :: "32 word"
  bd_start :: "32 word"
  bd_owns :: bool
  bd_items :: "'a option list option"

section \<open>Construction\<close>

text \<open>
  The constructor on given memory of \<open>memsize\<close> bytes for items of \<open>item_size\<close> bytes; \<open>mem\<close> is whether the
  pointer is not null. The constructor on a capacity allocates; \<open>mem\<close> is whether malloc succeeds.
\<close>

definition bd_ctor_mem :: "bool \<Rightarrow> nat \<Rightarrow> nat \<Rightarrow> bool \<Rightarrow> 'a bounded_queue result" where
  "bd_ctor_mem mem memsize item_size owns =
     bind_r (guard_r Assert_Failed mem) (\<lambda>_.
     Inr \<lparr>bd_count = 0, bd_cap = of_nat (memsize div item_size), bd_start = 0, bd_owns = owns,
          bd_items = Some (replicate (memsize div item_size) None)\<rparr>)"

definition bd_ctor_cap :: "bool \<Rightarrow> nat \<Rightarrow> 'a bounded_queue result" where
  "bd_ctor_cap mem capacity =
     bind_r (guard_r Assert_Failed mem) (\<lambda>_.
     Inr \<lparr>bd_count = 0, bd_cap = of_nat capacity, bd_start = 0, bd_owns = True,
          bd_items = Some (replicate capacity None)\<rparr>)"

definition bd_ctor :: "'a bounded_queue" where
  "bd_ctor = \<lparr>bd_count = 0, bd_cap = 0, bd_start = 0, bd_owns = False, bd_items = None\<rparr>"

section \<open>Slots\<close>

definition bd_slots :: "'a bounded_queue \<Rightarrow> 'a option list result" where
  "bd_slots q = of_option Null_Deref (bd_items q)"

text \<open>\<open>new (_items + i) T(x)\<close>.\<close>

definition bd_construct :: "32 word \<Rightarrow> 'a \<Rightarrow> 'a bounded_queue \<Rightarrow> 'a bounded_queue result" where
  "bd_construct i x q =
     bind_r (bd_slots q) (\<lambda>a.
     bind_r (guard_r Out_Of_Bounds (unat i < length a)) (\<lambda>_.
     Inr (q\<lparr>bd_items := Some (a[unat i := Some x])\<rparr>)))"

text \<open>\<open>*(_items + i)\<close>, read.\<close>

definition bd_read :: "32 word \<Rightarrow> 'a bounded_queue \<Rightarrow> 'a result" where
  "bd_read i q =
     bind_r (bd_slots q) (\<lambda>a.
     bind_r (guard_r Out_Of_Bounds (unat i < length a)) (\<lambda>_.
     of_option Uninitialised (a ! unat i)))"

text \<open>\<open>(_items + i)->~T()\<close>.\<close>

definition bd_destroy :: "32 word \<Rightarrow> 'a bounded_queue \<Rightarrow> 'a bounded_queue result" where
  "bd_destroy i q =
     bind_r (bd_read i q) (\<lambda>_.
     bind_r (bd_slots q) (\<lambda>a.
     Inr (q\<lparr>bd_items := Some (a[unat i := None])\<rparr>)))"

text \<open>The loop of \<open>_mod\<close>; with a capacity of zero it does not end.\<close>

function bd_mod :: "32 word \<Rightarrow> 32 word \<Rightarrow> 32 word result" where
  "bd_mod off cap =
     (if cap \<le> off then if cap = 0 then Inl Diverges else bd_mod (off - cap) cap
      else Inr off)"
  by auto
termination
proof (relation "measure (\<lambda>(off, cap). unat off)")
  fix off cap :: "32 word"
  assume "cap \<le> off" "cap \<noteq> 0"
  then have "unat (off - cap) = unat off - unat cap" "0 < unat cap" "unat cap \<le> unat off"
    by (simp_all add: unat_sub word_le_nat_alt unat_gt_0)
  then show "((off - cap, cap), (off, cap)) \<in> measure (\<lambda>(off, cap). unat off)" by simp
qed simp

declare bd_mod.simps [simp del]

section \<open>Operations\<close>

definition bd_push :: "'a \<Rightarrow> 'a bounded_queue \<Rightarrow> (bool \<times> 'a bounded_queue) result" where
  "bd_push x q =
     (if bd_count q < bd_cap q
      then
        bind_r (bd_mod (bd_start q + bd_count q) (bd_cap q)) (\<lambda>i.
        bind_r (bd_construct i x q) (\<lambda>q1.
        Inr (True, q1\<lparr>bd_count := bd_count q1 + 1\<rparr>)))
      else Inr (False, q))"

definition bd_elim_push :: "'a \<Rightarrow> 'a bounded_queue \<Rightarrow> 'a bounded_queue result" where
  "bd_elim_push x q =
     (if bd_count q < bd_cap q
      then
        bind_r (bd_mod (bd_start q + bd_count q) (bd_cap q)) (\<lambda>i.
        bind_r (bd_construct i x q) (\<lambda>q1.
        Inr (q1\<lparr>bd_count := bd_count q1 + 1\<rparr>)))
      else
        bind_r (bd_read (bd_start q) q) (\<lambda>_.
        bind_r (bd_construct (bd_start q) x q) (\<lambda>q1.
        bind_r (bd_mod (bd_start q1 + 1) (bd_cap q1)) (\<lambda>s.
        Inr (q1\<lparr>bd_start := s\<rparr>)))))"

text \<open>
  The overloads that construct a default item return its address, here the slot's index, or null.
\<close>

definition bd_push_default :: "'a \<Rightarrow> 'a bounded_queue \<Rightarrow> (32 word option \<times> 'a bounded_queue) result" where
  "bd_push_default dflt q =
     (if bd_count q < bd_cap q
      then
        bind_r (bd_mod (bd_start q + bd_count q) (bd_cap q)) (\<lambda>i.
        bind_r (bd_construct i dflt (q\<lparr>bd_count := bd_count q + 1\<rparr>)) (\<lambda>q1.
        Inr (Some i, q1)))
      else Inr (None, q))"

definition bd_push_top :: "'a \<Rightarrow> 'a bounded_queue \<Rightarrow> (bool \<times> 'a bounded_queue) result" where
  "bd_push_top x q =
     (if bd_count q < bd_cap q
      then
        let s = (if bd_start q \<noteq> 0 then bd_start q - 1 else bd_cap q - 1);
            q1 = q\<lparr>bd_start := s, bd_count := bd_count q + 1\<rparr>
        in bind_r (bd_construct s x q1) (\<lambda>q2. Inr (True, q2))
      else Inr (False, q))"

definition bd_push_top_default :: "'a \<Rightarrow> 'a bounded_queue \<Rightarrow> (32 word option \<times> 'a bounded_queue) result" where
  "bd_push_top_default dflt q =
     (if bd_count q < bd_cap q
      then
        let s = (if bd_start q \<noteq> 0 then bd_start q - 1 else bd_cap q - 1);
            q1 = q\<lparr>bd_start := s, bd_count := bd_count q + 1\<rparr>
        in bind_r (bd_construct s dflt q1) (\<lambda>q2. Inr (Some s, q2))
      else Inr (None, q))"

definition bd_pop :: "'a bounded_queue \<Rightarrow> (bool \<times> 'a bounded_queue) result" where
  "bd_pop q =
     (if bd_count q \<noteq> 0
      then
        bind_r (bd_destroy (bd_start q) (q\<lparr>bd_count := bd_count q - 1\<rparr>)) (\<lambda>q1.
        bind_r (bd_mod (bd_start q1 + 1) (bd_cap q1)) (\<lambda>s.
        Inr (True, q1\<lparr>bd_start := s\<rparr>)))
      else Inr (False, q))"

text \<open>The overloads that copy the item out; \<open>None\<close> is the return value false.\<close>

definition bd_pop_item :: "'a bounded_queue \<Rightarrow> ('a option \<times> 'a bounded_queue) result" where
  "bd_pop_item q =
     (if bd_count q \<noteq> 0
      then
        let q0 = q\<lparr>bd_count := bd_count q - 1\<rparr> in
        bind_r (bd_read (bd_start q0) q0) (\<lambda>x.
        bind_r (bd_destroy (bd_start q0) q0) (\<lambda>q1.
        bind_r (bd_mod (bd_start q1 + 1) (bd_cap q1)) (\<lambda>s.
        Inr (Some x, q1\<lparr>bd_start := s\<rparr>))))
      else Inr (None, q))"

definition bd_pop_bottom :: "'a bounded_queue \<Rightarrow> (bool \<times> 'a bounded_queue) result" where
  "bd_pop_bottom q =
     (if bd_count q \<noteq> 0
      then
        let q0 = q\<lparr>bd_count := bd_count q - 1\<rparr> in
        bind_r (bd_mod (bd_start q0 + bd_count q0) (bd_cap q0)) (\<lambda>i.
        bind_r (bd_destroy i q0) (\<lambda>q1.
        Inr (True, q1)))
      else Inr (False, q))"

definition bd_pop_bottom_item :: "'a bounded_queue \<Rightarrow> ('a option \<times> 'a bounded_queue) result" where
  "bd_pop_bottom_item q =
     (if bd_count q \<noteq> 0
      then
        let q0 = q\<lparr>bd_count := bd_count q - 1\<rparr> in
        bind_r (bd_mod (bd_start q0 + bd_count q0) (bd_cap q0)) (\<lambda>i.
        bind_r (bd_read i q0) (\<lambda>x.
        bind_r (bd_destroy i q0) (\<lambda>q1.
        Inr (Some x, q1))))
      else Inr (None, q))"

fun bd_clear_loop :: "nat \<Rightarrow> 32 word \<Rightarrow> 'a bounded_queue \<Rightarrow> 'a bounded_queue result" where
  "bd_clear_loop 0 i q = Inr q"
| "bd_clear_loop (Suc n) i q =
     bind_r (bd_mod (bd_start q + i) (bd_cap q)) (\<lambda>j.
     bind_r (bd_destroy j q) (\<lambda>q1.
     bd_clear_loop n (i + 1) q1))"

definition bd_clear :: "'a bounded_queue \<Rightarrow> 'a bounded_queue result" where
  "bd_clear q =
     bind_r (bd_clear_loop (unat (bd_count q)) 0 q) (\<lambda>q1.
     Inr (q1\<lparr>bd_count := 0, bd_start := 0\<rparr>))"

text \<open>The destructor; the storage it owns is freed.\<close>

definition bd_dtor :: "'a bounded_queue \<Rightarrow> 'a bounded_queue result" where
  "bd_dtor q =
     bind_r (bd_clear q) (\<lambda>q1. Inr (if bd_owns q1 then q1\<lparr>bd_items := None\<rparr> else q1))"

text \<open>The accessors return an address, here the index of a slot, or null.\<close>

definition bd_top :: "'a bounded_queue \<Rightarrow> 32 word option" where
  "bd_top q = (if bd_count q \<noteq> 0 then Some (bd_start q) else None)"

definition bd_top_at :: "nat \<Rightarrow> 'a bounded_queue \<Rightarrow> 32 word option result" where
  "bd_top_at index q =
     (if index < unat (bd_count q)
      then bind_r (bd_mod (bd_start q + of_nat index) (bd_cap q)) (\<lambda>i. Inr (Some i))
      else Inr None)"

definition bd_bottom :: "'a bounded_queue \<Rightarrow> 32 word option result" where
  "bd_bottom q =
     (if bd_count q \<noteq> 0
      then bind_r (bd_mod (bd_start q + bd_count q - 1) (bd_cap q)) (\<lambda>i. Inr (Some i))
      else Inr None)"

definition bd_bottom_at :: "nat \<Rightarrow> 'a bounded_queue \<Rightarrow> 32 word option result" where
  "bd_bottom_at index q =
     (if index < unat (bd_count q)
      then bind_r (bd_mod (bd_start q + bd_count q - of_nat index - 1) (bd_cap q)) (\<lambda>i. Inr (Some i))
      else Inr None)"

definition bd_empty :: "'a bounded_queue \<Rightarrow> bool" where
  "bd_empty q \<longleftrightarrow> bd_count q = 0"

definition bd_full :: "'a bounded_queue \<Rightarrow> bool" where
  "bd_full q \<longleftrightarrow> bd_cap q = bd_count q"

definition bd_size :: "'a bounded_queue \<Rightarrow> nat" where
  "bd_size q = unat (bd_count q)"

definition bd_capacity :: "'a bounded_queue \<Rightarrow> nat" where
  "bd_capacity q = unat (bd_cap q)"

definition bd_max_capacity :: nat where
  "bd_max_capacity = 2 ^ (4 * 8) - 1"

definition bd_initialized :: "'a bounded_queue \<Rightarrow> bool" where
  "bd_initialized q \<longleftrightarrow> bd_items q \<noteq> None"

definition bd_swap :: "'a bounded_queue \<Rightarrow> 'a bounded_queue \<Rightarrow> 'a bounded_queue \<times> 'a bounded_queue" where
  "bd_swap q r =
     (q\<lparr>bd_count := bd_count r, bd_cap := bd_cap r, bd_start := bd_start r, bd_owns := bd_owns r, bd_items := bd_items r\<rparr>,
      r\<lparr>bd_count := bd_count q, bd_cap := bd_cap q, bd_start := bd_start q, bd_owns := bd_owns q, bd_items := bd_items q\<rparr>)"

section \<open>The queue as a list\<close>

text \<open>
  \<open>bd_rep q xs\<close>: the queue \<open>q\<close> holds the items \<open>xs\<close>, top first. Read from the start index around the
  ring, the slots are the items followed by raw memory. The capacity is bounded so that the sum of two
  indices does not wrap.
\<close>

definition bd_rep :: "'a bounded_queue \<Rightarrow> 'a list \<Rightarrow> bool" where
  "bd_rep q xs \<longleftrightarrow>
     (\<exists>a. bd_items q = Some a \<and> length a = unat (bd_cap q) \<and>
       0 < unat (bd_cap q) \<and> unat (bd_cap q) \<le> 2 ^ 31 \<and>
       unat (bd_start q) < unat (bd_cap q) \<and> unat (bd_count q) = length xs \<and> length xs \<le> unat (bd_cap q) \<and>
       rotate (unat (bd_start q)) a = map Some xs @ replicate (unat (bd_cap q) - length xs) None)"

lemma mod_add_inj:
  fixes s i j n :: nat
  assumes "i < n" and "j < n" and "(s + i) mod n = (s + j) mod n"
  shows "i = j"
  using assms
proof (induction i j rule: linorder_wlog)
  case (le i j)
  then have "n dvd (s + j) - (s + i)" by (metis add_le_mono1 add.commute mod_eq_dvd_iff_nat)
  then have "n dvd j - i" by simp
  with le show ?case by (cases "i = j") (auto dest: dvd_imp_le)
qed simp

lemma rotate_update:
  assumes "k < length a"
  shows "rotate s (a[(s + k) mod length a := v]) = (rotate s a)[k := v]"
proof (rule nth_equalityI)
  fix i assume "i < length (rotate s (a[(s + k) mod length a := v]))"
  then have i: "i < length a" by simp
  then have "(s + i) mod length a < length a" by (intro mod_less_divisor) auto
  with i assms mod_add_inj [of i "length a" k s]
  show "rotate s (a[(s + k) mod length a := v]) ! i = (rotate s a)[k := v] ! i"
    by (cases "i = k") (simp_all add: nth_rotate nth_list_update, metis nth_list_update_neq)
qed simp

lemma bd_mod_eq: "cap \<noteq> 0 \<Longrightarrow> bd_mod off cap = Inr (off mod cap)"
proof (induction off cap rule: bd_mod.induct)
  case (1 off cap)
  show ?case
  proof (cases "cap \<le> off")
    case True
    then have "unat (off - cap) = unat off - unat cap" "unat cap \<le> unat off"
      by (simp_all add: unat_sub word_le_nat_alt)
    then have "(off - cap) mod cap = off mod cap"
      by (simp add: word_unat_eq_iff unat_mod_distrib le_mod_geq)
    with 1 True show ?thesis by (subst bd_mod.simps) simp
  next
    case False
    then have "off mod cap = off"
      by (simp add: word_unat_eq_iff unat_mod_distrib not_le word_less_nat_alt)
    with False show ?thesis by (subst bd_mod.simps) simp
  qed
qed

text \<open>The slot \<open>k\<close> places after the start.\<close>

definition bd_slot :: "'a bounded_queue \<Rightarrow> nat \<Rightarrow> 32 word" where
  "bd_slot q k = of_nat ((unat (bd_start q) + k) mod unat (bd_cap q))"

lemma bd_repE:
  assumes "bd_rep q xs"
  obtains a where "bd_items q = Some a" "length a = unat (bd_cap q)" "0 < unat (bd_cap q)" "bd_cap q \<noteq> 0"
    "unat (bd_cap q) \<le> 2 ^ 31" "unat (bd_start q) < unat (bd_cap q)" "unat (bd_count q) = length xs"
    "length xs \<le> unat (bd_cap q)"
    "rotate (unat (bd_start q)) a = map Some xs @ replicate (unat (bd_cap q) - length xs) None"
proof -
  have "bd_cap q \<noteq> 0" using assms by (auto simp: bd_rep_def)
  with assms that show thesis by (auto simp: bd_rep_def)
qed

definition bd_ring :: "'a bounded_queue \<Rightarrow> bool" where
  "bd_ring q \<longleftrightarrow> 0 < unat (bd_cap q) \<and> unat (bd_cap q) \<le> 2 ^ 31 \<and> unat (bd_start q) < unat (bd_cap q)"

lemma bd_rep_ring: "bd_rep q xs \<Longrightarrow> bd_ring q"
  by (auto simp: bd_rep_def bd_ring_def)

lemma bd_ring_slot:
  assumes "bd_ring q"
  shows "unat (bd_slot q k) = (unat (bd_start q) + k) mod unat (bd_cap q)"
proof -
  have "(unat (bd_start q) + k) mod unat (bd_cap q) < unat (bd_cap q)"
    using assms by (simp add: bd_ring_def)
  also have "unat (bd_cap q) < 2 ^ 32" using unsigned_less [of "bd_cap q"] by simp
  finally show ?thesis by (simp add: bd_slot_def unat_of_nat)
qed

lemma bd_ring_mod:
  assumes "bd_ring q" and "k \<le> unat (bd_cap q)"
  shows "bd_mod (bd_start q + of_nat k) (bd_cap q) = Inr (bd_slot q k)"
proof -
  from assms have c: "bd_cap q \<noteq> 0" "unat (bd_cap q) \<le> 2 ^ 31" "unat (bd_start q) < unat (bd_cap q)"
    by (auto simp: bd_ring_def)
  have k: "unat (of_nat k :: 32 word) = k" using assms(2) c(2) by (simp add: unat_of_nat)
  have "unat (bd_start q + of_nat k) = unat (bd_start q) + k"
    using c assms(2) k by (subst unat_add_lem [THEN iffD1]) simp_all
  then have "unat ((bd_start q + of_nat k) mod bd_cap q) = unat (bd_slot q k)"
    using bd_ring_slot [OF assms(1)] by (simp add: unat_mod_distrib)
  with bd_mod_eq [OF c(1)] show ?thesis by (simp add: word_unat_eq_iff)
qed

lemmas unat_bd_slot = bd_ring_slot [OF bd_rep_ring]
lemmas bd_mod_slot = bd_ring_mod [OF bd_rep_ring]

lemma bd_slot_frame [simp]:
  "bd_slot (q\<lparr>bd_count := c\<rparr>) k = bd_slot q k" "bd_slot (q\<lparr>bd_items := a\<rparr>) k = bd_slot q k"
  by (simp_all add: bd_slot_def)

lemma bd_slots_frame [simp]:
  "bd_slots (q\<lparr>bd_count := c\<rparr>) = bd_slots q" "bd_slots (q\<lparr>bd_start := s\<rparr>) = bd_slots q"
  by (simp_all add: bd_slots_def)

lemma bd_read_frame [simp]: "bd_read i (q\<lparr>bd_count := c\<rparr>) = bd_read i q"
  by (simp add: bd_read_def)

lemma bd_slot_0: "bd_rep q xs \<Longrightarrow> bd_slot q 0 = bd_start q"
  by (auto elim!: bd_repE simp: bd_slot_def)

lemma bd_slot_less: "bd_rep q xs \<Longrightarrow> unat (bd_slot q k) < unat (bd_cap q)"
  by (simp add: unat_bd_slot) (auto elim!: bd_repE)

lemma bd_read_slot:
  assumes "bd_rep q xs" and "k < length xs"
  shows "bd_read (bd_slot q k) q = Inr (xs ! k)"
proof -
  from assms(1) obtain a where a: "bd_items q = Some a" "length a = unat (bd_cap q)" "length xs \<le> unat (bd_cap q)"
      "rotate (unat (bd_start q)) a = map Some xs @ replicate (unat (bd_cap q) - length xs) None"
    by (auto elim!: bd_repE)
  have "a ! unat (bd_slot q k) = rotate (unat (bd_start q)) a ! k"
    using a assms(2) by (simp only: unat_bd_slot [OF assms(1)]) (simp add: nth_rotate flip: a(4))
  also have "\<dots> = Some (xs ! k)" using assms(2) by (simp add: a(4) nth_append)
  finally show ?thesis
    using a bd_slot_less [OF assms(1), of k] by (simp add: bd_read_def bd_slots_def)
qed

lemma bd_construct_slot:
  assumes "bd_rep q xs" and "bd_items q = Some a"
  shows "bd_construct (bd_slot q k) x q = Inr (q\<lparr>bd_items := Some (a[unat (bd_slot q k) := Some x])\<rparr>)"
  using assms bd_slot_less [OF assms(1), of k] by (auto elim!: bd_repE simp: bd_construct_def bd_slots_def)

lemma bd_destroy_slot:
  assumes "bd_rep q xs" and "bd_items q = Some a" and "k < length xs"
  shows "bd_destroy (bd_slot q k) q = Inr (q\<lparr>bd_items := Some (a[unat (bd_slot q k) := None])\<rparr>)"
  using assms bd_read_slot [OF assms(1,3)] by (simp add: bd_destroy_def bd_slots_def)

lemma bd_view_update:
  assumes "bd_rep q xs" and "bd_items q = Some a" and "k < unat (bd_cap q)"
  shows "rotate (unat (bd_start q)) (a[unat (bd_slot q k) := v]) =
    (map Some xs @ replicate (unat (bd_cap q) - length xs) None)[k := v]"
proof -
  from assms(1,2) have "length a = unat (bd_cap q)"
      "rotate (unat (bd_start q)) a = map Some xs @ replicate (unat (bd_cap q) - length xs) None"
    by (auto elim!: bd_repE)
  with rotate_update [of k a "unat (bd_start q)" v] assms(3) show ?thesis
    by (simp add: unat_bd_slot [OF assms(1)])
qed

lemma bd_view_next:
  assumes "bd_rep q xs" and "length a = unat (bd_cap q)"
  shows "rotate (unat (bd_slot q 1)) a = rotate1 (rotate (unat (bd_start q)) a)"
  using rotate_conv_mod [of "Suc (unat (bd_start q))" a] assms(2)
  by (simp add: unat_bd_slot [OF assms(1)])

lemma count_less:
  assumes "bd_rep q xs"
  shows "bd_count q < bd_cap q \<longleftrightarrow> length xs < unat (bd_cap q)"
    and "bd_count q = 0 \<longleftrightarrow> xs = []"
    and "bd_cap q = bd_count q \<longleftrightarrow> length xs = unat (bd_cap q)"
proof -
  obtain c: "unat (bd_count q) = length xs" using assms by (auto elim!: bd_repE)
  show "bd_count q < bd_cap q \<longleftrightarrow> length xs < unat (bd_cap q)" by (simp add: word_less_nat_alt c)
  show "bd_count q = 0 \<longleftrightarrow> xs = []" using c by (metis length_0_conv unat_0 word_unat_eq_iff)
  show "bd_cap q = bd_count q \<longleftrightarrow> length xs = unat (bd_cap q)" using c by (metis word_unat_eq_iff)
qed

lemma count_arith:
  assumes "bd_rep q xs"
  shows "bd_count q = of_nat (length xs)"
    and "length xs < unat (bd_cap q) \<Longrightarrow> unat (bd_count q + 1) = Suc (length xs)"
    and "xs \<noteq> [] \<Longrightarrow> unat (bd_count q - 1) = length xs - 1"
proof -
  obtain c: "unat (bd_count q) = length xs" "unat (bd_cap q) \<le> 2 ^ 31" using assms by (auto elim!: bd_repE)
  show "bd_count q = of_nat (length xs)" using c(1) by (metis of_nat_unat ucast_id)
  show "length xs < unat (bd_cap q) \<Longrightarrow> unat (bd_count q + 1) = Suc (length xs)"
    using c by (subst unat_add_lem [THEN iffD1]) simp_all
  assume "xs \<noteq> []"
  then have "1 \<le> bd_count q" using c by (simp add: word_le_nat_alt Suc_le_eq)
  then show "unat (bd_count q - 1) = length xs - 1" using c by (simp add: unat_sub)
qed

lemma bd_mod_count:
  assumes "bd_rep q xs"
  shows "bd_mod (bd_start q + bd_count q) (bd_cap q) = Inr (bd_slot q (length xs))"
  using bd_mod_slot [OF assms, of "length xs"] count_arith(1) [OF assms] assms by (auto elim!: bd_repE)

section \<open>Every operation acts on the list\<close>

lemma bd_place_bottom:
  assumes "bd_rep q xs" and "length xs < unat (bd_cap q)"
  obtains q' where "bd_construct (bd_slot q (length xs)) x q = Inr q'"
    and "bd_rep (q'\<lparr>bd_count := bd_count q' + 1\<rparr>) (xs @ [x])" and "bd_cap q' = bd_cap q"
proof -
  from assms(1) obtain a where a: "bd_items q = Some a" "length a = unat (bd_cap q)"
      "unat (bd_cap q) \<le> 2 ^ 31" "unat (bd_start q) < unat (bd_cap q)"
    by (auto elim!: bd_repE)
  let ?q = "q\<lparr>bd_items := Some (a[unat (bd_slot q (length xs)) := Some x])\<rparr>"
  obtain m where m: "unat (bd_cap q) - length xs = Suc m" using assms(2) by (cases "unat (bd_cap q) - length xs") auto
  have "rotate (unat (bd_start q)) (a[unat (bd_slot q (length xs)) := Some x]) =
      map Some (xs @ [x]) @ replicate (unat (bd_cap q) - length (xs @ [x])) None"
    using m by (simp add: bd_view_update [OF assms(1) a(1) assms(2)] list_update_append)
  then have "bd_rep (?q\<lparr>bd_count := bd_count q + 1\<rparr>) (xs @ [x])"
    using a assms(2) count_arith(2) [OF assms] by (auto simp: bd_rep_def)
  with that [of ?q] bd_construct_slot [OF assms(1) a(1)] show thesis by simp
qed

lemma bd_push_room:
  assumes "bd_rep q xs" and "length xs < unat (bd_cap q)"
  shows "\<exists>q'. bd_push x q = Inr (True, q') \<and> bd_rep q' (xs @ [x]) \<and> bd_cap q' = bd_cap q"
proof -
  obtain q' where "bd_construct (bd_slot q (length xs)) x q = Inr q'"
      "bd_rep (q'\<lparr>bd_count := bd_count q' + 1\<rparr>) (xs @ [x])" "bd_cap q' = bd_cap q"
    by (rule bd_place_bottom [OF assms])
  with assms bd_mod_count [OF assms(1)] show ?thesis
    by (simp add: bd_push_def count_less(1) [OF assms(1)])
qed

lemma bd_push_full:
  assumes "bd_rep q xs" and "length xs = unat (bd_cap q)"
  shows "bd_push x q = Inr (False, q)"
  using assms by (simp add: bd_push_def count_less(1) [OF assms(1)])

lemma bd_elim_push_eq:
  assumes "bd_rep q xs"
  shows "\<exists>q'. bd_elim_push x q = Inr q' \<and> bd_cap q' = bd_cap q \<and>
    bd_rep q' (if length xs < unat (bd_cap q) then xs @ [x] else tl xs @ [x])"
proof (cases "length xs < unat (bd_cap q)")
  case True
  obtain q' where "bd_construct (bd_slot q (length xs)) x q = Inr q'"
      "bd_rep (q'\<lparr>bd_count := bd_count q' + 1\<rparr>) (xs @ [x])" "bd_cap q' = bd_cap q"
    by (rule bd_place_bottom [OF assms True])
  with True assms bd_mod_count [OF assms] show ?thesis
    by (simp add: bd_elim_push_def count_less(1) [OF assms])
next
  case False
  from assms obtain a where a: "bd_items q = Some a" "length a = unat (bd_cap q)" "0 < unat (bd_cap q)"
      "unat (bd_cap q) \<le> 2 ^ 31" "unat (bd_start q) < unat (bd_cap q)" "unat (bd_count q) = length xs"
      "length xs \<le> unat (bd_cap q)"
    by (auto elim!: bd_repE)
  then obtain y ys where xs: "xs = y # ys" and n: "length xs = unat (bd_cap q)"
    using False by (cases xs) auto
  let ?a = "a[unat (bd_slot q 0) := Some x]"
  have v: "rotate (unat (bd_start q)) ?a = Some x # map Some ys"
    using n by (simp add: bd_view_update [OF assms a(1,3)] xs)
  have "bd_rep (q\<lparr>bd_items := Some ?a, bd_start := bd_slot q 1\<rparr>) (ys @ [x])"
    using a n bd_slot_less [OF assms, of 1] bd_view_next [OF assms, of ?a] v
    by (auto simp: bd_rep_def xs)
  moreover have "bd_elim_push x q = Inr (q\<lparr>bd_items := Some ?a, bd_start := bd_slot q 1\<rparr>)"
    using False bd_read_slot [OF assms, of 0] bd_construct_slot [OF assms a(1), of 0 x]
      bd_mod_slot [OF assms, of 1] a(3)
    by (simp add: bd_elim_push_def count_less(1) [OF assms] xs bd_slot_0 [OF assms])
  ultimately show ?thesis using False by (simp add: xs)
qed

lemma bd_pop_item_some:
  assumes "bd_rep q (x # xs)"
  shows "\<exists>q'. bd_pop_item q = Inr (Some x, q') \<and> bd_pop q = Inr (True, q') \<and> bd_rep q' xs \<and> bd_cap q' = bd_cap q"
proof -
  from assms obtain a where a: "bd_items q = Some a" "length a = unat (bd_cap q)" "0 < unat (bd_cap q)"
      "unat (bd_cap q) \<le> 2 ^ 31" "unat (bd_start q) < unat (bd_cap q)" "length (x # xs) \<le> unat (bd_cap q)"
    by (auto elim!: bd_repE)
  let ?a = "a[unat (bd_slot q 0) := None]"
  let ?q = "q\<lparr>bd_count := bd_count q - 1, bd_items := Some ?a, bd_start := bd_slot q 1\<rparr>"
  have n: "unat (bd_cap q) - length xs = Suc (unat (bd_cap q) - length (x # xs))" using a(6) by simp
  have v: "rotate (unat (bd_start q)) ?a = None # map Some xs @ replicate (unat (bd_cap q) - length (x # xs)) None"
    by (simp add: bd_view_update [OF assms a(1,3)])
  have "rotate1 (rotate (unat (bd_start q)) ?a) = map Some xs @ replicate (unat (bd_cap q) - length xs) None"
    by (simp only: v n) (simp add: replicate_append_same flip: replicate_Suc)
  then have rep: "bd_rep ?q xs"
    using a bd_slot_less [OF assms, of 1] bd_view_next [OF assms, of ?a] count_arith(3) [OF assms]
    by (auto simp: bd_rep_def)
  have d: "bd_destroy (bd_start q) (q\<lparr>bd_count := bd_count q - 1\<rparr>) =
      Inr (q\<lparr>bd_count := bd_count q - 1, bd_items := Some ?a\<rparr>)"
    using bd_read_slot [OF assms, of 0] a by (simp add: bd_destroy_def bd_slots_def bd_slot_0 [OF assms])
  have "bd_count q \<noteq> 0" using count_less(2) [OF assms] by simp
  with d bd_read_slot [OF assms, of 0] bd_mod_slot [OF assms, of 1] a(3) rep show ?thesis
    by (simp add: bd_pop_item_def bd_pop_def bd_slot_0 [OF assms])
qed

lemma bd_pop_none:
  assumes "bd_rep q []"
  shows "bd_pop_item q = Inr (None, q)" "bd_pop q = Inr (False, q)"
  using count_less(2) [OF assms] by (simp_all add: bd_pop_item_def bd_pop_def)

lemma rotate1_eqD: "rotate1 v = w \<Longrightarrow> v \<noteq> [] \<Longrightarrow> v = last w # butlast w"
  by (cases v) auto

text \<open>One step back from the start, around the ring.\<close>

definition bd_prev :: "'a bounded_queue \<Rightarrow> 32 word" where
  "bd_prev q = (if bd_start q \<noteq> 0 then bd_start q - 1 else bd_cap q - 1)"

lemma unat_bd_prev:
  assumes "bd_rep q xs"
  shows "unat (bd_prev q) < unat (bd_cap q)" and "Suc (unat (bd_prev q)) mod unat (bd_cap q) = unat (bd_start q)"
proof -
  from assms obtain c: "bd_cap q \<noteq> 0" "unat (bd_start q) < unat (bd_cap q)" by (auto elim!: bd_repE)
  have p: "unat (w - 1) = unat w - 1 \<and> 0 < unat w" if "w \<noteq> 0" for w :: "32 word"
    using that by (metis unat_minus_one unat_gt_0)
  show "unat (bd_prev q) < unat (bd_cap q)"
    using p [OF c(1)] p [of "bd_start q"] c by (auto simp: bd_prev_def)
  show "Suc (unat (bd_prev q)) mod unat (bd_cap q) = unat (bd_start q)"
    using p [OF c(1)] p [of "bd_start q"] c by (auto simp: bd_prev_def)
qed

lemma bd_view_prev:
  assumes "bd_rep q xs" and "bd_items q = Some a" and "length xs < unat (bd_cap q)"
  shows "rotate (unat (bd_prev q)) a = None # map Some xs @ replicate (unat (bd_cap q) - length xs - 1) None"
proof -
  from assms(1,2) have a: "length a = unat (bd_cap q)" "0 < unat (bd_cap q)"
      "rotate (unat (bd_start q)) a = map Some xs @ replicate (unat (bd_cap q) - length xs) None"
    by (auto elim!: bd_repE)
  obtain m where m: "unat (bd_cap q) - length xs = Suc m" using assms(3) by (cases "unat (bd_cap q) - length xs") auto
  have "rotate1 (rotate (unat (bd_prev q)) a) = rotate (Suc (unat (bd_prev q))) a" by simp
  also have "\<dots> = rotate (unat (bd_start q)) a"
    using rotate_conv_mod [of "Suc (unat (bd_prev q))" a] unat_bd_prev(2) [OF assms(1)] a(1) by simp
  also have "\<dots> = map Some xs @ replicate m None @ [None]"
    using a(3) m by (simp add: replicate_append_same)
  finally have "rotate (unat (bd_prev q)) a = last (map Some xs @ replicate m None @ [None]) # butlast (map Some xs @ replicate m None @ [None])"
    by (rule rotate1_eqD) (use a in auto)
  with m show ?thesis by (simp add: butlast_append)
qed

lemma bd_push_top_eq:
  assumes "bd_rep q xs"
  shows "length xs < unat (bd_cap q) \<Longrightarrow>
      \<exists>q'. bd_push_top x q = Inr (True, q') \<and> bd_rep q' (x # xs) \<and> bd_cap q' = bd_cap q"
    and "length xs = unat (bd_cap q) \<Longrightarrow> bd_push_top x q = Inr (False, q)"
proof -
  assume room: "length xs < unat (bd_cap q)"
  from assms obtain a where a: "bd_items q = Some a" "length a = unat (bd_cap q)" "0 < unat (bd_cap q)"
      "unat (bd_cap q) \<le> 2 ^ 31" "unat (bd_start q) < unat (bd_cap q)" "unat (bd_count q) = length xs"
    by (auto elim!: bd_repE)
  let ?a = "a[unat (bd_prev q) := Some x]"
  let ?q = "q\<lparr>bd_start := bd_prev q, bd_count := bd_count q + 1, bd_items := Some ?a\<rparr>"
  have "rotate (unat (bd_prev q)) ?a = (rotate (unat (bd_prev q)) a)[0 := Some x]"
    using rotate_update [of 0 a "unat (bd_prev q)" "Some x"] a unat_bd_prev(1) [OF assms] by simp
  also have "\<dots> = map Some (x # xs) @ replicate (unat (bd_cap q) - length (x # xs)) None"
    by (simp add: bd_view_prev [OF assms a(1) room])
  finally have "bd_rep ?q (x # xs)"
    using a room unat_bd_prev(1) [OF assms] count_arith(2) [OF assms room] by (auto simp: bd_rep_def)
  moreover have "bd_push_top x q = Inr (True, ?q)"
    using room a unat_bd_prev(1) [OF assms]
    by (simp add: bd_push_top_def count_less(1) [OF assms] bd_prev_def [symmetric] bd_construct_def bd_slots_def Let_def)
  ultimately show "\<exists>q'. bd_push_top x q = Inr (True, q') \<and> bd_rep q' (x # xs) \<and> bd_cap q' = bd_cap q" by auto
next
  show "length xs = unat (bd_cap q) \<Longrightarrow> bd_push_top x q = Inr (False, q)"
    by (simp add: bd_push_top_def count_less(1) [OF assms])
qed

lemma bd_pop_bottom_item_some:
  assumes "bd_rep q (xs @ [x])"
  shows "\<exists>q'. bd_pop_bottom_item q = Inr (Some x, q') \<and> bd_pop_bottom q = Inr (True, q') \<and>
    bd_rep q' xs \<and> bd_cap q' = bd_cap q"
proof -
  from assms obtain a where a: "bd_items q = Some a" "length a = unat (bd_cap q)" "0 < unat (bd_cap q)"
      "unat (bd_cap q) \<le> 2 ^ 31" "unat (bd_start q) < unat (bd_cap q)" "length (xs @ [x]) \<le> unat (bd_cap q)"
    by (auto elim!: bd_repE)
  let ?i = "bd_slot q (length xs)"
  let ?a = "a[unat ?i := None]"
  let ?q = "q\<lparr>bd_count := bd_count q - 1, bd_items := Some ?a\<rparr>"
  have c: "unat (bd_count q - 1) = length xs" using count_arith(3) [OF assms] by simp
  have "rotate (unat (bd_start q)) ?a = map Some xs @ None # replicate (unat (bd_cap q) - length (xs @ [x])) None"
    using a(6) by (simp add: bd_view_update [OF assms a(1)] list_update_append)
  also have "\<dots> = map Some xs @ replicate (unat (bd_cap q) - length xs) None"
    using a(6) by (simp flip: replicate_Suc add: Suc_diff_Suc)
  finally have rep: "bd_rep ?q xs" using a c by (auto simp: bd_rep_def)
  have "bd_count q - 1 = of_nat (length xs)" using c by (metis of_nat_unat ucast_id)
  then have m: "bd_mod (bd_start q + (bd_count q - 1)) (bd_cap q) = Inr ?i"
    using bd_mod_slot [OF assms, of "length xs"] a(6) by simp
  have r: "bd_read ?i q = Inr x" using bd_read_slot [OF assms, of "length xs"] by (simp add: nth_append)
  then have d: "bd_destroy ?i (q\<lparr>bd_count := bd_count q - 1\<rparr>) = Inr ?q"
    using a by (simp add: bd_destroy_def bd_slots_def)
  have "bd_count q \<noteq> 0" using count_less(2) [OF assms] by simp
  with m r d rep show ?thesis by (simp add: bd_pop_bottom_item_def bd_pop_bottom_def Let_def)
qed

lemma bd_pop_bottom_none:
  assumes "bd_rep q []"
  shows "bd_pop_bottom_item q = Inr (None, q)" "bd_pop_bottom q = Inr (False, q)"
  using count_less(2) [OF assms] by (simp_all add: bd_pop_bottom_item_def bd_pop_bottom_def)

lemma bd_clear_loop_eq:
  assumes "bd_ring q" and "bd_items q = Some a" and "length a = unat (bd_cap q)"
    and "rotate (unat (bd_start q)) a = replicate i None @ map Some ys @ replicate m None"
  shows "bd_clear_loop (length ys) (of_nat i) q = Inr (q\<lparr>bd_items := Some (replicate (unat (bd_cap q)) None)\<rparr>)"
  using assms
proof (induction ys arbitrary: q a i)
  case Nil
  have "set a = set (rotate (unat (bd_start q)) a)" by simp
  also have "\<dots> \<subseteq> {None}" using Nil(4) by (auto simp: set_replicate_conv_if)
  finally have "a = replicate (unat (bd_cap q)) None"
    using Nil(3) by (metis replicate_eqI singletonD subsetD)
  with Nil(2) show ?case by simp
next
  case (Cons y ys)
  have n: "i < length a"
    using arg_cong [OF Cons.prems(4), of length] by simp
  have "a ! unat (bd_slot q i) = rotate (unat (bd_start q)) a ! i"
    using n Cons.prems(3) by (simp add: bd_ring_slot [OF Cons.prems(1)] nth_rotate)
  also have "\<dots> = Some y" by (simp add: Cons.prems(4) nth_append)
  finally have sl: "a ! unat (bd_slot q i) = Some y" .
  have lt: "unat (bd_slot q i) < length a"
    using Cons.prems(1,3) by (simp add: bd_ring_slot bd_ring_def)
  let ?q = "q\<lparr>bd_items := Some (a[unat (bd_slot q i) := None])\<rparr>"
  have d: "bd_destroy (bd_slot q i) q = Inr ?q"
    using sl lt Cons.prems(2) by (simp add: bd_destroy_def bd_read_def bd_slots_def)
  have "rotate (unat (bd_start q)) (a[unat (bd_slot q i) := None]) =
      (replicate i None @ map Some (y # ys) @ replicate m None)[i := None]"
    using rotate_update [OF n, of "unat (bd_start q)" None] Cons.prems(3,4)
    by (simp add: bd_ring_slot [OF Cons.prems(1)])
  also have "\<dots> = replicate (Suc i) None @ map Some ys @ replicate m None"
    by (simp add: list_update_append replicate_app_Cons_same)
  finally have "bd_clear_loop (length ys) (of_nat (Suc i)) ?q =
      Inr (?q\<lparr>bd_items := Some (replicate (unat (bd_cap ?q)) None)\<rparr>)"
    using Cons.prems by (intro Cons.IH) (simp_all add: bd_ring_def)
  with bd_ring_mod [OF Cons.prems(1), of i] n Cons.prems(3) d show ?case
    by (simp add: add.commute)
qed

lemma bd_clear_eq:
  assumes "bd_rep q xs"
  shows "\<exists>q'. bd_clear q = Inr q' \<and> bd_rep q' [] \<and> bd_cap q' = bd_cap q \<and> bd_owns q' = bd_owns q"
proof -
  from assms obtain a where a: "bd_items q = Some a" "length a = unat (bd_cap q)" "0 < unat (bd_cap q)"
      "unat (bd_cap q) \<le> 2 ^ 31" "unat (bd_count q) = length xs"
      "rotate (unat (bd_start q)) a = map Some xs @ replicate (unat (bd_cap q) - length xs) None"
    by (auto elim!: bd_repE)
  have "bd_clear_loop (length xs) (of_nat 0) q = Inr (q\<lparr>bd_items := Some (replicate (unat (bd_cap q)) None)\<rparr>)"
    by (rule bd_clear_loop_eq [OF bd_rep_ring [OF assms] a(1,2)]) (simp add: a(6))
  with a show ?thesis by (auto simp: bd_clear_def bd_rep_def)
qed

lemma bd_access:
  assumes "bd_rep q xs"
  shows "k < length xs \<Longrightarrow> bd_top_at k q = Inr (Some (bd_slot q k))"
    and "length xs \<le> k \<Longrightarrow> bd_top_at k q = Inr None"
    and "k < length xs \<Longrightarrow> bd_bottom_at k q = Inr (Some (bd_slot q (length xs - 1 - k)))"
    and "length xs \<le> k \<Longrightarrow> bd_bottom_at k q = Inr None"
    and "bd_top q = (if xs = [] then None else Some (bd_slot q 0))"
    and "bd_bottom q = Inr (if xs = [] then None else Some (bd_slot q (length xs - 1)))"
proof -
  from assms have c: "unat (bd_count q) = length xs" "length xs \<le> unat (bd_cap q)" "unat (bd_cap q) \<le> 2 ^ 31"
    by (auto elim!: bd_repE)
  show "k < length xs \<Longrightarrow> bd_top_at k q = Inr (Some (bd_slot q k))"
    using bd_mod_slot [OF assms, of k] c by (simp add: bd_top_at_def)
  show "length xs \<le> k \<Longrightarrow> bd_top_at k q = Inr None" "length xs \<le> k \<Longrightarrow> bd_bottom_at k q = Inr None"
    using c by (simp_all add: bd_top_at_def bd_bottom_at_def)
  have e: "bd_start q + bd_count q - of_nat k - 1 = bd_start q + of_nat (length xs - 1 - k)" if "k < length xs" for k
    using that by (simp add: count_arith(1) [OF assms] of_nat_diff)
  show "k < length xs \<Longrightarrow> bd_bottom_at k q = Inr (Some (bd_slot q (length xs - 1 - k)))"
  proof -
    assume k: "k < length xs"
    then have "bd_mod (bd_start q + bd_count q - of_nat k - 1) (bd_cap q) = Inr (bd_slot q (length xs - 1 - k))"
      using c by (subst e [OF k]) (rule bd_mod_slot [OF assms], simp)
    with k c show ?thesis by (simp add: bd_bottom_at_def)
  qed
  show "bd_top q = (if xs = [] then None else Some (bd_slot q 0))"
    by (simp add: bd_top_def count_less(2) [OF assms] bd_slot_0 [OF assms])
  show "bd_bottom q = Inr (if xs = [] then None else Some (bd_slot q (length xs - 1)))"
  proof (cases "xs = []")
    case False
    then have "bd_mod (bd_start q + bd_count q - of_nat 0 - 1) (bd_cap q) = Inr (bd_slot q (length xs - 1 - 0))"
      using c by (subst e [of 0]) (simp, rule bd_mod_slot [OF assms], simp)
    with False show ?thesis by (simp add: bd_bottom_def count_less(2) [OF assms])
  qed (simp add: bd_bottom_def count_less(2) [OF assms])
qed

lemma bd_ctor_rep:
  assumes "0 < n" and "n \<le> 2 ^ 31"
  shows "\<exists>q. bd_ctor_cap True n = Inr q \<and> bd_rep q [] \<and> unat (bd_cap q) = n"
    and "0 < z \<Longrightarrow> \<exists>q. bd_ctor_mem True (z * n) z w = Inr q \<and> bd_rep q [] \<and> unat (bd_cap q) = n"
  using assms by (auto simp: bd_ctor_cap_def bd_ctor_mem_def bd_rep_def unat_of_nat)

section \<open>The queue provides the bounded FIFO contract\<close>

definition bd_list :: "'a bounded_queue \<Rightarrow> 'a list" where
  "bd_list q =
     (case bd_items q of None \<Rightarrow> []
      | Some a \<Rightarrow> map the (take (unat (bd_count q)) (rotate (unat (bd_start q)) a)))"

lemma bd_rep_list: "bd_rep q xs \<Longrightarrow> bd_list q = xs"
  by (auto elim!: bd_repE simp: bd_list_def comp_def)

definition bd_deq :: "'a bounded_queue \<Rightarrow> ('a \<times> 'a bounded_queue) result" where
  "bd_deq q = bind_r (bd_pop_item q) (\<lambda>(r, q'). bind_r (of_option Blocked r) (\<lambda>x. Inr (x, q')))"

interpretation deque: bounded_fifo "\<lambda>q. bd_rep q (bd_list q)" bd_list bd_capacity bd_push bd_deq
proof
  fix q :: "'a bounded_queue" and x xs
  assume inv: "bd_rep q (bd_list q)"
  show "length (bd_list q) \<le> bd_capacity q"
    using inv by (auto elim!: bd_repE simp: bd_capacity_def)
  show "length (bd_list q) < bd_capacity q \<Longrightarrow>
      \<exists>q'. bd_push x q = Inr (True, q') \<and> bd_rep q' (bd_list q') \<and> bd_list q' = bd_list q @ [x] \<and> bd_capacity q' = bd_capacity q"
    using bd_push_room [OF inv, of x] bd_rep_list unfolding bd_capacity_def by metis
  show "length (bd_list q) = bd_capacity q \<Longrightarrow>
      \<exists>q'. bd_push x q = Inr (False, q') \<and> bd_rep q' (bd_list q') \<and> bd_list q' = bd_list q \<and> bd_capacity q' = bd_capacity q"
    using bd_push_full [OF inv, of x] inv by (auto simp: bd_capacity_def)
  show "bd_list q = [] \<Longrightarrow> bd_deq q = Inl Blocked"
    using inv bd_pop_none(1) [of q] by (simp add: bd_deq_def)
  show "bd_list q = x # xs \<Longrightarrow>
      \<exists>q'. bd_deq q = Inr (x, q') \<and> bd_rep q' (bd_list q') \<and> bd_list q' = xs \<and> bd_capacity q' = bd_capacity q"
  proof -
    assume "bd_list q = x # xs"
    with inv obtain q' where q': "bd_pop_item q = Inr (Some x, q')" "bd_rep q' xs" "bd_cap q' = bd_cap q"
      using bd_pop_item_some [of q x xs] by auto
    with bd_rep_list [OF q'(2)] show ?thesis by (auto simp: bd_deq_def bd_capacity_def)
  qed
qed

section \<open>Refinement of a bounded list\<close>

text \<open>The calls of a client, what each returns, and the same calls on a list bounded by \<open>n\<close>.\<close>

datatype 'a deque_op =
    Push 'a | Elim_Push 'a | Push_Top 'a | Pop | Pop_Bottom | Clear | Top nat | Bottom nat

datatype 'a deque_out = Done | Flag bool | Item "'a option"

text \<open>Reading through an address returned by an accessor.\<close>

definition bd_deref :: "32 word option \<Rightarrow> 'a bounded_queue \<Rightarrow> 'a option result" where
  "bd_deref r q = (case r of None \<Rightarrow> Inr None | Some i \<Rightarrow> bind_r (bd_read i q) (\<lambda>x. Inr (Some x)))"

fun bd_do :: "'a deque_op \<Rightarrow> 'a bounded_queue \<Rightarrow> ('a deque_out \<times> 'a bounded_queue) result" where
  "bd_do (Push x) q = bind_r (bd_push x q) (\<lambda>(b, q'). Inr (Flag b, q'))"
| "bd_do (Elim_Push x) q = bind_r (bd_elim_push x q) (\<lambda>q'. Inr (Done, q'))"
| "bd_do (Push_Top x) q = bind_r (bd_push_top x q) (\<lambda>(b, q'). Inr (Flag b, q'))"
| "bd_do Pop q = bind_r (bd_pop_item q) (\<lambda>(r, q'). Inr (Item r, q'))"
| "bd_do Pop_Bottom q = bind_r (bd_pop_bottom_item q) (\<lambda>(r, q'). Inr (Item r, q'))"
| "bd_do Clear q = bind_r (bd_clear q) (\<lambda>q'. Inr (Done, q'))"
| "bd_do (Top i) q = bind_r (bd_top_at i q) (\<lambda>r. bind_r (bd_deref r q) (\<lambda>y. Inr (Item y, q)))"
| "bd_do (Bottom i) q = bind_r (bd_bottom_at i q) (\<lambda>r. bind_r (bd_deref r q) (\<lambda>y. Inr (Item y, q)))"

fun bd_run :: "'a deque_op list \<Rightarrow> 'a bounded_queue \<Rightarrow> ('a deque_out list \<times> 'a bounded_queue) result" where
  "bd_run [] q = Inr ([], q)"
| "bd_run (c # cs) q =
     bind_r (bd_do c q) (\<lambda>(r, q'). bind_r (bd_run cs q') (\<lambda>(rs, q''). Inr (r # rs, q'')))"

fun list_do :: "nat \<Rightarrow> 'a deque_op \<Rightarrow> 'a list \<Rightarrow> 'a deque_out \<times> 'a list" where
  "list_do n (Push x) xs = (if length xs < n then (Flag True, xs @ [x]) else (Flag False, xs))"
| "list_do n (Elim_Push x) xs = (Done, (if length xs < n then xs else tl xs) @ [x])"
| "list_do n (Push_Top x) xs = (if length xs < n then (Flag True, x # xs) else (Flag False, xs))"
| "list_do n Pop xs = (case xs of [] \<Rightarrow> (Item None, []) | x # ys \<Rightarrow> (Item (Some x), ys))"
| "list_do n Pop_Bottom xs = (if xs = [] then (Item None, []) else (Item (Some (last xs)), butlast xs))"
| "list_do n Clear xs = (Done, [])"
| "list_do n (Top i) xs = (Item (if i < length xs then Some (xs ! i) else None), xs)"
| "list_do n (Bottom i) xs = (Item (if i < length xs then Some (rev xs ! i) else None), xs)"

fun list_run :: "nat \<Rightarrow> 'a deque_op list \<Rightarrow> 'a list \<Rightarrow> 'a deque_out list \<times> 'a list" where
  "list_run n [] xs = ([], xs)"
| "list_run n (c # cs) xs =
     (let (r, ys) = list_do n c xs; (rs, zs) = list_run n cs ys in (r # rs, zs))"

lemma bd_do_refines:
  assumes "bd_rep q xs"
  shows "\<exists>q'. bd_do c q = Inr (fst (list_do (unat (bd_cap q)) c xs), q') \<and>
    bd_rep q' (snd (list_do (unat (bd_cap q)) c xs)) \<and> bd_cap q' = bd_cap q"
proof -
  have n: "length xs \<le> unat (bd_cap q)" using assms by (auto elim!: bd_repE)
  then have full: "\<not> length xs < unat (bd_cap q) \<Longrightarrow> length xs = unat (bd_cap q)" by simp
  show ?thesis
  proof (cases c)
    case (Push x)
    then show ?thesis
      using assms bd_push_room [OF assms, of x] bd_push_full [OF assms full, of x]
      by (cases "length xs < unat (bd_cap q)") auto
  next
    case (Elim_Push x)
    then show ?thesis using bd_elim_push_eq [OF assms, of x] by (auto split: if_splits)
  next
    case (Push_Top x)
    then show ?thesis
      using assms bd_push_top_eq(1) [OF assms, of x] bd_push_top_eq(2) [OF assms full, of x]
      by (cases "length xs < unat (bd_cap q)") auto
  next
    case Pop
    then show ?thesis using assms bd_pop_none(1) [of q] bd_pop_item_some [of q] by (cases xs) fastforce+
  next
    case Pop_Bottom
    then show ?thesis using assms bd_pop_bottom_none(1) [of q] bd_pop_bottom_item_some [of q]
      by (cases xs rule: rev_cases) fastforce+
  next
    case Clear
    then show ?thesis using bd_clear_eq [OF assms] by auto
  next
    case (Top i)
    then show ?thesis
      using assms bd_access(1,2) [OF assms, of i] bd_read_slot [OF assms, of i]
      by (cases "i < length xs") (auto simp: bd_deref_def)
  next
    case (Bottom i)
    then show ?thesis
      using assms bd_access(3,4) [OF assms, of i] bd_read_slot [OF assms, of "length xs - 1 - i"]
      by (cases "i < length xs") (auto simp: bd_deref_def rev_nth)
  qed
qed

lemma bd_run_refines:
  "bd_rep q xs \<Longrightarrow> \<exists>q'. bd_run cs q = Inr (fst (list_run (unat (bd_cap q)) cs xs), q') \<and>
     bd_rep q' (snd (list_run (unat (bd_cap q)) cs xs))"
proof (induction cs arbitrary: q xs)
  case (Cons c cs)
  from bd_do_refines [OF Cons.prems, of c] obtain q1 where
    q1: "bd_do c q = Inr (fst (list_do (unat (bd_cap q)) c xs), q1)"
      "bd_rep q1 (snd (list_do (unat (bd_cap q)) c xs))" "bd_cap q1 = bd_cap q" by auto
  from Cons.IH [OF q1(2)] q1 show ?case by (auto simp: Let_def split: prod.splits)
qed auto

text \<open>
  C12. The bounded queue is a bounded list. Whatever sequence of calls a client makes on a queue
  constructed with room for \<open>n\<close> items, \<open>n\<close> between 1 and half the range of its 32 bit indices, every call returns
  what it returns on a list of at most \<open>n\<close> items, no call faults or fails to return, and the slots
  constructed at the end are exactly those of the items still in the list.
\<close>

theorem bounded_queue_refines:
  assumes "0 < n" and "n \<le> 2 ^ 31"
  shows "\<exists>q q'. bd_ctor_cap True n = Inr q \<and>
    bd_run cs q = Inr (fst (list_run n cs []), q') \<and> bd_rep q' (snd (list_run n cs []))"
  using bd_ctor_rep(1) [OF assms] bd_run_refines [of _ "[]" cs] by metis

theorem bounded_queue_refines_witness:
  "\<exists>q q'. bd_ctor_cap True 2 = Inr q \<and>
    bd_run [Push (1 :: nat), Push_Top 2, Push 3, Elim_Push 4, Bottom 0, Pop, Pop, Pop] q =
      Inr ([Flag True, Flag True, Flag False, Done, Item (Some 4), Item (Some 1), Item (Some 4), Item None], q')"
  using bounded_queue_refines
    [of 2 "[Push (1 :: nat), Push_Top 2, Push 3, Elim_Push 4, Bottom 0, Pop, Pop, Pop]"]
  by simp metis

text \<open>
  Above half the range of the indices, and below \<open>max_capacity()\<close>, the sum of the start and the count wraps:
  a queue of \<open>3 * 2 ^ 30\<close> slots that starts at its last slot and holds one item less than its
  capacity would place the next item in the wrong slot.
\<close>

lemma bd_index_wraps:
  "3 * 2 ^ 30 \<le> bd_max_capacity"
  "bd_mod ((3221225471 :: 32 word) + 3221225471) 3221225472 = Inr 2147483646"
  "(3221225471 + 3221225471 :: nat) mod 3221225472 = 3221225470"
proof -
  show "3 * 2 ^ 30 \<le> bd_max_capacity" by (simp add: bd_max_capacity_def)
  have "(3221225471 + 3221225471 :: 32 word) = 2147483646" by simp
  then show "bd_mod ((3221225471 :: 32 word) + 3221225471) 3221225472 = Inr 2147483646"
    by (subst bd_mod.simps) simp
  show "(3221225471 + 3221225471 :: nat) mod 3221225472 = 3221225470" by simp
qed

end
