(* ===== verification/Queue_Clients.thy ===== *)
theory Queue_Clients
  imports Bounded_Queue Cxx_Int
begin

text \<open>
  Two classes of the vendored brpc headers built on the bounded queue: the list of servers a retried call
  avoids (\<open>brpc/excluded_servers.h\<close>) and the per-minute counter of connection statistics
  (\<open>brpc/details/sparse_minute_counter.h\<close>). Both are proved over the list the queue represents. The mutex of
  the first is held for the whole of each method, so a method is one step.
\<close>

section \<open>Excluded servers\<close>

type_synonym socket_id = nat

text \<open>\<open>Create\<close>: null when malloc fails. A \<open>SocketId\<close> has 8 bytes.\<close>

definition es_create :: "bool \<Rightarrow> nat \<Rightarrow> socket_id bounded_queue option result" where
  "es_create mem cap =
     (if \<not> mem then Inr None
      else bind_r (bd_ctor_mem True (8 * cap) 8 False) (\<lambda>q. Inr (Some q)))"

definition es_destroy :: "socket_id bounded_queue option \<Rightarrow> unit result" where
  "es_destroy p = (case p of None \<Rightarrow> Inr () | Some q \<Rightarrow> bind_r (bd_dtor q) (\<lambda>_. Inr ()))"

definition es_add :: "socket_id \<Rightarrow> socket_id bounded_queue \<Rightarrow> socket_id bounded_queue result" where
  "es_add sid q =
     bind_r (bd_bottom q) (\<lambda>last_id.
     case last_id of
       None \<Rightarrow> bd_elim_push sid q
     | Some i \<Rightarrow> bind_r (bd_read i q) (\<lambda>x. if x \<noteq> sid then bd_elim_push sid q else Inr q))"

fun es_excluded_loop :: "nat \<Rightarrow> nat \<Rightarrow> socket_id \<Rightarrow> socket_id bounded_queue \<Rightarrow> bool result" where
  "es_excluded_loop 0 i sid q = Inr False"
| "es_excluded_loop (Suc n) i sid q =
     bind_r (bd_bottom_at i q) (\<lambda>p.
     bind_r (of_option Null_Deref p) (\<lambda>j.
     bind_r (bd_read j q) (\<lambda>x.
     if x = sid then Inr True else es_excluded_loop n (i + 1) sid q)))"

definition es_is_excluded :: "socket_id \<Rightarrow> socket_id bounded_queue \<Rightarrow> bool result" where
  "es_is_excluded sid q = es_excluded_loop (bd_size q) 0 sid q"

text \<open>The static overload, on a pointer that may be null.\<close>

definition es_is_excluded_ptr :: "socket_id bounded_queue option \<Rightarrow> socket_id \<Rightarrow> bool result" where
  "es_is_excluded_ptr s sid = (case s of None \<Rightarrow> Inr False | Some q \<Rightarrow> es_is_excluded sid q)"

fun es_add_all :: "socket_id list \<Rightarrow> socket_id bounded_queue \<Rightarrow> socket_id bounded_queue result" where
  "es_add_all [] q = Inr q"
| "es_add_all (sid # ids) q = bind_r (es_add sid q) (\<lambda>q'. es_add_all ids q')"

section \<open>The sparse minute counter\<close>

record 'a minute_item =
  timestamp_ms :: int
  mi_value :: 'a

text \<open>The value of the first item is uninitialised until one is stored.\<close>

record 'a minute_counter =
  mc_q :: "'a minute_item bounded_queue option"
  mc_first_ts :: int
  mc_first_value :: "'a option"

definition mc_ctor :: "'a minute_counter" where
  "mc_ctor = \<lparr>mc_q = None, mc_first_ts = 0, mc_first_value = None\<rparr>"

text \<open>\<open>CreateQueue(uint32_t cap)\<close>; the size of an item is \<open>sz\<close>.\<close>

definition mc_create_queue :: "nat \<Rightarrow> 32 word \<Rightarrow> 'a minute_item bounded_queue result" where
  "mc_create_queue sz cap = bd_ctor_mem True (sz * unat cap) sz False"

definition mc_destroy_queue :: "'a minute_item bounded_queue option \<Rightarrow> unit result" where
  "mc_destroy_queue p = (case p of None \<Rightarrow> Inr () | Some q \<Rightarrow> bind_r (bd_dtor q) (\<lambda>_. Inr ()))"

fun mc_copy_loop ::
  "nat \<Rightarrow> nat \<Rightarrow> 'a minute_item bounded_queue \<Rightarrow> 'a minute_item bounded_queue \<Rightarrow> 'a minute_item bounded_queue result" where
  "mc_copy_loop 0 i q new_q = Inr new_q"
| "mc_copy_loop (Suc n) i q new_q =
     bind_r (bd_top_at i q) (\<lambda>p.
     bind_r (of_option Null_Deref p) (\<lambda>j.
     bind_r (bd_read j q) (\<lambda>x.
     bind_r (bd_push x new_q) (\<lambda>(_, new_q').
     mc_copy_loop n (i + 1) q new_q'))))"

definition mc_resize :: "nat \<Rightarrow> 'a minute_item bounded_queue \<Rightarrow> 'a minute_item bounded_queue result" where
  "mc_resize sz q =
     bind_r (guard_r Assert_Failed (bd_capacity q < 60)) (\<lambda>_.
     let new_cap = min (2 * bd_cap q) 60 in
     bind_r (mc_create_queue sz new_cap) (\<lambda>new_q.
     bind_r (mc_copy_loop (bd_size q) 0 q new_q) (\<lambda>new_q'.
     bind_r (mc_destroy_queue (Some q)) (\<lambda>_.
     Inr new_q'))))"

text \<open>\<open>Add\<close>: the value popped, if the method returns true.\<close>

definition mc_add :: "nat \<Rightarrow> int \<Rightarrow> 'a \<Rightarrow> 'a minute_counter \<Rightarrow> ('a option \<times> 'a minute_counter) result" where
  "mc_add sz now v c =
     (case mc_q c of
        Some q \<Rightarrow>
          let new_item = \<lparr>timestamp_ms = now, mi_value = v\<rparr> in
          if bd_full q
          then
            bind_r (of_option Null_Deref (bd_top q)) (\<lambda>i.
            bind_r (bd_read i q) (\<lambda>oldest.
            bind_r (arith int64 (timestamp_ms oldest + 60000)) (\<lambda>limit.
            if now < limit \<and> bd_capacity q < 60
            then
              bind_r (mc_resize sz q) (\<lambda>q1.
              bind_r (bd_push new_item q1) (\<lambda>(_, q2).
              Inr (None, c\<lparr>mc_q := Some q2\<rparr>)))
            else
              bind_r (bd_pop q) (\<lambda>(_, q1).
              bind_r (bd_push new_item q1) (\<lambda>(_, q2).
              Inr (Some (mi_value oldest), c\<lparr>mc_q := Some q2\<rparr>))))))
          else
            bind_r (bd_push new_item q) (\<lambda>(_, q1).
            Inr (None, c\<lparr>mc_q := Some q1\<rparr>))
      | None \<Rightarrow>
          if mc_first_ts c = 0
          then Inr (None, c\<lparr>mc_first_ts := max now 1, mc_first_value := Some v\<rparr>)
          else
            bind_r (arith int64 (now - mc_first_ts c)) (\<lambda>delta.
            bind_r (of_option Uninitialised (mc_first_value c)) (\<lambda>fv.
            if 60000 \<le> delta
            then Inr (Some fv, c\<lparr>mc_first_ts := max now 1, mc_first_value := Some v\<rparr>)
            else
              let initial_cap = (if delta \<le> 1000 then 30 else c_div (60000 + delta - 1) delta);
                  initial_cap' = (if initial_cap < 4 then 4 else initial_cap) in
              bind_r (mc_create_queue sz (word_of_int initial_cap')) (\<lambda>q.
              bind_r (bd_push \<lparr>timestamp_ms = mc_first_ts c, mi_value = fv\<rparr> q) (\<lambda>(_, q1).
              bind_r (bd_push \<lparr>timestamp_ms = now, mi_value = v\<rparr> q1) (\<lambda>(_, q2).
              Inr (None, c\<lparr>mc_q := Some q2\<rparr>)))))))"

definition mc_try_pop :: "int \<Rightarrow> 'a minute_counter \<Rightarrow> ('a option \<times> 'a minute_counter) result" where
  "mc_try_pop now c =
     (case mc_q c of
        Some q \<Rightarrow>
          (case bd_top q of
             None \<Rightarrow> Inr (None, c)
           | Some i \<Rightarrow>
               bind_r (bd_read i q) (\<lambda>oldest.
               bind_r (arith int64 (timestamp_ms oldest + 60000)) (\<lambda>limit.
               if now < limit then Inr (None, c)
               else bind_r (bd_pop q) (\<lambda>(_, q1). Inr (Some (mi_value oldest), c\<lparr>mc_q := Some q1\<rparr>)))))
      | None \<Rightarrow>
          if mc_first_ts c = 0 then Inr (None, c)
          else
            bind_r (arith int64 (mc_first_ts c + 60000)) (\<lambda>limit.
            if now < limit then Inr (None, c)
            else
              bind_r (of_option Uninitialised (mc_first_value c)) (\<lambda>fv.
              Inr (Some fv, c\<lparr>mc_first_ts := 0\<rparr>))))"

section \<open>What the excluded servers are\<close>

lemma es_add_eq:
  assumes "bd_rep q xs"
  shows "\<exists>q'. es_add sid q = Inr q' \<and> bd_cap q' = bd_cap q \<and>
    bd_rep q' (if xs \<noteq> [] \<and> last xs = sid then xs
               else (if length xs < unat (bd_cap q) then xs else tl xs) @ [sid])"
proof (cases "xs = []")
  case True
  then show ?thesis
    using bd_elim_push_eq [OF assms, of sid] bd_access(6) [OF assms] by (auto simp: es_add_def split: if_splits)
next
  case False
  then have "bd_read (bd_slot q (length xs - 1)) q = Inr (last xs)"
    using bd_read_slot [OF assms, of "length xs - 1"] by (simp add: last_conv_nth)
  with False assms show ?thesis
    using bd_elim_push_eq [OF assms, of sid] bd_access(6) [OF assms] by (auto simp: es_add_def split: if_splits)
qed

lemma es_excluded_loop_eq:
  assumes "bd_rep q xs" and "i + n = length xs"
  shows "es_excluded_loop n i sid q = Inr (sid \<in> set (take n xs))"
  using assms(2)
proof (induction n arbitrary: i)
  case (Suc n)
  have "length xs - 1 - i = n" "i < length xs" "n < length xs" using Suc.prems by simp_all
  then have "bd_bottom_at i q = Inr (Some (bd_slot q n))" "bd_read (bd_slot q n) q = Inr (xs ! n)"
    using bd_access(3) [OF assms(1), of i] bd_read_slot [OF assms(1), of n] by simp_all
  moreover have "take (Suc n) xs = take n xs @ [xs ! n]"
    using Suc.prems by (intro take_Suc_conv_app_nth) simp
  ultimately show ?case using Suc by auto
qed simp

lemma es_is_excluded_eq:
  assumes "bd_rep q xs"
  shows "es_is_excluded sid q = Inr (sid \<in> set xs)"
proof -
  have "bd_size q = length xs" using assms by (auto elim!: bd_repE simp: bd_size_def)
  then show ?thesis using es_excluded_loop_eq [OF assms, of 0 "length xs" sid] by (simp add: es_is_excluded_def)
qed

text \<open>The last \<open>n\<close> elements of a list.\<close>

definition lastn :: "nat \<Rightarrow> 'a list \<Rightarrow> 'a list" where
  "lastn n xs = drop (length xs - n) xs"

lemma lastn_snoc: "0 < n \<Longrightarrow> lastn n (xs @ [x]) = (if length (lastn n xs) < n then lastn n xs else tl (lastn n xs)) @ [x]"
  by (auto simp: lastn_def tl_drop drop_Suc Suc_diff_le simp flip: drop_Suc)

lemma remdups_adj_snoc:
  "remdups_adj (xs @ [x]) = (if xs \<noteq> [] \<and> last xs = x then remdups_adj xs else remdups_adj xs @ [x])"
proof (induction xs rule: remdups_adj.induct)
  case (3 a b xs)
  then show ?case by (cases "a = b") auto
qed auto

lemma last_lastn: "0 < n \<Longrightarrow> xs \<noteq> [] \<Longrightarrow> lastn n xs \<noteq> [] \<and> last (lastn n xs) = last xs"
  by (cases xs rule: rev_cases) (auto simp: lastn_snoc)

lemma es_add_all_eq:
  assumes "0 < unat (bd_cap q)" and "bd_rep q (lastn (unat (bd_cap q)) (remdups_adj pre))"
  shows "\<exists>q'. es_add_all ids q = Inr q' \<and> bd_cap q' = bd_cap q \<and>
    bd_rep q' (lastn (unat (bd_cap q)) (remdups_adj (pre @ ids)))"
  using assms
proof (induction ids arbitrary: q pre)
  case (Cons x ids)
  let ?xs = "lastn (unat (bd_cap q)) (remdups_adj pre)"
  have "(?xs \<noteq> [] \<and> last ?xs = x) \<longleftrightarrow> pre \<noteq> [] \<and> last pre = x"
    using last_lastn [OF Cons.prems(1), of "remdups_adj pre"] by (auto simp: lastn_def)
  then have e: "(if ?xs \<noteq> [] \<and> last ?xs = x then ?xs
       else (if length ?xs < unat (bd_cap q) then ?xs else tl ?xs) @ [x]) =
      lastn (unat (bd_cap q)) (remdups_adj (pre @ [x]))"
    using Cons.prems(1) by (simp add: remdups_adj_snoc lastn_snoc del: remdups_adj.simps)
  from es_add_eq [OF Cons.prems(2), of x] obtain q1 where q1: "es_add x q = Inr q1" "bd_cap q1 = bd_cap q"
      "bd_rep q1 (lastn (unat (bd_cap q)) (remdups_adj (pre @ [x])))"
    unfolding e by blast
  from Cons.IH [of q1 "pre @ [x]"] q1 Cons.prems(1) show ?case by simp
qed simp

text \<open>
  C36. A retried call avoids the last servers it used. After any sequence of \<open>Add\<close> on an instance
  created for \<open>cap\<close> servers, a server is excluded exactly when it is among the last \<open>cap\<close> of the
  sequence in which consecutive repetitions count once.
\<close>

theorem excluded_are_recent:
  assumes "0 < cap" and "cap \<le> 2 ^ 31"
  shows "\<exists>q q'. es_create True cap = Inr (Some q) \<and> es_add_all ids q = Inr q' \<and>
    es_is_excluded sid q' = Inr (sid \<in> set (lastn cap (remdups_adj ids)))"
proof -
  obtain q where q: "bd_ctor_mem True (8 * cap) 8 False = Inr q" "bd_rep q ([] :: nat list)" "unat (bd_cap q) = cap"
    using bd_ctor_rep(2) [OF assms, of 8 False] by auto
  then obtain q' where "es_add_all ids q = Inr q'" "bd_rep q' (lastn cap (remdups_adj ids))"
    using es_add_all_eq [of q "[]" ids] assms(1) by (auto simp: lastn_def)
  with q es_is_excluded_eq show ?thesis by (auto simp: es_create_def)
qed

theorem excluded_are_recent_witness:
  "\<exists>q q'. es_create True 2 = Inr (Some q) \<and> es_add_all [7, 8, 8, 9] q = Inr q' \<and>
    es_is_excluded 7 q' = Inr False"
  using excluded_are_recent [of 2 "[7, 8, 8, 9]" 7] by (simp add: lastn_def)

section \<open>What the minute counter holds\<close>

definition mc_items :: "'a minute_counter \<Rightarrow> 'a minute_item list" where
  "mc_items c =
     (case mc_q c of
        Some q \<Rightarrow> bd_list q
      | None \<Rightarrow> if mc_first_ts c = 0 then []
                else (case mc_first_value c of None \<Rightarrow> [] | Some v \<Rightarrow> [\<lparr>timestamp_ms = mc_first_ts c, mi_value = v\<rparr>]))"

text \<open>Milliseconds since the epoch, far from the end of the range of \<open>int64_t\<close>.\<close>

definition time_ok :: "int \<Rightarrow> bool" where
  "time_ok t \<longleftrightarrow> 1 \<le> t \<and> t < 2 ^ 62"

definition mc_ok :: "'a minute_counter \<Rightarrow> bool" where
  "mc_ok c \<longleftrightarrow>
     (case mc_q c of
        Some q \<Rightarrow> bd_rep q (bd_list q) \<and> 4 \<le> unat (bd_cap q) \<and> unat (bd_cap q) \<le> 60
      | None \<Rightarrow> mc_first_ts c \<noteq> 0 \<longrightarrow> mc_first_value c \<noteq> None) \<and>
     (\<forall>x \<in> set (mc_items c). time_ok (timestamp_ms x))"

lemma time_arith:
  "time_ok t \<Longrightarrow> arith int64 (t + 60000) = Inr (t + 60000)"
  "time_ok t \<Longrightarrow> time_ok u \<Longrightarrow> arith int64 (u - t) = Inr (u - t)"
  by (intro arith_fits wf_types; simp add: fits_def numeric_max_def numeric_min_def bits_def int64_def time_ok_def)+

lemma mc_create_rep:
  assumes "0 < sz" and "0 < unat cap" and "unat cap \<le> 60"
  shows "\<exists>q. mc_create_queue sz cap = Inr q \<and> bd_rep q [] \<and> unat (bd_cap q) = unat cap"
  using bd_ctor_rep(2) [of "unat cap" sz False] assms by (simp add: mc_create_queue_def)

lemma mc_copy_loop_eq:
  assumes "bd_rep q xs" and "i + n = length xs"
    and "bd_rep r (take i xs)" and "length xs \<le> unat (bd_cap r)"
  shows "\<exists>r'. mc_copy_loop n i q r = Inr r' \<and> bd_rep r' xs \<and> bd_cap r' = bd_cap r"
  using assms(2-)
proof (induction n arbitrary: i r)
  case (Suc n)
  then have i: "i < length xs" by simp
  have "take (Suc i) xs = take i xs @ [xs ! i]" using i by (rule take_Suc_conv_app_nth)
  with i bd_push_room [OF Suc.prems(2), of "xs ! i"] Suc.prems(3) obtain r1 where
    r1: "bd_push (xs ! i) r = Inr (True, r1)" "bd_rep r1 (take (Suc i) xs)" "bd_cap r1 = bd_cap r" by auto
  from Suc.IH [of "Suc i" r1] r1 Suc.prems i bd_access(1) [OF assms(1) i] bd_read_slot [OF assms(1) i] show ?case
    by simp
qed simp

lemma mc_resize_eq:
  fixes q :: "'a minute_item bounded_queue"
  assumes "bd_rep q xs" and "0 < sz" and "4 \<le> unat (bd_cap q)" and "unat (bd_cap q) < 60"
  shows "\<exists>r. mc_resize sz q = Inr r \<and> bd_rep r xs \<and> unat (bd_cap q) < unat (bd_cap r) \<and> unat (bd_cap r) \<le> 60"
proof -
  let ?n = "min (2 * bd_cap q) 60"
  have d: "unat (2 * bd_cap q) = 2 * unat (bd_cap q)"
    using assms(4) by (subst unat_mult_lem [THEN iffD1]) simp_all
  have n: "unat ?n = min (2 * unat (bd_cap q)) 60"
    using d by (auto simp: min_def word_le_nat_alt)
  obtain r :: "'a minute_item bounded_queue" where r: "mc_create_queue sz ?n = Inr r" "bd_rep r []" "unat (bd_cap r) = unat ?n"
    using mc_create_rep [OF assms(2), of ?n] n assms(3,4) by auto
  have l: "length xs \<le> unat (bd_cap q)" "bd_size q = length xs"
    using assms(1) by (auto elim!: bd_repE simp: bd_size_def)
  obtain r' where r': "mc_copy_loop (length xs) 0 q r = Inr r'" "bd_rep r' xs" "bd_cap r' = bd_cap r"
    using mc_copy_loop_eq [OF assms(1), of 0 "length xs" r] r n l assms(4) by auto
  obtain q' where "bd_clear q = Inr q'" using bd_clear_eq [OF assms(1)] by blast
  then have "mc_destroy_queue (Some q) = Inr ()" by (simp add: mc_destroy_queue_def bd_dtor_def)
  with r r' l n assms(3,4) show ?thesis by (auto simp: mc_resize_def bd_capacity_def Let_def)
qed

lemma bd_full_iff: "bd_rep q xs \<Longrightarrow> bd_full q \<longleftrightarrow> length xs = unat (bd_cap q)"
  by (simp add: bd_full_def count_less(3))

text \<open>
  The initial capacity predicted from the interval of the first two calls is between 4 and 60.
\<close>

lemma initial_cap_bounds:
  fixes delta :: int
  assumes "delta < 60000"
  defines "k \<equiv> (if delta \<le> 1000 then 30 else c_div (60000 + delta - 1) delta)"
  shows "4 \<le> unat (word_of_int (if k < 4 then 4 else k) :: 32 word)"
    and "unat (word_of_int (if k < 4 then 4 else k) :: 32 word) \<le> 60"
proof -
  have "(60000 + delta - 1) div delta \<le> 60" if "1000 < delta"
  proof -
    have "60000 + delta - 1 < 61 * delta" using that by simp
    then have "\<not> 61 \<le> (60000 + delta - 1) div delta" using that by (subst le_div_iff) simp_all
    then show ?thesis by simp
  qed
  then have k: "k \<le> 60" by (auto simp: k_def)
  define m where "m = (if k < 4 then 4 else k)"
  have "4 \<le> m" "m \<le> 60" using k by (auto simp: m_def)
  then have "unat (word_of_int m :: 32 word) = nat m"
    by (simp add: unsigned_of_int take_bit_int_eq_self)
  with \<open>4 \<le> m\<close> \<open>m \<le> 60\<close> show "4 \<le> unat (word_of_int (if k < 4 then 4 else k) :: 32 word)"
    and "unat (word_of_int (if k < 4 then 4 else k) :: 32 word) \<le> 60"
    by (simp_all flip: m_def)
qed

text \<open>What one call may do to the items: keep them all, or drop the oldest, whose value it returns.\<close>

definition pops_oldest :: "int \<Rightarrow> 'a minute_item list \<Rightarrow> 'a option \<Rightarrow> 'a minute_item list \<Rightarrow> bool" where
  "pops_oldest now xs r ys \<longleftrightarrow>
     (r = None \<and> ys = xs) \<or>
     (\<exists>x. xs = x # ys \<and> r = Some (mi_value x) \<and> (timestamp_ms x + 60000 \<le> now \<or> 60 \<le> length xs))"

lemma mc_okI_queue:
  assumes "bd_rep q xs" and "4 \<le> unat (bd_cap q)" and "unat (bd_cap q) \<le> 60"
    and "\<forall>x \<in> set xs. time_ok (timestamp_ms x)"
  shows "mc_ok (c\<lparr>mc_q := Some q\<rparr>)" and "mc_items (c\<lparr>mc_q := Some q\<rparr>) = xs"
  using assms bd_rep_list [OF assms(1)] by (simp_all add: mc_ok_def mc_items_def)

lemma bd_top_read:
  assumes "bd_rep q (x # xs)"
  shows "bd_top q = Some (bd_start q)" and "bd_read (bd_start q) q = Inr x"
  using bd_access(5) [OF assms] bd_read_slot [OF assms, of 0] by (simp_all add: bd_slot_0 [OF assms])

lemma mc_add_queue:
  assumes "mc_ok c" and "mc_q c = Some q" and "time_ok now" and "0 < sz"
  shows "\<exists>r c' ys. mc_add sz now v c = Inr (r, c') \<and> mc_ok c' \<and> pops_oldest now (mc_items c) r ys \<and>
    mc_items c' = ys @ [\<lparr>timestamp_ms = now, mi_value = v\<rparr>]"
proof -
  define xs where "xs = bd_list q"
  from assms have rep: "bd_rep q xs" and cap: "4 \<le> unat (bd_cap q)" "unat (bd_cap q) \<le> 60"
    and ts: "\<forall>x \<in> set xs. time_ok (timestamp_ms x)" and it: "mc_items c = xs"
    by (simp_all add: mc_ok_def mc_items_def xs_def)
  let ?new = "\<lparr>timestamp_ms = now, mi_value = v\<rparr>"
  have len: "length xs \<le> unat (bd_cap q)" using rep by (auto elim!: bd_repE)
  consider (room) "length xs < unat (bd_cap q)"
    | (grow) x ys where "xs = x # ys" "length xs = unat (bd_cap q)" "now < timestamp_ms x + 60000" "unat (bd_cap q) < 60"
    | (pop) x ys where "xs = x # ys" "length xs = unat (bd_cap q)" "\<not> (now < timestamp_ms x + 60000 \<and> unat (bd_cap q) < 60)"
    using len cap by (cases xs) (auto, fastforce)
  then show ?thesis
  proof cases
    case room
    with bd_push_room [OF rep room, of ?new] obtain q1 where
      q1: "bd_push ?new q = Inr (True, q1)" "bd_rep q1 (xs @ [?new])" "bd_cap q1 = bd_cap q" by auto
    with mc_okI_queue [OF q1(2), of c] cap ts assms(2,3) room bd_full_iff [OF rep] show ?thesis
      by (auto simp: mc_add_def it pops_oldest_def Let_def)
  next
    case grow
    obtain r where r: "mc_resize sz q = Inr r" "bd_rep r xs" "unat (bd_cap q) < unat (bd_cap r)" "unat (bd_cap r) \<le> 60"
      using mc_resize_eq [OF rep assms(4) cap(1) grow(4)] by auto
    with grow bd_push_room [OF r(2), of ?new] obtain r1 where
      r1: "bd_push ?new r = Inr (True, r1)" "bd_rep r1 (xs @ [?new])" "bd_cap r1 = bd_cap r" by auto
    note ok = mc_okI_queue [OF r1(2), of c]
    have "mc_add sz now v c = Inr (None, c\<lparr>mc_q := Some r1\<rparr>)"
      using grow r r1 ts assms(2) bd_full_iff [OF rep] bd_top_read [OF rep [unfolded grow(1)]]
      by (simp add: mc_add_def Let_def time_arith bd_capacity_def)
    with ok r r1 cap ts assms(3) show ?thesis by (auto simp: it pops_oldest_def)
  next
    case pop
    obtain q1 where q1: "bd_pop q = Inr (True, q1)" "bd_rep q1 ys" "bd_cap q1 = bd_cap q"
      using bd_pop_item_some [OF rep [unfolded pop(1)]] by auto
    with pop bd_push_room [OF q1(2), of ?new] obtain q2 where
      q2: "bd_push ?new q1 = Inr (True, q2)" "bd_rep q2 (ys @ [?new])" "bd_cap q2 = bd_cap q" by auto
    note ok = mc_okI_queue [OF q2(2), of c]
    have "mc_add sz now v c = Inr (Some (mi_value x), c\<lparr>mc_q := Some q2\<rparr>)"
      using pop q1 q2 ts assms(2) bd_full_iff [OF rep] bd_top_read [OF rep [unfolded pop(1)]]
      by (auto simp: mc_add_def Let_def time_arith bd_capacity_def)
    with ok q1 q2 pop cap ts assms(3) show ?thesis by (auto simp: it pops_oldest_def)
  qed
qed

lemma mc_add_first:
  assumes "mc_ok c" and "mc_q c = None" and "time_ok now" and "0 < sz"
  shows "\<exists>r c' ys. mc_add sz now v c = Inr (r, c') \<and> mc_ok c' \<and> pops_oldest now (mc_items c) r ys \<and>
    mc_items c' = ys @ [\<lparr>timestamp_ms = now, mi_value = v\<rparr>]"
proof (cases "mc_first_ts c = 0")
  case True
  with assms(2,3) show ?thesis
    by (auto simp: mc_add_def mc_ok_def mc_items_def pops_oldest_def time_ok_def)
next
  case False
  with assms(1,2) obtain fv where fv: "mc_first_value c = Some fv" "time_ok (mc_first_ts c)"
    by (auto simp: mc_ok_def mc_items_def)
  let ?d = "now - mc_first_ts c"
  note d = time_arith(2) [OF fv(2) assms(3)]
  show ?thesis
  proof (cases "60000 \<le> ?d")
    case True
    with False assms(2,3) fv d show ?thesis
      by (auto simp: mc_add_def mc_ok_def mc_items_def pops_oldest_def time_ok_def)
  next
    case small: False
    define k :: "32 word" where
      "k = word_of_int (let m = (if ?d \<le> 1000 then 30 else c_div (60000 + ?d - 1) ?d) in if m < 4 then 4 else m)"
    have kb: "4 \<le> unat k" "unat k \<le> 60"
      using initial_cap_bounds [of ?d] small by (simp_all add: k_def Let_def)
    let ?old = "\<lparr>timestamp_ms = mc_first_ts c, mi_value = fv\<rparr>" and ?new = "\<lparr>timestamp_ms = now, mi_value = v\<rparr>"
    obtain q0 :: "'a minute_item bounded_queue" where
      q0: "mc_create_queue sz k = Inr q0" "bd_rep q0 []" "unat (bd_cap q0) = unat k"
      using mc_create_rep [OF assms(4), of k] kb by auto
    then obtain q1 where q1: "bd_push ?old q0 = Inr (True, q1)" "bd_rep q1 [?old]" "bd_cap q1 = bd_cap q0"
      using bd_push_room [OF q0(2), of ?old] kb by auto
    then obtain q2 where q2: "bd_push ?new q1 = Inr (True, q2)" "bd_rep q2 [?old, ?new]" "bd_cap q2 = bd_cap q0"
      using bd_push_room [OF q1(2), of ?new] kb q0(3) by auto
    have "mc_add sz now v c = Inr (None, c\<lparr>mc_q := Some q2\<rparr>)"
      using False small assms(2) fv d q0(1) q1(1) q2(1) by (simp add: mc_add_def Let_def k_def)
    moreover have "mc_items c = [?old]" using False assms(2) fv by (simp add: mc_items_def)
    ultimately show ?thesis
      using mc_okI_queue [OF q2(2), of c] q0(3) q2(3) kb fv(2) assms(3) by (auto simp: pops_oldest_def)
  qed
qed

lemma mc_add_step:
  assumes "mc_ok c" and "time_ok now" and "0 < sz"
  shows "\<exists>r c' ys. mc_add sz now v c = Inr (r, c') \<and> mc_ok c' \<and> pops_oldest now (mc_items c) r ys \<and>
    mc_items c' = ys @ [\<lparr>timestamp_ms = now, mi_value = v\<rparr>]"
  using mc_add_queue [OF assms(1) _ assms(2,3)] mc_add_first [OF assms(1) _ assms(2,3)] by (cases "mc_q c") auto

lemma mc_try_pop_step:
  assumes "mc_ok c" and "time_ok now"
  shows "\<exists>r c'. mc_try_pop now c = Inr (r, c') \<and> mc_ok c' \<and> pops_oldest now (mc_items c) r (mc_items c')"
proof (cases "mc_q c")
  case None
  show ?thesis
  proof (cases "mc_first_ts c = 0")
    case True
    with None assms show ?thesis by (simp add: mc_try_pop_def pops_oldest_def)
  next
    case False
    with None assms(1) obtain fv where fv: "mc_first_value c = Some fv" "time_ok (mc_first_ts c)"
      by (auto simp: mc_ok_def mc_items_def)
    with None False assms time_arith(1) [OF fv(2)] show ?thesis
      by (auto simp: mc_try_pop_def pops_oldest_def mc_ok_def mc_items_def)
  qed
next
  case (Some q)
  define xs where "xs = bd_list q"
  from assms Some have rep: "bd_rep q xs" and cap: "4 \<le> unat (bd_cap q)" "unat (bd_cap q) \<le> 60"
    and ts: "\<forall>x \<in> set xs. time_ok (timestamp_ms x)" and it: "mc_items c = xs"
    by (simp_all add: mc_ok_def mc_items_def xs_def)
  show ?thesis
  proof (cases xs)
    case Nil
    with bd_access(5) [OF rep] Some assms(1) show ?thesis by (simp add: mc_try_pop_def pops_oldest_def)
  next
    case (Cons x ys)
    obtain q1 where q1: "bd_pop q = Inr (True, q1)" "bd_rep q1 ys" "bd_cap q1 = bd_cap q"
      using bd_pop_item_some [OF rep [unfolded Cons]] by auto
    with Cons Some assms(1) ts cap mc_okI_queue [OF q1(2), of c] bd_top_read [OF rep [unfolded Cons]] show ?thesis
      by (auto simp: mc_try_pop_def time_arith it pops_oldest_def)
  qed
qed

lemma mc_items_bound: "mc_ok c \<Longrightarrow> length (mc_items c) \<le> 60"
  by (auto simp: mc_ok_def mc_items_def elim!: bd_repE split: option.splits)

datatype 'a minute_op = Add_At int 'a | Try_Pop_At int

primrec op_time :: "'a minute_op \<Rightarrow> int" where
  "op_time (Add_At t v) = t"
| "op_time (Try_Pop_At t) = t"

text \<open>A run: the values popped, in order, and the counter at the end.\<close>

fun mc_run :: "nat \<Rightarrow> 'a minute_op list \<Rightarrow> 'a minute_counter \<Rightarrow> ('a list \<times> 'a minute_counter) result" where
  "mc_run sz [] c = Inr ([], c)"
| "mc_run sz (p # ps) c =
     bind_r (case p of Add_At t v \<Rightarrow> mc_add sz t v c | Try_Pop_At t \<Rightarrow> mc_try_pop t c) (\<lambda>(r, c1).
     bind_r (mc_run sz ps c1) (\<lambda>(rs, c2).
     Inr ((case r of None \<Rightarrow> rs | Some v \<Rightarrow> v # rs), c2)))"

fun added :: "'a minute_op list \<Rightarrow> 'a list" where
  "added [] = []"
| "added (Add_At t v # ps) = v # added ps"
| "added (Try_Pop_At t # ps) = added ps"

lemma mc_run_conserves:
  assumes "mc_ok c" and "0 < sz" and "\<forall>p \<in> set ps. time_ok (op_time p)"
  shows "\<exists>rs c'. mc_run sz ps c = Inr (rs, c') \<and> mc_ok c' \<and>
    map mi_value (mc_items c) @ added ps = rs @ map mi_value (mc_items c')"
  using assms(1,3)
proof (induction ps arbitrary: c)
  case (Cons p ps)
  show ?case
  proof (cases p)
    case (Add_At t v)
    obtain r c1 ys where s: "mc_add sz t v c = Inr (r, c1)" "mc_ok c1" "pops_oldest t (mc_items c) r ys"
        "mc_items c1 = ys @ [\<lparr>timestamp_ms = t, mi_value = v\<rparr>]"
      using mc_add_step [OF Cons.prems(1) _ assms(2), of t v] Cons.prems(2) Add_At by auto
    from Cons.IH [OF s(2)] Cons.prems(2) s Add_At show ?thesis
      by (auto simp: pops_oldest_def)
  next
    case (Try_Pop_At t)
    obtain r c1 where s: "mc_try_pop t c = Inr (r, c1)" "mc_ok c1" "pops_oldest t (mc_items c) r (mc_items c1)"
      using mc_try_pop_step [OF Cons.prems(1), of t] Cons.prems(2) Try_Pop_At by auto
    from Cons.IH [OF s(2)] Cons.prems(2) s Try_Pop_At show ?thesis
      by (auto simp: pops_oldest_def)
  qed
qed simp

lemma mc_ctor_ok: "mc_ok mc_ctor" "mc_items mc_ctor = []"
  by (simp_all add: mc_ok_def mc_items_def mc_ctor_def)

text \<open>
  C35. The minute counter loses nothing. From an empty counter, whatever sequence of \<open>Add\<close> and
  \<open>TryPop\<close> a client makes at times of the clock, every call returns, the values popped followed by those
  still held are the values added, in order, and at most 60 are held: growing the array on demand
  drops no value and repeats none.
\<close>

theorem minute_counter_conserves:
  assumes "0 < sz" and "\<forall>p \<in> set ps. time_ok (op_time p)"
  shows "\<exists>rs c. mc_run sz ps mc_ctor = Inr (rs, c) \<and>
    added ps = rs @ map mi_value (mc_items c) \<and> length (mc_items c) \<le> 60"
  using mc_run_conserves [OF mc_ctor_ok(1) assms] mc_items_bound by (fastforce simp: mc_ctor_ok(2))

theorem minute_counter_conserves_witness:
  "\<exists>rs c. mc_run 16 [Add_At 1000 (5 :: nat), Add_At 2500 6, Try_Pop_At 70000, Add_At 70001 7] mc_ctor = Inr (rs, c) \<and>
    [5, 6, 7] = rs @ map mi_value (mc_items c)"
  using minute_counter_conserves
    [of 16 "[Add_At 1000 (5 :: nat), Add_At 2500 6, Try_Pop_At 70000, Add_At 70001 7]"]
  by (auto simp: time_ok_def)

end
