(* ===== verification/Work_Stealing.thy ===== *)
theory Work_Stealing
  imports Prelude
begin

text \<open>
  The work-stealing queue of bthread (\<open>bthread/work_stealing_queue.h\<close> of the vendored brpc headers). One owner
  pushes and pops at the bottom, any number of thieves steal from the top, without a lock. Each
  access to shared memory is a step of its own, the threads interleave arbitrarily between
  steps, and a thread's progress inside a method is its program counter, which carries the
  method's local variables. The steps are sequentially consistent; the relaxed and acquire orders of the
  code are not modelled. The two counters are unbounded: they
  would have to count \<open>2 ^ 64\<close> operations to wrap.
\<close>

unbundle bit_operations_syntax

section \<open>State\<close>

text \<open>
  The owner's program counter: each constructor is the point before the next access, with the local
  variables that are live there.
\<close>

datatype 'a owner_pc =
    O_Idle
  | O_Push0 'a
  | O_Push1 'a nat
  | O_Push2 'a nat
  | O_Push3 'a nat
  | O_Pop0
  | O_Pop1 nat
  | O_Pop2 nat
  | O_Pop3 nat
  | O_Pop4 nat
  | O_Pop5 nat nat
  | O_Pop6 nat nat 'a
  | O_Pop7 nat

datatype 'a thief_pc =
    T_Idle
  | T_Steal0
  | T_Steal1 nat
  | T_Steal2 nat
  | T_Steal3 nat
  | T_Steal4 nat 'a

record 'a ws_state =
  ws_bottom :: nat
  ws_capacity :: nat
  ws_buffer :: "'a list option"
  ws_top :: nat
  ws_owner :: "'a owner_pc"
  ws_thief :: "nat \<Rightarrow> 'a thief_pc"

definition ws_ctor :: "'a ws_state" where
  "ws_ctor = \<lparr>ws_bottom = 1, ws_capacity = 0, ws_buffer = None, ws_top = 1,
     ws_owner = O_Idle, ws_thief = (\<lambda>i. T_Idle)\<rparr>"

text \<open>\<open>init\<close>: \<open>mem\<close> is whether the allocation succeeds, \<open>dflt\<close> the value a new item has.\<close>

definition ws_init :: "bool \<Rightarrow> 'a \<Rightarrow> nat \<Rightarrow> 'a ws_state \<Rightarrow> int \<times> 'a ws_state" where
  "ws_init mem dflt capacity s =
     (if ws_capacity s \<noteq> 0 then (- 1, s)
      else if capacity = 0 then (- 1, s)
      else if capacity AND (capacity - 1) \<noteq> 0 then (- 1, s)
      else if \<not> mem then (- 1, s\<lparr>ws_buffer := None\<rparr>)
      else (0, s\<lparr>ws_buffer := Some (replicate capacity dflt), ws_capacity := capacity\<rparr>))"

section \<open>Steps\<close>

text \<open>What a step means to the users of the queue: nothing yet, or the outcome of a method.\<close>

datatype 'a ws_label =
    Tau | Pushed 'a | Push_Full | Popped 'a | Pop_Empty | Stolen nat 'a | Steal_Empty nat

definition ws_read :: "nat \<Rightarrow> 'a ws_state \<Rightarrow> 'a result" where
  "ws_read i s =
     bind_r (of_option Null_Deref (ws_buffer s)) (\<lambda>a.
     bind_r (guard_r Out_Of_Bounds (i AND (ws_capacity s - 1) < length a)) (\<lambda>_.
     Inr (a ! (i AND (ws_capacity s - 1)))))"

definition ws_write :: "nat \<Rightarrow> 'a \<Rightarrow> 'a ws_state \<Rightarrow> 'a ws_state result" where
  "ws_write i x s =
     bind_r (of_option Null_Deref (ws_buffer s)) (\<lambda>a.
     bind_r (guard_r Out_Of_Bounds (i AND (ws_capacity s - 1) < length a)) (\<lambda>_.
     Inr (s\<lparr>ws_buffer := Some (a[(i AND (ws_capacity s - 1)) := x])\<rparr>)))"

text \<open>The next step of \<open>push\<close> or \<open>pop\<close>.\<close>

fun push_next :: "'a owner_pc \<Rightarrow> 'a ws_state \<Rightarrow> ('a ws_label \<times> 'a ws_state) result" where
  "push_next (O_Push0 x) s = Inr (Tau, s\<lparr>ws_owner := O_Push1 x (ws_bottom s)\<rparr>)"
| "push_next (O_Push1 x b) s =
     (if b \<ge> ws_top s + ws_capacity s
      then Inr (Push_Full, s\<lparr>ws_owner := O_Idle\<rparr>)
      else Inr (Tau, s\<lparr>ws_owner := O_Push2 x b\<rparr>))"
| "push_next (O_Push2 x b) s =
     bind_r (ws_write b x s) (\<lambda>s1. Inr (Tau, s1\<lparr>ws_owner := O_Push3 x b\<rparr>))"
| "push_next (O_Push3 x b) s = Inr (Pushed x, s\<lparr>ws_bottom := b + 1, ws_owner := O_Idle\<rparr>)"
| "push_next pc s = Inr (Tau, s)"

fun pop_next :: "'a owner_pc \<Rightarrow> 'a ws_state \<Rightarrow> ('a ws_label \<times> 'a ws_state) result" where
  "pop_next O_Pop0 s = Inr (Tau, s\<lparr>ws_owner := O_Pop1 (ws_bottom s)\<rparr>)"
| "pop_next (O_Pop1 b) s =
     (if ws_top s \<ge> b
      then Inr (Pop_Empty, s\<lparr>ws_owner := O_Idle\<rparr>)
      else Inr (Tau, s\<lparr>ws_owner := O_Pop2 b\<rparr>))"
| "pop_next (O_Pop2 b) s = Inr (Tau, s\<lparr>ws_bottom := b - 1, ws_owner := O_Pop3 b\<rparr>)"
| "pop_next (O_Pop3 b) s =
     (if ws_top s > b - 1
      then Inr (Pop_Empty, s\<lparr>ws_owner := O_Pop4 b\<rparr>)
      else Inr (Tau, s\<lparr>ws_owner := O_Pop5 b (ws_top s)\<rparr>))"
| "pop_next (O_Pop4 b) s = Inr (Tau, s\<lparr>ws_bottom := b, ws_owner := O_Idle\<rparr>)"
| "pop_next (O_Pop5 b t) s =
     bind_r (ws_read (b - 1) s) (\<lambda>v.
     if t \<noteq> b - 1
     then Inr (Popped v, s\<lparr>ws_owner := O_Idle\<rparr>)
     else Inr (Tau, s\<lparr>ws_owner := O_Pop6 b t v\<rparr>))"
| "pop_next (O_Pop6 b t v) s =
     (if ws_top s = t
      then Inr (Popped v, s\<lparr>ws_top := t + 1, ws_owner := O_Pop7 b\<rparr>)
      else Inr (Pop_Empty, s\<lparr>ws_owner := O_Pop7 b\<rparr>))"
| "pop_next (O_Pop7 b) s = Inr (Tau, s\<lparr>ws_bottom := b, ws_owner := O_Idle\<rparr>)"
| "pop_next pc s = Inr (Tau, s)"

fun pushing :: "'a owner_pc \<Rightarrow> bool" where
  "pushing (O_Push0 x) = True"
| "pushing (O_Push1 x b) = True"
| "pushing (O_Push2 x b) = True"
| "pushing (O_Push3 x b) = True"
| "pushing pc = False"

definition owner_next :: "'a ws_state \<Rightarrow> ('a ws_label \<times> 'a ws_state) result" where
  "owner_next s = (if pushing (ws_owner s) then push_next (ws_owner s) s else pop_next (ws_owner s) s)"

text \<open>The next step of \<open>steal\<close> by the thief \<open>i\<close>.\<close>

definition set_thief :: "nat \<Rightarrow> 'a thief_pc \<Rightarrow> 'a ws_state \<Rightarrow> 'a ws_state" where
  "set_thief i pc s = s\<lparr>ws_thief := (ws_thief s)(i := pc)\<rparr>"

fun steal_next :: "nat \<Rightarrow> 'a thief_pc \<Rightarrow> 'a ws_state \<Rightarrow> ('a ws_label \<times> 'a ws_state) result" where
  "steal_next i T_Idle s = Inr (Tau, s)"
| "steal_next i T_Steal0 s = Inr (Tau, set_thief i (T_Steal1 (ws_top s)) s)"
| "steal_next i (T_Steal1 t) s =
     (if t \<ge> ws_bottom s
      then Inr (Steal_Empty i, set_thief i T_Idle s)
      else Inr (Tau, set_thief i (T_Steal2 t) s))"
| "steal_next i (T_Steal2 t) s =
     (if t \<ge> ws_bottom s
      then Inr (Steal_Empty i, set_thief i T_Idle s)
      else Inr (Tau, set_thief i (T_Steal3 t) s))"
| "steal_next i (T_Steal3 t) s =
     bind_r (ws_read t s) (\<lambda>v. Inr (Tau, set_thief i (T_Steal4 t v) s))"
| "steal_next i (T_Steal4 t v) s =
     (if ws_top s = t
      then Inr (Stolen i v, set_thief i T_Idle (s\<lparr>ws_top := t + 1\<rparr>))
      else Inr (Tau, set_thief i (T_Steal2 (ws_top s)) s))"

definition thief_next :: "nat \<Rightarrow> 'a ws_state \<Rightarrow> ('a ws_label \<times> 'a ws_state) result" where
  "thief_next i s = steal_next i (ws_thief s i) s"

definition volatile_size :: "'a ws_state \<Rightarrow> nat" where
  "volatile_size s = (if ws_bottom s \<le> ws_top s then 0 else ws_bottom s - ws_top s)"

text \<open>
  The threads of the system: an idle owner may call \<open>push\<close> or \<open>pop\<close>, an idle thief may call \<open>steal\<close>, and any
  thread may take its next step.
\<close>

inductive ws_step :: "'a ws_state \<Rightarrow> 'a ws_label \<Rightarrow> 'a ws_state \<Rightarrow> bool" where
  call_push: "ws_owner s = O_Idle \<Longrightarrow> ws_step s Tau (s\<lparr>ws_owner := O_Push0 x\<rparr>)"
| call_pop: "ws_owner s = O_Idle \<Longrightarrow> ws_step s Tau (s\<lparr>ws_owner := O_Pop0\<rparr>)"
| call_steal: "ws_thief s i = T_Idle \<Longrightarrow> ws_step s Tau (set_thief i T_Steal0 s)"
| owner: "owner_next s = Inr (l, s') \<Longrightarrow> ws_step s l s'"
| thief: "thief_next i s = Inr (l, s') \<Longrightarrow> ws_step s l s'"

text \<open>
  A schedule, executed: which thread acts next. A call by a busy thread does nothing. The result
  is the labels of the steps and the final state.
\<close>

datatype 'a ws_act = Call_Push 'a | Call_Pop | Call_Steal nat | Run_Owner | Run_Thief nat

fun ws_do :: "'a ws_act \<Rightarrow> 'a ws_state \<Rightarrow> ('a ws_label \<times> 'a ws_state) result" where
  "ws_do (Call_Push x) s =
     Inr (Tau, case ws_owner s of O_Idle \<Rightarrow> s\<lparr>ws_owner := O_Push0 x\<rparr> | _ \<Rightarrow> s)"
| "ws_do Call_Pop s = Inr (Tau, case ws_owner s of O_Idle \<Rightarrow> s\<lparr>ws_owner := O_Pop0\<rparr> | _ \<Rightarrow> s)"
| "ws_do (Call_Steal i) s = Inr (Tau, case ws_thief s i of T_Idle \<Rightarrow> set_thief i T_Steal0 s | _ \<Rightarrow> s)"
| "ws_do Run_Owner s = owner_next s"
| "ws_do (Run_Thief i) s = thief_next i s"

fun ws_exec :: "'a ws_act list \<Rightarrow> 'a ws_state \<Rightarrow> ('a ws_label list \<times> 'a ws_state) result" where
  "ws_exec [] s = Inr ([], s)"
| "ws_exec (c # cs) s =
     bind_r (ws_do c s) (\<lambda>(l, s1). bind_r (ws_exec cs s1) (\<lambda>(ls, s2). Inr (l # ls, s2)))"

section \<open>The queue as a list\<close>

text \<open>
  The end of the queue. While the owner is inside \<open>pop\<close> the counter is one less than it, until
  the item is decided.
\<close>

fun ws_end :: "'a owner_pc \<Rightarrow> nat \<Rightarrow> nat" where
  "ws_end (O_Pop3 b) n = b"
| "ws_end (O_Pop4 b) n = b"
| "ws_end (O_Pop5 b t) n = b"
| "ws_end (O_Pop6 b t v) n = b"
| "ws_end (O_Pop7 b) n = b"
| "ws_end pc n = n"

definition ws_live :: "'a ws_state \<Rightarrow> 'a list" where
  "ws_live s =
     (case ws_buffer s of None \<Rightarrow> []
      | Some a \<Rightarrow> map (\<lambda>i. a ! (i mod ws_capacity s)) [ws_top s..<ws_end (ws_owner s) (ws_bottom s)])"

text \<open>
  The first index a thief may not take: once the owner has seen that more than one item is
  left, the last one is its own.
\<close>

fun ws_limit :: "'a owner_pc \<Rightarrow> nat \<Rightarrow> nat" where
  "ws_limit (O_Pop5 b t) n = (if t < b - 1 then b - 1 else b)"
| "ws_limit pc n = ws_end pc n"

fun owner_ok :: "'a owner_pc \<Rightarrow> nat \<Rightarrow> nat \<Rightarrow> nat \<Rightarrow> 'a list \<Rightarrow> bool" where
  "owner_ok (O_Push1 x b) bt tp cap a \<longleftrightarrow> b = bt"
| "owner_ok (O_Push2 x b) bt tp cap a \<longleftrightarrow> b = bt \<and> b < tp + cap"
| "owner_ok (O_Push3 x b) bt tp cap a \<longleftrightarrow> b = bt \<and> b < tp + cap \<and> a ! (b mod cap) = x"
| "owner_ok (O_Pop1 b) bt tp cap a \<longleftrightarrow> b = bt"
| "owner_ok (O_Pop2 b) bt tp cap a \<longleftrightarrow> b = bt \<and> 0 < b"
| "owner_ok (O_Pop3 b) bt tp cap a \<longleftrightarrow> bt = b - 1 \<and> 0 < b"
| "owner_ok (O_Pop4 b) bt tp cap a \<longleftrightarrow> bt = b - 1 \<and> 0 < b \<and> tp = b"
| "owner_ok (O_Pop5 b t) bt tp cap a \<longleftrightarrow>
     bt = b - 1 \<and> 0 < b \<and> t \<le> b - 1 \<and> t \<le> tp \<and> (t < b - 1 \<longrightarrow> tp \<le> b - 1)"
| "owner_ok (O_Pop6 b t v) bt tp cap a \<longleftrightarrow>
     bt = b - 1 \<and> 0 < b \<and> t = b - 1 \<and> t \<le> tp \<and> v = a ! ((b - 1) mod cap)"
| "owner_ok (O_Pop7 b) bt tp cap a \<longleftrightarrow> bt = b - 1 \<and> 0 < b \<and> tp = b"
| "owner_ok pc bt tp cap a \<longleftrightarrow> True"

fun thief_ok :: "'a thief_pc \<Rightarrow> nat \<Rightarrow> nat \<Rightarrow> nat \<Rightarrow> 'a list \<Rightarrow> bool" where
  "thief_ok (T_Steal1 t) lim tp cap a \<longleftrightarrow> t \<le> tp"
| "thief_ok (T_Steal2 t) lim tp cap a \<longleftrightarrow> t \<le> tp"
| "thief_ok (T_Steal3 t) lim tp cap a \<longleftrightarrow> t \<le> tp \<and> (t = tp \<longrightarrow> t < lim)"
| "thief_ok (T_Steal4 t v) lim tp cap a \<longleftrightarrow> t \<le> tp \<and> (t = tp \<longrightarrow> t < lim \<and> v = a ! (t mod cap))"
| "thief_ok pc lim tp cap a \<longleftrightarrow> True"

definition ws_ok :: "nat \<Rightarrow> 'a ws_state \<Rightarrow> bool" where
  "ws_ok k s \<longleftrightarrow>
     ws_capacity s = 2 ^ k \<and>
     (\<exists>a. ws_buffer s = Some a \<and> length a = 2 ^ k \<and>
        ws_top s \<le> ws_end (ws_owner s) (ws_bottom s) \<and> ws_end (ws_owner s) (ws_bottom s) \<le> ws_top s + 2 ^ k \<and>
        owner_ok (ws_owner s) (ws_bottom s) (ws_top s) (2 ^ k) a \<and>
        (\<forall>i. thief_ok (ws_thief s i) (ws_limit (ws_owner s) (ws_bottom s)) (ws_top s) (2 ^ k) a))"

section \<open>Every step is a step of a double-ended queue\<close>

text \<open>
  The abstract queue: the owner adds and takes at one end, thieves take at the other. A full queue and
  an empty one are reported only when the list is full or empty; a thief may also
  miss the last item while the owner is taking it.
\<close>

fun deque_step :: "nat \<Rightarrow> 'a list \<Rightarrow> 'a ws_label \<Rightarrow> 'a list \<Rightarrow> bool" where
  "deque_step n xs Tau ys \<longleftrightarrow> ys = xs"
| "deque_step n xs (Pushed x) ys \<longleftrightarrow> length xs < n \<and> ys = xs @ [x]"
| "deque_step n xs Push_Full ys \<longleftrightarrow> length xs = n \<and> ys = xs"
| "deque_step n xs (Popped x) ys \<longleftrightarrow> xs = ys @ [x]"
| "deque_step n xs Pop_Empty ys \<longleftrightarrow> xs = [] \<and> ys = []"
| "deque_step n xs (Stolen i x) ys \<longleftrightarrow> xs = x # ys"
| "deque_step n xs (Steal_Empty i) ys \<longleftrightarrow> length xs \<le> 1 \<and> ys = xs"

lemma mask_index: "(i :: nat) AND (2 ^ k - 1) = i mod 2 ^ k"
  by (metis mask_eq_exp_minus_1 take_bit_eq_mask take_bit_eq_mod)

lemma other_slot:
  fixes i b n :: nat
  assumes "i < b" and "b < i + n"
  shows "i mod n \<noteq> b mod n"
proof
  assume "i mod n = b mod n"
  then have "n dvd b - i" using assms by (metis less_imp_le mod_eq_dvd_iff_nat)
  with assms show False by (auto dest: dvd_imp_le)
qed

lemma ws_okE:
  assumes "ws_ok k s"
  obtains a where "ws_capacity s = 2 ^ k" "ws_buffer s = Some a" "length a = 2 ^ k"
    "ws_top s \<le> ws_end (ws_owner s) (ws_bottom s)" "ws_end (ws_owner s) (ws_bottom s) \<le> ws_top s + 2 ^ k"
    "owner_ok (ws_owner s) (ws_bottom s) (ws_top s) (2 ^ k) a"
    "\<And>i. thief_ok (ws_thief s i) (ws_limit (ws_owner s) (ws_bottom s)) (ws_top s) (2 ^ k) a"
  using assms by (auto simp: ws_ok_def)

text \<open>A thief's state stays consistent when the limit grows, or shrinks to above the top.\<close>

lemma thief_ok_mono:
  "thief_ok pc lim tp cap a \<Longrightarrow> lim \<le> lim' \<or> tp < lim' \<or> lim \<le> tp \<Longrightarrow> thief_ok pc lim' tp cap a"
  by (cases pc) auto

lemma thief_ok_top:
  "thief_ok pc lim tp cap a \<Longrightarrow> tp < tp' \<Longrightarrow> thief_ok pc lim' tp' cap a"
  by (cases pc) auto

lemma thief_ok_write:
  assumes "thief_ok pc lim tp cap a" and "lim \<le> b" and "b < tp + cap" and "length a = cap"
  shows "thief_ok pc lim tp cap (a[b mod cap := x])"
  using assms other_slot [of tp b cap]
  by (cases pc) (auto simp: nth_list_update)

lemma ws_read_ok:
  assumes "ws_capacity s = 2 ^ k" and "ws_buffer s = Some a" and "length a = 2 ^ k"
  shows "ws_read i s = Inr (a ! (i mod 2 ^ k))"
    and "ws_write i x s = Inr (s\<lparr>ws_buffer := Some (a[i mod 2 ^ k := x])\<rparr>)"
  using assms mask_index [of i k] by (simp_all add: ws_read_def ws_write_def)

lemma push_ok:
  assumes "ws_ok k s" and "pushing (ws_owner s)"
  shows "\<exists>l s'. push_next (ws_owner s) s = Inr (l, s') \<and> ws_ok k s' \<and> deque_step (2 ^ k) (ws_live s) l (ws_live s')"
proof -
  obtain a where o: "ws_capacity s = 2 ^ k" "ws_buffer s = Some a" "length a = 2 ^ k"
    "ws_top s \<le> ws_end (ws_owner s) (ws_bottom s)" "ws_end (ws_owner s) (ws_bottom s) \<le> ws_top s + 2 ^ k"
    "owner_ok (ws_owner s) (ws_bottom s) (ws_top s) (2 ^ k) a"
    "\<And>i. thief_ok (ws_thief s i) (ws_limit (ws_owner s) (ws_bottom s)) (ws_top s) (2 ^ k) a"
    using assms(1) by (rule ws_okE) blast
  show ?thesis
  proof (cases "ws_owner s")
    case (O_Push0 x)
    then show ?thesis using o by (auto simp: ws_ok_def ws_live_def)
  next
    case (O_Push1 x b)
    then show ?thesis using o by (auto simp: ws_ok_def ws_live_def)
  next
    case (O_Push2 x b)
    have same: "map (\<lambda>i. a[b mod 2 ^ k := x] ! (i mod 2 ^ k)) [ws_top s..<b] = map (\<lambda>i. a ! (i mod 2 ^ k)) [ws_top s..<b]"
    proof (rule map_cong [OF refl])
      fix i assume "i \<in> set [ws_top s..<b]"
      then have "i mod 2 ^ k \<noteq> b mod 2 ^ k" using O_Push2 o(6) by (intro other_slot) auto
      then show "a[b mod 2 ^ k := x] ! (i mod 2 ^ k) = a ! (i mod 2 ^ k)" by simp
    qed
    have "thief_ok (ws_thief s i) b (ws_top s) (2 ^ k) (a[b mod 2 ^ k := x])" for i
      using O_Push2 o(3,6) o(7) [of i] by (intro thief_ok_write) auto
    with O_Push2 o same show ?thesis
      by (auto simp: ws_read_ok [OF o(1-3)] ws_ok_def ws_live_def)
  next
    case (O_Push3 x b)
    have "thief_ok (ws_thief s i) (Suc b) (ws_top s) (2 ^ k) a" for i
      by (rule thief_ok_mono [of _ b]) (use O_Push3 o(6) o(7) [of i] in auto)
    with O_Push3 o show ?thesis by (auto simp: ws_ok_def ws_live_def)
  qed (use assms(2) in auto)
qed

lemma pop_ok:
  assumes "ws_ok k s" and "\<not> pushing (ws_owner s)"
  shows "\<exists>l s'. pop_next (ws_owner s) s = Inr (l, s') \<and> ws_ok k s' \<and> deque_step (2 ^ k) (ws_live s) l (ws_live s')"
proof -
  obtain a where o: "ws_capacity s = 2 ^ k" "ws_buffer s = Some a" "length a = 2 ^ k"
    "ws_top s \<le> ws_end (ws_owner s) (ws_bottom s)" "ws_end (ws_owner s) (ws_bottom s) \<le> ws_top s + 2 ^ k"
    "owner_ok (ws_owner s) (ws_bottom s) (ws_top s) (2 ^ k) a"
    and th: "\<And>i. thief_ok (ws_thief s i) (ws_limit (ws_owner s) (ws_bottom s)) (ws_top s) (2 ^ k) a"
    using assms(1) by (rule ws_okE) blast
  show ?thesis
  proof (cases "ws_owner s")
    case O_Idle
    then show ?thesis using assms(1) by simp
  next
    case O_Pop0
    then show ?thesis using o th by (auto simp: ws_ok_def ws_live_def)
  next
    case (O_Pop1 b)
    then show ?thesis using o th by (auto simp: ws_ok_def ws_live_def)
  next
    case (O_Pop2 b)
    then show ?thesis using o th by (auto simp: ws_ok_def ws_live_def)
  next
    case (O_Pop3 b)
    show ?thesis
    proof (cases "ws_top s > b - 1")
      case True
      with O_Pop3 o th show ?thesis by (auto simp: ws_ok_def ws_live_def)
    next
      case False
      have "thief_ok (ws_thief s i) (if ws_top s < b - 1 then b - 1 else b) (ws_top s) (2 ^ k) a" for i
        by (rule thief_ok_mono [of _ b]) (use False O_Pop3 th [of i] in auto)
      with False O_Pop3 o show ?thesis by (auto simp: ws_ok_def ws_live_def)
    qed
  next
    case (O_Pop4 b)
    then show ?thesis using o th by (auto simp: ws_ok_def ws_live_def)
  next
    case (O_Pop5 b t)
    show ?thesis
    proof (cases "t = b - 1")
      case True
      with O_Pop5 o th show ?thesis by (auto simp: ws_read_ok [OF o(1-3)] ws_ok_def ws_live_def)
    next
      case False
      then have "[ws_top s..<b] = [ws_top s..<b - 1] @ [b - 1]"
        using O_Pop5 o(6) by (cases b) auto
      with False O_Pop5 o th show ?thesis by (auto simp: ws_read_ok [OF o(1-3)] ws_ok_def ws_live_def)
    qed
  next
    case (O_Pop6 b t v)
    show ?thesis
    proof (cases "ws_top s = t")
      case True
      have "thief_ok (ws_thief s i) b b (2 ^ k) a" for i
        by (rule thief_ok_top [of _ b t]) (use True O_Pop6 o(6) th [of i] in auto)
      moreover have "[ws_top s..<b] = [b - 1]" using True O_Pop6 o(6) by (cases b) auto
      ultimately show ?thesis using True O_Pop6 o by (auto simp: ws_ok_def ws_live_def)
    next
      case False
      then have "ws_top s = b" using O_Pop6 o(4,6) by auto
      with False O_Pop6 o th show ?thesis by (auto simp: ws_ok_def ws_live_def)
    qed
  next
    case (O_Pop7 b)
    then show ?thesis using o th by (auto simp: ws_ok_def ws_live_def)
  qed (use assms(2) in auto)
qed

lemma limit_bounds:
  assumes "owner_ok pc bt tp cap a"
  shows "bt \<le> ws_limit pc bt" and "ws_limit pc bt \<le> ws_end pc bt" and "ws_end pc bt \<le> Suc bt"
  using assms by (cases pc; auto)+

lemma owner_ok_steal:
  "owner_ok pc bt tp cap a \<Longrightarrow> tp < ws_limit pc bt \<Longrightarrow> owner_ok pc bt (Suc tp) cap a"
  by (cases pc) auto

lemma ws_live_thief [simp]: "ws_live (set_thief i pc s) = ws_live s"
  by (cases "ws_buffer s") (simp_all add: ws_live_def set_thief_def)

lemma ws_ok_thief:
  assumes "ws_ok k s" and "ws_buffer s = Some a"
    and "thief_ok pc (ws_limit (ws_owner s) (ws_bottom s)) (ws_top s) (2 ^ k) a"
  shows "ws_ok k (set_thief i pc s)"
  using assms by (auto simp: ws_ok_def set_thief_def)

lemma steal_ok:
  assumes "ws_ok k s"
  shows "\<exists>l s'. thief_next i s = Inr (l, s') \<and> ws_ok k s' \<and> deque_step (2 ^ k) (ws_live s) l (ws_live s')"
proof -
  obtain a where o: "ws_capacity s = 2 ^ k" "ws_buffer s = Some a" "length a = 2 ^ k"
    "ws_top s \<le> ws_end (ws_owner s) (ws_bottom s)" "ws_end (ws_owner s) (ws_bottom s) \<le> ws_top s + 2 ^ k"
    "owner_ok (ws_owner s) (ws_bottom s) (ws_top s) (2 ^ k) a"
    and th: "\<And>i. thief_ok (ws_thief s i) (ws_limit (ws_owner s) (ws_bottom s)) (ws_top s) (2 ^ k) a"
    using assms by (rule ws_okE) blast
  note lim = limit_bounds [OF o(6)] and put = ws_ok_thief [OF assms o(2)]
  have few: "length (ws_live s) \<le> 1" if "ws_bottom s \<le> ws_top s"
    using that lim(3) by (simp add: ws_live_def o(2))
  show ?thesis
  proof (cases "ws_thief s i")
    case T_Idle
    then show ?thesis using assms by (simp add: thief_next_def)
  next
    case T_Steal0
    then show ?thesis using put by (simp add: thief_next_def)
  next
    case (T_Steal1 t)
    then show ?thesis using put th [of i] few by (auto simp: thief_next_def)
  next
    case (T_Steal2 t)
    then show ?thesis using put th [of i] few lim by (auto simp: thief_next_def)
  next
    case (T_Steal3 t)
    then show ?thesis using put th [of i] by (auto simp: thief_next_def ws_read_ok [OF o(1-3)])
  next
    case (T_Steal4 t v)
    show ?thesis
    proof (cases "ws_top s = t")
      case False
      with T_Steal4 put show ?thesis by (simp add: thief_next_def)
    next
      case True
      with T_Steal4 th [of i] have t: "t < ws_limit (ws_owner s) (ws_bottom s)" "v = a ! (t mod 2 ^ k)" by auto
      let ?s = "set_thief i T_Idle (s\<lparr>ws_top := t + 1\<rparr>)"
      have other: "thief_ok (ws_thief s j) lim (Suc t) (2 ^ k) a" for j lim
        using thief_ok_top [OF th [of j]] True by simp
      have "ws_ok k ?s"
        using o t lim True other owner_ok_steal [OF o(6)] by (auto simp: ws_ok_def set_thief_def)
      moreover have "ws_live s = v # ws_live ?s"
        using t True o lim by (auto simp: ws_live_def upt_conv_Cons set_thief_def)
      ultimately show ?thesis using T_Steal4 True by (auto simp: thief_next_def)
    qed
  qed
qed

lemma owner_next_ok:
  assumes "ws_ok k s"
  shows "\<exists>l s'. owner_next s = Inr (l, s') \<and> ws_ok k s' \<and> deque_step (2 ^ k) (ws_live s) l (ws_live s')"
  using push_ok [OF assms] pop_ok [OF assms] by (auto simp: owner_next_def)

lemma ws_step_ok:
  assumes "ws_step s l s'" and "ws_ok k s"
  shows "ws_ok k s' \<and> deque_step (2 ^ k) (ws_live s) l (ws_live s')"
  using assms
proof (induction rule: ws_step.induct)
  case (call_steal s i)
  then obtain a where "ws_buffer s = Some a" by (auto elim: ws_okE)
  with call_steal ws_ok_thief [of k s a T_Steal0 i] show ?case by simp
next
  case (owner s l s')
  then show ?case using owner_next_ok [of k s] by auto
next
  case (thief i s l s')
  then show ?case using steal_ok [of k s i] by auto
qed (auto simp: ws_ok_def ws_live_def)

text \<open>A queue after its constructor and a successful \<open>init\<close>.\<close>

definition ws_start :: "nat \<Rightarrow> 'a ws_state \<Rightarrow> bool" where
  "ws_start n s \<longleftrightarrow> (\<exists>dflt. ws_init True dflt n ws_ctor = (0, s))"

lemma power_of_two:
  fixes n :: nat
  assumes "0 < n" and "n AND (n - 1) = 0"
  shows "\<exists>k. n = 2 ^ k"
  using assms
proof (induction n rule: less_induct)
  case (less n)
  show ?case
  proof (cases "even n")
    case True
    then obtain m where m: "n = 2 * m" by (elim evenE)
    with less.prems(1) have "0 < m" by simp
    have "2 * m - 1 = 2 * (m - 1) + 1" using \<open>0 < m\<close> by simp
    with less.prems(2) m have "2 * m AND (2 * (m - 1) + 1) = 0" by simp
    then have "2 * (m AND (m - 1)) = 0" by (simp add: and_nat_rec [of "2 * m"])
    with less.IH [of m] m \<open>0 < m\<close> obtain k where "m = 2 ^ k" by auto
    with m have "n = 2 ^ Suc k" by simp
    then show ?thesis by blast
  next
    case False
    then obtain m where m: "n = 2 * m + 1" by (elim oddE)
    with less.prems(2) have "(2 * m + 1) AND (2 * m) = 0" by simp
    then have "m = 0" by (simp add: and_nat_rec [of "Suc (2 * m)"])
    with m have "n = 2 ^ 0" by simp
    then show ?thesis by blast
  qed
qed

lemma ws_start_ok:
  assumes "ws_start n s"
  obtains k where "n = 2 ^ k" and "ws_ok k s" and "ws_live s = []"
proof -
  from assms have n: "0 < n" "n AND (n - 1) = 0" by (auto simp: ws_start_def ws_init_def split: if_splits)
  then obtain k where k: "n = 2 ^ k" using power_of_two by blast
  with assms n show thesis
    by (intro that [of k]) (auto simp: ws_start_def ws_init_def ws_ctor_def ws_ok_def ws_live_def)
qed

interpretation stealing: invariant_system "ws_start n" "\<lambda>s t. \<exists>l. ws_step s l t" "\<lambda>s. \<exists>k. n = 2 ^ k \<and> ws_ok k s" for n
proof
  show "ws_start n s \<Longrightarrow> \<exists>k. n = 2 ^ k \<and> ws_ok k s" for s :: "'a ws_state" by (erule ws_start_ok) blast
  show "\<exists>k. n = 2 ^ k \<and> ws_ok k s \<Longrightarrow> \<exists>l. ws_step s l t \<Longrightarrow> \<exists>k. n = 2 ^ k \<and> ws_ok k t" for s t :: "'a ws_state"
    using ws_step_ok by blast
qed

text \<open>A schedule takes steps of the system or none.\<close>

lemma ws_do_step: "ws_do c s = Inr (l, s') \<Longrightarrow> ws_step s l s' \<or> (l = Tau \<and> s' = s)"
  by (cases c) (auto intro: ws_step.intros split: owner_pc.splits thief_pc.splits)

lemma ws_do_ok:
  assumes "ws_ok k s"
  shows "\<exists>l s'. ws_do c s = Inr (l, s') \<and> ws_ok k s' \<and> deque_step (2 ^ k) (ws_live s) l (ws_live s')"
proof -
  obtain l s' where d: "ws_do c s = Inr (l, s')"
    using owner_next_ok [OF assms] steal_ok [OF assms] by (cases c) (auto, metis)
  with ws_do_step [OF d] ws_step_ok [OF _ assms] assms show ?thesis by auto
qed

text \<open>The abstract queue over a sequence of labels; what was put in and what was taken out.\<close>

fun deque_run :: "nat \<Rightarrow> 'a list \<Rightarrow> 'a ws_label list \<Rightarrow> 'a list \<Rightarrow> bool" where
  "deque_run n xs [] ys \<longleftrightarrow> ys = xs"
| "deque_run n xs (l # ls) ys \<longleftrightarrow> (\<exists>zs. deque_step n xs l zs \<and> deque_run n zs ls ys)"

fun put_in :: "'a ws_label list \<Rightarrow> 'a list" where
  "put_in [] = []"
| "put_in (Pushed x # ls) = x # put_in ls"
| "put_in (l # ls) = put_in ls"

fun taken_out :: "'a ws_label list \<Rightarrow> 'a list" where
  "taken_out [] = []"
| "taken_out (Popped x # ls) = x # taken_out ls"
| "taken_out (Stolen i x # ls) = x # taken_out ls"
| "taken_out (l # ls) = taken_out ls"

lemma ws_exec_ok:
  "ws_ok k s \<Longrightarrow> \<exists>ls s'. ws_exec cs s = Inr (ls, s') \<and> ws_ok k s' \<and> deque_run (2 ^ k) (ws_live s) ls (ws_live s')"
proof (induction cs arbitrary: s)
  case (Cons c cs)
  obtain l s1 where d: "ws_do c s = Inr (l, s1)" "ws_ok k s1" "deque_step (2 ^ k) (ws_live s) l (ws_live s1)"
    using ws_do_ok [OF Cons.prems, of c] by blast
  from Cons.IH [OF d(2)] d show ?case by auto
qed simp

lemma deque_conserves:
  "deque_run n xs ls ys \<Longrightarrow> mset xs + mset (put_in ls) = mset (taken_out ls) + mset ys"
proof (induction ls arbitrary: xs)
  case (Cons l ls)
  then obtain zs where "deque_step n xs l zs" "mset zs + mset (put_in ls) = mset (taken_out ls) + mset ys" by auto
  then show ?case by (cases l) auto
qed simp

lemma ws_live_bound: "ws_ok k s \<Longrightarrow> length (ws_live s) \<le> 2 ^ k"
  by (auto elim!: ws_okE simp: ws_live_def)

text \<open>
  C11. The work-stealing queue is a double-ended queue. Under every schedule of the owner and any number of
  thieves, interleaved at each access to shared memory, no access faults, and the outcomes of the methods are those
  of a list: \<open>push\<close> appends or finds the list full, the owner's \<open>pop\<close> takes the newest item or finds the
  list empty, a thief takes the oldest one, and each does so at one of its own steps.
\<close>

theorem work_stealing_refines:
  assumes "ws_start n s"
  shows "\<exists>ls s'. ws_exec cs s = Inr (ls, s') \<and> deque_run n [] ls (ws_live s') \<and> length (ws_live s') \<le> n"
proof -
  obtain k where k: "n = 2 ^ k" "ws_ok k s" "ws_live s = []" by (rule ws_start_ok [OF assms])
  from ws_exec_ok [OF k(2), of cs] k(1,3) ws_live_bound show ?thesis by auto
qed

text \<open>
  C15. No task is lost or run twice. Under every schedule, the items pushed are, with
  multiplicity, the items the owner and the thieves took together with those still in the queue; and while the owner
  is in no method, \<open>volatile_size\<close> is their number.
\<close>

theorem work_stealing_conserves:
  assumes "ws_start n s" and "ws_exec cs s = Inr (ls, s')"
  shows "mset (put_in ls) = mset (taken_out ls) + mset (ws_live s') \<and>
    (ws_owner s' = O_Idle \<longrightarrow> volatile_size s' = length (ws_live s'))"
proof -
  obtain k where k: "n = 2 ^ k" "ws_ok k s" "ws_live s = []" by (rule ws_start_ok [OF assms(1)])
  from ws_exec_ok [OF k(2), of cs] assms(2) k(3) have
    o: "ws_ok k s'" "deque_run (2 ^ k) [] ls (ws_live s')" by auto
  then have "volatile_size s' = length (ws_live s')" if "ws_owner s' = O_Idle"
    using that by (auto elim!: ws_okE simp: ws_live_def volatile_size_def)
  with deque_conserves [OF o(2)] show ?thesis by simp
qed

text \<open>One owner and one thief race for the last item: the thief wins, the owner finds the queue empty.\<close>

definition race :: "nat ws_act list" where
  "race = [Call_Push 7, Run_Owner, Run_Owner, Run_Owner, Run_Owner,
     Call_Steal 0, Run_Thief 0, Run_Thief 0, Run_Thief 0, Run_Thief 0,
     Call_Pop, Run_Owner, Run_Owner, Run_Owner, Run_Owner, Run_Owner,
     Run_Thief 0, Run_Owner, Run_Owner]"

definition fresh_queue :: "nat ws_state" where
  "fresh_queue = snd (ws_init True 0 2 ws_ctor)"

lemma fresh_queue_start: "ws_start 2 fresh_queue"
proof -
  have "(2 :: nat) AND 1 = 0" by simp
  then show ?thesis by (auto simp: ws_start_def fresh_queue_def ws_init_def ws_ctor_def)
qed

lemma race_labels:
  "\<exists>s'. ws_exec race fresh_queue =
     Inr ([Tau, Tau, Tau, Tau, Pushed 7, Tau, Tau, Tau, Tau, Tau, Tau, Tau, Tau, Tau, Tau, Tau, Stolen 0 7, Pop_Empty, Tau], s') \<and>
     ws_live s' = [] \<and> ws_owner s' = O_Idle"
  by (simp add: race_def fresh_queue_def ws_init_def ws_ctor_def owner_next_def thief_next_def set_thief_def
      ws_read_def ws_write_def ws_live_def)

theorem work_stealing_refines_witness:
  "\<exists>ls s'. ws_exec race fresh_queue = Inr (ls, s') \<and> deque_run 2 [] ls (ws_live s')"
  using work_stealing_refines [OF fresh_queue_start, of race] by blast

theorem work_stealing_conserves_witness:
  "\<exists>ls s'. ws_exec race fresh_queue = Inr (ls, s') \<and> mset (put_in ls) = {#7#} \<and> mset (taken_out ls) = {#7#} \<and>
    volatile_size s' = 0"
proof -
  obtain ls s' where e: "ws_exec race fresh_queue = Inr (ls, s')" "ws_live s' = []" "ws_owner s' = O_Idle"
      "mset (put_in ls) = {#7#}" using race_labels by fastforce
  with work_stealing_conserves [OF fresh_queue_start e(1)] show ?thesis by auto
qed

end
