(* ===== verification/Itoa.thy ===== *)
theory Itoa
  imports Prelude
begin

text \<open>
  Printing integers in decimal without division by ten per digit: the routines of the JSON writer
  (\<open>rapidjson/internal/itoa.h\<close> of the vendored brpc headers), which emit two digits at a time from a table
  and suppress leading zeros by comparing the value with powers of ten. A routine is modelled by
  the characters it writes at the buffer; values are naturals below the width of their
  type, and conversions and shifts of \<open>uint32_t\<close> are reduced modulo \<open>2 ^ 32\<close>. They are proved equal to plain
  decimal printing.
\<close>

definition u32 :: "nat \<Rightarrow> nat" where
  "u32 x = x mod 2 ^ 32"

definition cDigitsLut :: string where
  "cDigitsLut =
     ''0001020304050607080910111213141516171819'' @
     ''2021222324252627282930313233343536373839'' @
     ''4041424344454647484950515253545556575859'' @
     ''6061626364656667686970717273747576777879'' @
     ''8081828384858687888990919293949596979899''"

definition lut :: "nat \<Rightarrow> char" where
  "lut i = cDigitsLut ! i"

text \<open>\<open>if (b) *buffer++ = c\<close>.\<close>

definition put_if :: "bool \<Rightarrow> char \<Rightarrow> string" where
  "put_if b c = (if b then [c] else [])"

text \<open>The low byte of \<open>'0' + static_cast<char>(a)\<close>.\<close>

definition put_digit :: "nat \<Rightarrow> string" where
  "put_digit a = [char_of (48 + a)]"

definition u32toa :: "nat \<Rightarrow> string" where
  "u32toa v =
     (if v < 10000
      then
        let d1 = u32 (v div 100 * 2); d2 = u32 (v mod 100 * 2)
        in put_if (v \<ge> 1000) (lut d1) @ put_if (v \<ge> 100) (lut (d1 + 1)) @ put_if (v \<ge> 10) (lut d2) @ [lut (d2 + 1)]
      else if v < 100000000
      then
        let b = v div 10000; c = v mod 10000;
            d1 = u32 (b div 100 * 2); d2 = u32 (b mod 100 * 2);
            d3 = u32 (c div 100 * 2); d4 = u32 (c mod 100 * 2)
        in put_if (v \<ge> 10000000) (lut d1) @ put_if (v \<ge> 1000000) (lut (d1 + 1)) @ put_if (v \<ge> 100000) (lut d2) @
           [lut (d2 + 1), lut d3, lut (d3 + 1), lut d4, lut (d4 + 1)]
      else
        let a = v div 100000000; w = v mod 100000000;
            b = w div 10000; c = w mod 10000;
            d1 = u32 (b div 100 * 2); d2 = u32 (b mod 100 * 2);
            d3 = u32 (c div 100 * 2); d4 = u32 (c mod 100 * 2)
        in (if a \<ge> 10 then [lut (u32 (a * 2)), lut (u32 (a * 2) + 1)] else put_digit a) @
           [lut d1, lut (d1 + 1), lut d2, lut (d2 + 1), lut d3, lut (d3 + 1), lut d4, lut (d4 + 1)])"

definition i32toa :: "int \<Rightarrow> string" where
  "i32toa value =
     (let u = nat (value mod 2 ^ 32)
      in if value < 0 then CHR ''-'' # u32toa (u32 (2 ^ 32 - 1 - u + 1)) else u32toa u)"

definition u64toa :: "nat \<Rightarrow> string" where
  "u64toa value =
     (let kTen8 = 100000000; kTen9 = kTen8 * 10; kTen10 = kTen8 * 100; kTen11 = kTen8 * 1000;
          kTen12 = kTen8 * 10000; kTen13 = kTen8 * 100000; kTen14 = kTen8 * 1000000;
          kTen15 = kTen8 * 10000000; kTen16 = kTen8 * kTen8
      in
      if value < kTen8
      then
        let v = u32 value in
        if v < 10000
        then
          let d1 = u32 (v div 100 * 2); d2 = u32 (v mod 100 * 2)
          in put_if (v \<ge> 1000) (lut d1) @ put_if (v \<ge> 100) (lut (d1 + 1)) @ put_if (v \<ge> 10) (lut d2) @ [lut (d2 + 1)]
        else
          let b = v div 10000; c = v mod 10000;
              d1 = u32 (b div 100 * 2); d2 = u32 (b mod 100 * 2);
              d3 = u32 (c div 100 * 2); d4 = u32 (c mod 100 * 2)
          in put_if (value \<ge> 10000000) (lut d1) @ put_if (value \<ge> 1000000) (lut (d1 + 1)) @
             put_if (value \<ge> 100000) (lut d2) @
             [lut (d2 + 1), lut d3, lut (d3 + 1), lut d4, lut (d4 + 1)]
      else if value < kTen16
      then
        let v0 = u32 (value div kTen8); v1 = u32 (value mod kTen8);
            b0 = v0 div 10000; c0 = v0 mod 10000;
            d1 = u32 (b0 div 100 * 2); d2 = u32 (b0 mod 100 * 2);
            d3 = u32 (c0 div 100 * 2); d4 = u32 (c0 mod 100 * 2);
            b1 = v1 div 10000; c1 = v1 mod 10000;
            d5 = u32 (b1 div 100 * 2); d6 = u32 (b1 mod 100 * 2);
            d7 = u32 (c1 div 100 * 2); d8 = u32 (c1 mod 100 * 2)
        in put_if (value \<ge> kTen15) (lut d1) @ put_if (value \<ge> kTen14) (lut (d1 + 1)) @
           put_if (value \<ge> kTen13) (lut d2) @ put_if (value \<ge> kTen12) (lut (d2 + 1)) @
           put_if (value \<ge> kTen11) (lut d3) @ put_if (value \<ge> kTen10) (lut (d3 + 1)) @
           put_if (value \<ge> kTen9) (lut d4) @ put_if (value \<ge> kTen8) (lut (d4 + 1)) @
           [lut d5, lut (d5 + 1), lut d6, lut (d6 + 1), lut d7, lut (d7 + 1), lut d8, lut (d8 + 1)]
      else
        let a = u32 (value div kTen16); w = value mod kTen16;
            v0 = u32 (w div kTen8); v1 = u32 (w mod kTen8);
            b0 = v0 div 10000; c0 = v0 mod 10000;
            d1 = u32 (b0 div 100 * 2); d2 = u32 (b0 mod 100 * 2);
            d3 = u32 (c0 div 100 * 2); d4 = u32 (c0 mod 100 * 2);
            b1 = v1 div 10000; c1 = v1 mod 10000;
            d5 = u32 (b1 div 100 * 2); d6 = u32 (b1 mod 100 * 2);
            d7 = u32 (c1 div 100 * 2); d8 = u32 (c1 mod 100 * 2)
        in (if a < 10 then put_digit a
            else if a < 100 then [lut (u32 (a * 2)), lut (u32 (a * 2) + 1)]
            else if a < 1000
            then put_digit (a div 100) @ [lut (u32 (a mod 100 * 2)), lut (u32 (a mod 100 * 2) + 1)]
            else [lut (u32 (a div 100 * 2)), lut (u32 (a div 100 * 2) + 1),
                  lut (u32 (a mod 100 * 2)), lut (u32 (a mod 100 * 2) + 1)]) @
           [lut d1, lut (d1 + 1), lut d2, lut (d2 + 1), lut d3, lut (d3 + 1), lut d4, lut (d4 + 1),
            lut d5, lut (d5 + 1), lut d6, lut (d6 + 1), lut d7, lut (d7 + 1), lut d8, lut (d8 + 1)])"

definition i64toa :: "int \<Rightarrow> string" where
  "i64toa value =
     (let u = nat (value mod 2 ^ 64)
      in if value < 0 then CHR ''-'' # u64toa ((2 ^ 64 - 1 - u + 1) mod 2 ^ 64) else u64toa u)"

section \<open>Two digits from the table\<close>

lemma lut_all: "\<forall>k \<in> set [0..<100]. cDigitsLut ! (2 * k) = digit_char (k div 10) \<and> cDigitsLut ! (2 * k + 1) = digit_char (k mod 10)"
  by code_simp

text \<open>The digits of a number below 100, below 10000 and below 100000000, leading zeros kept.\<close>

definition pad2 :: "nat \<Rightarrow> string" where
  "pad2 k = [digit_char (k div 10), digit_char (k mod 10)]"

definition pad4 :: "nat \<Rightarrow> string" where
  "pad4 n = pad2 (n div 100) @ pad2 (n mod 100)"

definition pad8 :: "nat \<Rightarrow> string" where
  "pad8 n = pad4 (n div 10000) @ pad4 (n mod 10000)"

lemma lut_pair:
  assumes "k < 100"
  shows "lut (u32 (k * 2)) = digit_char (k div 10)" and "lut (u32 (k * 2) + 1) = digit_char (k mod 10)"
  using lut_all assms by (auto simp: lut_def u32_def mult.commute)

lemma put_digit_eq: "put_digit a = [digit_char a]"
  by (simp add: put_digit_def digit_char_def)

section \<open>Decimal printing, several digits at a time\<close>

lemma show_nat_small: "n < 10 \<Longrightarrow> show_nat n = [digit_char n]"
  by (subst show_nat.simps) simp

lemma show_nat_big: "10 \<le> n \<Longrightarrow> show_nat n = show_nat (n div 10) @ [digit_char (n mod 10)]"
  by (subst show_nat.simps) simp

lemma split_div:
  fixes n a b :: nat
  assumes "0 < a"
  shows "n div (a * b) = n div a div b" and "n mod (a * b) div a = n div a mod b" and "n mod (a * b) mod a = n mod a"
  using assms by (simp_all add: div_mult2_eq mod_mult2_eq mod_mod_cancel)

lemma show_nat_pad2:
  assumes "100 \<le> n"
  shows "show_nat n = show_nat (n div 100) @ pad2 (n mod 100)"
proof -
  have "show_nat n = show_nat (n div 10 div 10) @ [digit_char (n div 10 mod 10)] @ [digit_char (n mod 10)]"
    using assms by (subst show_nat_big) (simp, subst show_nat_big, auto)
  with split_div [of 10 n 10] show ?thesis by (simp add: pad2_def)
qed

lemma show_nat_pad4:
  assumes "10000 \<le> n"
  shows "show_nat n = show_nat (n div 10000) @ pad4 (n mod 10000)"
proof -
  have "show_nat n = show_nat (n div 100 div 100) @ pad2 (n div 100 mod 100) @ pad2 (n mod 100)"
    using assms by (subst show_nat_pad2) (simp, subst show_nat_pad2, auto)
  with split_div [of 100 n 100] show ?thesis by (simp add: pad4_def)
qed

lemma show_nat_pad8:
  assumes "100000000 \<le> n"
  shows "show_nat n = show_nat (n div 100000000) @ pad8 (n mod 100000000)"
proof -
  have "show_nat n = show_nat (n div 10000 div 10000) @ pad4 (n div 10000 mod 10000) @ pad4 (n mod 10000)"
    using assms by (subst show_nat_pad4) (simp, subst show_nat_pad4, auto)
  with split_div [of 10000 n 10000] show ?thesis by (simp add: pad8_def)
qed

lemma show_nat_2: "10 \<le> n \<Longrightarrow> n < 100 \<Longrightarrow> show_nat n = pad2 n"
  by (simp add: show_nat_big show_nat_small pad2_def)

lemma show_nat_3: "100 \<le> n \<Longrightarrow> n < 1000 \<Longrightarrow> show_nat n = digit_char (n div 100) # pad2 (n mod 100)"
  by (simp add: show_nat_pad2 show_nat_small)

lemma show_nat_4: "1000 \<le> n \<Longrightarrow> n < 10000 \<Longrightarrow> show_nat n = pad4 n"
  by (simp add: show_nat_pad2 show_nat_2 pad4_def)

section \<open>The parts of the routines\<close>

text \<open>The four digits written for a number below 10000.\<close>

lemma lut_pad4:
  assumes "n < 10000"
  shows "[lut (u32 (n div 100 * 2)), lut (u32 (n div 100 * 2) + 1), lut (u32 (n mod 100 * 2)), lut (u32 (n mod 100 * 2) + 1)] = pad4 n"
  using assms lut_pair [of "n div 100"] lut_pair [of "n mod 100"] by (simp add: pad4_def pad2_def)

text \<open>The digits written for a number below 10000 when leading zeros are suppressed.\<close>

lemma lut_head4:
  assumes "n < 10000"
  shows "put_if (1000 \<le> n) (lut (u32 (n div 100 * 2))) @ put_if (100 \<le> n) (lut (u32 (n div 100 * 2) + 1)) @
    put_if (10 \<le> n) (lut (u32 (n mod 100 * 2))) @ [lut (u32 (n mod 100 * 2) + 1)] = show_nat n"
proof -
  note l = lut_pair [of "n div 100"] lut_pair [of "n mod 100"]
  consider "n < 10" | "10 \<le> n" "n < 100" | "100 \<le> n" "n < 1000" | "1000 \<le> n" by linarith
  then show ?thesis
  proof cases
    case 1
    with l show ?thesis by (simp add: put_if_def show_nat_small)
  next
    case 2
    with l show ?thesis by (simp add: put_if_def show_nat_2 pad2_def)
  next
    case 3
    then have "n div 100 mod 10 = n div 100" by simp
    with 3 l show ?thesis by (simp add: put_if_def show_nat_3 pad2_def)
  next
    case 4
    with assms l show ?thesis by (simp add: put_if_def show_nat_4 pad4_def pad2_def)
  qed
qed

lemma lut_head8:
  assumes "10000 \<le> n" and "n < 100000000"
  shows "put_if (10000000 \<le> n) (lut (u32 (n div 10000 div 100 * 2))) @
    put_if (1000000 \<le> n) (lut (u32 (n div 10000 div 100 * 2) + 1)) @
    put_if (100000 \<le> n) (lut (u32 (n div 10000 mod 100 * 2))) @
    [lut (u32 (n div 10000 mod 100 * 2) + 1)] @ pad4 (n mod 10000) = show_nat n"
proof -
  have b: "n div 10000 < 10000" using assms(2) by (simp add: less_mult_imp_div_less)
  have "(10000000 \<le> n) = (1000 \<le> n div 10000)" "(1000000 \<le> n) = (100 \<le> n div 10000)" "(100000 \<le> n) = (10 \<le> n div 10000)"
    by (simp_all add: less_eq_div_iff_mult_less_eq)
  with lut_head4 [OF b] show ?thesis by (simp add: show_nat_pad4 [OF assms(1)])
qed

lemma lut_pad8:
  assumes "n < 100000000"
  shows "[lut (u32 (n div 10000 div 100 * 2)), lut (u32 (n div 10000 div 100 * 2) + 1),
      lut (u32 (n div 10000 mod 100 * 2)), lut (u32 (n div 10000 mod 100 * 2) + 1)] @
     [lut (u32 (n mod 10000 div 100 * 2)), lut (u32 (n mod 10000 div 100 * 2) + 1),
      lut (u32 (n mod 10000 mod 100 * 2)), lut (u32 (n mod 10000 mod 100 * 2) + 1)] = pad8 n"
proof -
  have "n div 10000 < 10000" using assms by (simp add: less_mult_imp_div_less)
  then show ?thesis by (simp only: lut_pad4 mod_less_divisor zero_less_numeral pad8_def)
qed

lemma u32_id: "x < 4294967296 \<Longrightarrow> u32 x = x"
  by (simp add: u32_def)

section \<open>The routines\<close>

lemma u32toa_eq:
  assumes "v < 4294967296"
  shows "u32toa v = show_nat v"
proof -
  consider "v < 10000" | "10000 \<le> v" "v < 100000000" | "100000000 \<le> v" by linarith
  then show ?thesis
  proof cases
    case 1
    then show ?thesis using lut_head4 [OF 1] by (simp add: u32toa_def Let_def)
  next
    case 2
    then show ?thesis
      using lut_head8 [OF 2] lut_pad4 [of "v mod 10000"] by (simp add: u32toa_def Let_def)
  next
    case 3
    define a w where "a = v div 100000000" and "w = v mod 100000000"
    have a: "0 < a" "a < 100" using assms 3 by (simp_all add: a_def div_greater_zero_iff less_mult_imp_div_less)
    have "(if 10 \<le> a then [lut (u32 (a * 2)), lut (u32 (a * 2) + 1)] else put_digit a) = show_nat a"
      using a lut_pair [of a] by (simp add: put_digit_eq show_nat_small show_nat_2 pad2_def)
    moreover have "w < 100000000" by (simp add: w_def)
    ultimately show ?thesis
      using 3 lut_pad8 [of w] show_nat_pad8 [OF 3]
      by (simp add: u32toa_def Let_def flip: a_def w_def)
  qed
qed

text \<open>The branch for values from \<open>10 ^ 8\<close> to \<open>10 ^ 16\<close>: the high eight digits without leading zeros.\<close>

lemma lut_head16:
  assumes "0 < n" and "n < 100000000"
  shows "put_if (10000000 \<le> n) (lut (u32 (n div 10000 div 100 * 2))) @
    put_if (1000000 \<le> n) (lut (u32 (n div 10000 div 100 * 2) + 1)) @
    put_if (100000 \<le> n) (lut (u32 (n div 10000 mod 100 * 2))) @
    put_if (10000 \<le> n) (lut (u32 (n div 10000 mod 100 * 2) + 1)) @
    put_if (1000 \<le> n) (lut (u32 (n mod 10000 div 100 * 2))) @
    put_if (100 \<le> n) (lut (u32 (n mod 10000 div 100 * 2) + 1)) @
    put_if (10 \<le> n) (lut (u32 (n mod 10000 mod 100 * 2))) @
    put_if (1 \<le> n) (lut (u32 (n mod 10000 mod 100 * 2) + 1)) = show_nat n"
proof (cases "n < 10000")
  case True
  with assms lut_head4 [OF True] show ?thesis by (simp add: put_if_def)
next
  case False
  then have "10000 \<le> n" by simp
  note head = lut_head8 [OF this assms(2)] and pad = lut_pad4 [of "n mod 10000"]
  have "put_if (10000 \<le> n) c = [c]" "put_if (1000 \<le> n) c = [c]" "put_if (100 \<le> n) c = [c]"
      "put_if (10 \<le> n) c = [c]" "put_if (1 \<le> n) c = [c]" for c
    using False by (simp_all add: put_if_def)
  with head pad show ?thesis by (simp del: One_nat_def)
qed

lemma u64toa_high:
  assumes "10000000000000000 \<le> v" and "v < 18446744073709551616"
  shows "u64toa v = show_nat v"
proof -
  define a w where "a = v div 10000000000000000" and "w = v mod 10000000000000000"
  define v0 v1 where "v0 = w div 100000000" and "v1 = w mod 100000000"
  have a: "0 < a" "a < 10000" using assms by (simp_all add: a_def div_greater_zero_iff less_mult_imp_div_less)
  have b: "v0 < 100000000" "v1 < 100000000" by (simp_all add: v0_def v1_def w_def less_mult_imp_div_less)
  have u: "u32 a = a" "u32 v0 = v0" "u32 v1 = v1" using a b by (simp_all add: u32_id)
  have head: "(if a < 10 then put_digit a
      else if a < 100 then [lut (u32 (a * 2)), lut (u32 (a * 2) + 1)]
      else if a < 1000 then put_digit (a div 100) @ [lut (u32 (a mod 100 * 2)), lut (u32 (a mod 100 * 2) + 1)]
      else [lut (u32 (a div 100 * 2)), lut (u32 (a div 100 * 2) + 1),
            lut (u32 (a mod 100 * 2)), lut (u32 (a mod 100 * 2) + 1)]) = show_nat a"
    using a lut_pair [of a] lut_pair [of "a mod 100"] lut_pad4 [of a]
    by (simp add: put_digit_eq show_nat_small show_nat_2 show_nat_3 show_nat_4 pad2_def)
  have d: "v div 100000000 div 100000000 = a" "v div 100000000 mod 100000000 = v0" "v mod 100000000 = v1"
    using split_div [of 100000000 v 100000000] by (simp_all add: a_def v0_def v1_def w_def)
  have "show_nat v = show_nat (v div 100000000) @ pad8 v1"
    using assms show_nat_pad8 [of v] by (simp add: d)
  also have "show_nat (v div 100000000) = show_nat a @ pad8 v0"
    using assms show_nat_pad8 [of "v div 100000000"] by (simp add: d less_eq_div_iff_mult_less_eq)
  finally have "show_nat v = show_nat a @ pad8 v0 @ pad8 v1" by simp
  with head lut_pad8 [OF b(1)] lut_pad8 [OF b(2)] assms(1) show ?thesis
    by (simp add: u64toa_def Let_def u a_def [symmetric] w_def [symmetric] v0_def [symmetric] v1_def [symmetric])
qed

lemma u64toa_eq:
  assumes "v < 18446744073709551616"
  shows "u64toa v = show_nat v"
proof -
  consider "v < 10000" | "10000 \<le> v" "v < 100000000" | "100000000 \<le> v" "v < 10000000000000000"
    | "10000000000000000 \<le> v" by linarith
  then show ?thesis
  proof cases
    case 1
    then show ?thesis using lut_head4 [OF 1] by (simp add: u64toa_def Let_def u32_id)
  next
    case 2
    then show ?thesis
      using lut_head8 [OF 2] lut_pad4 [of "v mod 10000"] by (simp add: u64toa_def Let_def u32_id)
  next
    case 3
    define v0 v1 where "v0 = v div 100000000" and "v1 = v mod 100000000"
    have b: "0 < v0" "v0 < 100000000" "v1 < 100000000"
      using 3 by (simp_all add: v0_def v1_def div_greater_zero_iff less_mult_imp_div_less)
    have u: "u32 v0 = v0" "u32 v1 = v1" using b by (simp_all add: u32_id)
    have t: "(m * 100000000 \<le> v) = (m \<le> v0)" for m by (simp add: v0_def less_eq_div_iff_mult_less_eq)
    have "show_nat v = show_nat v0 @ pad8 v1" using show_nat_pad8 [OF 3(1)] by (simp add: v0_def v1_def)
    with lut_head16 [OF b(1,2)] lut_pad8 [OF b(3)] 3 show ?thesis
      using t [of 10000000] t [of 1000000] t [of 100000] t [of 10000] t [of 1000] t [of 100] t [of 10] t [of 1]
      by (simp add: u64toa_def Let_def u v0_def [symmetric] v1_def [symmetric])
  next
    case 4
    then show ?thesis using u64toa_high assms by blast
  qed
qed

text \<open>The pattern of a negative value, complemented and incremented, is its absolute value.\<close>

lemma complement_pattern:
  fixes v :: int
  assumes "- (2 ^ n) \<le> v" and "v < 0"
  shows "(2 ^ n - 1 - nat (v mod 2 ^ n) + 1) mod 2 ^ n = nat (- v) mod 2 ^ n"
proof (cases "v = - (2 ^ n)")
  case True
  then show ?thesis by (simp add: nat_power_eq)
next
  case False
  with assms have "(v + 2 ^ n) mod 2 ^ n = v + 2 ^ n" by (intro mod_pos_pos_trivial) auto
  then have e: "v mod 2 ^ n = v + 2 ^ n" by simp
  define m where "m = nat (v mod 2 ^ n)"
  have im: "int m = v + 2 ^ n" using assms e by (simp add: m_def)
  then have lt: "m < 2 ^ n" using assms(2) by (simp flip: of_nat_less_iff [where 'a = int])
  have "int (2 ^ n - m) = - v" using im lt by (simp add: of_nat_diff)
  then have "nat (- v) = 2 ^ n - m" by (metis nat_int)
  moreover have "2 ^ n - 1 - m + 1 = 2 ^ n - m" using lt by simp
  ultimately show ?thesis by (simp add: m_def)
qed

lemma i32toa_eq:
  assumes "- 2147483648 \<le> v" and "v < 2147483648"
  shows "i32toa v = show_int v"
proof (cases "v < 0")
  case True
  with assms complement_pattern [of 32 v] show ?thesis
    by (simp add: i32toa_def Let_def show_int_def u32toa_eq u32_def)
next
  case False
  with assms show ?thesis by (simp add: i32toa_def Let_def show_int_def u32toa_eq)
qed

lemma i64toa_eq:
  assumes "- 9223372036854775808 \<le> v" and "v < 9223372036854775808"
  shows "i64toa v = show_int v"
proof (cases "v < 0")
  case True
  with assms complement_pattern [of 64 v] show ?thesis
    by (simp add: i64toa_def Let_def show_int_def u64toa_eq)
next
  case False
  with assms show ?thesis by (simp add: i64toa_def Let_def show_int_def u64toa_eq)
qed

text \<open>
  C16. The table-driven printers are decimal printing. Each of the four routines writes, for every
  value of its type, exactly the decimal digits of the value without leading zeros, after a minus sign when it is negative; at
  most 10, 11, 20 and 20 characters; and reading them back gives the value.
\<close>

theorem itoa_prints:
  assumes "u < 2 ^ 32" and "- (2 ^ 31) \<le> i" and "i < 2 ^ 31" and "w < 2 ^ 64" and "- (2 ^ 63) \<le> j" and "j < 2 ^ 63"
  shows "u32toa u = show_nat u \<and> i32toa i = show_int i \<and> u64toa w = show_nat w \<and> i64toa j = show_int j \<and>
    length (u32toa u) \<le> 10 \<and> length (i32toa i) \<le> 11 \<and> length (u64toa w) \<le> 20 \<and> length (i64toa j) \<le> 20 \<and>
    atol (i32toa i) = i \<and> atol (i64toa j) = j"
proof -
  have p: "u32toa u = show_nat u" "i32toa i = show_int i" "u64toa w = show_nat w" "i64toa j = show_int j"
    using assms u32toa_eq [of u] i32toa_eq [of i] u64toa_eq [of w] i64toa_eq [of j] by simp_all
  have "length (show_nat u) \<le> 10" "length (show_nat w) \<le> 20"
    using assms by (intro length_show_nat; simp)+
  moreover have "length (show_nat (nat (- i))) \<le> 10" "length (show_nat (nat i)) \<le> 10"
      "length (show_nat (nat (- j))) \<le> 19" "length (show_nat (nat j)) \<le> 19"
    using assms by (intro length_show_nat; simp add: nat_less_iff)+
  moreover have "atol (show_int i) = i" "atol (show_int j) = j"
    using assms by (intro atol_show_int; simp add: LONG_MAX_def)+
  ultimately show ?thesis by (simp add: p show_int_def split: if_splits)
qed

theorem itoa_prints_witness:
  "u32toa 4294967295 = show_nat 4294967295 \<and> i32toa (- 2147483648) = show_int (- 2147483648) \<and>
   u64toa 100000000 = show_nat 100000000 \<and> atol (i64toa (- 9223372036854775808)) = - 9223372036854775808"
proof -
  have "(4294967295 :: nat) < 2 ^ 32" "- (2 ^ 31) \<le> (- 2147483648 :: int)" "(- 2147483648 :: int) < 2 ^ 31"
      "(100000000 :: nat) < 2 ^ 64" "- (2 ^ 63) \<le> (- 9223372036854775808 :: int)" "(- 9223372036854775808 :: int) < 2 ^ 63"
    by simp_all
  from itoa_prints [OF this] show ?thesis by blast
qed

end
