(* ===== verification/Encodings.thy ===== *)
theory Encodings
  imports Prelude
begin

text \<open>
  The Unicode encodings of the JSON library (\<open>rapidjson/encodings.h\<close> of the vendored brpc headers): UTF-8, UTF-16 and
  UTF-32, their byte orders, ASCII, and the transcoder between two of them. A stream is the list of its code
  units, naturals below the range of the unit's type; taking a unit past its end is a fault, as with the string
  stream of \<open>rapidjson.h\<close>, whose pointer then leaves the buffer. The writers return the units they put.
\<close>

unbundle bit_operations_syntax

section \<open>Streams\<close>

text \<open>\<open>GenericStringStream::Take\<close>.\<close>

fun take_unit :: "nat list \<Rightarrow> (nat \<times> nat list) result" where
  "take_unit [] = Inl Out_Of_Bounds"
| "take_unit (c # cs) = Inr (c, cs)"

text \<open>\<open>static_cast<Ch>\<close> for a unit of 8 bits.\<close>

definition byte :: "nat \<Rightarrow> nat" where
  "byte x = x mod 256"

section \<open>UTF-8\<close>

definition utf8_encode :: "nat \<Rightarrow> nat list result" where
  "utf8_encode cp =
     (if cp \<le> 0x7F then Inr [byte (cp AND 0xFF)]
      else if cp \<le> 0x7FF
      then Inr [byte (0xC0 OR (drop_bit 6 cp AND 0xFF)), byte (0x80 OR (cp AND 0x3F))]
      else if cp \<le> 0xFFFF
      then Inr [byte (0xE0 OR (drop_bit 12 cp AND 0xFF)), byte (0x80 OR (drop_bit 6 cp AND 0x3F)),
                byte (0x80 OR (cp AND 0x3F))]
      else
        bind_r (guard_r Assert_Failed (cp \<le> 0x10FFFF)) (\<lambda>_.
        Inr [byte (0xF0 OR (drop_bit 18 cp AND 0xFF)), byte (0x80 OR (drop_bit 12 cp AND 0x3F)),
             byte (0x80 OR (drop_bit 6 cp AND 0x3F)), byte (0x80 OR (cp AND 0x3F))]))"

text \<open>The table of \<open>GetRange\<close>, by rows of equal entries.\<close>

definition range_table :: "nat list" where
  "range_table =
     replicate 128 0 @ replicate 16 0x10 @ replicate 16 0x40 @ replicate 32 0x20 @
     [8, 8] @ replicate 30 2 @
     [10] @ replicate 12 3 @ [4] @ replicate 2 3 @
     [11] @ replicate 3 6 @ [5] @ replicate 11 8"

definition GetRange :: "nat \<Rightarrow> nat" where
  "GetRange c = range_table ! c"

text \<open>
  The masks of the \<open>TRANS\<close> and \<open>TAIL\<close> macros in each case of the switch on the first unit's range; none in the default
  case.
\<close>

definition tail_masks :: "nat \<Rightarrow> nat list option" where
  "tail_masks ty =
     (if ty = 2 then Some [0x70]
      else if ty = 3 then Some [0x70, 0x70]
      else if ty = 4 then Some [0x50, 0x70]
      else if ty = 5 then Some [0x10, 0x70, 0x70]
      else if ty = 6 then Some [0x70, 0x70, 0x70]
      else if ty = 10 then Some [0x20, 0x70]
      else if ty = 11 then Some [0x60, 0x70, 0x70]
      else None)"

text \<open>The sequence of \<open>COPY(); TRANS(mask)\<close>; the code point is an \<open>unsigned\<close> of 32 bits.\<close>

fun decode_tail :: "nat list \<Rightarrow> bool \<Rightarrow> nat \<Rightarrow> nat list \<Rightarrow> (bool \<times> nat \<times> nat list) result" where
  "decode_tail [] res cp inp = Inr (res, cp, inp)"
| "decode_tail (m # ms) res cp inp =
     bind_r (take_unit inp) (\<lambda>(c, inp1).
     decode_tail ms (res \<and> GetRange c AND m \<noteq> 0) ((push_bit 6 cp OR (c AND 0x3F)) mod 2 ^ 32) inp1)"

definition utf8_decode :: "nat list \<Rightarrow> (bool \<times> nat \<times> nat list) result" where
  "utf8_decode inp =
     bind_r (take_unit inp) (\<lambda>(c, inp1).
     if c AND 0x80 = 0 then Inr (True, c, inp1)
     else
       let ty = GetRange c; cp = drop_bit ty 0xFF AND c
       in case tail_masks ty of None \<Rightarrow> Inr (False, cp, inp1) | Some ms \<Rightarrow> decode_tail ms True cp inp1)"

fun validate_tail :: "nat list \<Rightarrow> bool \<Rightarrow> nat list \<Rightarrow> nat list \<Rightarrow> (bool \<times> nat list \<times> nat list) result" where
  "validate_tail [] res out inp = Inr (res, out, inp)"
| "validate_tail (m # ms) res out inp =
     bind_r (take_unit inp) (\<lambda>(c, inp1). validate_tail ms (res \<and> GetRange c AND m \<noteq> 0) (out @ [c]) inp1)"

text \<open>\<open>Validate\<close>: whether the sequence is valid, the units copied to the output, the rest of the input.\<close>

definition utf8_validate :: "nat list \<Rightarrow> (bool \<times> nat list \<times> nat list) result" where
  "utf8_validate inp =
     bind_r (take_unit inp) (\<lambda>(c, inp1).
     if c AND 0x80 = 0 then Inr (True, [c], inp1)
     else
       case tail_masks (GetRange c) of
         None \<Rightarrow> Inr (False, [c], inp1)
       | Some ms \<Rightarrow> validate_tail ms True [c] inp1)"

definition utf8_TakeBOM :: "nat list \<Rightarrow> (nat \<times> nat list) result" where
  "utf8_TakeBOM inp =
     bind_r (take_unit inp) (\<lambda>(c, i1).
     if c \<noteq> 0xEF then Inr (c, i1)
     else bind_r (take_unit i1) (\<lambda>(c, i2).
     if c \<noteq> 0xBB then Inr (c, i2)
     else bind_r (take_unit i2) (\<lambda>(c, i3).
     if c \<noteq> 0xBF then Inr (c, i3)
     else take_unit i3)))"

definition utf8_PutBOM :: "nat list" where
  "utf8_PutBOM = [0xEF, 0xBB, 0xBF]"

section \<open>UTF-16\<close>

definition utf16_encode :: "nat \<Rightarrow> nat list result" where
  "utf16_encode cp =
     (if cp \<le> 0xFFFF
      then bind_r (guard_r Assert_Failed (cp < 0xD800 \<or> 0xDFFF < cp)) (\<lambda>_. Inr [cp])
      else
        bind_r (guard_r Assert_Failed (cp \<le> 0x10FFFF)) (\<lambda>_.
        let v = cp - 0x10000
        in Inr [drop_bit 10 v OR 0xD800, (v AND 0x3FF) OR 0xDC00]))"

text \<open>On the last path the code point is left as it was; the model returns 0 with the failure.\<close>

definition utf16_decode :: "nat list \<Rightarrow> (bool \<times> nat \<times> nat list) result" where
  "utf16_decode inp =
     bind_r (take_unit inp) (\<lambda>(c, i1).
     if c < 0xD800 \<or> 0xDFFF < c then Inr (True, c, i1)
     else if c \<le> 0xDBFF
     then
       let cp = push_bit 10 (c AND 0x3FF) in
       bind_r (take_unit i1) (\<lambda>(c, i2).
       Inr (0xDC00 \<le> c \<and> c \<le> 0xDFFF, (cp OR (c AND 0x3FF)) + 0x10000, i2))
     else Inr (False, 0, i1))"

definition utf16_validate :: "nat list \<Rightarrow> (bool \<times> nat list \<times> nat list) result" where
  "utf16_validate inp =
     bind_r (take_unit inp) (\<lambda>(c, i1).
     if c < 0xD800 \<or> 0xDFFF < c then Inr (True, [c], i1)
     else if c \<le> 0xDBFF
     then bind_r (take_unit i1) (\<lambda>(d, i2). Inr (0xDC00 \<le> d \<and> d \<le> 0xDFFF, [c, d], i2))
     else Inr (False, [c], i1))"

definition utf16le_Take :: "nat list \<Rightarrow> (nat \<times> nat list) result" where
  "utf16le_Take inp =
     bind_r (take_unit inp) (\<lambda>(a, i1). bind_r (take_unit i1) (\<lambda>(b, i2). Inr (a OR push_bit 8 b, i2)))"

definition utf16be_Take :: "nat list \<Rightarrow> (nat \<times> nat list) result" where
  "utf16be_Take inp =
     bind_r (take_unit inp) (\<lambda>(a, i1). bind_r (take_unit i1) (\<lambda>(b, i2). Inr (push_bit 8 a OR b, i2)))"

definition utf16le_Put :: "nat \<Rightarrow> nat list" where
  "utf16le_Put c = [c AND 0xFF, drop_bit 8 c AND 0xFF]"

definition utf16be_Put :: "nat \<Rightarrow> nat list" where
  "utf16be_Put c = [drop_bit 8 c AND 0xFF, c AND 0xFF]"

definition utf16le_TakeBOM :: "nat list \<Rightarrow> (nat \<times> nat list) result" where
  "utf16le_TakeBOM inp = bind_r (utf16le_Take inp) (\<lambda>(c, i1). if c = 0xFEFF then utf16le_Take i1 else Inr (c, i1))"

definition utf16be_TakeBOM :: "nat list \<Rightarrow> (nat \<times> nat list) result" where
  "utf16be_TakeBOM inp = bind_r (utf16be_Take inp) (\<lambda>(c, i1). if c = 0xFEFF then utf16be_Take i1 else Inr (c, i1))"

definition utf16le_PutBOM :: "nat list" where
  "utf16le_PutBOM = [0xFF, 0xFE]"

definition utf16be_PutBOM :: "nat list" where
  "utf16be_PutBOM = [0xFE, 0xFF]"

section \<open>UTF-32 and ASCII\<close>

definition utf32_encode :: "nat \<Rightarrow> nat list result" where
  "utf32_encode cp = bind_r (guard_r Assert_Failed (cp \<le> 0x10FFFF)) (\<lambda>_. Inr [cp])"

definition utf32_decode :: "nat list \<Rightarrow> (bool \<times> nat \<times> nat list) result" where
  "utf32_decode inp = bind_r (take_unit inp) (\<lambda>(c, i1). Inr (c \<le> 0x10FFFF, c, i1))"

definition utf32_validate :: "nat list \<Rightarrow> (bool \<times> nat list \<times> nat list) result" where
  "utf32_validate inp = bind_r (take_unit inp) (\<lambda>(c, i1). Inr (c \<le> 0x10FFFF, [c], i1))"

definition utf32le_Take :: "nat list \<Rightarrow> (nat \<times> nat list) result" where
  "utf32le_Take inp =
     bind_r (take_unit inp) (\<lambda>(a, i1). bind_r (take_unit i1) (\<lambda>(b, i2).
     bind_r (take_unit i2) (\<lambda>(c, i3). bind_r (take_unit i3) (\<lambda>(d, i4).
     Inr (((a OR push_bit 8 b) OR push_bit 16 c) OR push_bit 24 d, i4)))))"

definition utf32be_Take :: "nat list \<Rightarrow> (nat \<times> nat list) result" where
  "utf32be_Take inp =
     bind_r (take_unit inp) (\<lambda>(a, i1). bind_r (take_unit i1) (\<lambda>(b, i2).
     bind_r (take_unit i2) (\<lambda>(c, i3). bind_r (take_unit i3) (\<lambda>(d, i4).
     Inr (((push_bit 24 a OR push_bit 16 b) OR push_bit 8 c) OR d, i4)))))"

definition utf32le_Put :: "nat \<Rightarrow> nat list" where
  "utf32le_Put c = [c AND 0xFF, drop_bit 8 c AND 0xFF, drop_bit 16 c AND 0xFF, drop_bit 24 c AND 0xFF]"

definition utf32be_Put :: "nat \<Rightarrow> nat list" where
  "utf32be_Put c = [drop_bit 24 c AND 0xFF, drop_bit 16 c AND 0xFF, drop_bit 8 c AND 0xFF, c AND 0xFF]"

definition utf32le_TakeBOM :: "nat list \<Rightarrow> (nat \<times> nat list) result" where
  "utf32le_TakeBOM inp = bind_r (utf32le_Take inp) (\<lambda>(c, i1). if c = 0xFEFF then utf32le_Take i1 else Inr (c, i1))"

definition utf32be_TakeBOM :: "nat list \<Rightarrow> (nat \<times> nat list) result" where
  "utf32be_TakeBOM inp = bind_r (utf32be_Take inp) (\<lambda>(c, i1). if c = 0xFEFF then utf32be_Take i1 else Inr (c, i1))"

definition utf32le_PutBOM :: "nat list" where
  "utf32le_PutBOM = [0xFF, 0xFE, 0, 0]"

definition utf32be_PutBOM :: "nat list" where
  "utf32be_PutBOM = [0, 0, 0xFE, 0xFF]"

definition ascii_encode :: "nat \<Rightarrow> nat list result" where
  "ascii_encode cp = bind_r (guard_r Assert_Failed (cp \<le> 0x7F)) (\<lambda>_. Inr [byte (cp AND 0xFF)])"

definition ascii_decode :: "nat list \<Rightarrow> (bool \<times> nat \<times> nat list) result" where
  "ascii_decode inp = bind_r (take_unit inp) (\<lambda>(c, i1). Inr (byte c \<le> 0x7F, byte c, i1))"

definition ascii_validate :: "nat list \<Rightarrow> (bool \<times> nat list \<times> nat list) result" where
  "ascii_validate inp = bind_r (take_unit inp) (\<lambda>(c, i1). Inr (byte c \<le> 0x7F, [byte c], i1))"

section \<open>The encoding chosen at run time\<close>

datatype UTFType = kUTF8 | kUTF16LE | kUTF16BE | kUTF32LE | kUTF32BE

text \<open>\<open>AutoUTF\<close>: each table has one function per encoding, and the byte orders inherit theirs from the encoding.\<close>

primrec auto_encode :: "UTFType \<Rightarrow> nat \<Rightarrow> nat list result" where
  "auto_encode kUTF8 = utf8_encode"
| "auto_encode kUTF16LE = utf16_encode"
| "auto_encode kUTF16BE = utf16_encode"
| "auto_encode kUTF32LE = utf32_encode"
| "auto_encode kUTF32BE = utf32_encode"

primrec auto_decode :: "UTFType \<Rightarrow> nat list \<Rightarrow> (bool \<times> nat \<times> nat list) result" where
  "auto_decode kUTF8 = utf8_decode"
| "auto_decode kUTF16LE = utf16_decode"
| "auto_decode kUTF16BE = utf16_decode"
| "auto_decode kUTF32LE = utf32_decode"
| "auto_decode kUTF32BE = utf32_decode"

primrec auto_validate :: "UTFType \<Rightarrow> nat list \<Rightarrow> (bool \<times> nat list \<times> nat list) result" where
  "auto_validate kUTF8 = utf8_validate"
| "auto_validate kUTF16LE = utf16_validate"
| "auto_validate kUTF16BE = utf16_validate"
| "auto_validate kUTF32LE = utf32_validate"
| "auto_validate kUTF32BE = utf32_validate"

section \<open>Transcoding\<close>

text \<open>\<open>Transcoder<Source, Target>::Transcode\<close> for different encodings: success, the units put, the rest.\<close>

definition transcode ::
  "(nat list \<Rightarrow> (bool \<times> nat \<times> nat list) result) \<Rightarrow> (nat \<Rightarrow> nat list result) \<Rightarrow> nat list
     \<Rightarrow> (bool \<times> nat list \<times> nat list) result" where
  "transcode decode encode inp =
     bind_r (decode inp) (\<lambda>(ok, cp, rest).
     if \<not> ok then Inr (False, [], rest)
     else bind_r (encode cp) (\<lambda>us. Inr (True, us, rest)))"

text \<open>The specialisation for one encoding copies a code unit.\<close>

definition transcode_same :: "nat list \<Rightarrow> (bool \<times> nat list \<times> nat list) result" where
  "transcode_same inp = bind_r (take_unit inp) (\<lambda>(c, rest). Inr (True, [c], rest))"

section \<open>Bit patterns as arithmetic\<close>

lemma or_add:
  fixes a z :: nat
  assumes "z < 2 ^ n"
  shows "(a * 2 ^ n) OR z = a * 2 ^ n + z"
proof -
  have "push_bit n a AND take_bit n z = 0"
    by (rule bit_eqI) (auto simp: bit_and_iff bit_push_bit_iff bit_take_bit_iff)
  then have "push_bit n a + take_bit n z = push_bit n a OR take_bit n z" by (rule disjunctive_add_eq_or)
  with assms show ?thesis by (simp add: push_bit_eq_mult take_bit_nat_eq_self)
qed

lemma and_mask:
  fixes x :: nat
  shows "x AND 0x3F = x mod 64" "x AND 0xFF = x mod 256" "x AND 0x3FF = x mod 1024" "0x3F AND x = x mod 64"
    "0x1F AND x = x mod 32" "0xF AND x = x mod 16" "7 AND x = x mod 8" "3 AND x = x mod 4"
proof -
  have m: "x AND mask n = x mod 2 ^ n" for n by (metis take_bit_eq_mask take_bit_eq_mod)
  show "x AND 0x3F = x mod 64" "x AND 0xFF = x mod 256" "x AND 0x3FF = x mod 1024" "0x3F AND x = x mod 64"
    "0x1F AND x = x mod 32" "0xF AND x = x mod 16" "7 AND x = x mod 8" "3 AND x = x mod 4"
    using m [of 6] m [of 8] m [of 10] m [of 5] m [of 4] m [of 3] m [of 2]
    by (simp_all add: mask_eq_exp_minus_1 and.commute [of _ x])
qed

lemma or_lead:
  fixes z :: nat
  shows "z < 64 \<Longrightarrow> 0x80 OR z = 128 + z" "z < 64 \<Longrightarrow> 0xC0 OR z = 192 + z"
    "z < 32 \<Longrightarrow> 0xE0 OR z = 224 + z" "z < 16 \<Longrightarrow> 0xF0 OR z = 240 + z"
    "z < 1024 \<Longrightarrow> z OR 0xD800 = 55296 + z" "z < 1024 \<Longrightarrow> z OR 0xDC00 = 56320 + z"
  using or_add [of z 6 2] or_add [of z 6 3] or_add [of z 5 7] or_add [of z 4 15] or_add [of z 10 54] or_add [of z 10 55]
  by (simp_all add: or.commute [of z])

lemma or_next: "push_bit 6 (y :: nat) OR (x AND 0x3F) = 64 * y + x mod 64"
  using or_add [of "x mod 64" 6 y] by (simp add: and_mask push_bit_eq_mult mult.commute)

lemma high_bit:
  assumes "c < 256"
  shows "(c :: nat) AND 0x80 = 0 \<longleftrightarrow> c < 128"
proof -
  have "c AND 2 ^ 7 = 0 \<longleftrightarrow> \<not> bit c 7" by (rule and_exp_eq_0_iff_not_bit)
  moreover have "bit c 7 \<longleftrightarrow> odd (c div 128)" by (simp add: bit_iff_odd)
  moreover have "c div 128 = (if c < 128 then 0 else 1)" using assms by (auto simp: div_nat_eqI)
  ultimately show ?thesis by (simp split: if_splits)
qed

lemma nth_replicate_append:
  "n \<le> c \<Longrightarrow> (replicate n x @ ys) ! c = ys ! (c - n)" "c < n \<Longrightarrow> (replicate n x @ ys) ! c = x"
  by (simp_all add: nth_append)

lemma nth_tail: "0 < c \<Longrightarrow> (x # ys) ! c = ys ! (c - 1)"
  by (simp add: nth_Cons')

lemmas table_simps = GetRange_def range_table_def nth_replicate_append nth_tail less_diff_conv2

lemma GetRange_values:
  "c < 128 \<Longrightarrow> GetRange c = 0"
  "128 \<le> c \<Longrightarrow> c < 144 \<Longrightarrow> GetRange c = 0x10"
  "144 \<le> c \<Longrightarrow> c < 160 \<Longrightarrow> GetRange c = 0x40"
  "160 \<le> c \<Longrightarrow> c < 192 \<Longrightarrow> GetRange c = 0x20"
  "GetRange 192 = 8" "GetRange 193 = 8"
  "194 \<le> c \<Longrightarrow> c < 224 \<Longrightarrow> GetRange c = 2"
  "GetRange 224 = 10"
  "225 \<le> c \<Longrightarrow> c < 237 \<Longrightarrow> GetRange c = 3"
  "GetRange 237 = 4"
  "238 \<le> c \<Longrightarrow> c < 240 \<Longrightarrow> GetRange c = 3"
  "GetRange 240 = 11"
  "241 \<le> c \<Longrightarrow> c < 244 \<Longrightarrow> GetRange c = 6"
  "GetRange 244 = 5"
  "245 \<le> c \<Longrightarrow> c < 256 \<Longrightarrow> GetRange c = 8"
  by (simp_all add: table_simps)

lemma range_cases [consumes 1]:
  assumes "c < 256"
  obtains "c < 128" "GetRange c = 0" | "128 \<le> c" "c < 144" "GetRange c = 0x10"
    | "144 \<le> c" "c < 160" "GetRange c = 0x40" | "160 \<le> c" "c < 192" "GetRange c = 0x20"
    | "192 \<le> c" "c < 194" "GetRange c = 8" | "194 \<le> c" "c < 224" "GetRange c = 2"
    | "c = 224" "GetRange c = 10" | "225 \<le> c" "c < 240" "c \<noteq> 237" "GetRange c = 3" | "c = 237" "GetRange c = 4"
    | "c = 240" "GetRange c = 11" | "241 \<le> c" "c < 244" "GetRange c = 6"
    | "c = 244" "GetRange c = 5" | "245 \<le> c" "GetRange c = 8"
proof -
  consider "c < 128" | "128 \<le> c" "c < 144" | "144 \<le> c" "c < 160" | "160 \<le> c" "c < 192" | "192 \<le> c" by linarith
  then show thesis
  proof cases
    case 1
    then show thesis using assms by (intro that(1)) (simp_all add: GetRange_values)
  next
    case 2
    then show thesis using assms by (intro that(2)) (simp_all add: GetRange_values)
  next
    case 3
    then show thesis using assms by (intro that(3)) (simp_all add: GetRange_values)
  next
    case 4
    then show thesis using assms by (intro that(4)) (simp_all add: GetRange_values)
  next
    case 5
    then consider "c = 192" | "c = 193" | "194 \<le> c" "c < 224" | "c = 224" | "225 \<le> c" "c < 237" | "237 \<le> c"
      by linarith
    then show thesis
    proof cases
      case 1
      then show thesis using assms by (intro that(5)) (simp_all add: GetRange_values)
    next
      case 2
      then show thesis using assms by (intro that(5)) (simp_all add: GetRange_values)
    next
      case 3
      then show thesis using assms by (intro that(6)) (simp_all add: GetRange_values)
    next
      case 4
      then show thesis using assms by (intro that(7)) (simp_all add: GetRange_values)
    next
      case 5
      then show thesis using assms by (intro that(8)) (simp_all add: GetRange_values)
    next
      case 6
      then consider "c = 237" | "238 \<le> c" "c < 240" | "c = 240" | "241 \<le> c" "c < 244" | "c = 244" | "245 \<le> c"
        by linarith
      then show thesis
      proof cases
        case 1
        then show thesis using assms by (intro that(9)) (simp_all add: GetRange_values)
      next
        case 2
        then show thesis using assms by (intro that(8)) (simp_all add: GetRange_values)
      next
        case 3
        then show thesis using assms by (intro that(10)) (simp_all add: GetRange_values)
      next
        case 4
        then show thesis using assms by (intro that(11)) (simp_all add: GetRange_values)
      next
        case 5
        then show thesis using assms by (intro that(12)) (simp_all add: GetRange_values)
      next
        case 6
        then show thesis using assms by (intro that(13)) (simp_all add: GetRange_values)
      qed
    qed
  qed
qed

text \<open>The units each mask accepts.\<close>

lemma mask_ranges:
  assumes "c < 256"
  shows "GetRange c AND 0x70 \<noteq> 0 \<longleftrightarrow> 128 \<le> c \<and> c < 192"
    and "GetRange c AND 0x50 \<noteq> 0 \<longleftrightarrow> 128 \<le> c \<and> c < 160"
    and "GetRange c AND 0x10 \<noteq> 0 \<longleftrightarrow> 128 \<le> c \<and> c < 144"
    and "GetRange c AND 0x20 \<noteq> 0 \<longleftrightarrow> 160 \<le> c \<and> c < 192"
    and "GetRange c AND 0x60 \<noteq> 0 \<longleftrightarrow> 144 \<le> c \<and> c < 192"
  using assms by (cases rule: range_cases; simp)+

section \<open>UTF-8 by its digits\<close>

text \<open>A code point written with digits to the base 64, as the encoder emits them.\<close>

lemma utf8_encode_1: "cp < 128 \<Longrightarrow> utf8_encode cp = Inr [cp]"
  by (simp add: utf8_encode_def and_mask byte_def)

lemma base64:
  fixes y z :: nat
  assumes "z < 64"
  shows "(64 * y + z) div 64 = y" and "(64 * y + z) mod 64 = z"
  using assms by simp_all

lemma drop_bits:
  "drop_bit 6 n = n div 64" "drop_bit 12 n = n div 64 div 64" "drop_bit 18 n = n div 64 div 64 div 64" for n :: nat
  by (simp_all add: drop_bit_eq_div div_mult2_eq [symmetric])

lemma utf8_encode_2:
  assumes "2 \<le> y" and "y < 32" and "z < 64"
  shows "utf8_encode (64 * y + z) = Inr [192 + y, 128 + z]"
proof -
  have "\<not> 64 * y + z \<le> 127" "64 * y + z \<le> 2047" using assms by linarith+
  with assms show ?thesis
    by (simp add: utf8_encode_def and_mask drop_bits base64 or_lead byte_def)
qed

lemma utf8_encode_3:
  assumes "a < 16" and "b < 64" and "z < 64" and "a = 0 \<Longrightarrow> 32 \<le> b"
  shows "utf8_encode (64 * (64 * a + b) + z) = Inr [224 + a, 128 + b, 128 + z]"
proof -
  define c where "c = 64 * (64 * a + b) + z"
  have "0 < a \<or> 32 \<le> b" using assms(4) by auto
  then have "\<not> c \<le> 2047" "\<not> c \<le> 127" "c \<le> 65535" using assms(1-3) by (auto simp: c_def)
  moreover have "c mod 64 = z" "c div 64 mod 64 = b" "c div 64 div 64 = a"
    by (simp_all only: c_def base64 assms)
  ultimately show ?thesis
    unfolding c_def [symmetric] using assms by (simp add: utf8_encode_def and_mask drop_bits or_lead byte_def)
qed

lemma utf8_encode_4:
  assumes "a < 5" and "b < 64" and "y < 64" and "z < 64" and "a = 0 \<Longrightarrow> 16 \<le> b" and "a = 4 \<Longrightarrow> b < 16"
  shows "utf8_encode (64 * (64 * (64 * a + b) + y) + z) = Inr [240 + a, 128 + b, 128 + y, 128 + z]"
proof -
  define c where "c = 64 * (64 * (64 * a + b) + y) + z"
  have "0 < a \<or> 16 \<le> b" "a \<le> 3 \<or> a = 4 \<and> b < 16" using assms by auto
  then have "65536 \<le> c" "c \<le> 1114111" using assms(1-4) by (auto simp: c_def)
  moreover have "c mod 64 = z" "c div 64 mod 64 = y" "c div 64 div 64 mod 64 = b" "c div 64 div 64 div 64 = a"
    by (simp_all only: c_def base64 assms)
  ultimately show ?thesis
    unfolding c_def [symmetric] using assms by (simp add: utf8_encode_def and_mask drop_bits or_lead byte_def)
qed

definition scalar :: "nat \<Rightarrow> bool" where
  "scalar cp \<longleftrightarrow> cp \<le> 0x10FFFF \<and> \<not> (0xD800 \<le> cp \<and> cp \<le> 0xDFFF)"

text \<open>Every scalar value has one of the four shapes.\<close>

lemma scalar_cases [consumes 1]:
  assumes "scalar cp"
  obtains "cp < 128"
    | y z where "cp = 64 * y + z" "2 \<le> y" "y < 32" "z < 64"
    | a b z where "cp = 64 * (64 * a + b) + z" "a < 16" "b < 64" "z < 64" "a = 0 \<Longrightarrow> 32 \<le> b" "a = 13 \<Longrightarrow> b < 32"
    | a b y z where "cp = 64 * (64 * (64 * a + b) + y) + z" "a < 5" "b < 64" "y < 64" "z < 64"
        "a = 0 \<Longrightarrow> 16 \<le> b" "a = 4 \<Longrightarrow> b < 16"
proof -
  define z y b a where "z = cp mod 64" and "y = cp div 64 mod 64" and "b = cp div 64 div 64 mod 64"
    and "a = cp div 64 div 64 div 64"
  have lt: "z < 64" "y < 64" "b < 64" by (simp_all add: z_def y_def b_def)
  have cp: "cp = 64 * (64 * (64 * a + b) + y) + z"
    unfolding z_def y_def b_def a_def by (simp only: mult_div_mod_eq)
  consider "cp < 128" | "128 \<le> cp" "cp < 2048" | "2048 \<le> cp" "cp < 65536" | "65536 \<le> cp" by linarith
  then show thesis
  proof cases
    case 1
    then show thesis by (rule that(1))
  next
    case 2
    then have "a < 1" "b < 1" using cp by simp_all
    then have "a = 0" "b = 0" by simp_all
    with 2 cp lt show thesis by (intro that(2) [of y z]) simp_all
  next
    case 3
    then have "a < 1" "b < 16" using cp by simp_all
    then have "a = 0" "b < 16" by simp_all
    moreover have "b = 13 \<Longrightarrow> y < 32" using assms cp lt \<open>a = 0\<close> by (simp add: scalar_def)
    moreover have "b = 0 \<Longrightarrow> 32 \<le> y" using 3 cp lt \<open>a = 0\<close> by simp
    ultimately show thesis using cp lt by (intro that(3) [of b y z]) simp_all
  next
    case 4
    have "cp \<le> 1114111" using assms by (simp add: scalar_def)
    then have "a < 5" "a = 4 \<Longrightarrow> b < 16" using cp by simp_all
    moreover have "a = 0 \<Longrightarrow> 16 \<le> b" using 4 cp lt by simp
    ultimately show thesis using cp lt by (intro that(4) [of a b y z]) simp_all
  qed
qed

section \<open>Decoding, by the shape of the sequence\<close>

lemma tail_step:
  assumes "cp < 2 ^ 24"
  shows "decode_tail (m # ms) res cp (c # inp) = decode_tail ms (res \<and> GetRange c AND m \<noteq> 0) (64 * cp + c mod 64) inp"
proof -
  have "c mod 64 < 64" by simp
  then have "64 * cp + c mod 64 < 2 ^ 32" using assms by simp
  then show ?thesis by (simp add: or_next)
qed

lemma decode_1: "c < 128 \<Longrightarrow> utf8_decode (c # r) = Inr (True, c, r)"
  using high_bit [of c] by (simp add: utf8_decode_def)

lemma decode_2:
  assumes "194 \<le> c" and "c < 224" and "d < 256"
  shows "utf8_decode (c # d # r) = Inr (128 \<le> d \<and> d < 192, 64 * (c - 192) + d mod 64, r)"
proof -
  have "c mod 64 = c - 192" using assms by (simp add: mod_nat_eqI)
  with assms high_bit [of c] mask_ranges(1) [of d] show ?thesis
    by (simp add: utf8_decode_def GetRange_values tail_masks_def and_mask tail_step del: decode_tail.simps(2))
qed

definition second_ok :: "nat \<Rightarrow> nat \<Rightarrow> bool" where
  "second_ok c d \<longleftrightarrow>
     (if c = 224 then 160 \<le> d \<and> d < 192
      else if c = 237 then 128 \<le> d \<and> d < 160
      else if c = 240 then 144 \<le> d \<and> d < 192
      else if c = 244 then 128 \<le> d \<and> d < 144
      else 128 \<le> d \<and> d < 192)"

lemma decode_3:
  assumes "224 \<le> c" and "c < 240" and "d < 256" and "e < 256"
  shows "utf8_decode (c # d # e # r) =
    Inr (second_ok c d \<and> 128 \<le> e \<and> e < 192, 64 * (64 * (c - 224) + d mod 64) + e mod 64, r)"
proof -
  have c: "\<not> c AND 0x80 = 0" "d mod 64 < 64" using assms high_bit [of c] by simp_all
  note t = tail_step [of _ _ _ _ d] tail_step [of _ _ _ _ e] mask_ranges [OF assms(3), unfolded neq0_conv] mask_ranges [OF assms(4), unfolded neq0_conv]
  consider "c = 224" | "c = 237" | "225 \<le> c" "c < 237" | "238 \<le> c" using assms by linarith
  then show ?thesis
  proof cases
    case 1
    with c show ?thesis
      by (simp add: utf8_decode_def GetRange_values tail_masks_def t second_ok_def del: decode_tail.simps(2))
  next
    case 2
    with c show ?thesis
      by (simp add: utf8_decode_def GetRange_values tail_masks_def t second_ok_def del: decode_tail.simps(2))
  next
    case 3
    then have "c mod 32 = c - 224" by (simp add: mod_nat_eqI)
    with c 3 show ?thesis
      by (simp add: utf8_decode_def GetRange_values tail_masks_def and_mask t second_ok_def del: decode_tail.simps(2))
  next
    case 4
    then have "c mod 32 = c - 224" using assms by (simp add: mod_nat_eqI)
    with c 4 assms(2) show ?thesis
      by (simp add: utf8_decode_def GetRange_values tail_masks_def and_mask t second_ok_def del: decode_tail.simps(2))
  qed
qed

lemma decode_4:
  assumes "240 \<le> c" and "c < 245" and "d < 256" and "e < 256" and "f < 256"
  shows "utf8_decode (c # d # e # f # r) =
    Inr (second_ok c d \<and> 128 \<le> e \<and> e < 192 \<and> 128 \<le> f \<and> f < 192,
         64 * (64 * (64 * (c - 240) + d mod 64) + e mod 64) + f mod 64, r)"
proof -
  have c: "\<not> c AND 0x80 = 0" "d mod 64 < 64" "e mod 64 < 64" using assms high_bit [of c] by simp_all
  note t = tail_step [of _ _ _ _ d] tail_step [of _ _ _ _ e] tail_step [of _ _ _ _ f]
    mask_ranges [OF assms(3), unfolded neq0_conv] mask_ranges [OF assms(4), unfolded neq0_conv] mask_ranges [OF assms(5), unfolded neq0_conv]
  consider "c = 240" | "c = 244" | "241 \<le> c" "c < 244" using assms by linarith
  then show ?thesis
  proof cases
    case 1
    with c show ?thesis
      by (simp add: utf8_decode_def GetRange_values tail_masks_def t second_ok_def conj_ac del: decode_tail.simps(2))
  next
    case 2
    with c show ?thesis
      by (simp add: utf8_decode_def GetRange_values tail_masks_def t second_ok_def conj_ac del: decode_tail.simps(2))
  next
    case 3
    then have "c mod 4 = c - 240" by (simp add: mod_nat_eqI)
    with c 3 show ?thesis
      by (simp add: utf8_decode_def GetRange_values tail_masks_def and_mask t second_ok_def conj_ac del: decode_tail.simps(2))
  qed
qed

text \<open>Every other first unit is refused.\<close>

lemma decode_bad:
  assumes "128 \<le> c" and "c < 194 \<or> 245 \<le> c" and "c < 256"
  shows "\<exists>cp. utf8_decode (c # r) = Inr (False, cp, r)"
proof -
  have c: "\<not> c AND 0x80 = 0" using assms high_bit [of c] by simp
  have "tail_masks (GetRange c) = None"
    using assms(3,1,2) by (cases rule: range_cases) (simp_all add: tail_masks_def)
  with c show ?thesis by (simp add: utf8_decode_def Let_def)
qed

section \<open>The contract of an encoding\<close>

text \<open>
  An encoding represents each valid code point by a sequence of units from which it can be
  decoded whatever follows, and decodes nothing else. Clients put whole texts one code point after another.
\<close>

fun encode_all :: "(nat \<Rightarrow> nat list result) \<Rightarrow> nat list \<Rightarrow> nat list result" where
  "encode_all encode [] = Inr []"
| "encode_all encode (cp # cps) =
     bind_r (encode cp) (\<lambda>us. bind_r (encode_all encode cps) (\<lambda>vs. Inr (us @ vs)))"

text \<open>Calling \<open>Transcode\<close> until the input is used up, at most \<open>n\<close> times.\<close>

fun transcode_all ::
  "nat \<Rightarrow> (nat list \<Rightarrow> (bool \<times> nat \<times> nat list) result) \<Rightarrow> (nat \<Rightarrow> nat list result) \<Rightarrow> nat list \<Rightarrow> (bool \<times> nat list) result" where
  "transcode_all n decode encode [] = Inr (True, [])"
| "transcode_all 0 decode encode inp = Inr (False, [])"
| "transcode_all (Suc n) decode encode inp =
     bind_r (transcode decode encode inp) (\<lambda>(ok, us, rest).
     if \<not> ok then Inr (False, us)
     else bind_r (transcode_all n decode encode rest) (\<lambda>(ok', vs). Inr (ok', us @ vs)))"

locale encoding =
  fixes valid :: "nat \<Rightarrow> bool"
    and unit_ok :: "nat \<Rightarrow> bool"
    and encode :: "nat \<Rightarrow> nat list result"
    and decode :: "nat list \<Rightarrow> (bool \<times> nat \<times> nat list) result"
  assumes encode_total: "valid cp \<Longrightarrow> \<exists>us. encode cp = Inr us \<and> us \<noteq> [] \<and> (\<forall>u \<in> set us. unit_ok u)"
    and decode_encode: "valid cp \<Longrightarrow> encode cp = Inr us \<Longrightarrow> decode (us @ rest) = Inr (True, cp, rest)"
    and decode_sound: "decode inp = Inr (True, cp, rest) \<Longrightarrow> \<forall>u \<in> set inp. unit_ok u \<Longrightarrow>
      valid cp \<and> (\<exists>us. encode cp = Inr us \<and> inp = us @ rest)"
begin

lemma decode_iff:
  assumes "\<forall>u \<in> set inp. unit_ok u"
  shows "decode inp = Inr (True, cp, rest) \<longleftrightarrow> valid cp \<and> (\<exists>us. encode cp = Inr us \<and> inp = us @ rest)"
  using decode_sound [OF _ assms] decode_encode by auto

lemma encode_all_total: "\<forall>cp \<in> set cps. valid cp \<Longrightarrow> \<exists>us. encode_all encode cps = Inr us \<and> length cps \<le> length us"
proof (induction cps)
  case (Cons cp cps)
  then obtain us vs where "encode cp = Inr us" "us \<noteq> []" "encode_all encode cps = Inr vs" "length cps \<le> length vs"
    using encode_total [of cp] by auto
  then show ?case by (cases us) auto
qed simp

text \<open>The encoding of a text determines the text.\<close>

lemma encode_all_inj:
  "\<forall>cp \<in> set cps. valid cp \<Longrightarrow> \<forall>cp \<in> set ds. valid cp \<Longrightarrow>
   encode_all encode cps = Inr us \<Longrightarrow> encode_all encode ds = Inr us \<Longrightarrow> cps = ds"
proof (induction cps arbitrary: ds us)
  case Nil
  then show ?case using encode_total by (cases ds) fastforce+
next
  case (Cons c cps)
  then obtain u1 u2 where u: "encode c = Inr u1" "encode_all encode cps = Inr u2" "us = u1 @ u2" by auto
  then have d: "decode us = Inr (True, c, u2)" using decode_encode Cons.prems by simp
  show ?case
  proof (cases ds)
    case Nil
    then show ?thesis using Cons.prems u encode_total [of c] by auto
  next
    case (Cons e es)
    then obtain v1 v2 where v: "encode e = Inr v1" "encode_all encode es = Inr v2" "us = v1 @ v2"
      using Cons.prems(4) by auto
    then have "decode us = Inr (True, e, v2)" using decode_encode Cons.prems Cons by simp
    with d have "c = e" "u2 = v2" by simp_all
    with Cons Cons.IH [of es u2] Cons.prems u v show ?thesis by simp
  qed
qed

end

locale transcoder = src: encoding valid1 unit1 encode1 decode1 + dst: encoding valid2 unit2 encode2 decode2
  for valid1 unit1 encode1 decode1 valid2 unit2 encode2 decode2 +
  assumes valid_mono: "valid1 cp \<Longrightarrow> valid2 cp"
begin

lemma transcode_text:
  "\<forall>cp \<in> set cps. valid1 cp \<Longrightarrow> encode_all encode1 cps = Inr us \<Longrightarrow> length cps \<le> n \<Longrightarrow>
   \<exists>vs. encode_all encode2 cps = Inr vs \<and> transcode_all n decode1 encode2 us = Inr (True, vs)"
proof (induction cps arbitrary: us n)
  case (Cons cp cps)
  then obtain u1 u2 m where u: "encode1 cp = Inr u1" "encode_all encode1 cps = Inr u2" "us = u1 @ u2" "n = Suc m"
    by (cases n) auto
  obtain w where w: "encode2 cp = Inr w" using Cons.prems(1) valid_mono dst.encode_total by fastforce
  obtain v where v: "encode_all encode2 cps = Inr v" "transcode_all m decode1 encode2 u2 = Inr (True, v)"
    using Cons.IH [of u2 m] Cons.prems u by auto
  have "us \<noteq> []" using u Cons.prems(1) src.encode_total [of cp] by auto
  then obtain x xs where "us = x # xs" by (cases us) auto
  moreover have "decode1 us = Inr (True, cp, u2)" using u Cons.prems(1) src.decode_encode by simp
  ultimately show ?case using u v w by (simp add: transcode_def)
qed simp

text \<open>A unit sequence that is not an encoding is not transcoded.\<close>

lemma transcode_iff:
  assumes "\<forall>u \<in> set inp. unit1 u"
  shows "transcode decode1 encode2 inp = Inr (True, vs, rest) \<longleftrightarrow>
    (\<exists>cp us. valid1 cp \<and> encode1 cp = Inr us \<and> encode2 cp = Inr vs \<and> inp = us @ rest)"
  using src.decode_iff [OF assms] by (fastforce simp: transcode_def split: if_splits)

end

section \<open>The encodings provide the contract\<close>

lemma mod64_add: "z < 64 \<Longrightarrow> (128 + z) mod 64 = (z :: nat)"
  by (simp add: mod_nat_eqI)

lemma utf8_encode_ok:
  assumes "scalar cp"
  shows "\<exists>us. utf8_encode cp = Inr us \<and> us \<noteq> [] \<and> (\<forall>u \<in> set us. u < 256) \<and>
    (\<forall>rest. utf8_decode (us @ rest) = Inr (True, cp, rest))"
  using assms
proof (cases rule: scalar_cases)
  case 1
  then show ?thesis by (simp add: utf8_encode_1 decode_1)
next
  case (2 y z)
  then show ?thesis using utf8_encode_2 [of y z] by (simp add: decode_2 mod64_add)
next
  case (3 a b z)
  have "second_ok (224 + a) (128 + b)" using 3 by (auto simp: second_ok_def)
  with 3 show ?thesis using utf8_encode_3 [of a b z] by (simp add: decode_3 mod64_add)
next
  case (4 a b y z)
  have "second_ok (240 + a) (128 + b)" using 4 by (auto simp: second_ok_def)
  with 4 show ?thesis using utf8_encode_4 [of a b y z] by (simp add: decode_4 mod64_add)
qed

lemma mod64_sub: "128 \<le> (d :: nat) \<Longrightarrow> d < 192 \<Longrightarrow> d mod 64 = d - 128"
  by (simp add: mod_nat_eqI)

lemma second_ok_bounds:
  assumes "second_ok c d"
  shows "128 \<le> d" and "d < 192"
  using assms by (auto simp: second_ok_def split: if_splits)

lemma utf8_take_tail:
  assumes "utf8_decode (c # inp) = Inr (True, cp, rest)" and "c < 256"
  obtains "c < 128"
    | d where "inp = d # rest" "194 \<le> c" "c < 224"
    | d e where "inp = d # e # rest" "224 \<le> c" "c < 240"
    | d e f where "inp = d # e # f # rest" "240 \<le> c" "c < 245"
proof -
  have bad: "\<not> (128 \<le> c \<and> (c < 194 \<or> 245 \<le> c))" using decode_bad [of c inp] assms by auto
  have nz: "128 \<le> c \<Longrightarrow> \<not> c AND 0x80 = 0" using assms high_bit [of c] by simp
  show thesis
    using assms(2)
  proof (cases rule: range_cases)
    case 1
    then show thesis using that(1) by blast
  next
    case 6
    with assms nz show thesis
      by (cases inp) (auto simp: utf8_decode_def tail_masks_def Let_def intro: that(2))
  next
    case 7
    with assms nz show thesis
      by (cases inp; cases "tl inp") (auto simp: utf8_decode_def tail_masks_def Let_def intro: that(3))
  next
    case 8
    with assms nz show thesis
      by (cases inp; cases "tl inp") (auto simp: utf8_decode_def tail_masks_def Let_def intro: that(3))
  next
    case 9
    with assms nz show thesis
      by (cases inp; cases "tl inp") (auto simp: utf8_decode_def tail_masks_def Let_def intro: that(3))
  next
    case 10
    with assms nz show thesis
      by (cases inp; cases "tl inp"; cases "tl (tl inp)") (auto simp: utf8_decode_def tail_masks_def Let_def intro: that(4))
  next
    case 11
    with assms nz show thesis
      by (cases inp; cases "tl inp"; cases "tl (tl inp)") (auto simp: utf8_decode_def tail_masks_def Let_def intro: that(4))
  next
    case 12
    with assms nz show thesis
      by (cases inp; cases "tl inp"; cases "tl (tl inp)") (auto simp: utf8_decode_def tail_masks_def Let_def intro: that(4))
  qed (use bad in auto)
qed

lemma scalar_3:
  assumes "a < 16" and "b < 64" and "z < 64" and "a = 13 \<Longrightarrow> b < 32"
  shows "scalar (64 * (64 * a + b) + z)"
proof -
  consider "a \<le> 12" | "a = 13" "b < 32" | "14 \<le> a" using assms(4) by linarith
  then show ?thesis using assms(1-3) by cases (auto simp: scalar_def)
qed

lemma scalar_4:
  assumes "a < 5" and "b < 64" and "y < 64" and "z < 64" and "a = 0 \<Longrightarrow> 16 \<le> b" and "a = 4 \<Longrightarrow> b < 16"
  shows "scalar (64 * (64 * (64 * a + b) + y) + z)"
proof -
  have "0 < a \<or> 16 \<le> b" "a \<le> 3 \<or> a = 4 \<and> b < 16" using assms by auto
  then show ?thesis using assms(1-4) by (auto simp: scalar_def)
qed

lemma utf8_decode_ok:
  assumes "utf8_decode inp = Inr (True, cp, rest)" and "\<forall>u \<in> set inp. u < 256"
  shows "scalar cp \<and> (\<exists>us. utf8_encode cp = Inr us \<and> inp = us @ rest)"
proof (cases inp)
  case Nil
  with assms(1) show ?thesis by (simp add: utf8_decode_def)
next
  case (Cons c tl)
  with assms have dec: "utf8_decode (c # tl) = Inr (True, cp, rest)" and c: "c < 256" by simp_all
  show ?thesis
    using dec c
  proof (cases rule: utf8_take_tail)
    case 1
    with dec Cons show ?thesis by (auto simp: decode_1 utf8_encode_1 scalar_def)
  next
    case (2 d)
    with assms(2) dec decode_2 [OF 2(2,3), of d rest] Cons have
      d: "128 \<le> d" "d < 192" "cp = 64 * (c - 192) + (d - 128)" by (auto simp: mod64_sub)
    with 2 utf8_encode_2 [of "c - 192" "d - 128"] Cons show ?thesis by (auto simp: scalar_def)
  next
    case (3 d e)
    with assms(2) dec decode_3 [OF 3(2,3), of d e rest] Cons have
      d: "second_ok c d" "128 \<le> e" "e < 192" "cp = 64 * (64 * (c - 224) + d mod 64) + e mod 64" by auto
    define x y z where "x = c - 224" and "y = d - 128" and "z = e - 128"
    have xyz: "c = 224 + x" "d = 128 + y" "e = 128 + z" "x < 16" "y < 64" "z < 64"
      using 3 d second_ok_bounds [OF d(1)] by (simp_all add: x_def y_def z_def)
    then have cp: "cp = 64 * (64 * x + y) + z" using d(4) by (simp only: add_diff_cancel_left' mod64_add)
    have s: "x = 0 \<Longrightarrow> 32 \<le> y" "x = 13 \<Longrightarrow> y < 32"
      using d(1) by (simp_all add: second_ok_def xyz)
    show ?thesis
      unfolding cp using utf8_encode_3 [OF xyz(4-6) s(1)] scalar_3 [OF xyz(4-6) s(2)] 3(1) Cons xyz(1-3) by simp
  next
    case (4 d e f)
    with assms(2) dec decode_4 [OF 4(2,3), of d e f rest] Cons have
      d: "second_ok c d" "128 \<le> e" "e < 192" "128 \<le> f" "f < 192"
        "cp = 64 * (64 * (64 * (c - 240) + d mod 64) + e mod 64) + f mod 64" by auto
    define w x y z where "w = c - 240" and "x = d - 128" and "y = e - 128" and "z = f - 128"
    have xyz: "c = 240 + w" "d = 128 + x" "e = 128 + y" "f = 128 + z" "w < 5" "x < 64" "y < 64" "z < 64"
      using 4 d second_ok_bounds [OF d(1)] by (simp_all add: w_def x_def y_def z_def)
    then have cp: "cp = 64 * (64 * (64 * w + x) + y) + z" using d(6) by (simp only: add_diff_cancel_left' mod64_add)
    have s: "w = 0 \<Longrightarrow> 16 \<le> x" "w = 4 \<Longrightarrow> x < 16"
      using d(1) by (simp_all add: second_ok_def xyz)
    show ?thesis
      unfolding cp using utf8_encode_4 [OF xyz(5-8) s] scalar_4 [OF xyz(5-8) s] 4(1) Cons xyz(1-4) by simp
  qed
qed

interpretation utf8: encoding scalar "\<lambda>u. u < 256" utf8_encode utf8_decode
proof
  fix cp us rest inp
  show "scalar cp \<Longrightarrow> \<exists>us. utf8_encode cp = Inr us \<and> us \<noteq> [] \<and> (\<forall>u \<in> set us. u < 256)"
    using utf8_encode_ok by blast
  show "scalar cp \<Longrightarrow> utf8_encode cp = Inr us \<Longrightarrow> utf8_decode (us @ rest) = Inr (True, cp, rest)"
    using utf8_encode_ok [of cp] by auto
  show "utf8_decode inp = Inr (True, cp, rest) \<Longrightarrow> \<forall>u \<in> set inp. u < 256 \<Longrightarrow>
      scalar cp \<and> (\<exists>us. utf8_encode cp = Inr us \<and> inp = us @ rest)"
    by (rule utf8_decode_ok)
qed

lemma or_next10: "y < 1024 \<Longrightarrow> z < 1024 \<Longrightarrow> push_bit 10 (y :: nat) OR z = 1024 * y + z"
  using or_add [of z 10 y] by (simp add: push_bit_eq_mult mult.commute)

lemma utf16_pair:
  assumes "y < 1024" and "z < 1024"
  shows "utf16_encode (65536 + (1024 * y + z)) = Inr [55296 + y, 56320 + z]"
    and "utf16_decode ((55296 + y) # (56320 + z) # rest) = Inr (True, 65536 + (1024 * y + z), rest)"
proof -
  have "65536 + (1024 * y + z) \<le> 1114111" using assms by simp
  moreover have "drop_bit 10 (1024 * y + z) = y" "(1024 * y + z) mod 1024 = z"
    using assms by (simp_all add: drop_bit_eq_div)
  ultimately show "utf16_encode (65536 + (1024 * y + z)) = Inr [55296 + y, 56320 + z]"
    using assms by (simp add: utf16_encode_def Let_def and_mask or_lead)
  have "(55296 + y) mod 1024 = y" "(56320 + z) mod 1024 = z" using assms by (simp_all add: mod_nat_eqI)
  then show "utf16_decode ((55296 + y) # (56320 + z) # rest) = Inr (True, 65536 + (1024 * y + z), rest)"
    using assms or_next10 [OF assms] by (simp add: utf16_decode_def Let_def and_mask)
qed

lemma utf16_single:
  assumes "cp < 65536" and "scalar cp"
  shows "utf16_encode cp = Inr [cp]" and "utf16_decode (cp # rest) = Inr (True, cp, rest)"
  using assms by (auto simp: scalar_def utf16_encode_def utf16_decode_def)

lemma utf16_high:
  assumes "scalar cp" and "65536 \<le> cp"
  obtains y z where "y < 1024" "z < 1024" "cp = 65536 + (1024 * y + z)"
proof -
  have "cp - 65536 < 1048576" using assms by (simp add: scalar_def)
  then have "(cp - 65536) div 1024 < 1024" "(cp - 65536) mod 1024 < 1024" by (simp_all add: less_mult_imp_div_less)
  moreover have "cp = 65536 + (1024 * ((cp - 65536) div 1024) + (cp - 65536) mod 1024)" using assms(2) by simp
  ultimately show thesis by (rule that)
qed

lemma utf16_decode_ok:
  assumes "utf16_decode inp = Inr (True, cp, rest)" and "\<forall>u \<in> set inp. u < 65536"
  shows "scalar cp \<and> (\<exists>us. utf16_encode cp = Inr us \<and> inp = us @ rest)"
proof (cases inp)
  case Nil
  with assms(1) show ?thesis by (simp add: utf16_decode_def)
next
  case (Cons c tl)
  show ?thesis
  proof (cases "c < 0xD800 \<or> 0xDFFF < c")
    case True
    with Cons assms have "cp = c" "rest = tl" "scalar c" "c < 65536"
      by (auto simp: utf16_decode_def scalar_def)
    with utf16_single(1) Cons show ?thesis by auto
  next
    case False
    then obtain d where d: "tl = d # rest" "c \<le> 0xDBFF" "0xDC00 \<le> d" "d \<le> 0xDFFF"
      using Cons assms(1) by (cases tl) (auto simp: utf16_decode_def Let_def split: if_splits)
    define y z where "y = c - 55296" and "z = d - 56320"
    have "y < 1024" "z < 1024" "c = 55296 + y" "d = 56320 + z" using d False by (auto simp: y_def z_def)
    moreover from this have "cp = 65536 + (1024 * y + z)"
      using assms(1) Cons d(1) utf16_pair(2) [of y z rest] by simp
    ultimately show ?thesis using utf16_pair(1) [of y z] Cons d(1) by (auto simp: scalar_def)
  qed
qed

interpretation utf16: encoding scalar "\<lambda>u. u < 65536" utf16_encode utf16_decode
proof
  fix cp us rest inp
  show "scalar cp \<Longrightarrow> \<exists>us. utf16_encode cp = Inr us \<and> us \<noteq> [] \<and> (\<forall>u \<in> set us. u < 65536)"
    using utf16_single(1) [of cp] utf16_pair(1) by (cases "cp < 65536") (auto elim!: utf16_high)
  show "scalar cp \<Longrightarrow> utf16_encode cp = Inr us \<Longrightarrow> utf16_decode (us @ rest) = Inr (True, cp, rest)"
    using utf16_single [of cp] utf16_pair by (cases "cp < 65536") (auto elim!: utf16_high)
  show "utf16_decode inp = Inr (True, cp, rest) \<Longrightarrow> \<forall>u \<in> set inp. u < 65536 \<Longrightarrow>
      scalar cp \<and> (\<exists>us. utf16_encode cp = Inr us \<and> inp = us @ rest)"
    by (rule utf16_decode_ok)
qed

interpretation utf32: encoding "\<lambda>cp. cp \<le> 0x10FFFF" "\<lambda>u. True" utf32_encode utf32_decode
proof
  fix cp us rest inp
  show "cp \<le> 0x10FFFF \<Longrightarrow> \<exists>us. utf32_encode cp = Inr us \<and> us \<noteq> [] \<and> (\<forall>u \<in> set us. True)"
    by (simp add: utf32_encode_def)
  show "cp \<le> 0x10FFFF \<Longrightarrow> utf32_encode cp = Inr us \<Longrightarrow> utf32_decode (us @ rest) = Inr (True, cp, rest)"
    by (auto simp: utf32_encode_def utf32_decode_def)
  show "utf32_decode inp = Inr (True, cp, rest) \<Longrightarrow> \<forall>u \<in> set inp. True \<Longrightarrow>
      cp \<le> 0x10FFFF \<and> (\<exists>us. utf32_encode cp = Inr us \<and> inp = us @ rest)"
    by (cases inp) (auto simp: utf32_encode_def utf32_decode_def)
qed

interpretation ascii: encoding "\<lambda>cp. cp \<le> 0x7F" "\<lambda>u. u < 256" ascii_encode ascii_decode
proof
  fix cp us rest inp
  show "cp \<le> 0x7F \<Longrightarrow> \<exists>us. ascii_encode cp = Inr us \<and> us \<noteq> [] \<and> (\<forall>u \<in> set us. u < 256)"
    by (simp add: ascii_encode_def byte_def)
  show "cp \<le> 0x7F \<Longrightarrow> ascii_encode cp = Inr us \<Longrightarrow> ascii_decode (us @ rest) = Inr (True, cp, rest)"
    by (auto simp: ascii_encode_def ascii_decode_def byte_def and_mask)
  show "ascii_decode inp = Inr (True, cp, rest) \<Longrightarrow> \<forall>u \<in> set inp. u < 256 \<Longrightarrow>
      cp \<le> 0x7F \<and> (\<exists>us. ascii_encode cp = Inr us \<and> inp = us @ rest)"
    by (cases inp) (auto simp: ascii_encode_def ascii_decode_def byte_def and_mask)
qed

interpretation utf8_utf16: transcoder scalar "\<lambda>u. u < 256" utf8_encode utf8_decode
  scalar "\<lambda>u. u < 65536" utf16_encode utf16_decode
  by unfold_locales

interpretation utf16_utf8: transcoder scalar "\<lambda>u. u < 65536" utf16_encode utf16_decode
  scalar "\<lambda>u. u < 256" utf8_encode utf8_decode
  by unfold_locales

interpretation utf8_utf32: transcoder scalar "\<lambda>u. u < 256" utf8_encode utf8_decode
  "\<lambda>cp. cp \<le> 0x10FFFF" "\<lambda>u. True" utf32_encode utf32_decode
  by unfold_locales (simp add: scalar_def)

section \<open>Validation and byte order\<close>

lemma validate_tail_decode:
  "validate_tail ms res out inp =
     (case decode_tail ms res cp inp of
        Inl e \<Rightarrow> Inl e
      | Inr (ok, _, rest) \<Rightarrow> Inr (ok, out @ take (length inp - length rest) inp, rest)) \<and>
   (\<forall>ok cp' rest. decode_tail ms res cp inp = Inr (ok, cp', rest) \<longrightarrow> length rest \<le> length inp)"
proof (induction ms arbitrary: res out cp inp)
  case (Cons m ms)
  show ?case
  proof (cases inp)
    case (Cons c tl)
    let ?cp = "(push_bit 6 cp OR (c AND 0x3F)) mod 2 ^ 32" and ?r = "res \<and> GetRange c AND m \<noteq> 0"
    from Cons.IH [of ?r "out @ [c]" tl ?cp] Cons show ?thesis
      by (cases "decode_tail ms ?r ?cp tl") (auto simp: Suc_diff_le)
  qed simp
qed simp

text \<open>\<open>Validate\<close> accepts what \<open>Decode\<close> accepts, takes the same units and copies them.\<close>

lemma utf8_validate_decode:
  "utf8_validate inp =
     (case utf8_decode inp of
        Inl e \<Rightarrow> Inl e
      | Inr (ok, _, rest) \<Rightarrow> Inr (ok, take (length inp - length rest) inp, rest))"
proof (cases inp)
  case Nil
  then show ?thesis by (simp add: utf8_validate_def utf8_decode_def)
next
  case (Cons c tl)
  show ?thesis
  proof (cases "tail_masks (GetRange c)")
    case None
    with Cons show ?thesis by (simp add: utf8_validate_def utf8_decode_def Let_def)
  next
    case (Some ms)
    from Cons Some validate_tail_decode [of ms True "[c]" tl "drop_bit (GetRange c) 0xFF AND c"] show ?thesis
      by (cases "decode_tail ms True (drop_bit (GetRange c) 0xFF AND c) tl")
         (auto simp: utf8_validate_def utf8_decode_def Let_def Suc_diff_le)
  qed
qed

lemma byte_pair:
  fixes a b :: nat
  assumes "a < 256"
  shows "a OR push_bit 8 b = 256 * b + a" and "push_bit 8 b OR a = 256 * b + a"
  using or_add [of a 8 b] assms by (simp_all add: push_bit_eq_mult mult.commute or.commute)

lemma utf16_bytes:
  assumes "c < 65536"
  shows "utf16le_Take (utf16le_Put c @ rest) = Inr (c, rest)" and "utf16be_Take (utf16be_Put c @ rest) = Inr (c, rest)"
proof -
  have "c div 256 < 256" using assms by (simp add: less_mult_imp_div_less)
  then have "256 * (c div 256 mod 256) + c mod 256 = c" by simp
  then show "utf16le_Take (utf16le_Put c @ rest) = Inr (c, rest)" and "utf16be_Take (utf16be_Put c @ rest) = Inr (c, rest)"
    by (simp_all add: utf16le_Take_def utf16be_Take_def utf16le_Put_def utf16be_Put_def and_mask byte_pair drop_bit_eq_div)
qed

lemma byte_quad:
  fixes a b c d :: nat
  assumes "a < 256" "b < 256" "c < 256"
  shows "((a OR push_bit 8 b) OR push_bit 16 c) OR push_bit 24 d = a + 256 * b + 65536 * c + 16777216 * d"
    and "((push_bit 24 d OR push_bit 16 c) OR push_bit 8 b) OR a = a + 256 * b + 65536 * c + 16777216 * d"
proof -
  have ba: "push_bit 8 b OR a = 256 * b + a" using byte_pair assms(1) by blast
  have cba: "push_bit 16 c OR (256 * b + a) = 65536 * c + (256 * b + a)"
    using or_add [of "256 * b + a" 16 c] assms by (simp add: push_bit_eq_mult mult.commute)
  have dcba: "push_bit 24 d OR (65536 * c + (256 * b + a)) = 16777216 * d + (65536 * c + (256 * b + a))"
    using or_add [of "65536 * c + (256 * b + a)" 24 d] assms by (simp add: push_bit_eq_mult mult.commute)
  have "((push_bit 24 d OR push_bit 16 c) OR push_bit 8 b) OR a = push_bit 24 d OR (push_bit 16 c OR (push_bit 8 b OR a))"
    by (simp only: or.assoc)
  also have "\<dots> = a + 256 * b + 65536 * c + 16777216 * d" unfolding ba cba dcba by simp
  finally show "((push_bit 24 d OR push_bit 16 c) OR push_bit 8 b) OR a = a + 256 * b + 65536 * c + 16777216 * d" .
  then show "((a OR push_bit 8 b) OR push_bit 16 c) OR push_bit 24 d = a + 256 * b + 65536 * c + 16777216 * d"
    by (simp only: or.commute or.left_commute)
qed

lemma byte_quad_split: "c < 4294967296 \<Longrightarrow>
  c mod 256 + 256 * (c div 256 mod 256) + 65536 * (c div 65536 mod 256) + 16777216 * (c div 16777216 mod 256) = (c :: nat)"
proof -
  assume c: "c < 4294967296"
  have 1: "c = 256 * (c div 256) + c mod 256" by simp
  have 2: "c div 256 = 256 * (c div 65536) + c div 256 mod 256" using div_mult2_eq [of c 256 256] by simp
  have 3: "c div 65536 = 256 * (c div 16777216) + c div 65536 mod 256" using div_mult2_eq [of c 65536 256] by simp
  have 4: "c div 16777216 < 256" using c by (simp add: less_mult_imp_div_less)
  from 4 have "c div 16777216 mod 256 = c div 16777216" by (rule mod_less)
  moreover have "r + 256 * u + 65536 * v + 16777216 * w = c" if "c = 256 * x + r" "x = 256 * y + u" "y = 256 * w + v" for r u v w x y
    using that by simp
  ultimately show ?thesis using 1 2 3 by metis
qed

lemma utf32_bytes:
  assumes "c < 4294967296"
  shows "utf32le_Take (utf32le_Put c @ rest) = Inr (c, rest)" and "utf32be_Take (utf32be_Put c @ rest) = Inr (c, rest)"
proof -
  have q: "((a OR push_bit 8 b) OR push_bit 16 x) OR push_bit 24 y = c" "((push_bit 24 y OR push_bit 16 x) OR push_bit 8 b) OR a = c"
    if "a = c mod 256" "b = c div 256 mod 256" "x = c div 65536 mod 256" "y = c div 16777216 mod 256" for a b x y
    using byte_quad [of a b x y] byte_quad_split [OF assms] that by auto
  show "utf32le_Take (utf32le_Put c @ rest) = Inr (c, rest)"
    unfolding utf32le_Take_def utf32le_Put_def by (simp add: and_mask drop_bit_eq_div) (rule q, simp_all)
  show "utf32be_Take (utf32be_Put c @ rest) = Inr (c, rest)"
    unfolding utf32be_Take_def utf32be_Put_def by (simp add: and_mask drop_bit_eq_div) (rule q, simp_all)
qed

lemma bom_units: "utf16le_PutBOM = utf16le_Put 0xFEFF" "utf16be_PutBOM = utf16be_Put 0xFEFF"
  "utf32le_PutBOM = utf32le_Put 0xFEFF" "utf32be_PutBOM = utf32be_Put 0xFEFF"
  by (simp_all add: utf16le_PutBOM_def utf16be_PutBOM_def utf32le_PutBOM_def utf32be_PutBOM_def
    utf16le_Put_def utf16be_Put_def utf32le_Put_def utf32be_Put_def and_mask drop_bit_eq_div)

text \<open>A unit written after a byte order mark is read back with the mark skipped, in every byte order.\<close>

lemma bom_skipped:
  assumes "c < 65536"
  shows "utf16le_TakeBOM (utf16le_PutBOM @ utf16le_Put c @ rest) = Inr (c, rest)"
    and "utf16be_TakeBOM (utf16be_PutBOM @ utf16be_Put c @ rest) = Inr (c, rest)"
    and "utf32le_TakeBOM (utf32le_PutBOM @ utf32le_Put c @ rest) = Inr (c, rest)"
    and "utf32be_TakeBOM (utf32be_PutBOM @ utf32be_Put c @ rest) = Inr (c, rest)"
    and "utf8_TakeBOM (utf8_PutBOM @ c # rest) = Inr (c, rest)"
  using assms
  by (simp_all add: bom_units utf16_bytes utf32_bytes utf16le_TakeBOM_def utf16be_TakeBOM_def utf32le_TakeBOM_def
    utf32be_TakeBOM_def utf8_TakeBOM_def utf8_PutBOM_def)

lemma auto_roundtrip:
  assumes "scalar cp" "auto_encode ty cp = Inr us"
  shows "auto_decode ty (us @ rest) = Inr (True, cp, rest)"
  using assms utf8.decode_encode [of cp us] utf16.decode_encode [of cp us] utf32.decode_encode [of cp us]
  by (cases ty) (simp_all add: scalar_def)

section \<open>Properties\<close>



text \<open>
  C34. Transcoding a text loses nothing. For every text of Unicode scalar values, transcoding its UTF-8 form gives its UTF-16
  form, and transcoding that back gives the UTF-8 form again, without a fault; and two texts with the
  same UTF-8 form are the same text.
\<close>

theorem transcode_roundtrip:
  assumes "\<forall>cp \<in> set cps. scalar cp"
  shows "\<exists>u8 u16. encode_all utf8_encode cps = Inr u8 \<and> encode_all utf16_encode cps = Inr u16 \<and>
    transcode_all (length u8) utf8_decode utf16_encode u8 = Inr (True, u16) \<and>
    transcode_all (length u16) utf16_decode utf8_encode u16 = Inr (True, u8) \<and>
    (\<forall>ds. (\<forall>cp \<in> set ds. scalar cp) \<longrightarrow> encode_all utf8_encode ds = Inr u8 \<longrightarrow> ds = cps)"
proof -
  obtain u8 where u8: "encode_all utf8_encode cps = Inr u8" "length cps \<le> length u8"
    using utf8.encode_all_total [OF assms] by blast
  obtain u16 where u16: "encode_all utf16_encode cps = Inr u16" "length cps \<le> length u16"
    using utf16.encode_all_total [OF assms] by blast
  from u8 u16 utf8_utf16.transcode_text [OF assms u8(1,2)] utf16_utf8.transcode_text [OF assms u16(1,2)]
    utf8.encode_all_inj [OF _ assms _ u8(1)] show ?thesis by auto
qed

theorem transcode_roundtrip_witness:
  "\<exists>u8 u16. encode_all utf8_encode [0x41, 0x1F600] = Inr u8 \<and>
    transcode_all (length u8) utf8_decode utf16_encode u8 = Inr (True, u16) \<and>
    transcode_all (length u16) utf16_decode utf8_encode u16 = Inr (True, u8)"
  using transcode_roundtrip [of "[0x41, 0x1F600]"] by (auto simp: scalar_def)

section \<open>Where the code departs from its purpose\<close>

text \<open>
  A text that begins with a character between U+F000 and U+FFFF other than the byte order mark loses
  its first byte when the mark is looked for.
\<close>

lemma TakeBOM_drops_a_byte: "utf8_TakeBOM [0xEF, 0xBC, 0x81, 0] = Inr (0xBC, [0x81, 0])"
  by (simp add: utf8_TakeBOM_def)

text \<open>
  A sequence cut off by the end of a string: the decoder notes the failure at the terminating zero and
  goes on taking units past it.
\<close>

lemma decode_past_end: "utf8_decode [0xE4, 0] = Inl Out_Of_Bounds"
  using high_bit [of 228] GetRange_values(9) [of 228] by (simp add: utf8_decode_def tail_masks_def Let_def)

text \<open>A surrogate in UTF-32 input is accepted, and transcoded to bytes that the UTF-8 decoder refuses.\<close>

lemma utf32_surrogate:
  "transcode utf32_decode utf8_encode [0xD800] = Inr (True, [0xED, 0xA0, 0x80], [])"
  "\<exists>cp. utf8_decode [0xED, 0xA0, 0x80] = Inr (False, cp, [])"
proof -
  have "utf8_encode 0xD800 = Inr [0xED, 0xA0, 0x80]" using utf8_encode_3 [of 13 32 0] by simp
  then show "transcode utf32_decode utf8_encode [0xD800] = Inr (True, [0xED, 0xA0, 0x80], [])"
    by (simp add: transcode_def utf32_decode_def)
  show "\<exists>cp. utf8_decode [0xED, 0xA0, 0x80] = Inr (False, cp, [])"
    using decode_3 [of 237 160 128 "[]"] by (simp add: second_ok_def)
qed

end
