(* ===== verification/Spec2Isabelle.thy ===== *)
theory Spec2Isabelle
  imports Webserver_Props Server_Start Consistent_Hash Net_Log Logic_Service Dbproxy_Props Http_Flow
    Safe_Math Queue_Clients Work_Stealing Itoa Encodings
begin

text \<open>
  A verification library for the servers under \<open>src/\<close>.

  \<^bold>\<open>The program.\<close> Three programs share the repository. \<open>ocean_http\<close> is a web server: \<open>main\<close> reads the
  command line (\<open>config\<close>), opens the log, the pool of database connections and the thread pool, and runs
  the event loop of \<open>webserver\<close>. The loop accepts clients, gives each an \<open>http_conn\<close> and a timer, and hands the
  connections that have data to the worker threads of the pool through a queue; a worker reads the
  request (reactor) or finds it read (proactor), and \<open>process\<close> parses it, finds the file and assembles
  the answer. A timer that expires closes its connection. The log writes at once or through a
  blocking queue and a writer thread. \<open>ocean_im\<close> is an instant-messaging server in parts that talk by remote
  procedures: the message store (\<open>dbproxy\<close>) in front of Redis and an SQL server, the logic server, and a
  consistent hash ring. \<open>ocean_net\<close> is the beginning of a network library, of which the logger is written.

  \<^bold>\<open>Conventions.\<close> \<open>Prelude\<close> has the type \<open>'a result\<close>: whatever C++ leaves undefined or ends the process with
  is a value of type \<open>fault\<close>, so a theorem that an operation gives \<open>Inr\<close> says that it does
  none of this. Objects are records with the names of the members, a pointer into a buffer is an
  index and the null pointer \<open>None\<close>, objects on the heap live in an explicit map from
  addresses. What a system call or a library answers is an argument. Threads interleave
  in steps between their lock operations: inductive relations, with invariants by the locale
  \<open>invariant_system\<close>.

  \<^bold>\<open>The theories of ocean_http.\<close>
  \<^item> \<open>CString\<close>: the functions of \<open>string.h\<close> and \<open>stdio.h\<close> that the sources use, on character buffers, with a fault for
    every access outside.
  \<^item> \<open>Locker\<close> (\<open>lock/locker.cpp\<close>): semaphore, condition variable, mutex.
  \<^item> \<open>Fifo\<close>: the locale \<open>bounded_fifo\<close>; interpreted by \<open>Block_Queue\<close> (\<open>log/block_queue.h\<close>) and by
    \<open>Thread_Pool\<close> (\<open>threadpool/threadpool.h\<close>). Both also have a transition system of many threads: no wake-up is lost, no
    accepted request is stranded.
  \<^item> \<open>Lst_Timer\<close> (\<open>timer/lst_timer.cpp\<close>, \<open>sort_timer_lst\<close>): the doubly linked list on a heap refines sorted insertion,
    removal and reaping. \<open>Timer_Store\<close> states this as the locale \<open>timer_store\<close>, which the server uses.
  \<^item> \<open>Kernel\<close> (\<open>setnonblocking\<close>, \<open>addfd\<close>, \<open>removefd\<close>, \<open>modfd\<close> of \<open>http/http_conn.cpp\<close>, class \<open>utils\<close>): descriptors, epoll, signals.
  \<^item> \<open>Sql_Pool\<close> (\<open>cgimysql/sql_connection_pool.cpp\<close>): no connection is held by two threads, none is lost.
  \<^item> \<open>Http_Conn\<close>, \<open>Http_Request\<close>, \<open>Http_Response\<close>, \<open>Http_Users\<close> (\<open>http/http_conn.cpp\<close>): the class in the order of its code.
    \<open>Http_Parse\<close>, \<open>Http_Read\<close>, \<open>Http_Serve\<close>, \<open>Http_Flow\<close> hold the theorems on it: the scanner may be resumed at any
    byte, a request is taken apart as it was written, the path a URL leads to, the answer to each
    outcome, login and registration.
  \<^item> \<open>Http_Log\<close> (\<open>log/log.cpp\<close>): the file holds the same lines in both modes, and is changed at the day and
    at the line limit.
  \<^item> \<open>Webserver\<close> (\<open>webserver.cpp\<close>, \<open>cb_func\<close>, \<open>timer_handler\<close>), \<open>Webserver_Timers\<close>, \<open>Webserver_Props\<close>: every handler keeps the
    timers in step with the connections, and no reachable state of the main thread has a handler that
    faults; then two situations with workers in which this does not help (a refused request, a timer
    that outlives its connection). \<open>Webserver_Workers\<close> interleaves the main thread with rounds of the workers, each
    round being one step: with timers left behind by workers the handlers still do not fault, and no connection outlives
    its timer.
  \<^item> \<open>Server_Main\<close> (\<open>config.cpp\<close>, \<open>main.cpp\<close>) and \<open>Server_Start\<close>: the start-up reaches a state
    from which these safety theorems speak.

  \<^bold>\<open>The theories of ocean_im and ocean_net.\<close>
  \<^item> \<open>Consistent_Hash\<close> (\<open>util/consistent_hash.h\<close>): lookup is the first point clockwise, insertion moves only the hashes of
    the new point, and what \<open>Describe\<close> counts.
  \<^item> \<open>Redis_Reply\<close> (inline code of brpc), \<open>Dbproxy\<close> and \<open>Dbproxy_Props\<close> (\<open>server/dbproxy/dbproxy_service.cpp\<close>): every call is answered once,
    stored messages are read back by their owners.
  \<^item> \<open>Logic_Service\<close> (\<open>server/logic/logic_service.cpp\<close>): the handlers that are written.
  \<^item> \<open>Net_Log\<close> (\<open>ocean_net/src/log.cpp\<close>): exactly which patterns the formatter returns for, and what a
    logger writes.

  \<^bold>\<open>The theories of the vendored headers.\<close> \<open>ocean_im\<close> ships the headers of brpc, whose containers and templates are complete
  code and run inside the servers. Names of files are below \<open>thirds/brpc1.7/include\<close>.
  \<^item> \<open>Cxx_Int\<close>: the integer types of the language, promotion, conversion and arithmetic with undefined overflow.
  \<^item> \<open>Safe_Math\<close> (\<open>butil/numerics\<close>): range-checked casts are exact, checked expressions are sound and, but for 64 bit signed products,
    complete; what goes wrong with those products and with types narrower than \<open>int\<close>.
  \<^item> \<open>Bounded_Queue\<close> (\<open>butil/containers/bounded_queue.h\<close>): the ring buffer refines a bounded list, a third provider of \<open>bounded_fifo\<close>.
    \<open>Queue_Clients\<close> (\<open>brpc/excluded_servers.h\<close>, \<open>brpc/details/sparse_minute_counter.h\<close>) builds on it.
  \<^item> \<open>Work_Stealing\<close> (\<open>bthread/work_stealing_queue.h\<close>): one step for each access to shared memory; every interleaving of the owner and
    the thieves is a run of a sequential deque, and no element is lost or taken twice.
  \<^item> \<open>Itoa\<close> (\<open>rapidjson/internal/itoa.h\<close>): the table-driven printers write the decimal representation.
  \<^item> \<open>Encodings\<close> (\<open>rapidjson/encodings.h\<close>): the locales \<open>encoding\<close> and \<open>transcoder\<close>, interpreted by UTF-8, UTF-16, UTF-32 and ASCII; the UTF-8
    decoder accepts exactly the encodings of scalar values, and transcoding loses nothing.

  This theory adds what spans the parts of a connection: a file request from the socket to the
  assembled answer, and an account from the database to the login page.

  \<^bold>\<open>Bounds.\<close> Buffers have the sizes of the source (2048 and 1024 bytes, file names of 200, forms of 100 characters), and the
  theorems have the lengths as hypotheses where the code does not test them. The loops of the parsers,
  of \<open>getopt\<close> and of the ring are total functions. The reading and accepting loops end
  with the list of outcomes they are given. The pattern parser of \<open>Net_Log\<close> and the loops over
  the timer list (which would not end on a cyclic list) are partial functions with \<open>None\<close> for a run that does not end; that the
  list operations return is part of their theorems, and for the parser it is proved for which
  patterns it does. The one fuel argument, of the loop that
  transcodes a text (\<open>transcode_all\<close>), is the number of units, which the round trip proves enough.
  Hashes and the counters of the ring are machine words or are bounded explicitly; the counters of the web server
  are integers.

  \<^bold>\<open>Parameters.\<close> The MySQL client, the file system, \<open>strftime\<close>, the CRC function, Redis and the SQL server with their
  client libraries, and the YAML library are arguments. The hypotheses on them are \<open>sql_table\<close> (an INSERT
  appends a row, a SELECT returns the matching ones) and \<open>mget_counts_keys\<close> (MGET answers one element per key), each met by an
  instance in the witnesses.

  \<^bold>\<open>Not modelled.\<close> Of \<open>ocean_im\<close>: \<open>util/error\<close> and \<open>util/initialize\<close> (an enumeration and calls of the flag and logging
  libraries), the programs \<open>access\<close>, \<open>idgen\<close>, \<open>logic\<close> and \<open>client\<close>, which return at once, the release of the array in
  \<open>Describe\<close>, the log output of the store and its wait for a pooled SQL connection. Of \<open>ocean_net\<close>: fibers and mutexes, declared
  without bodies, \<open>LoggerManager\<close> and the members of the appenders that have no body. Most of the vendored headers of brpc, yaml-cpp
  and soci declare code compiled elsewhere or wrap the operating system; of the templates that are complete, those
  not listed above are left out, as is floating point. The body of
  \<open>http_conn::write\<close> is empty in the source, and so no theorem speaks of bytes that leave the
  server. Memory that runs out is modelled where the code tests
  for it; weak memory order is not: \<open>Work_Stealing\<close> interleaves atomic accesses.
\<close>

section \<open>A request from the socket to the answer\<close>

text \<open>A server with a descriptor that is open and not yet watched, for examples.\<close>

definition fresh_globals :: http_globals where
  "fresh_globals = sample_globals\<lparr>kern := (kern sample_globals)\<lparr>fdflags := [8 \<mapsto> 0], interest := (\<lambda>_. None)\<rparr>\<rparr>"

text \<open>
  C18. A client that asks for a file gets it: after \<open>init\<close> has set up the connection on a descriptor not
  yet watched, \<open>read_once\<close> takes the well-formed GET request from the socket in either trigger mode,
  and \<open>process\<close> leaves the status line and the headers with the length of the file in the write
  buffer, the file behind them in the second part of the scatter list, and the descriptor armed
  for writing; the client is counted once.
\<close>

theorem file_request_answered:
  assumes "l = request_line meth b1 ws1 url b2 ws2 ver" "good_line meth b1 ws1 url b2 ws2 ver" "clean l"
    and "good_headers ls" "NUL \<notin> set body"
    and "0 \<le> content_length_of 0 ls" "content_length_of 0 ls \<le> int (length body)"
    and "eq_nocase meth ''GET''" "good_root root" "length (request_text l ls body) < READ_BUFFER_SIZE"
    and "fs (target_path root (page_of url)) = Some d" "file_outcome (Some d) = FILE_REQUEST" "f_data d \<noteq> []"
    and "init fd addr root mode no_log user passwd sqlname h0 g0 = Inr (h, g)" "length (m_iv h0) = 2"
    and "m_epollfd g0 = epfd (kern g0)" "fd \<noteq> epfd (kern g0)" "fdflags (kern g0) fd = Some fl" "interest (kern g0) fd = None"
  shows "\<exists>h1 h2 g2. let head = file_head (int (length (f_data d))) (list_ex keeps_alive ls) in
           read_once (Bytes (request_text l ls body) # Would_Block # net) h = Inr (True, h1)
           \<and> process fs query t h1 g = Inr (h2, g2)
           \<and> take (length head) (m_write_buf h2) = head \<and> m_iv_count h2 = 2
           \<and> m_iv h2 = [\<lparr>iov_base = Iov_Write_Buf, iov_len = int (length head)\<rparr>,
                        \<lparr>iov_base = Iov_File, iov_len = int (length (f_data d))\<rparr>]
           \<and> m_file_address h2 = mmap d \<and> m_sokcfd h2 = fd
           \<and> interest (kern g2) fd = Some (armed EPOLLOUT mode) \<and> m_user_count g2 = m_user_count g0 + 1"
  unfolding Let_def using assms by (rule file_served)

theorem file_request_answered_witness:
  "\<exists>h g h1 h2 g2. init 8 [] ''/srv'' 1 0 ''root'' ''pw'' ''db'' (sample_conn [] []) fresh_globals = Inr (h, g)
     \<and> read_once [Bytes (request_text ''GET /a.html HTTP/1.1'' [''Connection: keep-alive''] []), Would_Block] h = Inr (True, h1)
     \<and> process sample_fs (\<lambda>_ _. 0) 0 h1 g = Inr (h2, g2)
     \<and> m_file_address h2 = Mapped ''hello'' \<and> interest (kern g2) 8 = Some (armed EPOLLOUT 1) \<and> m_user_count g2 = 2"
proof -
  let ?ls = "[''Connection: keep-alive'']" and ?l = "''GET /a.html HTTP/1.1''"
  let ?d = "\<lparr>f_mode = 0x81A4, f_data = ''hello'', f_opens = True\<rparr>"
  have l: "?l = request_line ''GET'' (CHR '' '') [] ''/a.html'' (CHR '' '') [] ''HTTP/1.1''"
    by (simp add: request_line_def)
  have g: "good_line ''GET'' (CHR '' '') [] ''/a.html'' (CHR '' '') [] ''HTTP/1.1''" "clean ?l" "good_headers ?ls"
    by code_simp+
  have n: "NUL \<notin> set []" by simp
  have c: "content_length_of 0 ?ls = 0" "eq_nocase ''GET'' ''GET''" "good_root ''/srv''" by code_simp+
  have c0: "0 \<le> content_length_of 0 ?ls" "content_length_of 0 ?ls \<le> int (length ([]::string))" by (simp_all add: c(1))
  have len: "length (request_text ?l ?ls []) < READ_BUFFER_SIZE"
    by (simp add: request_text_def headers_text_def READ_BUFFER_SIZE_def)
  have f: "sample_fs (target_path ''/srv'' (page_of ''/a.html'')) = Some ?d" "file_outcome (Some ?d) = FILE_REQUEST"
    "mmap ?d = Mapped ''hello''" by code_simp+
  have d: "f_data ?d \<noteq> []" by simp
  obtain h g where i: "init 8 [] ''/srv'' 1 0 ''root'' ''pw'' ''db'' (sample_conn [] []) fresh_globals = Inr (h, g)"
    by (auto simp: init_def sample_conn_def strcpy_def write_at_def Let_def)
  have k: "length (m_iv (sample_conn [] [])) = 2" "m_epollfd fresh_globals = epfd (kern fresh_globals)"
    "8 \<noteq> epfd (kern fresh_globals)" "fdflags (kern fresh_globals) 8 = Some 0" "interest (kern fresh_globals) 8 = None"
    "m_user_count fresh_globals = 1"
    by (simp_all add: sample_conn_def fresh_globals_def sample_globals_def)
  show ?thesis
    using file_request_answered [where fs = sample_fs and net = "[]" and query = "\<lambda>_ _. 0" and t = 0,
        OF l g n c0 c(2,3) len f(1,2) d i k(1-5)] i f(3) k(6)
    by (auto simp: Let_def)
qed

section \<open>An account from the database to the login page\<close>

text \<open>
  C19. Accounts: after the table of users has been loaded through a connection of the pool, which goes
  back to the pool, and a new name has been registered with the form of page 3, the form of page 2 leads
  to the welcome page exactly for the registered name with its password and for the stored names with
  the password of their last row, and to the login error page otherwise.
\<close>

theorem account_logs_in:
  fixes g :: http_globals and query :: "nat \<Rightarrow> string \<Rightarrow> int"
  assumes "pool_ok sp" "connList sp = c # cs"
    and "\<forall>c\<in>set (connList sp). query c ''select username,passwd from user'' = 0 \<and> store c = Some (stored kvs)"
    and "users g = (\<lambda>_. None)" "map_of kvs name = None"
    and "posts url u name password h" "page_code url = CHR ''3''" "length name + length password \<le> 151"
    and "mysql h = Some con" "owner (m_lock g) = None"
    and "posts url' u' name' password' h'" "page_code url' = CHR ''2''"
  shows "\<exists>g1 r hr g2 h2. initmysql_result query store err intr t h0 g sp = Inr (g1, sp\<lparr>connList := cs @ [c]\<rparr>)
           \<and> do_request fs query t h g1 = Inr (r, hr, g2)
           \<and> (let known = (if name' = name then password' = password else map_of (rev kvs) name' = Some password');
                  f = fs (doc_root h' @ (if known then ''/welcome.html'' else ''/logError.html''))
              in do_request fs query t h' g2 = Inr (file_outcome f, opened f h2, g2))"
  using assms by (rule account_flow)

text \<open>The document root holds the welcome page only.\<close>

definition welcome_fs :: "string \<Rightarrow> disk_file option" where
  "welcome_fs path = (if path = ''/srv/welcome.html'' then Some \<lparr>f_mode = 0x81A4, f_data = ''hi'', f_opens = True\<rparr> else None)"

theorem account_logs_in_witness:
  "\<exists>g1 r hr g2 h2. initmysql_result (\<lambda>_ _. 0) (\<lambda>_. Some (stored [(''bob'', ''b'')])) (\<lambda>_. []) False 0 (sample_conn [] [])
         sample_globals (sample_pool [10]) = Inr (g1, sample_pool [10])
     \<and> do_request welcome_fs (\<lambda>_ _. 0) 0 (sample_post (CHR ''3'') ''ann'' ''pw'') g1 = Inr (r, hr, g2)
     \<and> do_request welcome_fs (\<lambda>_ _. 0) 0 (sample_post (CHR ''2'') ''ann'' ''pw'') g2 = Inr (FILE_REQUEST, h2, g2)"
proof -
  let ?q = "\<lambda>(_::nat) (_::string). 0::int" and ?s = "\<lambda>_::nat. Some (stored [(''bob'', ''b'')])"
  have sp: "pool_ok (sample_pool [10])" "connList (sample_pool [10]) = [10]" "(sample_pool [10])\<lparr>connList := [] @ [10]\<rparr> = sample_pool [10]"
    by (simp_all add: pool_ok_def sample_pool_def sql_connection_pool_ctor_def locker_ctor_def SEM_VALUE_MAX_def)
  have q: "\<forall>c\<in>set (connList (sample_pool [10])). ?q c ''select username,passwd from user'' = 0 \<and> ?s c = Some (stored [(''bob'', ''b'')])"
    by simp
  have p: "posts [CHR ''/'', CHR ''3''] 0 ''ann'' ''pw'' (sample_post (CHR ''3'') ''ann'' ''pw'')"
    "posts [CHR ''/'', CHR ''2''] 0 ''ann'' ''pw'' (sample_post (CHR ''2'') ''ann'' ''pw'')"
    by (rule sample_posts; simp add: NUL_def)+
  have c: "page_code [CHR ''/'', CHR ''3''] = CHR ''3''" "page_code [CHR ''/'', CHR ''2''] = CHR ''2''" by code_simp+
  have d: "length ''ann'' + length ''pw'' \<le> 151" "mysql (sample_post (CHR ''3'') ''ann'' ''pw'') = Some 1"
     "owner (m_lock sample_globals) = None" "users sample_globals = (\<lambda>_. None)" "map_of [(''bob'', ''b'')] ''ann'' = None"
     "doc_root (sample_post (CHR ''2'') ''ann'' ''pw'') = ''/srv''"
    by (simp_all add: sample_post_def sample_conn_def sample_globals_def locker_ctor_def)
  have f: "file_outcome (welcome_fs ''/srv/welcome.html'') = FILE_REQUEST" by code_simp
  show ?thesis
    using account_logs_in [where store = ?s and fs = welcome_fs and t = 0 and intr = False and err = "\<lambda>_. []" and ?h0.0 = "sample_conn [] []",
        OF sp(1,2) q d(4,5) p(1) c(1) d(1-3) p(2) c(2)] f
    by (auto simp: Let_def sp(3) [simplified] d(6))
qed

end
